(* ===== verification/Prelude.thy ===== *)
theory Prelude
  imports Main "HOL-Library.Word" "HOL-Library.AList"
begin

text \<open>
  What every component shares: the machine types of the C++ sources, the ways a handler can
  end other than by returning, the model of \<open>std::unordered_map\<close>, and little-endian bytes.

  \<^item> A handler returns \<open>'a result\<close>: \<open>Inr\<close> the value (usually the new state) or \<open>Inl\<close> the fault.
    A fault is an \<open>assert\<close> that fails, a call through a null pointer, a read outside the buffer
    it was given, a signed overflow, or an exception that leaves the handler.
  \<^item> The sources are built with and without \<open>NDEBUG\<close> (the Debug and Release configurations of
    the project files), so \<open>assert\<close> takes the build as its first argument.
  \<^item> \<open>std::unordered_map\<close> is an association list with distinct keys. Its iteration order is
    unspecified, so an operation that iterates takes the visited order as an argument.
\<close>

unbundle bit_operations_syntax

section \<open>Machine types\<close>

type_synonym byte = "8 word"
type_synonym bytes = "byte list"
type_synonym i16 = "16 word"
type_synonym i32 = "32 word"
type_synonym i64 = "64 word"

section \<open>Faults and results\<close>

datatype fault =
    AssertFailed        \<comment> \<open>\<open>assert(c)\<close> with \<open>c\<close> false, in a build without \<open>NDEBUG\<close>\<close>
  | NullDeref           \<comment> \<open>a member function called through a null \<open>shared_ptr\<close>\<close>
  | OutOfBounds         \<comment> \<open>bytes read outside the buffer a function was given\<close>
  | SignedOverflow      \<comment> \<open>a signed increment past the largest value\<close>
  | RuntimeError        \<comment> \<open>\<open>std::runtime_error\<close> thrown out of the function\<close>

type_synonym 'a result = "fault + 'a"

definition cassert :: "bool \<Rightarrow> bool \<Rightarrow> 'a result \<Rightarrow> 'a result" where
  "cassert ndebug c k = (if ndebug \<or> c then k else Inl AssertFailed)"

definition rbind :: "'a result \<Rightarrow> ('a \<Rightarrow> 'b result) \<Rightarrow> 'b result" where
  "rbind r f = (case r of Inl e \<Rightarrow> Inl e | Inr x \<Rightarrow> f x)"

named_theorems results \<open>rewriting and inverting results\<close>

lemma rbind_simps [simp]: "rbind (Inl e) f = Inl e" "rbind (Inr x) f = f x"
  by (simp_all add: rbind_def)

lemma rbind_Inr [results]: "rbind r f = Inr y \<longleftrightarrow> (\<exists>x. r = Inr x \<and> f x = Inr y)"
  by (cases r) auto

lemma rbind_Inl [results]:
  "rbind r f = Inl e \<longleftrightarrow> r = Inl e \<or> (\<exists>x. r = Inr x \<and> f x = Inl e)"
  by (cases r) auto

lemma rbind_assoc: "rbind (rbind r f) g = rbind r (\<lambda>x. rbind (f x) g)"
  by (cases r) auto

lemma cassert_simps [simp]:
  "cassert True c k = k" "cassert n True k = k" "cassert False False k = Inl AssertFailed"
  by (simp_all add: cassert_def)

lemma cassert_Inr [results]: "cassert n c k = Inr y \<longleftrightarrow> (n \<or> c) \<and> k = Inr y"
  by (simp add: cassert_def)

section \<open>\<open>std::unordered_map\<close>\<close>

type_synonym ('k, 'v) umap = "('k \<times> 'v) list"

text \<open>\<open>find\<close>, \<open>m[k] = v\<close>, \<open>erase\<close>, and \<open>operator[]\<close> read as an rvalue, which inserts the default.\<close>

definition um_find :: "('k, 'v) umap \<Rightarrow> 'k \<Rightarrow> 'v option" where
  "um_find m k = map_of m k"

definition um_set :: "'k \<Rightarrow> 'v \<Rightarrow> ('k, 'v) umap \<Rightarrow> ('k, 'v) umap" where
  "um_set k v m = AList.update k v m"

definition um_erase :: "'k \<Rightarrow> ('k, 'v) umap \<Rightarrow> ('k, 'v) umap" where
  "um_erase k m = AList.delete k m"

definition um_index :: "'v \<Rightarrow> ('k, 'v) umap \<Rightarrow> 'k \<Rightarrow> 'v \<times> ('k, 'v) umap" where
  "um_index d m k = (case um_find m k of Some v \<Rightarrow> (v, m) | None \<Rightarrow> (d, um_set k d m))"

definition um_ok :: "('k, 'v) umap \<Rightarrow> bool" where
  "um_ok m \<longleftrightarrow> distinct (map fst m)"

lemma um_find_empty [simp]: "um_find [] k = None"
  by (simp add: um_find_def)

lemma um_find_set [simp]: "um_find (um_set k v m) k' = (if k' = k then Some v else um_find m k')"
  by (simp add: um_find_def um_set_def update_conv')

lemma um_find_erase [simp]: "um_find (um_erase k m) k' = (if k' = k then None else um_find m k')"
  by (simp add: um_find_def um_erase_def delete_conv')

lemma um_ok_empty [simp]: "um_ok []"
  by (simp add: um_ok_def)

lemma um_ok_set [simp]: "um_ok m \<Longrightarrow> um_ok (um_set k v m)"
  by (simp add: um_ok_def um_set_def distinct_update)

lemma um_ok_erase [simp]: "um_ok m \<Longrightarrow> um_ok (um_erase k m)"
  by (simp add: um_ok_def um_erase_def distinct_delete)

lemma um_index_fst: "fst (um_index d m k) = (case um_find m k of Some v \<Rightarrow> v | None \<Rightarrow> d)"
  by (simp add: um_index_def split: option.splits)

lemma um_index_find:
  "um_find (snd (um_index d m k)) k' = (if k' = k then Some (fst (um_index d m k)) else um_find m k')"
  by (auto simp: um_index_def split: option.splits)

lemma um_index_ok [simp]: "um_ok m \<Longrightarrow> um_ok (snd (um_index d m k))"
  by (simp add: um_index_def split: option.splits)

lemma um_in_find: "um_ok m \<Longrightarrow> (k, v) \<in> set m \<longleftrightarrow> um_find m k = Some v"
  by (auto simp: um_ok_def um_find_def)

lemma um_empty_iff: "m = [] \<longleftrightarrow> (\<forall>k. um_find m k = None)"
proof (cases m)
  case (Cons p m')
  then show ?thesis by (cases p) (auto simp: um_find_def)
qed simp

section \<open>Strings\<close>

definition string_bytes :: "string \<Rightarrow> bytes" where
  "string_bytes str = map of_char str"

text \<open>\<open>c_str()\<close> of a \<open>std::string\<close>, read as a C string, ends at the first NUL.\<close>

definition c_str :: "bytes \<Rightarrow> bytes" where
  "c_str str = takeWhile (\<lambda>c. c \<noteq> 0) str"

section \<open>Little-endian bytes\<close>

fun le_bytes :: "nat \<Rightarrow> nat \<Rightarrow> bytes" where
  "le_bytes 0 v = []"
| "le_bytes (Suc n) v = of_nat v # le_bytes n (v div 256)"

fun le_nat :: "bytes \<Rightarrow> nat" where
  "le_nat [] = 0"
| "le_nat (b # bs) = unat b + 256 * le_nat bs"

text \<open>For the evaluation of closed terms.\<close>

lemma le_bytes_numeral:
  "le_bytes (numeral n) v = of_nat v # le_bytes (pred_numeral n) (v div 256)"
  by (simp only: numeral_eq_Suc le_bytes.simps)

lemma length_le_bytes [simp]: "length (le_bytes n v) = n"
  by (induction n arbitrary: v) auto

lemma unat_of_nat_byte [simp]: "unat (of_nat v :: byte) = v mod 256"
  by (simp add: unat_of_nat)

lemma le_nat_le_bytes: "le_nat (le_bytes n v) = v mod 256 ^ n"
proof (induction n arbitrary: v)
  case (Suc n)
  have "v mod 256 + 256 * (v div 256 mod 256 ^ n) = v mod 256 ^ Suc n"
    by (metis add.commute mod_mult2_eq power_Suc)
  with Suc show ?case by simp
qed simp

lemma le_nat_bound: "le_nat bs < 256 ^ length bs"
proof (induction bs)
  case (Cons b bs)
  have "unat b < 256" using unsigned_less [of b] by simp
  with Cons show ?case by simp
qed simp

lemma unat_mod_self [simp]:
  "unat (x :: i16) mod 65536 = unat x"
  "unat (y :: i32) mod 4294967296 = unat y"
  "unat (z :: i64) mod 18446744073709551616 = unat z"
  using unsigned_less [of x, where ?'a = nat] unsigned_less [of y, where ?'a = nat]
    unsigned_less [of z, where ?'a = nat] by simp_all

lemma take_le_bytes_append [simp]: "take n (le_bytes n v @ r) = le_bytes n v"
  by simp

lemma drop_le_bytes_append [simp]: "drop n (le_bytes n v @ r) = r"
  by simp

end
