(* ===== verification/Registry.thy ===== *)
theory Registry
  imports Prelude
begin

text \<open>
  The contract of a table of live objects. Every server keeps several: the logic servers logged
  in, the clients by runtime id, the mirrors of clients. A provider gives lookup, insertion and
  removal and an abstract view of the table; lookup may change the container (\<open>operator[]\<close> inserts a
  null entry) but not the view.

  The client of the contract is the login handler all servers share: look the id up, and only if
  nobody holds it, insert the newcomer (\<open>try_claim\<close>). The locale's lemmas say that a claim
  succeeds exactly when the id is free, that it never displaces anybody, and that an id that is
  held stays held through any number of later claims by others.
\<close>

definition try_claim ::
  "('m \<Rightarrow> 'k \<Rightarrow> 'v option \<times> 'm) \<Rightarrow> ('k \<Rightarrow> 'v \<Rightarrow> 'm \<Rightarrow> 'm) \<Rightarrow> 'k \<Rightarrow> 'v \<Rightarrow> 'm \<Rightarrow> bool \<times> 'm" where
  "try_claim lookup insert_at k v m = (case lookup m k of
       (None, m') \<Rightarrow> (True, insert_at k v m')
     | (Some w, m') \<Rightarrow> (False, m'))"

fun try_claims ::
  "('m \<Rightarrow> 'k \<Rightarrow> 'v option \<times> 'm) \<Rightarrow> ('k \<Rightarrow> 'v \<Rightarrow> 'm \<Rightarrow> 'm) \<Rightarrow> ('k \<times> 'v) list \<Rightarrow> 'm \<Rightarrow> 'm" where
  "try_claims lookup insert_at [] m = m"
| "try_claims lookup insert_at ((k, v) # ps) m =
     try_claims lookup insert_at ps (snd (try_claim lookup insert_at k v m))"

locale registry =
  fixes lookup :: "'m \<Rightarrow> 'k \<Rightarrow> 'v option \<times> 'm"
    and insert_at :: "'k \<Rightarrow> 'v \<Rightarrow> 'm \<Rightarrow> 'm"
    and remove_at :: "'k \<Rightarrow> 'm \<Rightarrow> 'm"
    and view :: "'m \<Rightarrow> 'k \<Rightarrow> 'v option"
  assumes lookup_view: "fst (lookup m k) = view m k"
    and lookup_keeps: "view (snd (lookup m k)) = view m"
    and insert_view: "view (insert_at k v m) = (view m)(k \<mapsto> v)"
    and remove_view: "view (remove_at k m) = (view m)(k := None)"
begin

lemma lookup_insert: "fst (lookup (insert_at k v m) k') = (if k' = k then Some v else fst (lookup m k'))"
  by (simp add: lookup_view insert_view)

lemma lookup_remove: "fst (lookup (remove_at k m) k') = (if k' = k then None else fst (lookup m k'))"
  by (simp add: lookup_view remove_view)

lemma claim_view:
  "view (snd (try_claim lookup insert_at k v m)) =
     (if view m k = None then (view m)(k \<mapsto> v) else view m)"
  using lookup_view [of m k] lookup_keeps [of m k]
  by (auto simp: try_claim_def insert_view split: prod.splits option.splits)

lemma claim_result: "fst (try_claim lookup insert_at k v m) \<longleftrightarrow> view m k = None"
  using lookup_view [of m k]
  by (cases "lookup m k"; cases "fst (lookup m k)") (auto simp: try_claim_def)

lemma claims_keep_holder:
  "view m k = Some v \<Longrightarrow> view (try_claims lookup insert_at ps m) k = Some v"
proof (induction ps arbitrary: m)
  case (Cons p ps)
  obtain k' v' where p: "p = (k', v')" by (cases p)
  have "view (snd (try_claim lookup insert_at k' v' m)) k = Some v"
    using Cons.prems by (auto simp: claim_view)
  then show ?case using Cons.IH p by simp
qed simp

lemma claims_first:
  "view m k = None \<Longrightarrow> view (try_claims lookup insert_at ((k, v) # ps) m) k = Some v"
  using claims_keep_holder [of "snd (try_claim lookup insert_at k v m)" k v ps]
  by (simp add: claim_view)

end

section \<open>Tables whose entries may be null pointers\<close>

text \<open>
  The logic-server tables hold \<open>shared_ptr\<close>s and are read with \<open>operator[]\<close>, so a key may be
  present with a null pointer. The view forgets the difference.
\<close>

definition um_live :: "('k, 'v option) umap \<Rightarrow> 'k \<Rightarrow> 'v option" where
  "um_live m k = (case um_find m k of Some p \<Rightarrow> p | None \<Rightarrow> None)"

lemma um_live_simps [simp]:
  "um_live [] k = None"
  "um_live (um_set k p m) k' = (if k' = k then p else um_live m k')"
  "um_live (um_erase k m) k' = (if k' = k then None else um_live m k')"
  by (simp_all add: um_live_def)

lemma um_live_index [simp]:
  "fst (um_index None m k) = um_live m k"
  "um_live (snd (um_index None m k)) k' = um_live m k'"
  by (auto simp: um_live_def um_index_def split: option.splits)


text \<open>What a lookup leaves: the table with a null entry where there was none.\<close>

definition um_touch :: "'k \<Rightarrow> ('k, 'v option) umap \<Rightarrow> ('k, 'v option) umap" where
  "um_touch k m = snd (um_index None m k)"

lemma um_index_live: "um_index None m k = (um_live m k, um_touch k m)"
  by (simp add: um_touch_def prod_eq_iff)

lemma um_touch_simps [simp]:
  "um_live (um_touch k m) k' = um_live m k'"
  "um_ok m \<Longrightarrow> um_ok (um_touch k m)"
  "um_find (um_touch k m) k' = (if k' = k then Some (um_live m k) else um_find m k')"
  by (simp_all add: um_touch_def um_index_find)

lemma um_live_None: "um_live m k = None \<longleftrightarrow> um_find m k = None \<or> um_find m k = Some None"
  by (auto simp: um_live_def split: option.splits)

lemma um_live_Some: "um_live m k = Some v \<longleftrightarrow> um_find m k = Some (Some v)"
  by (auto simp: um_live_def split: option.splits)

end
