(* ===== verification/SessionMgr.thy ===== *)
theory SessionMgr
  imports Registry
begin

text \<open>
  The tables of the connection server: ConnectionServer/LogicServerSessionMgr.cpp (primary and slave
  logic servers by id) and ConnectionServer/ClientSessionMgr.cpp (clients by runtime id). Every
  function takes the mutex of its table, so each is one atomic step. A \<open>PTR\<close> is the address of a
  session or null.
\<close>

type_synonym caddr = nat  \<comment> \<open>a \<open>ConnectionClientSession\<close>\<close>
type_synonym laddr = nat  \<comment> \<open>a \<open>LogicServerSession\<close>\<close>

type_synonym logic_table = "(i32, laddr option) umap"
type_synonym client_table = "(i64, caddr) umap"

section \<open>LogicServerSessionMgr\<close>

definition AddPrimaryLogicServer :: "i32 \<Rightarrow> laddr option \<Rightarrow> logic_table \<Rightarrow> logic_table" where
  "AddPrimaryLogicServer sid p m = um_set sid p m"

definition FindPrimaryLogicServer :: "logic_table \<Rightarrow> i32 \<Rightarrow> laddr option \<times> logic_table" where
  "FindPrimaryLogicServer m sid = um_index None m sid"

definition RemovePrimaryLogicServer :: "i32 \<Rightarrow> logic_table \<Rightarrow> logic_table" where
  "RemovePrimaryLogicServer sid m = um_erase sid m"

text \<open>The range-for over the table with its counter; \<open>order\<close> is the order the table is visited in.\<close>

fun claim_scan :: "nat \<Rightarrow> nat \<Rightarrow> logic_table \<Rightarrow> i32" where
  "claim_scan i randnum [] = - 1"
| "claim_scan i randnum (v # vs) = (if i = randnum then fst v else claim_scan (Suc i) randnum vs)"

definition ClaimPrimaryLogicServer :: "nat \<Rightarrow> logic_table \<Rightarrow> logic_table \<Rightarrow> i32" where
  "ClaimPrimaryLogicServer rnd order m =
     (if m \<noteq> [] then claim_scan 0 (rnd mod length m) order else - 1)"

definition AddSlaveLogicServer :: "i32 \<Rightarrow> laddr option \<Rightarrow> logic_table \<Rightarrow> logic_table" where
  "AddSlaveLogicServer sid p m = um_set sid p m"

definition FindSlaveLogicServer :: "logic_table \<Rightarrow> i32 \<Rightarrow> laddr option \<times> logic_table" where
  "FindSlaveLogicServer m sid = um_index None m sid"

definition RemoveSlaveLogicServer :: "i32 \<Rightarrow> logic_table \<Rightarrow> logic_table" where
  "RemoveSlaveLogicServer sid m = um_erase sid m"

section \<open>ClientSessionMgr: the table\<close>

definition FindClientByRuntimeID :: "client_table \<Rightarrow> i64 \<Rightarrow> caddr option" where
  "FindClientByRuntimeID m runtimeID = um_find m runtimeID"

definition AddClientByRuntimeID :: "bool \<Rightarrow> caddr \<Rightarrow> i64 \<Rightarrow> client_table \<Rightarrow> client_table result" where
  "AddClientByRuntimeID ndebug client runtimeID m =
     cassert ndebug (FindClientByRuntimeID m runtimeID = None) (Inr (um_set runtimeID client m))"

definition EraseClientByRuntimeID :: "i64 \<Rightarrow> client_table \<Rightarrow> client_table" where
  "EraseClientByRuntimeID runtimeID m = um_erase runtimeID m"

lemmas mgr_defs = AddPrimaryLogicServer_def FindPrimaryLogicServer_def RemovePrimaryLogicServer_def
  AddSlaveLogicServer_def FindSlaveLogicServer_def RemoveSlaveLogicServer_def
  FindClientByRuntimeID_def AddClientByRuntimeID_def EraseClientByRuntimeID_def

lemma Find_live:
  "FindPrimaryLogicServer m sid = (um_live m sid, um_touch sid m)"
  "FindSlaveLogicServer m sid = (um_live m sid, um_touch sid m)"
  by (simp_all add: mgr_defs um_index_live)

section \<open>They are registries\<close>

interpretation primaries: registry FindPrimaryLogicServer "\<lambda>sid p. AddPrimaryLogicServer sid (Some p)"
    RemovePrimaryLogicServer um_live
  by unfold_locales (auto simp: mgr_defs)

interpretation slaves: registry FindSlaveLogicServer "\<lambda>sid p. AddSlaveLogicServer sid (Some p)"
    RemoveSlaveLogicServer um_live
  by unfold_locales (auto simp: mgr_defs)

text \<open>\<open>um_set\<close> is what \<open>AddClientByRuntimeID\<close> does once its assertion has passed.\<close>

interpretation clients: registry "\<lambda>m sid. (FindClientByRuntimeID m sid, m)" "\<lambda>sid c. um_set sid c"
    EraseClientByRuntimeID um_find
  by unfold_locales (auto simp: mgr_defs)

section \<open>Choosing a primary\<close>

lemma claim_scan_nth:
  "i \<le> randnum \<Longrightarrow> randnum < i + length order \<Longrightarrow> claim_scan i randnum order = fst (order ! (randnum - i))"
proof (induction order arbitrary: i)
  case (Cons v vs)
  show ?case
  proof (cases "i = randnum")
    case False
    with Cons.prems have "Suc i \<le> randnum" "randnum < Suc i + length vs" by auto
    then have "claim_scan (Suc i) randnum vs = fst (vs ! (randnum - Suc i))" by (rule Cons.IH)
    with False Cons.prems show ?thesis by (simp add: nth_Cons')
  qed simp
qed simp

lemma ClaimPrimary_nth:
  assumes "length order = length m" and "m \<noteq> []"
  shows "ClaimPrimaryLogicServer rnd order m = fst (order ! (rnd mod length m))"
  using assms claim_scan_nth [of 0 "rnd mod length m" order]
  by (simp add: ClaimPrimaryLogicServer_def)

lemma ClaimPrimary_in:
  assumes "set order = set m" and "length order = length m" and "m \<noteq> []"
  shows "ClaimPrimaryLogicServer rnd order m \<in> fst ` set m"
proof -
  have "order ! (rnd mod length m) \<in> set order" using assms by (intro nth_mem) simp
  then show ?thesis using assms by (simp add: ClaimPrimary_nth)
qed

lemma ClaimPrimary_every:
  assumes "set order = set m" and "length order = length m" and "sid \<in> fst ` set m"
  shows "\<exists>r. ClaimPrimaryLogicServer r order m = sid"
proof -
  obtain p where "p \<in> set order" "sid = fst p" using assms by auto
  then obtain r where "r < length m" "sid = fst (order ! r)"
    using assms(2) by (metis in_set_conv_nth)
  then show ?thesis
    using assms ClaimPrimary_nth [OF assms(2), of r] by (intro exI [of _ r]) fastforce
qed

end
