(* ===== verification/MakeUID.thy ===== *)
theory MakeUID
  imports Prelude
begin

text \<open>
  The two identifier generators: \<open>CommonMakeUID\<close> (Common/MakeUID.h) and the client runtime ids of the
  connection servers (\<open>claimRuntimeID\<close> of ConnectionServer and \<open>MakeRuntimeID\<close> of
  WSConnectionServer share the union). A union of an \<open>int64_t\<close> and a struct of smaller integers is
  the concatenation of their bits, first member lowest, as on the little-endian targets of the
  project. \<open>time(nullptr)\<close> is an argument, a 64-bit value cut to 32 bits as the code does.
\<close>

section \<open>CommonMakeUID\<close>

definition common_uid :: "i32 \<Rightarrow> i32 \<Rightarrow> i64" where
  "common_uid incID tm = ucast incID OR push_bit 32 (ucast tm)"

text \<open>\<open>incID\<close> is a plain \<open>static int32_t\<close>: incrementing it past \<open>INT32_MAX\<close> is a signed overflow.\<close>

definition CommonMakeUID :: "i64 \<Rightarrow> i32 \<Rightarrow> (i64 \<times> i32) result" where
  "CommonMakeUID now incID =
     (if incID = 0x7FFFFFFF then Inl SignedOverflow
      else let incID' = incID + 1 in Inr (common_uid incID' (ucast now), incID'))"

text \<open>Calls one after the other, at the given clock values.\<close>

fun common_uids :: "i64 list \<Rightarrow> i32 \<Rightarrow> i64 list result" where
  "common_uids [] inc = Inr []"
| "common_uids (now # nows) inc = rbind (CommonMakeUID now inc) (\<lambda>(uid, inc').
     rbind (common_uids nows inc') (\<lambda>uids. Inr (uid # uids)))"

lemma common_uid_inc: "ucast (common_uid i t) = i"
  by (rule bit_word_eqI) (auto simp: common_uid_def bit_simps dest: bit_imp_le_length)

lemma common_uid_time: "ucast (drop_bit 32 (common_uid i t)) = t"
  by (rule bit_word_eqI) (auto simp: common_uid_def bit_simps dest: bit_imp_le_length)

lemma common_uid_inject: "common_uid i t = common_uid i' t' \<longleftrightarrow> i = i' \<and> t = t'"
  by (metis common_uid_inc common_uid_time)

lemma sint_inc:
  fixes i :: i32
  assumes "i \<noteq> 0x7FFFFFFF"
  shows "sint (i + 1) = sint i + 1"
proof -
  have "sint i < 2 ^ 31" "- (2 ^ 31) \<le> sint i"
    using sint_lt [of i] sint_ge [of i] by simp_all
  moreover have "sint i \<noteq> 2 ^ 31 - 1"
  proof
    assume "sint i = 2 ^ 31 - 1"
    then have "sint i = sint (0x7FFFFFFF :: i32)" by simp
    with assms show False by (metis signed_word_eqI)
  qed
  ultimately show ?thesis by (simp add: sint_word_ariths signed_take_bit_int_eq_self)
qed

lemma CommonMakeUID_Inr:
  "CommonMakeUID now inc = Inr (uid, inc') \<Longrightarrow>
   uid = common_uid inc' (ucast now) \<and> sint inc' = sint inc + 1"
  by (auto simp: CommonMakeUID_def Let_def sint_inc split: if_splits)

lemma common_uids_above:
  "common_uids nows inc = Inr uids \<Longrightarrow> uid \<in> set uids \<Longrightarrow> sint inc < sint (ucast uid :: i32)"
proof (induction nows arbitrary: inc uids)
  case (Cons now nows)
  then obtain u inc' us where *: "CommonMakeUID now inc = Inr (u, inc')"
    "common_uids nows inc' = Inr us" "uids = u # us"
    by (auto simp: results)
  then have u: "u = common_uid inc' (ucast now)" "sint inc' = sint inc + 1"
    using CommonMakeUID_Inr by blast+
  show ?case
  proof (cases "uid = u")
    case True
    with u show ?thesis by (simp add: common_uid_inc)
  next
    case False
    with Cons.prems * have "sint inc' < sint (ucast uid :: i32)" using Cons.IH by auto
    with u show ?thesis by simp
  qed
qed simp

lemma common_uids_distinct: "common_uids nows inc = Inr uids \<Longrightarrow> distinct uids"
proof (induction nows arbitrary: inc uids)
  case (Cons now nows)
  then obtain u inc' us where *: "CommonMakeUID now inc = Inr (u, inc')"
    "common_uids nows inc' = Inr us" "uids = u # us"
    by (auto simp: results)
  moreover have "u \<notin> set us"
    using common_uids_above [OF *(2), of u] CommonMakeUID_Inr [OF *(1)] by (auto simp: common_uid_inc)
  ultimately show ?case using Cons.IH by simp
qed simp

lemma common_uids_enough:
  "sint inc + int (length nows) \<le> 2 ^ 31 - 1 \<Longrightarrow> \<exists>uids. common_uids nows inc = Inr uids"
proof (induction nows arbitrary: inc)
  case (Cons now nows)
  have inc: "inc \<noteq> 0x7FFFFFFF" using Cons.prems by auto
  then have "sint (inc + 1) + int (length nows) \<le> 2 ^ 31 - 1" using Cons.prems by (simp add: sint_inc)
  then obtain us where "common_uids nows (inc + 1) = Inr us" using Cons.IH by blast
  with inc show ?case by (simp add: CommonMakeUID_def Let_def)
qed simp

section \<open>Client runtime ids\<close>

definition client_runtime_id :: "i16 \<Rightarrow> i16 \<Rightarrow> i32 \<Rightarrow> i64" where
  "client_runtime_id serverID incID tm = ucast serverID OR push_bit 16 (ucast incID) OR push_bit 32 (ucast tm)"

text \<open>
  The assignments narrow: the configured id and the counter to 16 bits, the clock to 32. The
  counter is \<open>std::atomic<int32_t>\<close>, whose \<open>fetch_add\<close> wraps.
\<close>

definition MakeRuntimeID :: "i32 \<Rightarrow> i64 \<Rightarrow> i32 \<Rightarrow> i64 \<times> i32" where
  "MakeRuntimeID serverID now incRuntimeID =
     (client_runtime_id (ucast serverID) (ucast incRuntimeID) (ucast now), incRuntimeID + 1)"

fun runtime_ids :: "i32 \<Rightarrow> i64 list \<Rightarrow> i32 \<Rightarrow> i64 list" where
  "runtime_ids srv [] inc = []"
| "runtime_ids srv (now # nows) inc =
     (let (rid, inc') = MakeRuntimeID srv now inc in rid # runtime_ids srv nows inc')"

lemma client_runtime_id_server: "ucast (client_runtime_id s i t) = s"
  by (rule bit_word_eqI) (auto simp: client_runtime_id_def bit_simps dest: bit_imp_le_length)

lemma client_runtime_id_inc: "ucast (drop_bit 16 (client_runtime_id s i t)) = i"
  by (rule bit_word_eqI) (auto simp: client_runtime_id_def bit_simps dest: bit_imp_le_length)

lemma client_runtime_id_time: "ucast (drop_bit 32 (client_runtime_id s i t)) = t"
  by (rule bit_word_eqI) (auto simp: client_runtime_id_def bit_simps dest: bit_imp_le_length)

lemma client_runtime_id_inject:
  "client_runtime_id s i t = client_runtime_id s' i' t' \<longleftrightarrow> s = s' \<and> i = i' \<and> t = t'"
  by (metis client_runtime_id_server client_runtime_id_inc client_runtime_id_time)

lemma client_runtime_id_minus1: "client_runtime_id s i t = - 1 \<Longrightarrow> t = - 1"
proof -
  assume *: "client_runtime_id s i t = - 1"
  have "(ucast (drop_bit 32 (- 1 :: i64)) :: i32) = - 1"
    by (rule bit_word_eqI) (simp add: bit_simps)
  with * client_runtime_id_time [of s i t] show ?thesis by simp
qed

lemma length_runtime_ids [simp]: "length (runtime_ids srv nows inc) = length nows"
  by (induction nows arbitrary: inc) (auto simp: MakeRuntimeID_def)

lemma nth_runtime_ids:
  "k < length nows \<Longrightarrow> runtime_ids srv nows inc ! k =
     client_runtime_id (ucast srv) (ucast (inc + of_nat k)) (ucast (nows ! k))"
proof (induction nows arbitrary: inc k)
  case (Cons now nows)
  show ?case
  proof (cases k)
    case (Suc j)
    then have "runtime_ids srv nows (inc + 1) ! j =
        client_runtime_id (ucast srv) (ucast (inc + 1 + of_nat j)) (ucast (nows ! j))"
      using Cons by simp
    then show ?thesis using Suc by (simp add: MakeRuntimeID_def ac_simps)
  qed (simp add: MakeRuntimeID_def)
qed simp

lemma ucast16_add_eq:
  fixes inc :: i32
  shows "(ucast (inc + of_nat j) :: i16) = ucast (inc + of_nat k) \<longleftrightarrow> j mod 65536 = k mod 65536"
proof -
  have c: "(ucast (of_nat m :: i32) :: i16) = of_nat m" for m
    by (simp add: unsigned_of_nat word_of_nat_eq_iff)
  have u: "(ucast (inc + of_nat n) :: i16) = ucast inc + of_nat n" for n
    using c [of "unat inc + n"] c [of "unat inc"] by simp
  have "(ucast (inc + of_nat j) :: i16) = ucast (inc + of_nat k) \<longleftrightarrow> (of_nat j :: i16) = of_nat k"
    unfolding u by simp
  also have "\<dots> \<longleftrightarrow> j mod 65536 = k mod 65536"
    by (simp add: word_of_nat_eq_iff take_bit_eq_mod)
  finally show ?thesis .
qed

section \<open>Properties\<close>

text \<open>
  The ids \<open>CommonMakeUID\<close> hands out are pairwise distinct, whatever the clock does between the
  calls, and it hands out every id it is asked for until its counter reaches \<open>INT32_MAX\<close>; only
  then is the next increment a signed overflow.
\<close>

theorem CommonMakeUID_unique:
  "(\<forall>uids. common_uids nows inc = Inr uids \<longrightarrow> distinct uids) \<and>
   (sint inc + int (length nows) \<le> 2 ^ 31 - 1 \<longrightarrow> (\<exists>uids. common_uids nows inc = Inr uids))"
  using common_uids_distinct common_uids_enough by blast

theorem CommonMakeUID_unique_witness:
  "common_uids [7, 7, 3] 0 = Inr [0x700000001, 0x700000002, 0x300000003] \<and>
   distinct [0x700000001 :: i64, 0x700000002, 0x300000003]"
proof -
  have "common_uids [7, 7, 3] 0 = Inr [0x700000001, 0x700000002, 0x300000003]"
    by (simp add: CommonMakeUID_def common_uid_def)
  with CommonMakeUID_unique [of "[7, 7, 3]" 0] show ?thesis by blast
qed

text \<open>
  When two runtime ids of connection servers coincide: the ids at positions \<open>j\<close> and \<open>k\<close> made
  by two servers are equal exactly when the configured server ids agree in their low 16 bits, the
  counters agree modulo 65536, and the clocks agree in their low 32 bits. In particular servers
  whose configured ids differ by a multiple of 65536 are not told apart.
\<close>

theorem MakeRuntimeID_collision:
  assumes "j < length nows" and "k < length nows'"
  shows "runtime_ids srv nows inc ! j = runtime_ids srv' nows' inc' ! k \<longleftrightarrow>
    (ucast srv :: i16) = ucast srv' \<and> (ucast (inc + of_nat j) :: i16) = ucast (inc' + of_nat k) \<and>
    (ucast (nows ! j) :: i32) = ucast (nows' ! k)"
  using assms by (simp add: nth_runtime_ids client_runtime_id_inject)

theorem MakeRuntimeID_collision_witness:
  "runtime_ids 1 [5, 9] 0 ! 1 = runtime_ids 65537 [9] 1 ! 0"
  using MakeRuntimeID_collision [of 1 "[5, 9]" 0 "[9]" 1 0 65537 1] by simp

text \<open>
  One server's runtime ids are pairwise distinct as long as no two clients that arrive within
  the same second are 65536 or more apart, however many arrive in all.
\<close>

theorem MakeRuntimeID_unique:
  assumes "\<And>j k. j < k \<Longrightarrow> k < length nows \<Longrightarrow> (ucast (nows ! j) :: i32) = ucast (nows ! k) \<Longrightarrow>
    k - j < 65536"
  shows "distinct (runtime_ids srv nows inc)"
proof -
  have "runtime_ids srv nows inc ! j \<noteq> runtime_ids srv nows inc ! k"
    if jk: "j < k" "k < length nows" for j k
  proof
    assume "runtime_ids srv nows inc ! j = runtime_ids srv nows inc ! k"
    then have eq: "j mod 65536 = k mod 65536" "(ucast (nows ! j) :: i32) = ucast (nows ! k)"
      using jk by (simp_all add: nth_runtime_ids client_runtime_id_inject ucast16_add_eq)
    have "65536 dvd k - j" using eq(1) jk(1) by (metis less_imp_le mod_eq_dvd_iff_nat)
    then have "65536 \<le> k - j" using jk(1) by (intro dvd_imp_le) simp_all
    with assms [OF jk eq(2)] show False by simp
  qed
  then show ?thesis by (auto simp: distinct_conv_nth neq_iff)
qed

theorem MakeRuntimeID_unique_witness: "distinct (runtime_ids 3 [100, 100, 101] 65535)"
  by (rule MakeRuntimeID_unique) simp

end
