(* ===== verification/PacketLib.thy ===== *)
theory PacketLib
  imports Prelude
begin

text \<open>
  The packet classes of \<open>packet.h\<close> (\<open>ReadPacket\<close>, \<open>TinyPacket\<close>, \<open>BigPacket\<close>, \<open>PACKET_LEN_TYPE\<close>,
  \<open>PACKET_HEAD_LEN\<close>). The header belongs to the git submodule \<open>accumulation-dev\<close>, which is not
  under src/, so it is a parameter of the model: a record of its operations.

  \<^item> A packet under construction is what the code did to it: the class it was made from, its
    opcode, and the fields written, in order. \<open>pk_bytes\<close> is \<open>getData()\<close>/\<open>getLen()\<close>.
  \<^item> The locale \<open>packet_wire\<close> holds what the stream framers rely on: the header has a positive
    size and the length and the opcode are read from the header alone. \<open>packet_codec\<close> adds what
    the handlers rely on: a reader over a packet that fits its buffer gives back the length, the
    opcode and the fields, in order.
  \<^item> \<open>std_lib\<close> is one concrete library (4-byte length, 2-byte opcode, little-endian,
    length-prefixed blobs) that satisfies both. It is there to evaluate witnesses on; no
    property rests on it.
\<close>

datatype field = FBool bool | FI16 i16 | FI32 i32 | FI64 i64 | FBin bytes

datatype pk_class = TinyPacket | BigPacket | FixedPacket nat  \<comment> \<open>\<open>FixedPacket<n>\<close>\<close>

datatype packet = Packet pk_class (pk_op: nat) (pk_fields: "field list")

record 'r packet_lib =
  len_bits :: nat                             \<comment> \<open>the width of \<open>PACKET_LEN_TYPE\<close>\<close>
  head_len :: nat                             \<comment> \<open>\<open>PACKET_HEAD_LEN\<close>\<close>
  rp_open :: "bytes \<Rightarrow> 'r"                     \<comment> \<open>\<open>ReadPacket rp(buffer, len)\<close>\<close>
  rp_len :: "'r \<Rightarrow> nat \<times> 'r"                   \<comment> \<open>\<open>readPacketLen()\<close>\<close>
  rp_op :: "'r \<Rightarrow> nat \<times> 'r"                    \<comment> \<open>\<open>readOP()\<close>\<close>
  rp_bool :: "'r \<Rightarrow> bool \<times> 'r"                 \<comment> \<open>\<open>readBool()\<close>\<close>
  rp_i16 :: "'r \<Rightarrow> i16 \<times> 'r"                   \<comment> \<open>\<open>readINT16()\<close>\<close>
  rp_i32 :: "'r \<Rightarrow> i32 \<times> 'r"                   \<comment> \<open>\<open>readINT32()\<close>\<close>
  rp_i64 :: "'r \<Rightarrow> i64 \<times> 'r"                   \<comment> \<open>\<open>readINT64()\<close>\<close>
  rp_str :: "'r \<Rightarrow> bytes \<times> 'r"                 \<comment> \<open>\<open>string readBinary()\<close>\<close>
  rp_bin :: "'r \<Rightarrow> bytes option \<times> 'r"          \<comment> \<open>\<open>bool readBinary(ptr, len)\<close>\<close>
  rp_pos :: "'r \<Rightarrow> nat"                        \<comment> \<open>\<open>getPos()\<close>\<close>
  rp_max :: "'r \<Rightarrow> nat"                        \<comment> \<open>\<open>getMaxPos()\<close>\<close>
  pk_bytes :: "packet \<Rightarrow> bytes"                \<comment> \<open>\<open>getData()\<close>, \<open>getLen()\<close> bytes of it\<close>

locale packet_wire =
  fixes P :: "'r packet_lib"
  assumes head_pos: "0 < head_len P"
    and len_prefix: "head_len P \<le> length b \<Longrightarrow>
      fst (rp_len P (rp_open P (b @ c))) = fst (rp_len P (rp_open P b))"
    and op_prefix: "head_len P \<le> length b \<Longrightarrow>
      fst (rp_op P (snd (rp_len P (rp_open P (b @ c))))) =
      fst (rp_op P (snd (rp_len P (rp_open P b))))"

locale packet_codec = packet_wire P for P :: "'r packet_lib" +
  fixes fits :: "packet \<Rightarrow> bool"
    and rem :: "'r \<Rightarrow> field list \<Rightarrow> bool"
  assumes enc_head: "fits p \<Longrightarrow> head_len P \<le> length (pk_bytes P p)"
    and read_len: "fits p \<Longrightarrow> fst (rp_len P (rp_open P (pk_bytes P p))) = length (pk_bytes P p)"
    and read_op: "fits p \<Longrightarrow> fst (rp_op P (snd (rp_len P (rp_open P (pk_bytes P p))))) = pk_op p"
    and rem_whole: "fits p \<Longrightarrow> rem (snd (rp_op P (snd (rp_len P (rp_open P (pk_bytes P p)))))) (pk_fields p)"
    and rem_body: "fits p \<Longrightarrow> rem (rp_open P (drop (head_len P) (pk_bytes P p))) (pk_fields p)"
    and rem_bool: "rem r (FBool x1 # fs) \<Longrightarrow> fst (rp_bool P r) = x1 \<and> rem (snd (rp_bool P r)) fs"
    and rem_i16: "rem r (FI16 x2 # fs) \<Longrightarrow> fst (rp_i16 P r) = x2 \<and> rem (snd (rp_i16 P r)) fs"
    and rem_i32: "rem r (FI32 x3 # fs) \<Longrightarrow> fst (rp_i32 P r) = x3 \<and> rem (snd (rp_i32 P r)) fs"
    and rem_i64: "rem r (FI64 x4 # fs) \<Longrightarrow> fst (rp_i64 P r) = x4 \<and> rem (snd (rp_i64 P r)) fs"
    and rem_str: "rem r (FBin x5 # fs) \<Longrightarrow> fst (rp_str P r) = x5 \<and> rem (snd (rp_str P r)) fs"
    and rem_bin: "rem r (FBin x5 # fs) \<Longrightarrow> fst (rp_bin P r) = Some x5 \<and> rem (snd (rp_bin P r)) fs"

text \<open>The laws in the form the handlers' proofs use: what a read returns, and what is left.\<close>

context packet_codec
begin

lemma whole_read:
  assumes "fits p"
  obtains r where "rp_op P (snd (rp_len P (rp_open P (pk_bytes P p)))) = (pk_op p, r)" "rem r (pk_fields p)"
  using read_op [OF assms] rem_whole [OF assms]
  by (cases "rp_op P (snd (rp_len P (rp_open P (pk_bytes P p))))") auto

lemma take_bool:
  assumes "rem r (FBool x # fs)" obtains r' where "rp_bool P r = (x, r')" "rem r' fs"
  using rem_bool [OF assms] by (cases "rp_bool P r") auto

lemma take_i16:
  assumes "rem r (FI16 x # fs)" obtains r' where "rp_i16 P r = (x, r')" "rem r' fs"
  using rem_i16 [OF assms] by (cases "rp_i16 P r") auto

lemma take_i32:
  assumes "rem r (FI32 x # fs)" obtains r' where "rp_i32 P r = (x, r')" "rem r' fs"
  using rem_i32 [OF assms] by (cases "rp_i32 P r") auto

lemma take_i64:
  assumes "rem r (FI64 x # fs)" obtains r' where "rp_i64 P r = (x, r')" "rem r' fs"
  using rem_i64 [OF assms] by (cases "rp_i64 P r") auto

lemma take_str:
  assumes "rem r (FBin x # fs)" obtains r' where "rp_str P r = (x, r')" "rem r' fs"
  using rem_str [OF assms] by (cases "rp_str P r") auto

lemma take_bin:
  assumes "rem r (FBin x # fs)" obtains r' where "rp_bin P r = (Some x, r')" "rem r' fs"
  using rem_bin [OF assms] by (cases "rp_bin P r") auto

end

section \<open>One library that satisfies the contract\<close>

fun enc_field :: "field \<Rightarrow> bytes" where
  "enc_field (FBool v) = [if v then 1 else 0]"
| "enc_field (FI16 v) = le_bytes 2 (unat v)"
| "enc_field (FI32 v) = le_bytes 4 (unat v)"
| "enc_field (FI64 v) = le_bytes 8 (unat v)"
| "enc_field (FBin v) = le_bytes 4 (length v) @ v"

fun field_fits :: "field \<Rightarrow> bool" where
  "field_fits (FBin v) \<longleftrightarrow> length v < 2 ^ 32"
| "field_fits f \<longleftrightarrow> True"

definition enc_fields :: "field list \<Rightarrow> bytes" where
  "enc_fields fs = concat (map enc_field fs)"

definition std_bytes :: "packet \<Rightarrow> bytes" where
  "std_bytes p = le_bytes 4 (6 + length (enc_fields (pk_fields p))) @ le_bytes 2 (pk_op p)
     @ enc_fields (pk_fields p)"

definition std_fits :: "packet \<Rightarrow> bool" where
  "std_fits p \<longleftrightarrow> length (std_bytes p) < 2 ^ 32 \<and> pk_op p < 2 ^ 16 \<and> list_all field_fits (pk_fields p)"

text \<open>The reader is the number of bytes it was given and the bytes not read yet.\<close>

type_synonym std_reader = "nat \<times> bytes"

definition std_num :: "nat \<Rightarrow> std_reader \<Rightarrow> nat \<times> std_reader" where
  "std_num n r = (le_nat (take n (snd r)), (fst r, drop n (snd r)))"

definition std_bin :: "std_reader \<Rightarrow> bytes option \<times> std_reader" where
  "std_bin r = (let (n, r') = std_num 4 r in
     if n \<le> length (snd r') then (Some (take n (snd r')), (fst r', drop n (snd r'))) else (None, r'))"

definition std_lib :: "std_reader packet_lib" where
  "std_lib = \<lparr>len_bits = 32, head_len = 6,
     rp_open = (\<lambda>b. (length b, b)),
     rp_len = std_num 4,
     rp_op = std_num 2,
     rp_bool = (\<lambda>r. apfst (\<lambda>n. n \<noteq> 0) (std_num 1 r)),
     rp_i16 = (\<lambda>r. apfst of_nat (std_num 2 r)),
     rp_i32 = (\<lambda>r. apfst of_nat (std_num 4 r)),
     rp_i64 = (\<lambda>r. apfst of_nat (std_num 8 r)),
     rp_str = (\<lambda>r. apfst (\<lambda>x. case x of None \<Rightarrow> [] | Some v \<Rightarrow> v) (std_bin r)),
     rp_bin = std_bin,
     rp_pos = (\<lambda>r. fst r - length (snd r)),
     rp_max = fst,
     pk_bytes = std_bytes\<rparr>"

lemma std_lib_sel [simp]:
  "len_bits std_lib = 32" "head_len std_lib = 6" "rp_open std_lib = (\<lambda>b. (length b, b))"
  "rp_len std_lib = std_num 4" "rp_op std_lib = std_num 2"
  "rp_bool std_lib r = apfst (\<lambda>n. n \<noteq> 0) (std_num 1 r)"
  "rp_i16 std_lib r = apfst of_nat (std_num 2 r)"
  "rp_i32 std_lib r = apfst of_nat (std_num 4 r)"
  "rp_i64 std_lib r = apfst of_nat (std_num 8 r)"
  "rp_str std_lib r = apfst (\<lambda>x. case x of None \<Rightarrow> [] | Some v \<Rightarrow> v) (std_bin r)"
  "rp_bin std_lib = std_bin" "pk_bytes std_lib = std_bytes"
  "rp_pos std_lib r = fst r - length (snd r)" "rp_max std_lib r = fst r"
  by (simp_all add: std_lib_def)

lemmas std_lib_simps = std_num_def std_bin_def

text \<open>What evaluates a closed term over \<open>std_lib\<close>.\<close>

lemmas std_eval = std_lib_simps std_bytes_def std_fits_def enc_fields_def le_bytes_numeral

definition std_rem :: "std_reader \<Rightarrow> field list \<Rightarrow> bool" where
  "std_rem r fs \<longleftrightarrow> snd r = enc_fields fs \<and> list_all field_fits fs"

lemma enc_fields_simps [simp]:
  "enc_fields [] = []" "enc_fields (f # fs) = enc_field f @ enc_fields fs"
  by (simp_all add: enc_fields_def)

lemma le_nat_take_prefix: "n \<le> length b \<Longrightarrow> le_nat (take n (b @ c)) = le_nat (take n b)"
  by simp

lemma std_bytes_len: "length (std_bytes p) = 6 + length (enc_fields (pk_fields p))"
  by (simp add: std_bytes_def)

lemma std_bytes_take4: "take 4 (std_bytes p) = le_bytes 4 (length (std_bytes p))"
  by (simp add: std_bytes_def std_bytes_len)

lemma std_bytes_drop4: "drop 4 (std_bytes p) = le_bytes 2 (pk_op p) @ enc_fields (pk_fields p)"
  by (simp add: std_bytes_def)

lemma std_bytes_drop6: "drop 6 (std_bytes p) = enc_fields (pk_fields p)"
  by (simp add: std_bytes_def)

lemma take_app_le: "m = n \<Longrightarrow> take m (le_bytes n v @ r) = le_bytes n v"
  by simp

interpretation std: packet_codec std_lib std_fits std_rem
proof (unfold_locales, goal_cases)
  case 1 then show ?case by (simp add: std_lib_simps)
next
  case 2 then show ?case by (simp add: std_lib_simps)
next
  case (3 b c) then show ?case by (simp add: std_lib_simps)
next
  case 4 then show ?case by (simp add: std_lib_simps std_bytes_len)
next
  case (5 p) then show ?case
    by (simp add: std_lib_simps std_fits_def std_bytes_take4 le_nat_le_bytes)
next
  case (6 p) then show ?case
    by (simp add: std_lib_simps std_fits_def std_bytes_drop4 le_nat_le_bytes)
next
  case (7 p) then show ?case
    by (simp add: std_lib_simps std_fits_def std_bytes_drop6 std_rem_def)
next
  case (8 p) then show ?case
    by (simp add: std_lib_simps std_fits_def std_bytes_drop6 std_rem_def)
next
  case (9 r v fs) then show ?case
    by (auto simp: std_lib_simps std_rem_def)
next
  case (10 r v fs) then show ?case
    by (auto simp: std_lib_simps std_rem_def le_nat_le_bytes)
next
  case (11 r v fs) then show ?case
    by (auto simp: std_lib_simps std_rem_def le_nat_le_bytes)
next
  case (12 r v fs) then show ?case
    by (auto simp: std_lib_simps std_rem_def le_nat_le_bytes)
next
  case (13 r v fs) then show ?case
    by (auto simp: std_lib_simps std_rem_def le_nat_le_bytes Let_def)
next
  case (14 r v fs) then show ?case
    by (auto simp: std_lib_simps std_rem_def le_nat_le_bytes Let_def)
qed

end
