(* ===== verification/ConnServer.thy ===== *)
theory ConnServer
  imports SessionMgr MakeUID PacketLib
begin

text \<open>
  The connection server (ConnectionServer/): its two kinds of sessions and every handler of them.

  \<^item> \<open>ConnectionClientSession\<close> (ClientSession.cpp) is \<open>client_session\<close>; \<open>LogicServerSession\<close>
    (LogicServerSession.cpp) is \<open>logic_session\<close>. Sessions live in two heaps indexed by address; a
    \<open>PTR\<close> member is an address or null.
  \<^item> \<open>conn_server\<close> is the process: the heaps, the three tables of SessionMgr, the id counter, and
    what was handed to the network library, in order (\<open>out\<close>).
  \<^item> \<open>sendPacket\<close> of a session, \<open>send\<close> and \<open>disConnect\<close> of the TCP service are the library's; the
    model records the call. The completion callbacks only log and are left out, as is logging.
  \<^item> \<open>time(nullptr)\<close>, \<open>rand()\<close> and the iteration order of a hash table are arguments.
\<close>

section \<open>Opcodes\<close>

text \<open>Common/prototol/ConnectionServerRecvOP.h and ConnectionServerSendOP.h.\<close>

definition CONNECTION_SERVER_RECV_LOGICSERVER_LOGIN :: nat where
  "CONNECTION_SERVER_RECV_LOGICSERVER_LOGIN = 0"
definition CONNECTION_SERVER_RECV_PING :: nat where
  "CONNECTION_SERVER_RECV_PING = 1"
definition CONNECTION_SERVER_RECV_PACKET2CLIENT_BYSOCKINFO :: nat where
  "CONNECTION_SERVER_RECV_PACKET2CLIENT_BYSOCKINFO = 2"
definition CONNECTION_SERVER_RECV_PACKET2CLIENT_BYRUNTIMEID :: nat where
  "CONNECTION_SERVER_RECV_PACKET2CLIENT_BYRUNTIMEID = 3"
definition CONNECTION_SERVER_RECV_IS_SETCLIENT_SLAVEID :: nat where
  "CONNECTION_SERVER_RECV_IS_SETCLIENT_SLAVEID = 4"
definition CONNECTION_SERVER_RECV_KICKCLIENT_BYRUNTIMEID :: nat where
  "CONNECTION_SERVER_RECV_KICKCLIENT_BYRUNTIMEID = 5"

definition CONNECTION_SERVER_SEND_PONG :: nat where
  "CONNECTION_SERVER_SEND_PONG = 0"
definition CONNECTION_SERVER_SEND_LOGICSERVER_RECVCSID :: nat where
  "CONNECTION_SERVER_SEND_LOGICSERVER_RECVCSID = 1"
definition CONNECTION_SERVER_SEND_LOGICSERVER_INIT_CLIENTMIRROR :: nat where
  "CONNECTION_SERVER_SEND_LOGICSERVER_INIT_CLIENTMIRROR = 2"
definition CONNECTION_SERVER_SEND_LOGICSERVER_DESTROY_CLIENT :: nat where
  "CONNECTION_SERVER_SEND_LOGICSERVER_DESTROY_CLIENT = 3"
definition CONNECTION_SERVER_SEND_LOGICSERVER_FROMCLIENT :: nat where
  "CONNECTION_SERVER_SEND_LOGICSERVER_FROMCLIENT = 4"

lemmas cs_recv_ops = CONNECTION_SERVER_RECV_LOGICSERVER_LOGIN_def CONNECTION_SERVER_RECV_PING_def
  CONNECTION_SERVER_RECV_PACKET2CLIENT_BYSOCKINFO_def CONNECTION_SERVER_RECV_PACKET2CLIENT_BYRUNTIMEID_def
  CONNECTION_SERVER_RECV_IS_SETCLIENT_SLAVEID_def CONNECTION_SERVER_RECV_KICKCLIENT_BYRUNTIMEID_def

lemmas cs_send_ops = CONNECTION_SERVER_SEND_PONG_def CONNECTION_SERVER_SEND_LOGICSERVER_RECVCSID_def
  CONNECTION_SERVER_SEND_LOGICSERVER_INIT_CLIENTMIRROR_def
  CONNECTION_SERVER_SEND_LOGICSERVER_DESTROY_CLIENT_def CONNECTION_SERVER_SEND_LOGICSERVER_FROMCLIENT_def

section \<open>State\<close>

record client_session =
  mSocketID :: i64          \<comment> \<open>\<open>getSocketID()\<close> of the base session\<close>
  mRuntimeID :: i64
  mPrimaryServerID :: i32
  mSlaveServerID :: i32
  mRecvSerialID :: i32
  mSendSerialID :: i32
  mPrimaryServer :: "laddr option"
  mSlaveServer :: "laddr option"

definition ConnectionClientSession :: "i64 \<Rightarrow> client_session" where
  "ConnectionClientSession socketID = \<lparr>mSocketID = socketID, mRuntimeID = - 1, mPrimaryServerID = - 1,
     mSlaveServerID = - 1, mRecvSerialID = 0, mSendSerialID = 0, mPrimaryServer = None,
     mSlaveServer = None\<rparr>"

record logic_session =
  mIsPrimary :: bool
  mID :: i32

definition LogicServerSession :: logic_session where
  "LogicServerSession = \<lparr>mIsPrimary = False, mID = - 1\<rparr>"

datatype cs_action =
    SendLogic laddr packet     \<comment> \<open>\<open>sendPacket\<close> on a logic server's session\<close>
  | SendSocket i64 bytes       \<comment> \<open>\<open>getService()->send(socketID, packet)\<close>\<close>
  | DisConnect i64             \<comment> \<open>\<open>getService()->disConnect(socketID)\<close>\<close>

record conn_server =
  clients :: "caddr \<Rightarrow> client_session"
  logics :: "laddr \<Rightarrow> logic_session"
  gAllClientObject :: client_table
  gAllPrimaryServers :: logic_table
  gAllSlaveServers :: logic_table
  incRuntimeID :: i32
  out :: "cs_action list"

record conn_config =
  cfg_id :: i32
  cfg_password :: bytes

definition upd_client :: "caddr \<Rightarrow> (client_session \<Rightarrow> client_session) \<Rightarrow> conn_server \<Rightarrow> conn_server" where
  "upd_client c f s = s\<lparr>clients := (clients s)(c := f (clients s c))\<rparr>"

definition upd_logic :: "laddr \<Rightarrow> (logic_session \<Rightarrow> logic_session) \<Rightarrow> conn_server \<Rightarrow> conn_server" where
  "upd_logic l f s = s\<lparr>logics := (logics s)(l := f (logics s l))\<rparr>"

definition emit :: "cs_action \<Rightarrow> conn_server \<Rightarrow> conn_server" where
  "emit a s = s\<lparr>out := out s @ [a]\<rparr>"

definition emit_opt :: "laddr option \<Rightarrow> packet \<Rightarrow> conn_server \<Rightarrow> conn_server" where
  "emit_opt p pk s = (case p of None \<Rightarrow> s | Some l \<Rightarrow> emit (SendLogic l pk) s)"

lemma upd_client_sel [simp]:
  "clients (upd_client c f s) = (clients s)(c := f (clients s c))"
  "logics (upd_client c f s) = logics s" "gAllClientObject (upd_client c f s) = gAllClientObject s"
  "gAllPrimaryServers (upd_client c f s) = gAllPrimaryServers s"
  "gAllSlaveServers (upd_client c f s) = gAllSlaveServers s"
  "incRuntimeID (upd_client c f s) = incRuntimeID s" "out (upd_client c f s) = out s"
  by (simp_all add: upd_client_def)

lemma upd_logic_sel [simp]:
  "logics (upd_logic l f s) = (logics s)(l := f (logics s l))"
  "clients (upd_logic l f s) = clients s" "gAllClientObject (upd_logic l f s) = gAllClientObject s"
  "gAllPrimaryServers (upd_logic l f s) = gAllPrimaryServers s"
  "gAllSlaveServers (upd_logic l f s) = gAllSlaveServers s"
  "incRuntimeID (upd_logic l f s) = incRuntimeID s" "out (upd_logic l f s) = out s"
  by (simp_all add: upd_logic_def)

lemma emit_sel [simp]:
  "out (emit a s) = out s @ [a]"
  "clients (emit a s) = clients s" "logics (emit a s) = logics s"
  "gAllClientObject (emit a s) = gAllClientObject s"
  "gAllPrimaryServers (emit a s) = gAllPrimaryServers s"
  "gAllSlaveServers (emit a s) = gAllSlaveServers s" "incRuntimeID (emit a s) = incRuntimeID s"
  by (simp_all add: emit_def)

lemma emit_opt_sel [simp]:
  "out (emit_opt p pk s) = out s @ (case p of None \<Rightarrow> [] | Some l \<Rightarrow> [SendLogic l pk])"
  "clients (emit_opt p pk s) = clients s" "logics (emit_opt p pk s) = logics s"
  "gAllClientObject (emit_opt p pk s) = gAllClientObject s"
  "gAllPrimaryServers (emit_opt p pk s) = gAllPrimaryServers s"
  "gAllSlaveServers (emit_opt p pk s) = gAllSlaveServers s"
  "incRuntimeID (emit_opt p pk s) = incRuntimeID s"
  by (simp_all add: emit_opt_def split: option.splits)

section \<open>ClientSessionMgr: kicking\<close>

definition KickClientByRuntimeID :: "i64 \<Rightarrow> conn_server \<Rightarrow> conn_server" where
  "KickClientByRuntimeID runtimeID s =
     (case FindClientByRuntimeID (gAllClientObject s) runtimeID of
        None \<Rightarrow> s
      | Some p \<Rightarrow>
          (let socketID = mSocketID (clients s p) in
           if socketID \<noteq> - 1 then emit (DisConnect socketID) s else s))"

text \<open>The range-for over a copy of the table, visited in the given order.\<close>

fun kick_scan :: "i32 \<Rightarrow> client_table \<Rightarrow> conn_server \<Rightarrow> conn_server" where
  "kick_scan primaryServerID [] s = s"
| "kick_scan primaryServerID (v # vs) s =
     (if mPrimaryServerID (clients s (snd v)) = primaryServerID
      then kick_scan primaryServerID vs (KickClientByRuntimeID (mRuntimeID (clients s (snd v))) s)
      else kick_scan primaryServerID vs s)"

definition KickClientOfPrimary :: "client_table \<Rightarrow> i32 \<Rightarrow> conn_server \<Rightarrow> conn_server" where
  "KickClientOfPrimary order primaryServerID s = kick_scan primaryServerID order s"

section \<open>ConnectionClientSession\<close>

definition setSlaveServerID :: "caddr \<Rightarrow> i32 \<Rightarrow> conn_server \<Rightarrow> conn_server" where
  "setSlaveServerID c sid s = upd_client c (\<lambda>cl. cl\<lparr>mSlaveServerID := sid\<rparr>) s"

definition claimRuntimeID :: "bool \<Rightarrow> conn_config \<Rightarrow> i64 \<Rightarrow> caddr \<Rightarrow> conn_server \<Rightarrow> conn_server result" where
  "claimRuntimeID ndebug cfg now c s =
     (if mRuntimeID (clients s c) = - 1 then
        (let (rid, inc') = MakeRuntimeID (cfg_id cfg) now (incRuntimeID s);
             s1 = upd_client c (\<lambda>cl. cl\<lparr>mRuntimeID := rid\<rparr>) (s\<lparr>incRuntimeID := inc'\<rparr>)
         in rbind (AddClientByRuntimeID ndebug c rid (gAllClientObject s1)) (\<lambda>m.
           (let s2 = s1\<lparr>gAllClientObject := m\<rparr>;
                cl = clients s2 c;
                packet = Packet BigPacket CONNECTION_SERVER_SEND_LOGICSERVER_INIT_CLIENTMIRROR
                  [FI64 (mSocketID cl), FI64 (mRuntimeID cl)];
                (p, prim) = FindPrimaryLogicServer (gAllPrimaryServers s2) (mPrimaryServerID cl);
                s3 = upd_client c (\<lambda>cl. cl\<lparr>mPrimaryServer := p\<rparr>) (s2\<lparr>gAllPrimaryServers := prim\<rparr>)
            in Inr (emit_opt p packet s3))))
      else Inr s)"

definition claimPrimaryServer ::
  "bool \<Rightarrow> nat \<Rightarrow> logic_table \<Rightarrow> caddr \<Rightarrow> conn_server \<Rightarrow> conn_server result" where
  "claimPrimaryServer ndebug rnd order c s =
     cassert ndebug (mRuntimeID (clients s c) \<noteq> - 1)
       (if mRuntimeID (clients s c) \<noteq> - 1 \<and> mPrimaryServer (clients s c) = None then
          (let sid = ClaimPrimaryLogicServer rnd order (gAllPrimaryServers s);
               s1 = upd_client c (\<lambda>cl. cl\<lparr>mPrimaryServerID := sid\<rparr>) s
           in if sid \<noteq> - 1 then
                (let (p, prim) = FindPrimaryLogicServer (gAllPrimaryServers s1) sid
                 in Inr (upd_client c (\<lambda>cl. cl\<lparr>mPrimaryServer := p\<rparr>) (s1\<lparr>gAllPrimaryServers := prim\<rparr>)))
              else Inr s1)
        else Inr s)"

text \<open>
  The rest of \<open>procPacket\<close>: refreshing the slave pointer, and forwarding. The two null tests of the
  source guard each other's call: \<open>mSlaveServer != nullptr\<close> sends through \<open>mPrimaryServer\<close>, and
  \<open>mPrimaryServer != nullptr\<close> sends through \<open>mSlaveServer\<close>.
\<close>

definition refreshSlave :: "caddr \<Rightarrow> conn_server \<Rightarrow> conn_server" where
  "refreshSlave c s =
     (if mSlaveServerID (clients s c) \<noteq> - 1 then
        (if mSlaveServer (clients s c) = None then
           (let (p, m) = FindSlaveLogicServer (gAllSlaveServers s) (mSlaveServerID (clients s c))
            in upd_client c (\<lambda>cl. cl\<lparr>mSlaveServer := p\<rparr>) (s\<lparr>gAllSlaveServers := m\<rparr>))
         else s)
      else upd_client c (\<lambda>cl. cl\<lparr>mSlaveServer := None\<rparr>) s)"

definition sendThrough :: "laddr option \<Rightarrow> packet \<Rightarrow> conn_server \<Rightarrow> conn_server result" where
  "sendThrough p pk s = (case p of None \<Rightarrow> Inl NullDeref | Some l \<Rightarrow> Inr (emit (SendLogic l pk) s))"

definition forwardPacket :: "caddr \<Rightarrow> bytes \<Rightarrow> conn_server \<Rightarrow> conn_server result" where
  "forwardPacket c body s =
     (let cl = clients s c in
      if mPrimaryServerID cl \<noteq> - 1 then
        (let packet = Packet BigPacket CONNECTION_SERVER_SEND_LOGICSERVER_FROMCLIENT
               [FI64 (mRuntimeID cl), FBin body]
         in if mSlaveServer cl \<noteq> None then sendThrough (mPrimaryServer cl) packet s
            else if mPrimaryServer cl \<noteq> None then sendThrough (mSlaveServer cl) packet s
            else Inr s)
      else Inr s)"

definition client_procPacket ::
  "bool \<Rightarrow> conn_config \<Rightarrow> i64 \<Rightarrow> nat \<Rightarrow> logic_table \<Rightarrow> caddr \<Rightarrow> nat \<Rightarrow> bytes \<Rightarrow> conn_server \<Rightarrow>
   conn_server result" where
  "client_procPacket ndebug cfg now rnd order c op body s =
     rbind (if mRuntimeID (clients s c) = - 1 then claimRuntimeID ndebug cfg now c s else Inr s) (\<lambda>s1.
     rbind (if mPrimaryServerID (clients s1 c) = - 1
            then claimPrimaryServer ndebug rnd order c s1 else Inr s1) (\<lambda>s2.
     forwardPacket c body (refreshSlave c s2)))"

definition client_onClose :: "caddr \<Rightarrow> conn_server \<Rightarrow> conn_server" where
  "client_onClose c s =
     (let cl = clients s c in
      if mRuntimeID cl \<noteq> - 1 then
        (let s1 = s\<lparr>gAllClientObject := EraseClientByRuntimeID (mRuntimeID cl) (gAllClientObject s)\<rparr>;
             sp = Packet TinyPacket CONNECTION_SERVER_SEND_LOGICSERVER_DESTROY_CLIENT [FI64 (mRuntimeID cl)]
         in upd_client c (\<lambda>cl. cl\<lparr>mRuntimeID := - 1\<rparr>)
              (emit_opt (mSlaveServer cl) sp (emit_opt (mPrimaryServer cl) sp s1)))
      else s)"

section \<open>LogicServerSession\<close>

definition checkPassword :: "conn_config \<Rightarrow> bytes \<Rightarrow> bool" where
  "checkPassword cfg password \<longleftrightarrow> password = cfg_password cfg"

text \<open>The two reasons are string literals in the source file's GBK encoding.\<close>

definition reason_exists :: bytes where
  "reason_exists = [73, 68, 182, 212, 211, 166, 181, 196, 76, 111, 103, 105, 99, 32, 83, 101, 114, 118,
     101, 114, 210, 209, 180, 230, 212, 218]"

definition reason_password :: bytes where
  "reason_password = [195, 220, 194, 235, 180, 237, 206, 243]"

definition sendLogicServerLoginResult ::
  "conn_config \<Rightarrow> laddr \<Rightarrow> bool \<Rightarrow> bytes \<Rightarrow> conn_server \<Rightarrow> conn_server" where
  "sendLogicServerLoginResult cfg l isSuccess reason s =
     emit (SendLogic l (Packet TinyPacket CONNECTION_SERVER_SEND_LOGICSERVER_RECVCSID
       [FI32 (cfg_id cfg), FBool isSuccess, FBin reason])) s"

definition onLogicServerLogin ::
  "'r packet_lib \<Rightarrow> conn_config \<Rightarrow> laddr \<Rightarrow> 'r \<Rightarrow> conn_server \<Rightarrow> conn_server" where
  "onLogicServerLogin P cfg l rp s =
     (let (password, rp1) = rp_str P rp; (sid, rp2) = rp_i32 P rp1; (isPrimary, rp3) = rp_bool P rp2 in
      if checkPassword cfg password then
        (let (isSuccess, s1) =
           (if isPrimary then
              (let (q, m) = FindPrimaryLogicServer (gAllPrimaryServers s) sid in
               if q = None then (True, s\<lparr>gAllPrimaryServers := AddPrimaryLogicServer sid (Some l) m\<rparr>)
               else (False, s\<lparr>gAllPrimaryServers := m\<rparr>))
            else
              (let (q, m) = FindSlaveLogicServer (gAllSlaveServers s) sid in
               if q = None then (True, s\<lparr>gAllSlaveServers := AddSlaveLogicServer sid (Some l) m\<rparr>)
               else (False, s\<lparr>gAllSlaveServers := m\<rparr>)))
         in if isSuccess
            then sendLogicServerLoginResult cfg l True []
                   (upd_logic l (\<lambda>x. x\<lparr>mIsPrimary := isPrimary, mID := sid\<rparr>) s1)
            else sendLogicServerLoginResult cfg l False reason_exists s1)
      else sendLogicServerLoginResult cfg l False reason_password s)"

text \<open>
  The loops run \<open>destNum\<close> times, \<open>destNum\<close> an \<open>int16_t\<close> compared with an \<open>int\<close> counter: a negative
  count is no iteration.
\<close>

fun socketinfo_loop :: "'r packet_lib \<Rightarrow> conn_config \<Rightarrow> bytes \<Rightarrow> nat \<Rightarrow> 'r \<Rightarrow> conn_server \<Rightarrow> conn_server" where
  "socketinfo_loop P cfg p 0 rp s = s"
| "socketinfo_loop P cfg p (Suc n) rp s =
     (let (csID, rp1) = rp_i32 P rp; (clientSocketID, rp2) = rp_i64 P rp1 in
      socketinfo_loop P cfg p n rp2
        (if csID = cfg_id cfg then emit (SendSocket clientSocketID p) s else s))"

definition onPacket2ClientBySocketInfo ::
  "'r packet_lib \<Rightarrow> conn_config \<Rightarrow> 'r \<Rightarrow> conn_server \<Rightarrow> conn_server" where
  "onPacket2ClientBySocketInfo P cfg rp s =
     (case rp_bin P rp of
        (None, rp1) \<Rightarrow> s
      | (Some realPacket, rp1) \<Rightarrow>
          (let (destNum, rp2) = rp_i16 P rp1 in
           socketinfo_loop P cfg realPacket (nat (sint destNum)) rp2 s))"

fun runtimeid_loop :: "'r packet_lib \<Rightarrow> bytes \<Rightarrow> nat \<Rightarrow> 'r \<Rightarrow> conn_server \<Rightarrow> conn_server" where
  "runtimeid_loop P p 0 rp s = s"
| "runtimeid_loop P p (Suc n) rp s =
     (let (runtimeID, rp1) = rp_i64 P rp in
      runtimeid_loop P p n rp1
        (case FindClientByRuntimeID (gAllClientObject s) runtimeID of
           None \<Rightarrow> s
         | Some client \<Rightarrow>
             (let socketID = mSocketID (clients s client) in
              if socketID \<noteq> - 1 then emit (SendSocket socketID p) s else s)))"

text \<open>
  Here the inner \<open>realPacketLen\<close>, read from the embedded packet's own header, shadows the length of
  the blob before \<open>makePacket\<close> copies that many bytes: a header that claims more is a read past it.
\<close>

definition onPacket2ClientByRuntimeID ::
  "'r packet_lib \<Rightarrow> 'r \<Rightarrow> conn_server \<Rightarrow> conn_server result" where
  "onPacket2ClientByRuntimeID P rp s =
     (case rp_bin P rp of
        (None, rp1) \<Rightarrow> Inr s
      | (Some realPacket, rp1) \<Rightarrow>
          (let (destNum, rp2) = rp_i16 P rp1;
               realPacketLen = fst (rp_len P (rp_open P realPacket)) in
           if realPacketLen \<le> length realPacket
           then Inr (runtimeid_loop P (take realPacketLen realPacket) (nat (sint destNum)) rp2 s)
           else Inl OutOfBounds))"

definition onSlaveServerIsSetClient :: "'r packet_lib \<Rightarrow> laddr \<Rightarrow> 'r \<Rightarrow> conn_server \<Rightarrow> conn_server" where
  "onSlaveServerIsSetClient P l rp s =
     (let (runtimeID, rp1) = rp_i64 P rp; (isSet, rp2) = rp_bool P rp1 in
      case FindClientByRuntimeID (gAllClientObject s) runtimeID of
        None \<Rightarrow> s
      | Some p \<Rightarrow> setSlaveServerID p (if isSet then mID (logics s l) else - 1) s)"

definition onKickClientByRuntimeID :: "'r packet_lib \<Rightarrow> 'r \<Rightarrow> conn_server \<Rightarrow> conn_server" where
  "onKickClientByRuntimeID P rp s = KickClientByRuntimeID (fst (rp_i64 P rp)) s"

definition cs_onPing :: "laddr \<Rightarrow> conn_server \<Rightarrow> conn_server" where
  "cs_onPing l s = emit (SendLogic l (Packet TinyPacket CONNECTION_SERVER_SEND_PONG [])) s"

definition logic_procPacket ::
  "bool \<Rightarrow> 'r packet_lib \<Rightarrow> conn_config \<Rightarrow> laddr \<Rightarrow> nat \<Rightarrow> bytes \<Rightarrow> conn_server \<Rightarrow> conn_server result" where
  "logic_procPacket ndebug P cfg l op body s =
     (let rp = rp_open P body in
      if op = CONNECTION_SERVER_RECV_PING then Inr (cs_onPing l s)
      else if op = CONNECTION_SERVER_RECV_LOGICSERVER_LOGIN then Inr (onLogicServerLogin P cfg l rp s)
      else if op = CONNECTION_SERVER_RECV_PACKET2CLIENT_BYSOCKINFO
        then Inr (onPacket2ClientBySocketInfo P cfg rp s)
      else if op = CONNECTION_SERVER_RECV_PACKET2CLIENT_BYRUNTIMEID
        then onPacket2ClientByRuntimeID P rp s
      else if op = CONNECTION_SERVER_RECV_IS_SETCLIENT_SLAVEID
        then Inr (onSlaveServerIsSetClient P l rp s)
      else if op = CONNECTION_SERVER_RECV_KICKCLIENT_BYRUNTIMEID
        then Inr (onKickClientByRuntimeID P rp s)
      else cassert ndebug False (Inr s))"

definition logic_onClose :: "client_table \<Rightarrow> laddr \<Rightarrow> conn_server \<Rightarrow> conn_server" where
  "logic_onClose order l s =
     (let sid = mID (logics s l) in
      if sid \<noteq> - 1 then
        upd_logic l (\<lambda>x. x\<lparr>mIsPrimary := False, mID := - 1\<rparr>)
          (if mIsPrimary (logics s l)
           then (let s1 = KickClientOfPrimary order sid s
                 in s1\<lparr>gAllPrimaryServers := RemovePrimaryLogicServer sid (gAllPrimaryServers s1)\<rparr>)
           else s\<lparr>gAllSlaveServers := RemoveSlaveLogicServer sid (gAllSlaveServers s)\<rparr>)
      else s)"

end
