(* ===== verification/ConnSystem.thy ===== *)
theory ConnSystem
  imports ConnServer
begin

text \<open>
  The connection server as a transition system. A step is one callback of the network library on
  one session: a client or a logic server connects, sends a packet, or disconnects. The system
  state adds to the server the sets of sessions that are open. A step whose handler faults is not
  a step: the process is gone.

  \<^item> The clock never reads the one value whose low 32 bits are all ones.
  \<^item> The parameter \<open>once\<close> restricts the environment: when set, a logic server logs in at most once
    per connection and not with id -1. The code does not enforce it.

  The invariants (one definition each, one preservation lemma per operation) say what the tables
  and the sessions agree on in every reachable state.
\<close>

record cs_sys =
  sv :: conn_server
  openC :: "caddr set"
  openL :: "laddr set"

definition cs_init :: cs_sys where
  "cs_init = \<lparr>sv = \<lparr>clients = (\<lambda>_. ConnectionClientSession (- 1)), logics = (\<lambda>_. LogicServerSession),
     gAllClientObject = [], gAllPrimaryServers = [], gAllSlaveServers = [], incRuntimeID = 0, out = []\<rparr>,
     openC = {}, openL = {}\<rparr>"

definition login_once :: "'r packet_lib \<Rightarrow> conn_server \<Rightarrow> laddr \<Rightarrow> nat \<Rightarrow> bytes \<Rightarrow> bool" where
  "login_once P s l op body \<longleftrightarrow> (op = CONNECTION_SERVER_RECV_LOGICSERVER_LOGIN \<longrightarrow>
     mID (logics s l) = - 1 \<and> fst (rp_i32 P (snd (rp_str P (rp_open P body)))) \<noteq> - 1)"

inductive cs_step :: "bool \<Rightarrow> bool \<Rightarrow> 'r packet_lib \<Rightarrow> conn_config \<Rightarrow> cs_sys \<Rightarrow> cs_sys \<Rightarrow> bool"
  for once ndebug P cfg where
  client_enter: "c \<notin> openC y \<Longrightarrow> c \<notin> snd ` set (gAllClientObject (sv y)) \<Longrightarrow>
     cs_step once ndebug P cfg y
       (y\<lparr>sv := upd_client c (\<lambda>_. ConnectionClientSession sock) (sv y), openC := insert c (openC y)\<rparr>)"
| client_msg: "c \<in> openC y \<Longrightarrow> (ucast now :: i32) \<noteq> - 1 \<Longrightarrow>
     (if mRuntimeID (clients (sv y) c) = - 1 then claimRuntimeID ndebug cfg now c (sv y) else Inr (sv y)) = Inr s1 \<Longrightarrow>
     set order = set (gAllPrimaryServers s1) \<Longrightarrow> length order = length (gAllPrimaryServers s1) \<Longrightarrow>
     client_procPacket ndebug cfg now rnd order c op body (sv y) = Inr s' \<Longrightarrow>
     cs_step once ndebug P cfg y (y\<lparr>sv := s'\<rparr>)"
| client_close: "c \<in> openC y \<Longrightarrow>
     cs_step once ndebug P cfg y (y\<lparr>sv := client_onClose c (sv y), openC := openC y - {c}\<rparr>)"
| logic_enter: "l \<notin> openL y \<Longrightarrow> Some l \<notin> snd ` set (gAllPrimaryServers (sv y)) \<Longrightarrow>
     Some l \<notin> snd ` set (gAllSlaveServers (sv y)) \<Longrightarrow>
     \<forall>c\<in>openC y. mPrimaryServer (clients (sv y) c) \<noteq> Some l \<and> mSlaveServer (clients (sv y) c) \<noteq> Some l \<Longrightarrow>
     cs_step once ndebug P cfg y
       (y\<lparr>sv := upd_logic l (\<lambda>_. LogicServerSession) (sv y), openL := insert l (openL y)\<rparr>)"
| logic_msg: "l \<in> openL y \<Longrightarrow> (once \<longrightarrow> login_once P (sv y) l op body) \<Longrightarrow>
     logic_procPacket ndebug P cfg l op body (sv y) = Inr s' \<Longrightarrow>
     cs_step once ndebug P cfg y (y\<lparr>sv := s'\<rparr>)"
| logic_close: "l \<in> openL y \<Longrightarrow> set order = set (gAllClientObject (sv y)) \<Longrightarrow>
     length order = length (gAllClientObject (sv y)) \<Longrightarrow>
     cs_step once ndebug P cfg y (y\<lparr>sv := logic_onClose order l (sv y), openL := openL y - {l}\<rparr>)"

inductive cs_reach :: "bool \<Rightarrow> bool \<Rightarrow> 'r packet_lib \<Rightarrow> conn_config \<Rightarrow> cs_sys \<Rightarrow> bool"
  for once ndebug P cfg where
  start: "cs_reach once ndebug P cfg cs_init"
| step: "cs_reach once ndebug P cfg y \<Longrightarrow> cs_step once ndebug P cfg y z \<Longrightarrow> cs_reach once ndebug P cfg z"

section \<open>Frame facts\<close>

named_theorems frame \<open>what an operation leaves alone\<close>

lemma Kick_frame [frame, simp]:
  "clients (KickClientByRuntimeID r s) = clients s" "logics (KickClientByRuntimeID r s) = logics s"
  "gAllClientObject (KickClientByRuntimeID r s) = gAllClientObject s"
  "gAllPrimaryServers (KickClientByRuntimeID r s) = gAllPrimaryServers s"
  "gAllSlaveServers (KickClientByRuntimeID r s) = gAllSlaveServers s"
  by (simp_all add: KickClientByRuntimeID_def Let_def split: option.splits)

lemma kick_scan_frame [frame, simp]:
  "clients (kick_scan k vs s) = clients s" "logics (kick_scan k vs s) = logics s"
  "gAllClientObject (kick_scan k vs s) = gAllClientObject s"
  "gAllPrimaryServers (kick_scan k vs s) = gAllPrimaryServers s"
  "gAllSlaveServers (kick_scan k vs s) = gAllSlaveServers s"
  by (induction k vs s rule: kick_scan.induct) simp_all

lemma socketinfo_loop_frame [frame, simp]:
  "clients (socketinfo_loop P cfg p n rp s) = clients s"
  "logics (socketinfo_loop P cfg p n rp s) = logics s"
  "gAllClientObject (socketinfo_loop P cfg p n rp s) = gAllClientObject s"
  "gAllPrimaryServers (socketinfo_loop P cfg p n rp s) = gAllPrimaryServers s"
  "gAllSlaveServers (socketinfo_loop P cfg p n rp s) = gAllSlaveServers s"
  by (induction P cfg p n rp s rule: socketinfo_loop.induct) (simp_all split: prod.splits)

lemma runtimeid_loop_frame [frame, simp]:
  "clients (runtimeid_loop P p n rp s) = clients s"
  "logics (runtimeid_loop P p n rp s) = logics s"
  "gAllClientObject (runtimeid_loop P p n rp s) = gAllClientObject s"
  "gAllPrimaryServers (runtimeid_loop P p n rp s) = gAllPrimaryServers s"
  "gAllSlaveServers (runtimeid_loop P p n rp s) = gAllSlaveServers s"
  by (induction P p n rp s rule: runtimeid_loop.induct) (simp_all split: prod.splits option.splits add: Let_def)

text \<open>What the phases of \<open>procPacket\<close> before forwarding do to the state.\<close>

lemma claimRuntimeID_Inr:
  assumes "claimRuntimeID ndebug cfg now c s = Inr s'" and "mRuntimeID (clients s c) = - 1"
  obtains rid p where "rid = fst (MakeRuntimeID (cfg_id cfg) now (incRuntimeID s))"
    and "p = um_live (gAllPrimaryServers s) (mPrimaryServerID (clients s c))"
    and "ndebug \<or> um_find (gAllClientObject s) rid = None"
    and "clients s' = (clients s)(c := (clients s c)\<lparr>mRuntimeID := rid, mPrimaryServer := p\<rparr>)"
    and "logics s' = logics s"
    and "gAllClientObject s' = um_set rid c (gAllClientObject s)"
    and "gAllPrimaryServers s' = um_touch (mPrimaryServerID (clients s c)) (gAllPrimaryServers s)"
    and "gAllSlaveServers s' = gAllSlaveServers s"
    and "out s' = out s @ (case p of None \<Rightarrow> [] | Some l \<Rightarrow>
      [SendLogic l (Packet BigPacket CONNECTION_SERVER_SEND_LOGICSERVER_INIT_CLIENTMIRROR
         [FI64 (mSocketID (clients s c)), FI64 rid])])"
proof -
  obtain rid inc' where mk: "MakeRuntimeID (cfg_id cfg) now (incRuntimeID s) = (rid, inc')" by fastforce
  show ?thesis
    by (rule that [of rid "um_live (gAllPrimaryServers s) (mPrimaryServerID (clients s c))"])
      (use assms mk in \<open>auto simp: claimRuntimeID_def Find_live FindClientByRuntimeID_def
         AddClientByRuntimeID_def Let_def results fun_upd_def split: option.splits\<close>)
qed

lemma claimPrimaryServer_Inr:
  assumes "claimPrimaryServer ndebug rnd order c s = Inr s'" and "mPrimaryServer (clients s c) = None"
    and "mRuntimeID (clients s c) \<noteq> - 1"
  shows "s' = (let sid = ClaimPrimaryLogicServer rnd order (gAllPrimaryServers s) in
    if sid = - 1 then upd_client c (\<lambda>cl. cl\<lparr>mPrimaryServerID := sid\<rparr>) s
    else upd_client c (\<lambda>cl. cl\<lparr>mPrimaryServerID := sid, mPrimaryServer := um_live (gAllPrimaryServers s) sid\<rparr>)
      (s\<lparr>gAllPrimaryServers := um_touch sid (gAllPrimaryServers s)\<rparr>))"
  using assms by (auto simp: claimPrimaryServer_def Find_live upd_client_def Let_def results)

lemma claimPrimaryServer_total:
  "mRuntimeID (clients s c) \<noteq> - 1 \<Longrightarrow> \<exists>s'. claimPrimaryServer ndebug rnd order c s = Inr s'"
  by (auto simp: claimPrimaryServer_def Find_live Let_def)

lemma claimPrimaryServer_kept:
  "mPrimaryServer (clients s c) \<noteq> None \<Longrightarrow> claimPrimaryServer ndebug rnd order c s = Inr s' \<Longrightarrow> s' = s"
  by (auto simp: claimPrimaryServer_def results)

lemma refreshSlave_eq:
  "refreshSlave c s = (let cl = clients s c in
     if mSlaveServerID cl = - 1 then upd_client c (\<lambda>cl. cl\<lparr>mSlaveServer := None\<rparr>) s
     else if mSlaveServer cl = None then
       upd_client c (\<lambda>cl. cl\<lparr>mSlaveServer := um_live (gAllSlaveServers s) (mSlaveServerID cl)\<rparr>)
         (s\<lparr>gAllSlaveServers := um_touch (mSlaveServerID cl) (gAllSlaveServers s)\<rparr>)
     else s)"
  by (auto simp: refreshSlave_def Find_live Let_def)

section \<open>The invariant\<close>

text \<open>
  \<^item> \<open>clients_ok\<close>: an entry of the client table is an open session that carries this runtime id.
  \<^item> \<open>known_ok\<close> (builds with \<open>assert\<close>): every open session with a runtime id is in the table.
  \<^item> \<open>fresh_ok\<close>: a session without a runtime id has no servers yet.
  \<^item> \<open>primary_ok\<close>: null entries of the primary table have the key -1, and a session with a primary
    id has a primary.
  \<^item> \<open>logins_ok\<close> (under \<open>once\<close>): the live entries of the two server tables are the open sessions
    that are logged in with that role and id, and never the id -1.
\<close>

definition tables_ok :: "conn_server \<Rightarrow> bool" where
  "tables_ok s \<longleftrightarrow> um_ok (gAllClientObject s) \<and> um_ok (gAllPrimaryServers s) \<and> um_ok (gAllSlaveServers s)"

definition clients_ok :: "caddr set \<Rightarrow> conn_server \<Rightarrow> bool" where
  "clients_ok C s \<longleftrightarrow> (\<forall>rid c. um_find (gAllClientObject s) rid = Some c \<longrightarrow>
     c \<in> C \<and> mRuntimeID (clients s c) = rid \<and> rid \<noteq> - 1)"

definition known_ok :: "caddr set \<Rightarrow> conn_server \<Rightarrow> bool" where
  "known_ok C s \<longleftrightarrow> (\<forall>c\<in>C. mRuntimeID (clients s c) \<noteq> - 1 \<longrightarrow>
     um_find (gAllClientObject s) (mRuntimeID (clients s c)) = Some c)"

definition fresh_ok :: "caddr set \<Rightarrow> conn_server \<Rightarrow> bool" where
  "fresh_ok C s \<longleftrightarrow> (\<forall>c\<in>C. mRuntimeID (clients s c) = - 1 \<longrightarrow>
     mPrimaryServerID (clients s c) = - 1 \<and> mPrimaryServer (clients s c) = None \<and>
     mSlaveServerID (clients s c) = - 1 \<and> mSlaveServer (clients s c) = None)"

definition primary_ok :: "caddr set \<Rightarrow> conn_server \<Rightarrow> bool" where
  "primary_ok C s \<longleftrightarrow> (\<forall>sid. um_find (gAllPrimaryServers s) sid = Some None \<longrightarrow> sid = - 1) \<and>
     (\<forall>c\<in>C. mPrimaryServerID (clients s c) \<noteq> - 1 \<longrightarrow> mPrimaryServer (clients s c) \<noteq> None)"

definition logins_ok :: "laddr set \<Rightarrow> conn_server \<Rightarrow> bool" where
  "logins_ok L s \<longleftrightarrow> (\<forall>sid l.
     (um_live (gAllPrimaryServers s) sid = Some l \<longleftrightarrow>
        l \<in> L \<and> mID (logics s l) = sid \<and> mIsPrimary (logics s l) \<and> sid \<noteq> - 1) \<and>
     (um_live (gAllSlaveServers s) sid = Some l \<longleftrightarrow>
        l \<in> L \<and> mID (logics s l) = sid \<and> \<not> mIsPrimary (logics s l) \<and> sid \<noteq> - 1))"

definition cs_inv :: "bool \<Rightarrow> bool \<Rightarrow> caddr set \<Rightarrow> laddr set \<Rightarrow> conn_server \<Rightarrow> bool" where
  "cs_inv once ndebug C L s \<longleftrightarrow> tables_ok s \<and> clients_ok C s \<and> (\<not> ndebug \<longrightarrow> known_ok C s) \<and>
     fresh_ok C s \<and> primary_ok C s \<and> (once \<longrightarrow> logins_ok L s)"

lemmas inv_defs = tables_ok_def clients_ok_def known_ok_def fresh_ok_def primary_ok_def logins_ok_def

text \<open>The invariant looks at the sessions and the tables only.\<close>

lemma cs_inv_core:
  assumes "cs_inv once ndebug C L s" and "clients s' = clients s" and "logics s' = logics s"
    and "gAllClientObject s' = gAllClientObject s" and "gAllPrimaryServers s' = gAllPrimaryServers s"
    and "gAllSlaveServers s' = gAllSlaveServers s"
  shows "cs_inv once ndebug C L s'"
  using assms by (simp add: cs_inv_def inv_defs)

lemma MakeRuntimeID_minus1: "(ucast now :: i32) \<noteq> - 1 \<Longrightarrow> fst (MakeRuntimeID srv now inc) \<noteq> - 1"
  using client_runtime_id_minus1 by (auto simp: MakeRuntimeID_def)

lemma claimRuntimeID_inv:
  assumes inv: "cs_inv once ndebug C L s" and c: "c \<in> C" and now: "(ucast now :: i32) \<noteq> - 1"
    and fresh: "mRuntimeID (clients s c) = - 1" and run: "claimRuntimeID ndebug cfg now c s = Inr s'"
  shows "cs_inv once ndebug C L s'" and "mRuntimeID (clients s' c) \<noteq> - 1"
    and "mPrimaryServerID (clients s' c) = - 1"
proof -
  obtain rid p where *: "rid = fst (MakeRuntimeID (cfg_id cfg) now (incRuntimeID s))"
    "p = um_live (gAllPrimaryServers s) (mPrimaryServerID (clients s c))"
    "ndebug \<or> um_find (gAllClientObject s) rid = None"
    "clients s' = (clients s)(c := (clients s c)\<lparr>mRuntimeID := rid, mPrimaryServer := p\<rparr>)"
    "logics s' = logics s" "gAllClientObject s' = um_set rid c (gAllClientObject s)"
    "gAllPrimaryServers s' = um_touch (mPrimaryServerID (clients s c)) (gAllPrimaryServers s)"
    "gAllSlaveServers s' = gAllSlaveServers s"
    using claimRuntimeID_Inr [OF run fresh] by metis
  have rid: "rid \<noteq> - 1" using * MakeRuntimeID_minus1 [OF now] by simp
  have id: "mPrimaryServerID (clients s c) = - 1" using inv c fresh by (simp add: cs_inv_def fresh_ok_def)
  show "mRuntimeID (clients s' c) \<noteq> - 1" "mPrimaryServerID (clients s' c) = - 1" using * rid id by simp_all
  have "tables_ok s'" using inv * by (simp add: cs_inv_def tables_ok_def)
  moreover have "clients_ok C s'" using inv * c rid fresh by (auto simp: cs_inv_def clients_ok_def)
  moreover have "\<not> ndebug \<Longrightarrow> known_ok C s'" using inv * by (auto simp: cs_inv_def known_ok_def)
  moreover have "fresh_ok C s'" using inv * rid by (auto simp: cs_inv_def fresh_ok_def)
  moreover have "primary_ok C s'" using inv * id by (auto simp: cs_inv_def primary_ok_def)
  moreover have "once \<Longrightarrow> logins_ok L s'" using inv * by (auto simp: cs_inv_def logins_ok_def)
  ultimately show "cs_inv once ndebug C L s'" by (simp add: cs_inv_def)
qed

lemma claimPrimaryServer_inv:
  assumes inv: "cs_inv once ndebug C L s" and c: "c \<in> C" and rid: "mRuntimeID (clients s c) \<noteq> - 1"
    and order: "set order = set (gAllPrimaryServers s)" "length order = length (gAllPrimaryServers s)"
    and run: "claimPrimaryServer ndebug rnd order c s = Inr s'"
  shows "cs_inv once ndebug C L s'"
proof (cases "mPrimaryServer (clients s c)")
  case (Some l)
  then show ?thesis using claimPrimaryServer_kept [OF _ run] inv by simp
next
  case None
  let ?m = "gAllPrimaryServers s" and ?sid = "ClaimPrimaryLogicServer rnd order (gAllPrimaryServers s)"
  have live: "um_live ?m ?sid \<noteq> None" if "?sid \<noteq> - 1"
  proof -
    have "?m \<noteq> []" using that by (auto simp: ClaimPrimaryLogicServer_def)
    then have "?sid \<in> fst ` set ?m" by (rule ClaimPrimary_in [OF order])
    then obtain p where "(?sid, p) \<in> set ?m" by auto
    then have "um_find ?m ?sid = Some p" using inv by (simp add: um_in_find cs_inv_def tables_ok_def)
    then show ?thesis using inv that by (cases p) (auto simp: um_live_def cs_inv_def primary_ok_def)
  qed
  have s': "s' = (if ?sid = - 1 then upd_client c (\<lambda>cl. cl\<lparr>mPrimaryServerID := ?sid\<rparr>) s
    else upd_client c (\<lambda>cl. cl\<lparr>mPrimaryServerID := ?sid, mPrimaryServer := um_live ?m ?sid\<rparr>)
      (s\<lparr>gAllPrimaryServers := um_touch ?sid ?m\<rparr>))"
    using claimPrimaryServer_Inr [OF run None rid] by (simp add: Let_def)
  have "tables_ok s'" using inv s' by (simp add: cs_inv_def tables_ok_def)
  moreover have "clients_ok C s'" using inv s' c by (auto simp: cs_inv_def clients_ok_def)
  moreover have "\<not> ndebug \<Longrightarrow> known_ok C s'" using inv s' by (auto simp: cs_inv_def known_ok_def)
  moreover have "fresh_ok C s'" using inv s' rid by (auto simp: cs_inv_def fresh_ok_def)
  moreover have "primary_ok C s'" using inv s' live by (auto simp: cs_inv_def primary_ok_def)
  moreover have "once \<Longrightarrow> logins_ok L s'" using inv s' by (auto simp: cs_inv_def logins_ok_def)
  ultimately show ?thesis by (simp add: cs_inv_def)
qed

lemma refreshSlave_inv:
  assumes "cs_inv once ndebug C L s" and "c \<in> C"
  shows "cs_inv once ndebug C L (refreshSlave c s)"
proof -
  let ?s = "refreshSlave c s"
  have "tables_ok ?s" using assms by (simp add: cs_inv_def tables_ok_def refreshSlave_eq Let_def)
  moreover have "clients_ok C ?s" using assms by (auto simp: cs_inv_def clients_ok_def refreshSlave_eq Let_def)
  moreover have "\<not> ndebug \<Longrightarrow> known_ok C ?s" using assms by (auto simp: cs_inv_def known_ok_def refreshSlave_eq Let_def)
  moreover have "fresh_ok C ?s" using assms by (auto simp: cs_inv_def fresh_ok_def refreshSlave_eq Let_def)
  moreover have "primary_ok C ?s" using assms by (auto simp: cs_inv_def primary_ok_def refreshSlave_eq Let_def)
  moreover have "once \<Longrightarrow> logins_ok L ?s" using assms by (auto simp: cs_inv_def logins_ok_def refreshSlave_eq Let_def)
  ultimately show ?thesis by (simp add: cs_inv_def)
qed

lemma forwardPacket_frame:
  assumes "forwardPacket c body s = Inr s'"
  shows "clients s' = clients s \<and> logics s' = logics s \<and> gAllClientObject s' = gAllClientObject s \<and>
    gAllPrimaryServers s' = gAllPrimaryServers s \<and> gAllSlaveServers s' = gAllSlaveServers s"
  using assms by (auto simp: forwardPacket_def sendThrough_def Let_def split: if_splits option.splits)


lemma client_procPacket_inv:
  assumes inv: "cs_inv once ndebug C L s" and c: "c \<in> C" and now: "(ucast now :: i32) \<noteq> - 1"
    and s1: "(if mRuntimeID (clients s c) = - 1 then claimRuntimeID ndebug cfg now c s else Inr s) = Inr s1"
    and order: "set order = set (gAllPrimaryServers s1)" "length order = length (gAllPrimaryServers s1)"
    and run: "client_procPacket ndebug cfg now rnd order c op body s = Inr s'"
  shows "cs_inv once ndebug C L s'"
proof -
  have 1: "cs_inv once ndebug C L s1" "mRuntimeID (clients s1 c) \<noteq> - 1"
    using s1 claimRuntimeID_inv [OF inv c now] inv by (auto split: if_splits)
  obtain s2 where s2: "(if mPrimaryServerID (clients s1 c) = - 1
      then claimPrimaryServer ndebug rnd order c s1 else Inr s1) = Inr s2"
    and fw: "forwardPacket c body (refreshSlave c s2) = Inr s'"
    using run s1 by (auto simp: client_procPacket_def results)
  have "cs_inv once ndebug C L s2"
    using s2 1 claimPrimaryServer_inv [OF 1(1) c 1(2) order] by (auto split: if_splits)
  from cs_inv_core [OF refreshSlave_inv [OF this c]] forwardPacket_frame [OF fw]
  show ?thesis by blast
qed

lemma client_onClose_inv:
  assumes inv: "cs_inv once ndebug C L s" and c: "c \<in> C"
  shows "cs_inv once ndebug (C - {c}) L (client_onClose c s)"
proof (cases "mRuntimeID (clients s c) = - 1")
  case True
  then show ?thesis using inv by (auto simp: client_onClose_def Let_def cs_inv_def inv_defs)
next
  case False
  let ?s = "client_onClose c s"
  have *: "clients ?s = (clients s)(c := (clients s c)\<lparr>mRuntimeID := - 1\<rparr>)" "logics ?s = logics s"
    "gAllClientObject ?s = um_erase (mRuntimeID (clients s c)) (gAllClientObject s)"
    "gAllPrimaryServers ?s = gAllPrimaryServers s" "gAllSlaveServers ?s = gAllSlaveServers s"
    using False by (simp_all add: client_onClose_def Let_def mgr_defs)
  have "tables_ok ?s" using inv by (simp add: cs_inv_def tables_ok_def *)
  moreover have "clients_ok (C - {c}) ?s" using inv by (auto simp: cs_inv_def clients_ok_def *)
  moreover have "\<not> ndebug \<Longrightarrow> known_ok (C - {c}) ?s"
  proof -
    assume "\<not> ndebug"
    then have k: "known_ok C s" using inv by (simp add: cs_inv_def)
    show ?thesis
      unfolding known_ok_def
    proof (intro ballI impI)
      fix d assume d: "d \<in> C - {c}" "mRuntimeID (clients ?s d) \<noteq> - 1"
      then have "um_find (gAllClientObject s) (mRuntimeID (clients s d)) = Some d"
        using k by (auto simp: known_ok_def *)
      moreover have "mRuntimeID (clients s d) \<noteq> mRuntimeID (clients s c)"
        using k c d False calculation by (fastforce simp: known_ok_def)
      ultimately show "um_find (gAllClientObject ?s) (mRuntimeID (clients ?s d)) = Some d"
        using d by (auto simp: *)
    qed
  qed
  moreover have "fresh_ok (C - {c}) ?s" using inv by (auto simp: cs_inv_def fresh_ok_def *)
  moreover have "primary_ok (C - {c}) ?s" using inv by (auto simp: cs_inv_def primary_ok_def *)
  moreover have "once \<Longrightarrow> logins_ok L ?s" using inv by (auto simp: cs_inv_def logins_ok_def *)
  ultimately show ?thesis by (simp add: cs_inv_def)
qed


lemma client_enter_inv:
  assumes inv: "cs_inv once ndebug C L s" and c: "c \<notin> C"
  shows "cs_inv once ndebug (insert c C) L (upd_client c (\<lambda>_. ConnectionClientSession sock) s)"
proof -
  have "um_find (gAllClientObject s) rid \<noteq> Some c" for rid
    using inv c by (auto simp: cs_inv_def clients_ok_def)
  then show ?thesis using inv by (auto simp: cs_inv_def inv_defs ConnectionClientSession_def)
qed

lemma logic_enter_inv:
  assumes inv: "cs_inv once ndebug C L s" and l: "l \<notin> L"
  shows "cs_inv once ndebug C (insert l L) (upd_logic l (\<lambda>_. LogicServerSession) s)"
  using assms by (auto simp: cs_inv_def inv_defs LogicServerSession_def)

text \<open>A login, with what it reads and decides named.\<close>

lemma onLogicServerLogin_eq:
  assumes "rp_str P rp = (password, rp1)" and "rp_i32 P rp1 = (sid, rp2)" and "rp_bool P rp2 = (isPrimary, rp3)"
  shows "onLogicServerLogin P cfg l rp s =
    (let m = (if isPrimary then gAllPrimaryServers s else gAllSlaveServers s);
         free = (um_live m sid = None);
         m' = (if free then um_set sid (Some l) (um_touch sid m) else um_touch sid m);
         s1 = (if isPrimary then s\<lparr>gAllPrimaryServers := m'\<rparr> else s\<lparr>gAllSlaveServers := m'\<rparr>)
     in if password \<noteq> cfg_password cfg then sendLogicServerLoginResult cfg l False reason_password s
        else if free then sendLogicServerLoginResult cfg l True []
          (upd_logic l (\<lambda>x. x\<lparr>mIsPrimary := isPrimary, mID := sid\<rparr>) s1)
        else sendLogicServerLoginResult cfg l False reason_exists s1)"
  using assms by (auto simp: onLogicServerLogin_def checkPassword_def Find_live AddPrimaryLogicServer_def
      AddSlaveLogicServer_def Let_def)

lemma sendLogin_frame [frame, simp]:
  "clients (sendLogicServerLoginResult cfg l b r s) = clients s"
  "logics (sendLogicServerLoginResult cfg l b r s) = logics s"
  "gAllClientObject (sendLogicServerLoginResult cfg l b r s) = gAllClientObject s"
  "gAllPrimaryServers (sendLogicServerLoginResult cfg l b r s) = gAllPrimaryServers s"
  "gAllSlaveServers (sendLogicServerLoginResult cfg l b r s) = gAllSlaveServers s"
  by (simp_all add: sendLogicServerLoginResult_def)

lemma sendLogin_inv [simp]:
  "cs_inv once ndebug C L (sendLogicServerLoginResult cfg l b r s) = cs_inv once ndebug C L s"
  by (simp add: cs_inv_def inv_defs)

lemma touch_inv:
  assumes "cs_inv once ndebug C L s"
  shows "um_live (gAllPrimaryServers s) sid \<noteq> None \<Longrightarrow>
      cs_inv once ndebug C L (s\<lparr>gAllPrimaryServers := um_touch sid (gAllPrimaryServers s)\<rparr>)"
    and "cs_inv once ndebug C L (s\<lparr>gAllSlaveServers := um_touch sid (gAllSlaveServers s)\<rparr>)"
  using assms by (auto simp: cs_inv_def inv_defs)

lemma claim_primary_inv:
  assumes inv: "cs_inv once ndebug C L s" and l: "l \<in> L"
    and env: "once \<Longrightarrow> mID (logics s l) = - 1 \<and> sid \<noteq> - 1"
    and free: "um_live (gAllPrimaryServers s) sid = None"
  shows "cs_inv once ndebug C L (upd_logic l (\<lambda>x. x\<lparr>mIsPrimary := True, mID := sid\<rparr>)
    (s\<lparr>gAllPrimaryServers := um_set sid (Some l) (um_touch sid (gAllPrimaryServers s))\<rparr>))"
proof -
  let ?s = "upd_logic l (\<lambda>x. x\<lparr>mIsPrimary := True, mID := sid\<rparr>)
    (s\<lparr>gAllPrimaryServers := um_set sid (Some l) (um_touch sid (gAllPrimaryServers s))\<rparr>)"
  have "logins_ok L ?s" if o: once
  proof -
    have lo: "logins_ok L s" using inv o by (simp add: cs_inv_def)
    have old: "um_live (gAllPrimaryServers s) k \<noteq> Some l" "um_live (gAllSlaveServers s) k \<noteq> Some l" for k
      using lo env [OF o] by (auto simp: logins_ok_def)
    show ?thesis
      unfolding logins_ok_def
    proof (intro allI)
      fix k l'
      show "(um_live (gAllPrimaryServers ?s) k = Some l' \<longleftrightarrow>
          l' \<in> L \<and> mID (logics ?s l') = k \<and> mIsPrimary (logics ?s l') \<and> k \<noteq> - 1) \<and>
        (um_live (gAllSlaveServers ?s) k = Some l' \<longleftrightarrow>
          l' \<in> L \<and> mID (logics ?s l') = k \<and> \<not> mIsPrimary (logics ?s l') \<and> k \<noteq> - 1)"
        using lo [unfolded logins_ok_def, rule_format, of k l'] l env [OF o] old [of k] free
        by (cases "l' = l"; cases "k = sid") auto
    qed
  qed
  with inv show ?thesis by (auto simp: cs_inv_def tables_ok_def clients_ok_def known_ok_def fresh_ok_def primary_ok_def)
qed

lemma claim_slave_inv:
  assumes inv: "cs_inv once ndebug C L s" and l: "l \<in> L"
    and env: "once \<Longrightarrow> mID (logics s l) = - 1 \<and> sid \<noteq> - 1"
    and free: "um_live (gAllSlaveServers s) sid = None"
  shows "cs_inv once ndebug C L (upd_logic l (\<lambda>x. x\<lparr>mIsPrimary := False, mID := sid\<rparr>)
    (s\<lparr>gAllSlaveServers := um_set sid (Some l) (um_touch sid (gAllSlaveServers s))\<rparr>))"
proof -
  let ?s = "upd_logic l (\<lambda>x. x\<lparr>mIsPrimary := False, mID := sid\<rparr>)
    (s\<lparr>gAllSlaveServers := um_set sid (Some l) (um_touch sid (gAllSlaveServers s))\<rparr>)"
  have "logins_ok L ?s" if o: once
  proof -
    have lo: "logins_ok L s" using inv o by (simp add: cs_inv_def)
    have old: "um_live (gAllPrimaryServers s) k \<noteq> Some l" "um_live (gAllSlaveServers s) k \<noteq> Some l" for k
      using lo env [OF o] by (auto simp: logins_ok_def)
    show ?thesis
      unfolding logins_ok_def
    proof (intro allI)
      fix k l'
      show "(um_live (gAllPrimaryServers ?s) k = Some l' \<longleftrightarrow>
          l' \<in> L \<and> mID (logics ?s l') = k \<and> mIsPrimary (logics ?s l') \<and> k \<noteq> - 1) \<and>
        (um_live (gAllSlaveServers ?s) k = Some l' \<longleftrightarrow>
          l' \<in> L \<and> mID (logics ?s l') = k \<and> \<not> mIsPrimary (logics ?s l') \<and> k \<noteq> - 1)"
        using lo [unfolded logins_ok_def, rule_format, of k l'] l env [OF o] old [of k] free
        by (cases "l' = l"; cases "k = sid") auto
    qed
  qed
  with inv show ?thesis by (auto simp: cs_inv_def tables_ok_def clients_ok_def known_ok_def fresh_ok_def primary_ok_def)
qed

lemma onLogicServerLogin_inv:
  assumes inv: "cs_inv once ndebug C L s" and l: "l \<in> L"
    and env: "once \<Longrightarrow> mID (logics s l) = - 1 \<and> fst (rp_i32 P (snd (rp_str P rp))) \<noteq> - 1"
  shows "cs_inv once ndebug C L (onLogicServerLogin P cfg l rp s)"
proof -
  obtain password rp1 where 1: "rp_str P rp = (password, rp1)" by fastforce
  obtain sid rp2 where 2: "rp_i32 P rp1 = (sid, rp2)" by fastforce
  obtain isPrimary rp3 where 3: "rp_bool P rp2 = (isPrimary, rp3)" by fastforce
  have env': "once \<Longrightarrow> mID (logics s l) = - 1 \<and> sid \<noteq> - 1" using env 1 2 by simp
  show ?thesis
    unfolding onLogicServerLogin_eq [OF 1 2 3] Let_def
    using inv touch_inv [OF inv, of sid] claim_primary_inv [OF inv l env'] claim_slave_inv [OF inv l env']
    by (cases isPrimary; cases "um_live (gAllPrimaryServers s) sid"; cases "um_live (gAllSlaveServers s) sid";
        cases "password = cfg_password cfg") simp_all
qed

lemma logic_procPacket_inv:
  assumes inv: "cs_inv once ndebug C L s" and l: "l \<in> L" and env: "once \<Longrightarrow> login_once P s l op body"
    and run: "logic_procPacket ndebug P cfg l op body s = Inr s'"
  shows "cs_inv once ndebug C L s'"
proof (cases "op = CONNECTION_SERVER_RECV_LOGICSERVER_LOGIN")
  case True
  then have "s' = onLogicServerLogin P cfg l (rp_open P body) s"
    using run by (simp add: logic_procPacket_def cs_recv_ops)
  moreover have "cs_inv once ndebug C L (onLogicServerLogin P cfg l (rp_open P body) s)"
    by (rule onLogicServerLogin_inv [OF inv l]) (use env True in \<open>simp add: login_once_def\<close>)
  ultimately show ?thesis by simp
next
  case False
  have set_slave: "cs_inv once ndebug C L (setSlaveServerID c sid s)"
    if "um_find (gAllClientObject s) rid = Some c" for c sid rid
    using inv that by (auto simp: setSlaveServerID_def cs_inv_def inv_defs)
  have "cs_inv once ndebug C L (cs_onPing l s)"
    by (rule cs_inv_core [OF inv]) (simp_all add: cs_onPing_def)
  moreover have "cs_inv once ndebug C L (onPacket2ClientBySocketInfo P cfg rp s)" for rp
    by (rule cs_inv_core [OF inv])
      (simp_all add: onPacket2ClientBySocketInfo_def Let_def split: prod.splits option.splits)
  moreover have "onPacket2ClientByRuntimeID P rp s = Inr s' \<Longrightarrow> cs_inv once ndebug C L s'" for rp
    by (rule cs_inv_core [OF inv])
      (auto simp: onPacket2ClientByRuntimeID_def Let_def split: prod.splits option.splits if_splits)
  moreover have "cs_inv once ndebug C L (onSlaveServerIsSetClient P l rp s)" for rp
    using inv set_slave by (simp add: onSlaveServerIsSetClient_def FindClientByRuntimeID_def Let_def
        split: prod.splits option.splits)
  moreover have "cs_inv once ndebug C L (onKickClientByRuntimeID P rp s)" for rp
    by (rule cs_inv_core [OF inv]) (simp_all add: onKickClientByRuntimeID_def)
  ultimately show ?thesis
    using run False inv by (auto simp: logic_procPacket_def Let_def results split: if_splits)
qed

lemma logic_onClose_inv:
  assumes inv: "cs_inv once ndebug C L s" and l: "l \<in> L"
  shows "cs_inv once ndebug C (L - {l}) (logic_onClose order l s)"
proof -
  let ?s = "logic_onClose order l s"
  have *: "clients ?s = clients s" "gAllClientObject ?s = gAllClientObject s"
    "gAllPrimaryServers ?s = (if mID (logics s l) \<noteq> - 1 \<and> mIsPrimary (logics s l)
       then um_erase (mID (logics s l)) (gAllPrimaryServers s) else gAllPrimaryServers s)"
    "gAllSlaveServers ?s = (if mID (logics s l) \<noteq> - 1 \<and> \<not> mIsPrimary (logics s l)
       then um_erase (mID (logics s l)) (gAllSlaveServers s) else gAllSlaveServers s)"
    "\<And>l'. l' \<noteq> l \<Longrightarrow> logics ?s l' = logics s l'"
    by (simp_all add: logic_onClose_def Let_def KickClientOfPrimary_def mgr_defs)
  have "tables_ok ?s" using inv by (simp add: cs_inv_def tables_ok_def *)
  moreover have "clients_ok C ?s" using inv by (simp add: cs_inv_def clients_ok_def *)
  moreover have "\<not> ndebug \<Longrightarrow> known_ok C ?s" using inv by (simp add: cs_inv_def known_ok_def *)
  moreover have "fresh_ok C ?s" using inv by (simp add: cs_inv_def fresh_ok_def *)
  moreover have "primary_ok C ?s" using inv by (auto simp: cs_inv_def primary_ok_def *)
  moreover have "logins_ok (L - {l}) ?s" if o: once
  proof -
    have lo: "(um_live (gAllPrimaryServers s) k = Some l' \<longleftrightarrow>
          l' \<in> L \<and> mID (logics s l') = k \<and> mIsPrimary (logics s l') \<and> k \<noteq> - 1)"
      "(um_live (gAllSlaveServers s) k = Some l' \<longleftrightarrow>
          l' \<in> L \<and> mID (logics s l') = k \<and> \<not> mIsPrimary (logics s l') \<and> k \<noteq> - 1)" for k l'
      using inv o by (auto simp: cs_inv_def logins_ok_def)
    have "um_live (gAllPrimaryServers ?s) k = Some l' \<longleftrightarrow>
          l' \<in> L - {l} \<and> mID (logics ?s l') = k \<and> mIsPrimary (logics ?s l') \<and> k \<noteq> - 1" for k l'
      using lo(1) [of k l'] lo(1) [of k l] l by (cases "l' = l") (auto simp: *)
    moreover have "um_live (gAllSlaveServers ?s) k = Some l' \<longleftrightarrow>
          l' \<in> L - {l} \<and> mID (logics ?s l') = k \<and> \<not> mIsPrimary (logics ?s l') \<and> k \<noteq> - 1" for k l'
      using lo(2) [of k l'] lo(2) [of k l] l by (cases "l' = l") (auto simp: *)
    ultimately show ?thesis unfolding logins_ok_def by blast
  qed
  ultimately show ?thesis by (simp add: cs_inv_def)
qed

lemma cs_step_inv:
  "cs_step once ndebug P cfg y z \<Longrightarrow> cs_inv once ndebug (openC y) (openL y) (sv y) \<Longrightarrow>
   cs_inv once ndebug (openC z) (openL z) (sv z)"
proof (induction rule: cs_step.induct)
  case (client_msg c y now s1 order rnd op body s')
  then show ?case using client_procPacket_inv [OF client_msg.prems client_msg.hyps] by simp
next
  case (logic_msg l y op body s')
  then show ?case using logic_procPacket_inv [of once ndebug _ _ "sv y" l P op body cfg s'] by auto
qed (simp_all add: client_enter_inv client_onClose_inv logic_enter_inv logic_procPacket_inv logic_onClose_inv)

lemma cs_reach_inv: "cs_reach once ndebug P cfg y \<Longrightarrow> cs_inv once ndebug (openC y) (openL y) (sv y)"
proof (induction rule: cs_reach.induct)
  case start
  show ?case by (simp add: cs_init_def cs_inv_def inv_defs)
next
  case (step y z)
  then show ?case by (blast intro: cs_step_inv)
qed

end
