(* ===== verification/ConnProps.thy ===== *)
theory ConnProps
  imports ConnSystem
begin

text \<open>
  What holds of the connection server in every reachable state (ConnSystem), and what its handlers
  do with packets of the documented layout (any packet library that satisfies \<open>packet_codec\<close>).

  The first section builds, step by step, two reachable states that the witnesses evaluate on: one
  logic server (session 0, primary, id 4) and one client (session 0, socket 7).
\<close>

section \<open>A run\<close>

definition demo_cfg :: conn_config where
  "demo_cfg = \<lparr>cfg_id = 1, cfg_password = [112, 119]\<rparr>"

definition demo_login :: bytes where
  "demo_login = [2, 0, 0, 0, 112, 119, 4, 0, 0, 0, 1]"

definition demo_client :: client_session where
  "demo_client = ConnectionClientSession 7"

definition demo_out :: "cs_action list" where
  "demo_out = [SendLogic 0 (Packet TinyPacket 1 [FI32 1, FBool True, FBin []])]"

definition demo1 :: cs_sys where
  "demo1 = \<lparr>sv = \<lparr>clients = (\<lambda>_. ConnectionClientSession (- 1))(0 := demo_client),
     logics = (\<lambda>_. LogicServerSession)(0 := \<lparr>mIsPrimary = True, mID = 4\<rparr>),
     gAllClientObject = [], gAllPrimaryServers = [(4, Some 0)], gAllSlaveServers = [], incRuntimeID = 0,
     out = demo_out\<rparr>, openC = {0}, openL = {0}\<rparr>"

text \<open>The steps with the target state as an equation, to build runs.\<close>

lemma reach_client_enter:
  "cs_reach once ndebug P cfg y \<Longrightarrow> c \<notin> openC y \<Longrightarrow> c \<notin> snd ` set (gAllClientObject (sv y)) \<Longrightarrow>
   z = y\<lparr>sv := upd_client c (\<lambda>_. ConnectionClientSession sock) (sv y), openC := insert c (openC y)\<rparr> \<Longrightarrow>
   cs_reach once ndebug P cfg z"
  using cs_reach.step cs_step.client_enter by blast

lemma reach_logic_enter:
  "cs_reach once ndebug P cfg y \<Longrightarrow> l \<notin> openL y \<Longrightarrow> Some l \<notin> snd ` set (gAllPrimaryServers (sv y)) \<Longrightarrow>
   Some l \<notin> snd ` set (gAllSlaveServers (sv y)) \<Longrightarrow>
   \<forall>c\<in>openC y. mPrimaryServer (clients (sv y) c) \<noteq> Some l \<and> mSlaveServer (clients (sv y) c) \<noteq> Some l \<Longrightarrow>
   z = y\<lparr>sv := upd_logic l (\<lambda>_. LogicServerSession) (sv y), openL := insert l (openL y)\<rparr> \<Longrightarrow>
   cs_reach once ndebug P cfg z"
  using cs_reach.step cs_step.logic_enter by blast

lemma reach_logic_msg:
  "cs_reach once ndebug P cfg y \<Longrightarrow> l \<in> openL y \<Longrightarrow> (once \<longrightarrow> login_once P (sv y) l op body) \<Longrightarrow>
   logic_procPacket ndebug P cfg l op body (sv y) = Inr s' \<Longrightarrow> z = y\<lparr>sv := s'\<rparr> \<Longrightarrow>
   cs_reach once ndebug P cfg z"
  using cs_reach.step cs_step.logic_msg by blast

lemma reach_client_msg:
  "cs_reach once ndebug P cfg y \<Longrightarrow> c \<in> openC y \<Longrightarrow> (ucast now :: i32) \<noteq> - 1 \<Longrightarrow>
   (if mRuntimeID (clients (sv y) c) = - 1 then claimRuntimeID ndebug cfg now c (sv y) else Inr (sv y)) = Inr s1 \<Longrightarrow>
   set order = set (gAllPrimaryServers s1) \<Longrightarrow> length order = length (gAllPrimaryServers s1) \<Longrightarrow>
   client_procPacket ndebug cfg now rnd order c op body (sv y) = Inr s' \<Longrightarrow> z = y\<lparr>sv := s'\<rparr> \<Longrightarrow>
   cs_reach once ndebug P cfg z"
  using cs_reach.step cs_step.client_msg by blast

lemma reach_logic_close:
  "cs_reach once ndebug P cfg y \<Longrightarrow> l \<in> openL y \<Longrightarrow> set order = set (gAllClientObject (sv y)) \<Longrightarrow>
   length order = length (gAllClientObject (sv y)) \<Longrightarrow>
   z = y\<lparr>sv := logic_onClose order l (sv y), openL := openL y - {l}\<rparr> \<Longrightarrow>
   cs_reach once ndebug P cfg z"
  using cs_reach.step cs_step.logic_close by blast

lemmas demo_defs = cs_init_def demo1_def demo_cfg_def demo_login_def demo_client_def demo_out_def
  LogicServerSession_def ConnectionClientSession_def

lemma demo1_reach: "cs_reach once ndebug std_lib demo_cfg demo1"
proof -
  have "cs_reach once ndebug std_lib demo_cfg
      (cs_init\<lparr>openL := {0}\<rparr>)"
    by (rule reach_logic_enter [OF cs_reach.start, where l = 0])
      (simp_all add: cs_init_def upd_logic_def fun_eq_iff)
  then have "cs_reach once ndebug std_lib demo_cfg (demo1\<lparr>openC := {}, sv := (sv demo1)\<lparr>clients := clients (sv cs_init)\<rparr>\<rparr>)"
    by (rule reach_logic_msg [where l = 0 and op = CONNECTION_SERVER_RECV_LOGICSERVER_LOGIN and body = demo_login])
      (simp_all add: demo_defs login_once_def std_eval logic_procPacket_def cs_recv_ops cs_send_ops upd_logic_def
       onLogicServerLogin_eq sendLogicServerLoginResult_def emit_def onLogicServerLogin_def checkPassword_def Find_live Let_def
       AddPrimaryLogicServer_def um_live_def um_find_def um_touch_def um_index_def um_set_def)
  then show ?thesis
    by (rule reach_client_enter [where c = 0 and sock = 7]) (simp_all add: demo_defs upd_client_def)
qed


text \<open>Then the client's first packet, with the draw that finds no primary.\<close>

definition demo_rid :: i64 where
  "demo_rid = 0x900000001"

definition demo2 :: cs_sys where
  "demo2 = \<lparr>sv = \<lparr>clients = (\<lambda>_. ConnectionClientSession (- 1))(0 := demo_client\<lparr>mRuntimeID := demo_rid\<rparr>),
     logics = (\<lambda>_. LogicServerSession)(0 := \<lparr>mIsPrimary = True, mID = 4\<rparr>),
     gAllClientObject = [(demo_rid, 0)], gAllPrimaryServers = [(4, Some 0), (- 1, None)],
     gAllSlaveServers = [], incRuntimeID = 1, out = demo_out\<rparr>, openC = {0}, openL = {0}\<rparr>"

lemmas run_eval = client_procPacket_def claimRuntimeID_def claimPrimaryServer_def refreshSlave_eq
  forwardPacket_def sendThrough_def MakeRuntimeID_def client_runtime_id_def Find_live
  FindClientByRuntimeID_def AddClientByRuntimeID_def ClaimPrimaryLogicServer_def emit_opt_def
  um_live_def um_find_def um_touch_def um_index_def um_set_def Let_def upd_client_def upd_logic_def emit_def
  logic_procPacket_def cs_recv_ops cs_send_ops onLogicServerLogin_def checkPassword_def
  AddPrimaryLogicServer_def AddSlaveLogicServer_def sendLogicServerLoginResult_def

lemma demo2_reach: "cs_reach once ndebug std_lib demo_cfg demo2"
  by (rule reach_client_msg [OF demo1_reach, where c = 0 and now = 9 and rnd = 1 and op = 1 and body = "[]" and
      order = "[(4, Some 0), (- 1, None)]"])
    (simp_all add: demo_defs demo2_def demo_rid_def run_eval fun_eq_iff, auto)

text \<open>
  Then a slave server (session 1, id 9) logs in and takes the client over, and the client's second
  packet draws the primary.
\<close>

definition demo3 :: cs_sys where
  "demo3 = \<lparr>sv = \<lparr>clients = (\<lambda>_. ConnectionClientSession (- 1))(0 := demo_client\<lparr>mRuntimeID := demo_rid,
       mPrimaryServerID := 4, mPrimaryServer := Some 0, mSlaveServerID := 9, mSlaveServer := Some 1\<rparr>),
     logics = (\<lambda>_. LogicServerSession)(0 := \<lparr>mIsPrimary = True, mID = 4\<rparr>, 1 := \<lparr>mIsPrimary = False, mID = 9\<rparr>),
     gAllClientObject = [(demo_rid, 0)], gAllPrimaryServers = [(4, Some 0), (- 1, None)],
     gAllSlaveServers = [(9, Some 1)], incRuntimeID = 1,
     out = demo_out @ [SendLogic 1 (Packet TinyPacket 1 [FI32 1, FBool True, FBin []]),
       SendLogic 0 (Packet BigPacket 4 [FI64 demo_rid, FBin [5]])]\<rparr>, openC = {0}, openL = {0, 1}\<rparr>"

lemma demo3_reach: "cs_reach once ndebug std_lib demo_cfg demo3"
proof -
  let ?s = "sv demo2"
  have "cs_reach once ndebug std_lib demo_cfg (demo2\<lparr>openL := {0, 1}\<rparr>)"
    by (rule reach_logic_enter [OF demo2_reach, where l = 1])
      (auto simp: demo2_def demo_defs upd_logic_def fun_eq_iff)
  then have "cs_reach once ndebug std_lib demo_cfg (demo2\<lparr>openL := {0, 1}, sv := ?s\<lparr>
      gAllSlaveServers := [(9, Some 1)], logics := (logics ?s)(1 := \<lparr>mIsPrimary = False, mID = 9\<rparr>),
      out := demo_out @ [SendLogic 1 (Packet TinyPacket 1 [FI32 1, FBool True, FBin []])]\<rparr>\<rparr>)"
    by (rule reach_logic_msg [where l = 1 and op = CONNECTION_SERVER_RECV_LOGICSERVER_LOGIN and
        body = "[2, 0, 0, 0, 112, 119, 9, 0, 0, 0, 0]"])
      (simp_all add: demo2_def demo_defs login_once_def std_eval run_eval)
  then have "cs_reach once ndebug std_lib demo_cfg (demo2\<lparr>openL := {0, 1}, sv := ?s\<lparr>
      gAllSlaveServers := [(9, Some 1)], logics := (logics ?s)(1 := \<lparr>mIsPrimary = False, mID = 9\<rparr>),
      clients := (clients ?s)(0 := demo_client\<lparr>mRuntimeID := demo_rid, mSlaveServerID := 9\<rparr>),
      out := demo_out @ [SendLogic 1 (Packet TinyPacket 1 [FI32 1, FBool True, FBin []])]\<rparr>\<rparr>)"
    by (rule reach_logic_msg [where l = 1 and op = CONNECTION_SERVER_RECV_IS_SETCLIENT_SLAVEID and
        body = "[1, 0, 0, 0, 9, 0, 0, 0, 1]"])
      (simp_all add: demo2_def demo_defs login_once_def std_eval run_eval onSlaveServerIsSetClient_def
        demo_rid_def setSlaveServerID_def)
  then show ?thesis
    by (rule reach_client_msg [where c = 0 and now = 9 and rnd = 0 and op = 1 and body = "[5]" and
      order = "[(4, Some 0), (- 1, None)]"])
      (simp_all add: demo_defs demo2_def demo3_def demo_rid_def run_eval fun_eq_iff, auto)
qed


section \<open>The tables and the sessions agree\<close>

text \<open>
  C2: In every reachable state, whatever the client table holds under an id is an open session that carries it. In a
  build with \<open>assert\<close> the table is exactly the open sessions that have a runtime id, each under its own id: no id is
  shared, no closed session is found, and no session with an id is lost. (Without \<open>assert\<close> the second part fails once two open sessions
  have drawn the same id.)
\<close>

theorem client_table_exact:
  assumes "cs_reach once ndebug P cfg y"
  shows "(um_find (gAllClientObject (sv y)) rid = Some c \<longrightarrow>
      c \<in> openC y \<and> mRuntimeID (clients (sv y) c) = rid \<and> rid \<noteq> - 1) \<and>
    (\<not> ndebug \<longrightarrow> (um_find (gAllClientObject (sv y)) rid = Some c \<longleftrightarrow>
      c \<in> openC y \<and> mRuntimeID (clients (sv y) c) = rid \<and> rid \<noteq> - 1))"
  using cs_reach_inv [OF assms] by (auto simp: cs_inv_def clients_ok_def known_ok_def)

theorem client_table_exact_witness: "um_find (gAllClientObject (sv demo2)) demo_rid = Some 0"
  using client_table_exact [OF demo2_reach [of False False], of demo_rid 0]
  by (simp add: demo2_def demo_rid_def)

text \<open>
  C3: When every logic server logs in at most once per connection and not with the id -1, the live
  entries of the two server tables are, in every reachable state, exactly the open sessions logged
  in with that role and id. So two open sessions never hold the same role and id.
\<close>

theorem login_table_exact:
  assumes "cs_reach True ndebug P cfg y"
  shows "(um_live (gAllPrimaryServers (sv y)) sid = Some l \<longleftrightarrow>
      l \<in> openL y \<and> mID (logics (sv y) l) = sid \<and> mIsPrimary (logics (sv y) l) \<and> sid \<noteq> - 1) \<and>
    (um_live (gAllSlaveServers (sv y)) sid = Some l \<longleftrightarrow>
      l \<in> openL y \<and> mID (logics (sv y) l) = sid \<and> \<not> mIsPrimary (logics (sv y) l) \<and> sid \<noteq> - 1)"
  using cs_reach_inv [OF assms] by (simp add: cs_inv_def logins_ok_def)

theorem login_table_exact_witness:
  "um_live (gAllPrimaryServers (sv demo3)) 4 = Some 0 \<and> um_live (gAllSlaveServers (sv demo3)) 9 = Some 1"
  using login_table_exact [OF demo3_reach [of True False], of 4 0]
    login_table_exact [OF demo3_reach [of True False], of 9 1]
  by (simp add: demo3_def)

text \<open>
  The restriction is needed. After a second login on one connection the first entry outlives the
  connection.
\<close>

definition demo_stale :: cs_sys where
  "demo_stale = \<lparr>sv = \<lparr>clients = (\<lambda>_. ConnectionClientSession (- 1))(0 := demo_client),
     logics = (\<lambda>_. LogicServerSession),
     gAllClientObject = [], gAllPrimaryServers = [(4, Some 0)], gAllSlaveServers = [], incRuntimeID = 0,
     out = demo_out @ [SendLogic 0 (Packet TinyPacket 1 [FI32 1, FBool True, FBin []])]\<rparr>,
     openC = {0}, openL = {}\<rparr>"

lemma demo_stale_reach: "cs_reach False ndebug std_lib demo_cfg demo_stale"
proof -
  let ?s = "sv demo1"
  have "cs_reach False ndebug std_lib demo_cfg (demo1\<lparr>sv := ?s\<lparr>
      gAllPrimaryServers := [(4, Some 0), (5, Some 0)], logics := (logics ?s)(0 := \<lparr>mIsPrimary = True, mID = 5\<rparr>),
      out := demo_out @ [SendLogic 0 (Packet TinyPacket 1 [FI32 1, FBool True, FBin []])]\<rparr>\<rparr>)"
    by (rule reach_logic_msg [OF demo1_reach, where l = 0 and op = CONNECTION_SERVER_RECV_LOGICSERVER_LOGIN and
        body = "[2, 0, 0, 0, 112, 119, 5, 0, 0, 0, 1]"])
      (simp_all add: demo_defs std_eval run_eval)
  then show ?thesis
    by (rule reach_logic_close [where l = 0 and order = "[]"])
      (simp_all add: demo_stale_def demo_defs logic_onClose_def KickClientOfPrimary_def run_eval
        RemovePrimaryLogicServer_def um_erase_def fun_eq_iff)
qed

text \<open>
  A reachable state of the real code (no restriction on logins): a logic server that logged in
  as 4 and again as 5 has disconnected, no logic server is connected, and the table still holds the
  closed session under 4, so every later login of a primary with id 4 is refused.
\<close>

theorem relogin_blocks_id:
  "\<exists>y. cs_reach False ndebug std_lib demo_cfg y \<and> openL y = {} \<and>
     um_live (gAllPrimaryServers (sv y)) 4 = Some 0 \<and>
     onLogicServerLogin std_lib demo_cfg 1 (rp_open std_lib demo_login) (sv y) =
       sendLogicServerLoginResult demo_cfg 1 False reason_exists (sv y)"
proof (intro exI conjI)
  show "cs_reach False ndebug std_lib demo_cfg demo_stale" by (rule demo_stale_reach)
  show "openL demo_stale = {}" by (simp add: demo_stale_def)
  show "um_live (gAllPrimaryServers (sv demo_stale)) 4 = Some 0"
    by (simp add: demo_stale_def um_live_def um_find_def)
  show "onLogicServerLogin std_lib demo_cfg 1 (rp_open std_lib demo_login) (sv demo_stale) =
       sendLogicServerLoginResult demo_cfg 1 False reason_exists (sv demo_stale)"
    by (simp add: demo_stale_def demo_defs std_eval run_eval)
qed

section \<open>What happens to a client's packet\<close>

text \<open>A session that has a primary id has a primary, so forwarding is decided by the slave pointer.\<close>

lemma forwardPacket_fate:
  assumes "cs_inv once ndebug C L s" and "c \<in> C" and "mPrimaryServerID (clients s c) \<noteq> - 1"
  obtains l where "mPrimaryServer (clients s c) = Some l"
    and "forwardPacket c body s = (if mSlaveServer (clients s c) = None then Inl NullDeref
      else Inr (emit (SendLogic l (Packet BigPacket CONNECTION_SERVER_SEND_LOGICSERVER_FROMCLIENT
        [FI64 (mRuntimeID (clients s c)), FBin body])) s))"
proof -
  obtain l where l: "mPrimaryServer (clients s c) = Some l"
    using assms by (auto simp: cs_inv_def primary_ok_def)
  then show ?thesis
    by (rule that) (use assms(3) l in \<open>auto simp: forwardPacket_def sendThrough_def Let_def\<close>)
qed

text \<open>
  C7: A client that has a runtime id and a primary: in every reachable state its packet goes to the
  primary exactly when a slave server is set for it and known (the swapped null tests of
  \<open>procPacket\<close>); with no slave the handler calls through a null pointer, whatever the packet.
\<close>

theorem assigned_client_packet:
  assumes "cs_reach once ndebug P cfg y" and "c \<in> openC y"
    and "mRuntimeID (clients (sv y) c) \<noteq> - 1" and "mPrimaryServerID (clients (sv y) c) \<noteq> - 1"
  shows "client_procPacket ndebug cfg now rnd order c op body (sv y) =
    (let s = refreshSlave c (sv y); cl = clients s c in
     if mSlaveServer cl = None then Inl NullDeref
     else Inr (emit (SendLogic (the (mPrimaryServer cl))
       (Packet BigPacket CONNECTION_SERVER_SEND_LOGICSERVER_FROMCLIENT [FI64 (mRuntimeID cl), FBin body])) s))"
proof -
  let ?s = "refreshSlave c (sv y)"
  have "cs_inv once ndebug (openC y) (openL y) ?s" using cs_reach_inv [OF assms(1)] assms(2) by (rule refreshSlave_inv)
  moreover have "mPrimaryServerID (clients ?s c) \<noteq> - 1" using assms(4) by (simp add: refreshSlave_eq Let_def)
  ultimately show ?thesis
    using assms(2-4) by (elim forwardPacket_fate [where body = body]) (auto simp: client_procPacket_def Let_def)
qed

theorem assigned_client_packet_witness:
  "client_procPacket False demo_cfg 9 0 [] 0 1 [8] (sv demo3) =
     Inr (emit (SendLogic 0 (Packet BigPacket 4 [FI64 demo_rid, FBin [8]])) (sv demo3))"
  using assigned_client_packet [OF demo3_reach [of True False], of 0 9 0 "[]" 1 "[8]"]
  by (simp add: demo3_def demo_rid_def refreshSlave_eq cs_send_ops Let_def)


text \<open>
  C1: A client's first packet (logic servers log in once per connection, none as -1): the process survives it exactly when
  \<open>ClaimPrimaryLogicServer\<close> draws -1, and then nothing is sent to anybody. Since the lookup of the
  still unset primary id has just put a null entry under -1 into the table, there always is such a
  draw; every draw of a real server ends in a call through the null slave pointer.
\<close>

theorem first_packet:
  assumes "cs_reach True ndebug P cfg y" and "c \<in> openC y" and "mRuntimeID (clients (sv y) c) = - 1"
    and "(ucast now :: i32) \<noteq> - 1" and "claimRuntimeID ndebug cfg now c (sv y) = Inr s1"
    and "set order = set (gAllPrimaryServers s1)" and "length order = length (gAllPrimaryServers s1)"
  shows "(client_procPacket ndebug cfg now rnd order c op body (sv y) = Inl NullDeref \<longleftrightarrow>
      ClaimPrimaryLogicServer rnd order (gAllPrimaryServers s1) \<noteq> - 1) \<and>
    (ClaimPrimaryLogicServer rnd order (gAllPrimaryServers s1) = - 1 \<longrightarrow>
      (\<exists>s'. client_procPacket ndebug cfg now rnd order c op body (sv y) = Inr s' \<and> out s' = out (sv y))) \<and>
    (\<exists>r. ClaimPrimaryLogicServer r order (gAllPrimaryServers s1) = - 1)"
proof -
  let ?sid = "ClaimPrimaryLogicServer rnd order (gAllPrimaryServers s1)"
  have inv: "cs_inv True ndebug (openC y) (openL y) (sv y)" by (rule cs_reach_inv [OF assms(1)])
  have inv1: "cs_inv True ndebug (openC y) (openL y) s1" "mRuntimeID (clients s1 c) \<noteq> - 1"
    "mPrimaryServerID (clients s1 c) = - 1"
    using claimRuntimeID_inv [OF inv assms(2,4,3,5)] by simp_all
  have fresh: "mPrimaryServerID (clients (sv y) c) = - 1" "mSlaveServerID (clients (sv y) c) = - 1"
    using inv assms(2,3) by (simp_all add: cs_inv_def fresh_ok_def)
  have no: "um_live (gAllPrimaryServers (sv y)) (- 1) = None"
    using inv by (cases "um_live (gAllPrimaryServers (sv y)) (- 1)") (auto simp: cs_inv_def logins_ok_def)
  obtain rid where s1: "clients s1 = (clients (sv y))(c := (clients (sv y) c)\<lparr>mRuntimeID := rid, mPrimaryServer := None\<rparr>)"
    "gAllPrimaryServers s1 = um_touch (- 1) (gAllPrimaryServers (sv y))" "out s1 = out (sv y)"
    using claimRuntimeID_Inr [OF assms(5,3)] fresh no by (metis append_Nil2 option.case(1))
  obtain s2 where run2: "claimPrimaryServer ndebug rnd order c s1 = Inr s2"
    using claimPrimaryServer_total [OF inv1(2)] by blast
  have inv2: "cs_inv True ndebug (openC y) (openL y) (refreshSlave c s2)"
    by (rule refreshSlave_inv [OF claimPrimaryServer_inv [OF inv1(1) assms(2) inv1(2) assms(6,7) run2] assms(2)])
  have "s2 = (if ?sid = - 1 then upd_client c (\<lambda>cl. cl\<lparr>mPrimaryServerID := ?sid\<rparr>) s1
    else upd_client c (\<lambda>cl. cl\<lparr>mPrimaryServerID := ?sid, mPrimaryServer := um_live (gAllPrimaryServers s1) ?sid\<rparr>)
      (s1\<lparr>gAllPrimaryServers := um_touch ?sid (gAllPrimaryServers s1)\<rparr>))"
    using claimPrimaryServer_Inr [OF run2 _ inv1(2)] s1 by (simp add: Let_def)
  then have r: "mPrimaryServerID (clients (refreshSlave c s2) c) = ?sid"
    "mSlaveServer (clients (refreshSlave c s2) c) = None" "out (refreshSlave c s2) = out (sv y)"
    using fresh s1 by (simp_all add: refreshSlave_eq Let_def)
  have run: "client_procPacket ndebug cfg now rnd order c op body (sv y) = forwardPacket c body (refreshSlave c s2)"
    using assms(3,5) run2 inv1(3) by (simp add: client_procPacket_def)
  have fate: "?sid \<noteq> - 1 \<Longrightarrow> forwardPacket c body (refreshSlave c s2) = Inl NullDeref"
    using r forwardPacket_fate [OF inv2 assms(2), of body] by metis
  have drop: "?sid = - 1 \<Longrightarrow> forwardPacket c body (refreshSlave c s2) = Inr (refreshSlave c s2)"
    using r by (simp add: forwardPacket_def Let_def)
  have "um_find (gAllPrimaryServers s1) (- 1) = Some None" using s1 no by simp
  then have "- 1 \<in> fst ` set (gAllPrimaryServers s1)" by (force simp: um_find_def dest: map_of_SomeD)
  then have "\<exists>r. ClaimPrimaryLogicServer r order (gAllPrimaryServers s1) = - 1"
    by (rule ClaimPrimary_every [OF assms(6,7)])
  with run fate drop r(3) show ?thesis by auto
qed

theorem first_packet_witness:
  "client_procPacket False demo_cfg 9 0 [(4, Some 0), (- 1, None)] 0 1 [] (sv demo1) = Inl NullDeref"
proof -
  obtain s1 where s1: "claimRuntimeID False demo_cfg 9 0 (sv demo1) = Inr s1"
    "gAllPrimaryServers s1 = [(4, Some 0), (- 1, None)]"
    by (simp add: demo_defs run_eval)
  show ?thesis
    using first_packet [OF demo1_reach [of True False], of 0 9 s1 "[(4, Some 0), (- 1, None)]" 0] s1
    by (simp add: demo1_def demo_client_def ConnectionClientSession_def ClaimPrimaryLogicServer_def)
qed


section \<open>No logic server is told about a new client\<close>

definition no_mirror :: "cs_action list \<Rightarrow> bool" where
  "no_mirror as \<longleftrightarrow> (\<forall>l p. SendLogic l p \<in> set as \<longrightarrow>
     pk_op p \<noteq> CONNECTION_SERVER_SEND_LOGICSERVER_INIT_CLIENTMIRROR)"

lemma no_mirror_simps [simp]:
  "no_mirror []" "no_mirror (as @ bs) \<longleftrightarrow> no_mirror as \<and> no_mirror bs"
  "no_mirror [SendLogic l p] \<longleftrightarrow> pk_op p \<noteq> CONNECTION_SERVER_SEND_LOGICSERVER_INIT_CLIENTMIRROR"
  "no_mirror [SendSocket sock b]" "no_mirror [DisConnect sock]"
  by (auto simp: no_mirror_def)

lemma Kick_no_mirror [simp]: "no_mirror (out (KickClientByRuntimeID r s)) = no_mirror (out s)"
  by (simp add: KickClientByRuntimeID_def Let_def split: option.splits)

lemma kick_scan_no_mirror [simp]: "no_mirror (out (kick_scan k vs s)) = no_mirror (out s)"
  by (induction k vs s rule: kick_scan.induct) simp_all

lemma socketinfo_loop_no_mirror [simp]: "no_mirror (out (socketinfo_loop P cfg p n rp s)) = no_mirror (out s)"
  by (induction P cfg p n rp s rule: socketinfo_loop.induct) (simp_all split: prod.splits)

lemma runtimeid_loop_no_mirror [simp]: "no_mirror (out (runtimeid_loop P p n rp s)) = no_mirror (out s)"
  by (induction P p n rp s rule: runtimeid_loop.induct) (simp_all add: Let_def split: prod.splits option.splits)

lemma logic_procPacket_no_mirror:
  "logic_procPacket ndebug P cfg l op body s = Inr s' \<Longrightarrow> no_mirror (out s) \<Longrightarrow> no_mirror (out s')"
  by (auto simp: logic_procPacket_def cs_onPing_def onLogicServerLogin_def onPacket2ClientBySocketInfo_def
      onPacket2ClientByRuntimeID_def onSlaveServerIsSetClient_def onKickClientByRuntimeID_def
      sendLogicServerLoginResult_def setSlaveServerID_def cs_send_ops Let_def results
      split: if_splits prod.splits option.splits)

lemma client_procPacket_no_mirror:
  assumes inv: "cs_inv once ndebug C L s" and c: "c \<in> C" and q: "no_mirror (out s)"
    and no: "um_live (gAllPrimaryServers s) (- 1) = None"
    and run: "client_procPacket ndebug cfg now rnd order c op body s = Inr s'"
  shows "no_mirror (out s')"
proof -
  obtain s1 s2 where s1: "(if mRuntimeID (clients s c) = - 1 then claimRuntimeID ndebug cfg now c s else Inr s) = Inr s1"
    and s2: "(if mPrimaryServerID (clients s1 c) = - 1
      then claimPrimaryServer ndebug rnd order c s1 else Inr s1) = Inr s2"
    and fw: "forwardPacket c body (refreshSlave c s2) = Inr s'"
    using run by (auto simp: client_procPacket_def results)
  have "out s1 = out s"
  proof (cases "mRuntimeID (clients s c) = - 1")
    case True
    then have "mPrimaryServerID (clients s c) = - 1" using inv c by (simp add: cs_inv_def fresh_ok_def)
    with s1 True no have "claimRuntimeID ndebug cfg now c s = Inr s1"
      "um_live (gAllPrimaryServers s) (mPrimaryServerID (clients s c)) = None" by simp_all
    then show ?thesis using True by (elim claimRuntimeID_Inr) simp_all
  qed (use s1 in simp)
  moreover have "out s2 = out s1"
    using s2 by (auto simp: claimPrimaryServer_def Find_live Let_def results split: if_splits)
  ultimately have "no_mirror (out (refreshSlave c s2))" using q by (simp add: refreshSlave_eq Let_def)
  with fw show ?thesis
    by (auto simp: forwardPacket_def sendThrough_def cs_send_ops Let_def split: if_splits option.splits)
qed

text \<open>A server that has registered under -1 stays in the table: a session whose id is -1 removes nothing.\<close>

lemma login_minus1_stays:
  assumes "um_live (gAllPrimaryServers (onLogicServerLogin P cfg l rp s)) (- 1) = None"
  shows "um_live (gAllPrimaryServers s) (- 1) = None"
proof (rule ccontr)
  assume "um_live (gAllPrimaryServers s) (- 1) \<noteq> None"
  then show False using assms
    by (auto simp: onLogicServerLogin_def sendLogicServerLoginResult_def AddPrimaryLogicServer_def Find_live Let_def
        split: prod.splits if_splits)
qed

lemma minus1_stays:
  assumes "cs_step once ndebug P cfg y z" and "um_live (gAllPrimaryServers (sv z)) (- 1) = None"
  shows "um_live (gAllPrimaryServers (sv y)) (- 1) = None"
  using assms
proof cases
  case (client_msg c now s1 order rnd op body s')
  then obtain s1 s2 where "(if mRuntimeID (clients (sv y) c) = - 1 then claimRuntimeID ndebug cfg now c (sv y) else Inr (sv y)) = Inr s1"
    and "(if mPrimaryServerID (clients s1 c) = - 1 then claimPrimaryServer ndebug rnd order c s1 else Inr s1) = Inr s2"
    and "forwardPacket c body (refreshSlave c s2) = Inr s'"
    by (auto simp: client_procPacket_def results)
  moreover from this(1) have "um_live (gAllPrimaryServers s1) k = um_live (gAllPrimaryServers (sv y)) k" for k
    by (cases "mRuntimeID (clients (sv y) c) = - 1") (auto elim: claimRuntimeID_Inr)
  ultimately show ?thesis using client_msg assms(2)
    by (auto simp: claimPrimaryServer_def refreshSlave_eq forwardPacket_def sendThrough_def Find_live Let_def results
        split: if_splits option.splits)
next
  case (logic_msg l op body s')
  then show ?thesis using assms(2)
    by (auto dest: login_minus1_stays simp: logic_procPacket_def cs_onPing_def onPacket2ClientBySocketInfo_def
      onPacket2ClientByRuntimeID_def onSlaveServerIsSetClient_def onKickClientByRuntimeID_def setSlaveServerID_def Let_def results
      split: if_splits prod.splits option.splits)
next
  case (logic_close l order)
  then show ?thesis using assms(2)
    by (auto simp: logic_onClose_def KickClientOfPrimary_def RemovePrimaryLogicServer_def Let_def split: if_splits)
next
  case (client_close c)
  then show ?thesis using assms(2) by (simp add: client_onClose_def Let_def split: option.splits if_splits)
qed simp_all

lemma cs_reach_no_mirror:
  "cs_reach once ndebug P cfg y \<Longrightarrow> um_live (gAllPrimaryServers (sv y)) (- 1) = None \<Longrightarrow> no_mirror (out (sv y))"
proof (induction rule: cs_reach.induct)
  case start
  show ?case by (simp add: cs_init_def)
next
  case (step y z)
  note inv = cs_reach_inv [OF step.hyps(1)]
  have no: "um_live (gAllPrimaryServers (sv y)) (- 1) = None" by (rule minus1_stays [OF step.hyps(2) step.prems])
  note IH = step.IH [OF no]
  from step.hyps(2) show ?case
  proof cases
    case (client_msg c now s1 order rnd op body s')
    then show ?thesis using client_procPacket_no_mirror [OF inv _ IH no] by simp
  next
    case (client_close c)
    then show ?thesis using IH
      by (simp add: client_onClose_def cs_send_ops Let_def split: option.splits)
  next
    case (logic_msg l op body s')
    then show ?thesis using logic_procPacket_no_mirror IH by simp
  next
    case (logic_close l order)
    then show ?thesis using IH by (simp add: logic_onClose_def KickClientOfPrimary_def Let_def)
  qed (use IH in simp_all)
qed

text \<open>
  C18: In no run, however often logic servers log in on a connection, does the connection server send
  \<open>INIT_CLIENTMIRROR\<close> to anybody, unless some primary has registered under the id -1 (one that has stays in the
  table, so that the last state tells): \<open>claimRuntimeID\<close>, the only sender, looks the client's
  primary up before \<open>claimPrimaryServer\<close> has chosen it. No logic server learns a client's socket id.
\<close>

theorem never_INIT_CLIENTMIRROR:
  assumes "cs_reach once ndebug P cfg y" and "um_live (gAllPrimaryServers (sv y)) (- 1) = None"
  shows "SendLogic l (Packet cls CONNECTION_SERVER_SEND_LOGICSERVER_INIT_CLIENTMIRROR fs) \<notin> set (out (sv y))"
  using cs_reach_no_mirror [OF assms] by (fastforce simp: no_mirror_def)

theorem never_INIT_CLIENTMIRROR_witness:
  "SendLogic 0 (Packet BigPacket CONNECTION_SERVER_SEND_LOGICSERVER_INIT_CLIENTMIRROR [FI64 7, FI64 demo_rid])
     \<notin> set (out (sv demo3))"
  by (rule never_INIT_CLIENTMIRROR [OF demo3_reach [of False False]]) (simp add: demo3_def um_live_def um_find_def)

section \<open>Disconnects\<close>

lemma kick_scan_out:
  assumes "\<forall>p\<in>set vs. um_find (gAllClientObject s) (mRuntimeID (clients s (snd p))) = Some (snd p)"
  shows "out (kick_scan k vs s) = out s @ map (\<lambda>p. DisConnect (mSocketID (clients s (snd p))))
    (filter (\<lambda>p. mPrimaryServerID (clients s (snd p)) = k \<and> mSocketID (clients s (snd p)) \<noteq> - 1) vs)"
  using assms
proof (induction k vs s rule: kick_scan.induct)
  case (2 k v vs s)
  let ?s = "KickClientByRuntimeID (mRuntimeID (clients s (snd v))) s"
  have v: "out ?s = out s @ (if mSocketID (clients s (snd v)) \<noteq> - 1 then [DisConnect (mSocketID (clients s (snd v)))] else [])"
    using 2(3) by (simp add: KickClientByRuntimeID_def FindClientByRuntimeID_def Let_def)
  show ?case using 2 v by simp
qed simp

text \<open>
  When the connection of a primary logic server closes, in any reachable state, the connection
  server asks the network to close exactly the sockets of the clients assigned to that primary,
  each once, in the order of the table, and forgets the server; nothing else is sent.
\<close>

theorem primary_close_kicks:
  assumes "cs_reach once ndebug P cfg y" and "set order = set (gAllClientObject (sv y))"
    and "mID (logics (sv y) l) = sid" and "sid \<noteq> - 1" and "mIsPrimary (logics (sv y) l)"
  shows "out (logic_onClose order l (sv y)) = out (sv y) @
      map (\<lambda>p. DisConnect (mSocketID (clients (sv y) (snd p))))
        (filter (\<lambda>p. mPrimaryServerID (clients (sv y) (snd p)) = sid \<and> mSocketID (clients (sv y) (snd p)) \<noteq> - 1) order) \<and>
    um_live (gAllPrimaryServers (logic_onClose order l (sv y))) sid = None"
proof -
  have inv: "tables_ok (sv y)" "clients_ok (openC y) (sv y)"
    using cs_reach_inv [OF assms(1)] by (simp_all add: cs_inv_def)
  have "um_find (gAllClientObject (sv y)) (mRuntimeID (clients (sv y) (snd p))) = Some (snd p)"
    if "p \<in> set order" for p
  proof -
    have "um_find (gAllClientObject (sv y)) (fst p) = Some (snd p)"
      using that assms(2) inv(1) um_in_find [of "gAllClientObject (sv y)" "fst p" "snd p"] by (simp add: tables_ok_def)
    then show ?thesis using inv(2) by (auto simp: clients_ok_def)
  qed
  then show ?thesis
    using assms kick_scan_out [of order "sv y" sid]
    by (simp add: logic_onClose_def KickClientOfPrimary_def Let_def RemovePrimaryLogicServer_def)
qed

theorem primary_close_kicks_witness:
  "out (logic_onClose [(demo_rid, 0)] 0 (sv demo3)) = out (sv demo3) @ [DisConnect 7]"
  using primary_close_kicks [OF demo3_reach [of True False], of "[(demo_rid, 0)]" 0 4]
  by (simp add: demo3_def demo_client_def ConnectionClientSession_def)



end
