(* ===== verification/ConnWire.thy ===== *)
theory ConnWire
  imports ConnProps
begin

text \<open>
  The connection server's handlers on whole packets: what the bytes a logic server sent do, for any
  packet library with the contract \<open>packet_codec\<close>. And the one place where two handlers of
  different threads meet without a common lock: two logins with the same id.
\<close>

lemma logic_session_set: "r\<lparr>mIsPrimary := a, mID := b\<rparr> = \<lparr>mIsPrimary = a, mID = b\<rparr>" for r :: logic_session
  by (cases r) simp

fun socket_fields :: "(i32 \<times> i64) list \<Rightarrow> field list" where
  "socket_fields [] = []"
| "socket_fields (d # ds) = FI32 (fst d) # FI64 (snd d) # socket_fields ds"

text \<open>The socket a runtime id leads to: none if nobody has the id, or the client has no socket.\<close>

definition client_socket :: "conn_server \<Rightarrow> i64 \<Rightarrow> i64 option" where
  "client_socket s rid = (case um_find (gAllClientObject s) rid of None \<Rightarrow> None
     | Some c \<Rightarrow> if mSocketID (clients s c) = - 1 then None else Some (mSocketID (clients s c)))"

lemma client_socket_emit [simp]: "client_socket (emit a s) = client_socket s"
  by (auto simp: client_socket_def fun_eq_iff split: option.splits)

context packet_codec
begin

lemma rem_handler: "fits p \<Longrightarrow> rem (rp_open P (drop (head_len P) (pk_bytes P p))) (pk_fields p)"
  by (rule rem_body)

lemma login_reads:
  assumes "rem rp [FBin pw, FI32 sid, FBool isP]"
  obtains rp1 rp2 rp3 where "rp_str P rp = (pw, rp1)" "rp_i32 P rp1 = (sid, rp2)" "rp_bool P rp2 = (isP, rp3)"
  using assms by (elim take_str take_i32 take_bool) blast

lemma login_result:
  assumes "rem rp [FBin pw, FI32 sid, FBool isP]"
    and "live = um_live (if isP then gAllPrimaryServers s else gAllSlaveServers s)"
    and "ok \<longleftrightarrow> pw = cfg_password cfg \<and> live sid = None"
    and "s' = onLogicServerLogin P cfg l rp s"
  shows "um_live (if isP then gAllPrimaryServers s' else gAllSlaveServers s') = (if ok then live(sid \<mapsto> l) else live)"
    and "um_live (if isP then gAllSlaveServers s' else gAllPrimaryServers s') =
      um_live (if isP then gAllSlaveServers s else gAllPrimaryServers s)"
    and "logics s' = (if ok then (logics s)(l := \<lparr>mIsPrimary = isP, mID = sid\<rparr>) else logics s)"
    and "out s' = out s @ [SendLogic l (Packet TinyPacket CONNECTION_SERVER_SEND_LOGICSERVER_RECVCSID
      [FI32 (cfg_id cfg), FBool ok,
       FBin (if ok then [] else if pw = cfg_password cfg then reason_exists else reason_password)])]"
proof -
  obtain rp1 rp2 rp3 where r: "rp_str P rp = (pw, rp1)" "rp_i32 P rp1 = (sid, rp2)" "rp_bool P rp2 = (isP, rp3)"
    using login_reads [OF assms(1)] .
  note s' = assms(4) [unfolded onLogicServerLogin_eq [OF r] Let_def]
  show "um_live (if isP then gAllPrimaryServers s' else gAllSlaveServers s') = (if ok then live(sid \<mapsto> l) else live)"
    using assms(2,3) by (auto simp: s' fun_eq_iff)
  show "um_live (if isP then gAllSlaveServers s' else gAllPrimaryServers s') =
      um_live (if isP then gAllSlaveServers s else gAllPrimaryServers s)"
    by (auto simp: s' fun_eq_iff)
  show "logics s' = (if ok then (logics s)(l := \<lparr>mIsPrimary = isP, mID = sid\<rparr>) else logics s)"
    using assms(2,3) by (auto simp: s' logic_session_set)
  show "out s' = out s @ [SendLogic l (Packet TinyPacket CONNECTION_SERVER_SEND_LOGICSERVER_RECVCSID
      [FI32 (cfg_id cfg), FBool ok,
       FBin (if ok then [] else if pw = cfg_password cfg then reason_exists else reason_password)])]"
    using assms(2,3) by (auto simp: s' sendLogicServerLoginResult_def)
qed

lemma socketinfo_loop_sends:
  "rem rp (socket_fields ds) \<Longrightarrow> out (socketinfo_loop P cfg b (length ds) rp s) =
     out s @ map (\<lambda>d. SendSocket (snd d) b) (filter (\<lambda>d. fst d = cfg_id cfg) ds)"
proof (induction ds arbitrary: rp s)
  case (Cons d ds)
  from Cons.prems have "rem rp (FI32 (fst d) # FI64 (snd d) # socket_fields ds)" by simp
  then show ?case by (elim take_i32 take_i64) (simp add: Cons.IH)
qed simp

lemma runtimeid_loop_sends:
  "rem rp (map FI64 rids) \<Longrightarrow> out (runtimeid_loop P b (length rids) rp s) =
     out s @ map (\<lambda>sock. SendSocket sock b) (List.map_filter (client_socket s) rids)"
proof (induction rids arbitrary: rp s)
  case (Cons rid rids)
  from Cons.prems have "rem rp (FI64 rid # map FI64 rids)" by simp
  then obtain rp1 where 1: "rp_i64 P rp = (rid, rp1)" "rem rp1 (map FI64 rids)" by (rule take_i64)
  show ?case
    using 1 by (cases "um_find (gAllClientObject s) rid") (simp_all add: Cons.IH FindClientByRuntimeID_def Let_def client_socket_def [of s rid] List.map_filter_simps)
qed (simp add: List.map_filter_simps)

lemma count_read:
  assumes "rem rp (FBin b # FI16 n # fs)"
  obtains rp1 rp2 where "rp_bin P rp = (Some b, rp1)" "rp_i16 P rp1 = (n, rp2)" "rem rp2 fs"
  using assms by (elim take_bin take_i16) blast

end

lemma sint_count: "k < 2 ^ 15 \<Longrightarrow> nat (sint (of_nat k :: i16)) = k"
proof -
  assume k: "k < 2 ^ 15"
  have "sint (of_nat k :: i16) = signed_take_bit 15 (int k)" by (simp add: signed_of_nat)
  also have "\<dots> = int k" using k by (simp add: signed_take_bit_int_eq_self_iff)
  finally show ?thesis by simp
qed

section \<open>Login\<close>

text \<open>
  C19: A login packet decides as documented: the session is registered under its role and id exactly
  when the password is right and nobody holds the id; otherwise neither the tables' live entries
  nor any session change. The reply carries the server's id, the outcome and the reason.
\<close>

theorem login_effect:
  assumes "packet_codec P fits rem" and "fits p"
    and "p = Packet cls CONNECTION_SERVER_RECV_LOGICSERVER_LOGIN [FBin pw, FI32 sid, FBool isP]"
    and "live = um_live (if isP then gAllPrimaryServers s else gAllSlaveServers s)"
    and "ok \<longleftrightarrow> pw = cfg_password cfg \<and> live sid = None"
  shows "\<exists>s'. logic_procPacket ndebug P cfg l (pk_op p) (drop (head_len P) (pk_bytes P p)) s = Inr s' \<and>
    um_live (if isP then gAllPrimaryServers s' else gAllSlaveServers s') = (if ok then live(sid \<mapsto> l) else live) \<and>
    um_live (if isP then gAllSlaveServers s' else gAllPrimaryServers s') =
      um_live (if isP then gAllSlaveServers s else gAllPrimaryServers s) \<and>
    logics s' = (if ok then (logics s)(l := \<lparr>mIsPrimary = isP, mID = sid\<rparr>) else logics s) \<and>
    out s' = out s @ [SendLogic l (Packet TinyPacket CONNECTION_SERVER_SEND_LOGICSERVER_RECVCSID
      [FI32 (cfg_id cfg), FBool ok,
       FBin (if ok then [] else if pw = cfg_password cfg then reason_exists else reason_password)])]"
proof -
  let ?rp = "rp_open P (drop (head_len P) (pk_bytes P p))"
  have "rem ?rp [FBin pw, FI32 sid, FBool isP]"
    using packet_codec.rem_handler [OF assms(1,2)] assms(3) by simp
  note r = packet_codec.login_result [OF assms(1) this assms(4,5) refl]
  have run: "logic_procPacket ndebug P cfg l (pk_op p) (drop (head_len P) (pk_bytes P p)) s =
      Inr (onLogicServerLogin P cfg l ?rp s)"
    using assms(3) by (simp add: logic_procPacket_def cs_recv_ops)
  show ?thesis
    unfolding run by (rule exI [of _ "onLogicServerLogin P cfg l ?rp s"]) (intro conjI refl r)
qed

text \<open>In the run of the demonstration, a second server asks for the id 4 that session 0 holds.\<close>

theorem login_effect_witness:
  "\<exists>s'. logic_procPacket False std_lib demo_cfg 1 0 demo_login (sv demo1) = Inr s' \<and>
     um_live (gAllPrimaryServers s') = um_live (gAllPrimaryServers (sv demo1)) \<and>
     out s' = out (sv demo1) @ [SendLogic 1 (Packet TinyPacket 1 [FI32 1, FBool False, FBin reason_exists])]"
proof -
  let ?p = "Packet TinyPacket CONNECTION_SERVER_RECV_LOGICSERVER_LOGIN [FBin [112, 119], FI32 4, FBool True]"
  have "std_fits ?p" by (simp add: std_eval cs_recv_ops)
  from login_effect [OF std.packet_codec_axioms this refl refl refl, of False demo_cfg 1 "sv demo1"]
  obtain s' where *: "logic_procPacket False std_lib demo_cfg 1 (pk_op ?p) (drop (head_len std_lib) (pk_bytes std_lib ?p)) (sv demo1) = Inr s'"
    "um_live (gAllPrimaryServers s') = um_live (gAllPrimaryServers (sv demo1))"
    "out s' = out (sv demo1) @ [SendLogic 1 (Packet TinyPacket 1 [FI32 1, FBool False, FBin reason_exists])]"
    by (auto simp: demo1_def demo_cfg_def um_live_def um_find_def cs_send_ops)
  have "drop 6 (std_bytes ?p) = demo_login" by (simp add: std_bytes_drop6 demo_login_def std_eval)
  with * show ?thesis by (intro exI [of _ s']) (simp add: cs_recv_ops)
qed

section \<open>Packets to clients\<close>

text \<open>
  A packet addressed by socket is sent, unchanged, to exactly the destinations that name this
  connection server, in order, one \<open>send\<close> each; destinations of other connection servers are skipped.
\<close>

theorem socketinfo_sends:
  assumes "packet_codec P fits rem" and "fits p" and "length ds < 2 ^ 15"
    and "p = Packet cls CONNECTION_SERVER_RECV_PACKET2CLIENT_BYSOCKINFO
      (FBin b # FI16 (of_nat (length ds)) # socket_fields ds)"
  shows "\<exists>s'. logic_procPacket ndebug P cfg l (pk_op p) (drop (head_len P) (pk_bytes P p)) s = Inr s' \<and>
    out s' = out s @ map (\<lambda>d. SendSocket (snd d) b) (filter (\<lambda>d. fst d = cfg_id cfg) ds)"
proof -
  let ?rp = "rp_open P (drop (head_len P) (pk_bytes P p))"
  have "rem ?rp (FBin b # FI16 (of_nat (length ds)) # socket_fields ds)"
    using packet_codec.rem_handler [OF assms(1,2)] assms(4) by simp
  then obtain rp1 rp2 where "rp_bin P ?rp = (Some b, rp1)" "rp_i16 P rp1 = (of_nat (length ds), rp2)"
    "rem rp2 (socket_fields ds)"
    by (rule packet_codec.count_read [OF assms(1)])
  then show ?thesis
    using assms(3,4) packet_codec.socketinfo_loop_sends [OF assms(1), of rp2 ds cfg b s]
    by (simp add: logic_procPacket_def cs_recv_ops onPacket2ClientBySocketInfo_def Let_def sint_count)
qed

theorem socketinfo_sends_witness:
  "\<exists>s'. logic_procPacket False std_lib demo_cfg 0 2
      [1, 0, 0, 0, 42, 2, 0, 9, 0, 0, 0, 5, 0, 0, 0, 0, 0, 0, 0, 1, 0, 0, 0, 7, 0, 0, 0, 0, 0, 0, 0] (sv demo1) = Inr s' \<and>
     out s' = out (sv demo1) @ [SendSocket 7 [42]]"
proof -
  let ?ds = "[(9, 5), (1, 7)] :: (i32 \<times> i64) list"
  let ?p = "Packet BigPacket CONNECTION_SERVER_RECV_PACKET2CLIENT_BYSOCKINFO
    (FBin [42] # FI16 (of_nat (length ?ds)) # socket_fields ?ds)"
  have "std_fits ?p" by (simp add: std_eval cs_recv_ops)
  from socketinfo_sends [OF std.packet_codec_axioms this _ refl, of False demo_cfg 0 "sv demo1"]
  obtain s' where *: "logic_procPacket False std_lib demo_cfg 0 2 (drop 6 (std_bytes ?p)) (sv demo1) = Inr s'"
    "out s' = out (sv demo1) @ [SendSocket 7 [42]]"
    by (auto simp: demo_cfg_def cs_recv_ops)
  have "drop 6 (std_bytes ?p) = [1, 0, 0, 0, 42, 2, 0, 9, 0, 0, 0, 5, 0, 0, 0, 0, 0, 0, 0, 1, 0, 0, 0, 7, 0, 0, 0, 0, 0, 0, 0]"
    by (simp add: std_bytes_drop6 std_eval)
  with * show ?thesis by simp
qed

text \<open>
  A packet addressed by runtime id, when it embeds a whole packet \<open>q\<close>: \<open>q\<close> is sent, unchanged,
  once for each id in the list that belongs to a connected client, to that client's socket. When
  the embedded bytes claim in their header more than there are, the handler reads past them.
\<close>

theorem runtimeid_sends:
  assumes "packet_codec P fits rem" and "fits p" and "length rids < 2 ^ 15"
    and "p = Packet cls CONNECTION_SERVER_RECV_PACKET2CLIENT_BYRUNTIMEID
      (FBin b # FI16 (of_nat (length rids)) # map FI64 rids)"
  shows "(fits q \<longrightarrow> b = pk_bytes P q \<longrightarrow>
      (\<exists>s'. logic_procPacket ndebug P cfg l (pk_op p) (drop (head_len P) (pk_bytes P p)) s = Inr s' \<and>
        out s' = out s @ map (\<lambda>sock. SendSocket sock b) (List.map_filter (client_socket s) rids))) \<and>
    (length b < fst (rp_len P (rp_open P b)) \<longrightarrow>
      logic_procPacket ndebug P cfg l (pk_op p) (drop (head_len P) (pk_bytes P p)) s = Inl OutOfBounds)"
proof -
  let ?rp = "rp_open P (drop (head_len P) (pk_bytes P p))"
  have "rem ?rp (FBin b # FI16 (of_nat (length rids)) # map FI64 rids)"
    using packet_codec.rem_handler [OF assms(1,2)] assms(4) by simp
  then obtain rp1 rp2 where r: "rp_bin P ?rp = (Some b, rp1)" "rp_i16 P rp1 = (of_nat (length rids), rp2)"
    "rem rp2 (map FI64 rids)"
    by (rule packet_codec.count_read [OF assms(1)])
  have run: "logic_procPacket ndebug P cfg l (pk_op p) (drop (head_len P) (pk_bytes P p)) s =
      (if fst (rp_len P (rp_open P b)) \<le> length b
       then Inr (runtimeid_loop P (take (fst (rp_len P (rp_open P b))) b) (length rids) rp2 s) else Inl OutOfBounds)"
    using assms(3,4) r by (simp add: logic_procPacket_def cs_recv_ops onPacket2ClientByRuntimeID_def Let_def sint_count)
  show ?thesis
    using run packet_codec.runtimeid_loop_sends [OF assms(1) r(3), of b s] packet_codec.read_len [OF assms(1), of q]
    by auto
qed

theorem runtimeid_sends_witness:
  "logic_procPacket False std_lib demo_cfg 0 3
      [6, 0, 0, 0, 7, 0, 0, 0, 2, 0, 1, 0, 1, 0, 0, 0, 9, 0, 0, 0] (sv demo3) = Inl OutOfBounds \<and>
   (\<exists>s'. logic_procPacket False std_lib demo_cfg 0 3
      [6, 0, 0, 0, 6, 0, 0, 0, 2, 0, 1, 0, 1, 0, 0, 0, 9, 0, 0, 0] (sv demo3) = Inr s' \<and>
     out s' = out (sv demo3) @ [SendSocket 7 [6, 0, 0, 0, 2, 0]])"
proof -
  let ?p = "\<lambda>b. Packet BigPacket CONNECTION_SERVER_RECV_PACKET2CLIENT_BYRUNTIMEID
    (FBin b # FI16 (of_nat (length [demo_rid])) # map FI64 [demo_rid])"
  have fits: "std_fits (?p [7, 0, 0, 0, 2, 0])" "std_fits (?p [6, 0, 0, 0, 2, 0])"
    by (simp_all add: std_eval cs_recv_ops)
  have b: "drop 6 (std_bytes (?p [7, 0, 0, 0, 2, 0])) = [6, 0, 0, 0, 7, 0, 0, 0, 2, 0, 1, 0, 1, 0, 0, 0, 9, 0, 0, 0]"
    "drop 6 (std_bytes (?p [6, 0, 0, 0, 2, 0])) = [6, 0, 0, 0, 6, 0, 0, 0, 2, 0, 1, 0, 1, 0, 0, 0, 9, 0, 0, 0]"
    by (simp_all add: std_bytes_drop6 std_eval demo_rid_def)
  have q: "std_fits (Packet TinyPacket 2 [])" "[6, 0, 0, 0, 2, 0] = std_bytes (Packet TinyPacket 2 [])"
    by (simp_all add: std_eval)
  show ?thesis
    using runtimeid_sends [OF std.packet_codec_axioms fits(1) _ refl, of "Packet TinyPacket 2 []" False demo_cfg 0 "sv demo3"]
      runtimeid_sends [OF std.packet_codec_axioms fits(2) _ refl, of "Packet TinyPacket 2 []" False demo_cfg 0 "sv demo3"] q b
    by (simp add: cs_recv_ops std_lib_simps demo3_def um_find_def demo_client_def ConnectionClientSession_def
      client_socket_def List.map_filter_simps)
qed


section \<open>Two logins at once\<close>

text \<open>
  Sessions of different network threads run concurrently. \<open>onLogicServerLogin\<close> takes the table's lock
  twice: once in \<open>Find...\<close> (\<open>login_find\<close>), once in \<open>Add...\<close> (the start of \<open>login_add\<close>). Done in one go
  the two are the handler.
\<close>

definition login_find :: "bool \<Rightarrow> i32 \<Rightarrow> conn_server \<Rightarrow> bool \<times> conn_server" where
  "login_find isPrimary sid s =
     (if isPrimary then
        (let (q, m) = FindPrimaryLogicServer (gAllPrimaryServers s) sid in (q = None, s\<lparr>gAllPrimaryServers := m\<rparr>))
      else (let (q, m) = FindSlaveLogicServer (gAllSlaveServers s) sid in (q = None, s\<lparr>gAllSlaveServers := m\<rparr>)))"

definition login_add :: "conn_config \<Rightarrow> laddr \<Rightarrow> bool \<Rightarrow> i32 \<Rightarrow> bool \<Rightarrow> conn_server \<Rightarrow> conn_server" where
  "login_add cfg l isPrimary sid found s =
     (if found then
        sendLogicServerLoginResult cfg l True []
          (upd_logic l (\<lambda>x. x\<lparr>mIsPrimary := isPrimary, mID := sid\<rparr>)
            (if isPrimary
             then s\<lparr>gAllPrimaryServers := AddPrimaryLogicServer sid (Some l) (gAllPrimaryServers s)\<rparr>
             else s\<lparr>gAllSlaveServers := AddSlaveLogicServer sid (Some l) (gAllSlaveServers s)\<rparr>))
      else sendLogicServerLoginResult cfg l False reason_exists s)"

lemma onLogicServerLogin_phases:
  assumes "rp_str P rp = (cfg_password cfg, rp1)" and "rp_i32 P rp1 = (sid, rp2)" and "rp_bool P rp2 = (isPrimary, rp3)"
  shows "onLogicServerLogin P cfg l rp s =
    (let (found, s1) = login_find isPrimary sid s in login_add cfg l isPrimary sid found s1)"
  using assms by (auto simp: onLogicServerLogin_def checkPassword_def login_find_def login_add_def Find_live Let_def
      AddPrimaryLogicServer_def AddSlaveLogicServer_def)

text \<open>
  When two primaries log in with the same free id and both look before either adds, both are
  told they succeeded and both sessions carry the id; the table keeps only the later one, and
  closing the earlier one removes the later one's entry.
\<close>

theorem login_race:
  assumes "um_live (gAllPrimaryServers s) sid = None" and "sid \<noteq> - 1" and "l1 \<noteq> l2"
    and "login_find True sid s = (found1, s1)" and "login_find True sid s1 = (found2, s2)"
    and "s' = login_add cfg l2 True sid found2 (login_add cfg l1 True sid found1 s2)"
  shows "out s' = out s @ [SendLogic l1 (Packet TinyPacket CONNECTION_SERVER_SEND_LOGICSERVER_RECVCSID
        [FI32 (cfg_id cfg), FBool True, FBin []]),
      SendLogic l2 (Packet TinyPacket CONNECTION_SERVER_SEND_LOGICSERVER_RECVCSID
        [FI32 (cfg_id cfg), FBool True, FBin []])] \<and>
    logics s' l1 = \<lparr>mIsPrimary = True, mID = sid\<rparr> \<and> logics s' l2 = \<lparr>mIsPrimary = True, mID = sid\<rparr> \<and>
    um_live (gAllPrimaryServers s') sid = Some l2 \<and>
    um_live (gAllPrimaryServers (logic_onClose order l1 s')) sid = None"
proof -
  have 1: "found1" "s1 = s\<lparr>gAllPrimaryServers := um_touch sid (gAllPrimaryServers s)\<rparr>"
    using assms(1,4) by (auto simp: login_find_def Find_live)
  then have 2: "found2" "out s2 = out s"
    using assms(1,5) by (auto simp: login_find_def Find_live)
  have l: "logics s' l1 = \<lparr>mIsPrimary = True, mID = sid\<rparr>" "logics s' l2 = \<lparr>mIsPrimary = True, mID = sid\<rparr>"
    using assms(3,6) 1 2 by (simp_all add: login_add_def logic_session_set)
  have "um_live (gAllPrimaryServers (logic_onClose order l1 s')) sid = None"
    using l assms(2) by (simp add: logic_onClose_def Let_def KickClientOfPrimary_def RemovePrimaryLogicServer_def)
  then show ?thesis
    using l assms(6) 1 2 by (simp add: login_add_def sendLogicServerLoginResult_def AddPrimaryLogicServer_def)
qed

theorem login_race_witness:
  "\<exists>s' :: conn_server. um_live (gAllPrimaryServers s') 4 = Some 1 \<and> mID (logics s' 0) = 4 \<and> mID (logics s' 1) = 4"
proof -
  let ?s = "sv cs_init"
  obtain found1 s1 where 1: "login_find True 4 ?s = (found1, s1)" by fastforce
  obtain found2 s2 where 2: "login_find True 4 s1 = (found2, s2)" by fastforce
  have *: "um_live (gAllPrimaryServers ?s) 4 = None" "(4 :: i32) \<noteq> - 1" "(0 :: laddr) \<noteq> 1"
    by (simp_all add: cs_init_def)
  show ?thesis
    by (rule exI [of _ "login_add demo_cfg 1 True 4 found2 (login_add demo_cfg 0 True 4 found1 s2)"])
      (use login_race [OF * 1 2 refl] in simp)
qed

end
