(* ===== verification/ConnThreads.thy ===== *)
theory ConnThreads
  imports ConnWire
begin

text \<open>
  The connection server on several network threads. \<open>startServer\<close> (ConnectionServer.cpp) runs one
  event loop per processor; the callbacks of one session run on one loop, one after the other, and
  those of different sessions interleave. ConnServer has each handler as one function; here a
  handler is cut where other threads can get in between:

  \<^item> Every access to a table (under its mutex) and to the id counter is a step of its own, and so is
    every access to a field that other threads touch: \<open>setSlaveServerID\<close> writes the client's
    \<open>mSlaveServerID\<close>, and \<open>KickClientOfPrimary\<close> reads its \<open>mPrimaryServerID\<close> and \<open>mRuntimeID\<close>.
  \<^item> Accesses to fields that only the session's own thread uses, and calls of the network library,
    belong to the step before or after them.
  \<^item> \<open>client_pc\<close>, \<open>logic_pc\<close>: where in its callback a session is, with the local variables that are
    still needed. \<open>client_turn\<close>, \<open>logic_turn\<close> do the next step; \<open>client_finish\<close>, \<open>logic_finish\<close> do
    all that are left, uninterrupted, and are shown to be the handlers of ConnServer.
  \<^item> \<open>cp_step\<close> interleaves the turns of all sessions freely.
\<close>

section \<open>Callbacks of a client's session\<close>

datatype client_pc =
    CIdle
  | CPacket bytes       \<comment> \<open>\<open>procPacket\<close> entered: draw a runtime id if there is none\<close>
  | CAssert bytes       \<comment> \<open>the assertion of \<open>AddClientByRuntimeID\<close>\<close>
  | CAdd bytes          \<comment> \<open>its insertion\<close>
  | CMirror bytes       \<comment> \<open>the end of \<open>claimRuntimeID\<close>\<close>
  | CClaim bytes        \<comment> \<open>\<open>claimPrimaryServer\<close>: draw a primary\<close>
  | CStore bytes i32    \<comment> \<open>write \<open>mPrimaryServerID\<close>\<close>
  | CLoad bytes         \<comment> \<open>look the primary up\<close>
  | CSlave bytes        \<comment> \<open>test \<open>mSlaveServerID\<close>\<close>
  | CSlaveFind bytes    \<comment> \<open>read it again and look the slave up\<close>
  | CForward bytes
  | CErase              \<comment> \<open>\<open>onClose\<close> entered\<close>
  | CTell               \<comment> \<open>erased: tell the servers\<close>
  | CReset              \<comment> \<open>told: \<open>mRuntimeID = -1\<close>\<close>
  | CDone               \<comment> \<open>\<open>onClose\<close> returned\<close>

fun client_turn :: "bool \<Rightarrow> conn_config \<Rightarrow> i64 \<Rightarrow> nat \<Rightarrow> logic_table \<Rightarrow> caddr \<Rightarrow> client_pc \<Rightarrow>
    conn_server \<Rightarrow> (client_pc \<times> conn_server) result" where
  "client_turn ndebug cfg now rnd order c (CPacket body) s =
     (if mRuntimeID (clients s c) = - 1 then
        (let (rid, inc') = MakeRuntimeID (cfg_id cfg) now (incRuntimeID s)
         in Inr (CAssert body, upd_client c (\<lambda>cl. cl\<lparr>mRuntimeID := rid\<rparr>) (s\<lparr>incRuntimeID := inc'\<rparr>)))
      else Inr (CClaim body, s))"
| "client_turn ndebug cfg now rnd order c (CAssert body) s =
     cassert ndebug (FindClientByRuntimeID (gAllClientObject s) (mRuntimeID (clients s c)) = None)
       (Inr (CAdd body, s))"
| "client_turn ndebug cfg now rnd order c (CAdd body) s =
     Inr (CMirror body,
       s\<lparr>gAllClientObject := um_set (mRuntimeID (clients s c)) c (gAllClientObject s)\<rparr>)"
| "client_turn ndebug cfg now rnd order c (CMirror body) s =
     (let cl = clients s c;
          packet = Packet BigPacket CONNECTION_SERVER_SEND_LOGICSERVER_INIT_CLIENTMIRROR
            [FI64 (mSocketID cl), FI64 (mRuntimeID cl)];
          (p, prim) = FindPrimaryLogicServer (gAllPrimaryServers s) (mPrimaryServerID cl)
      in Inr (CClaim body, emit_opt p packet
           (upd_client c (\<lambda>cl. cl\<lparr>mPrimaryServer := p\<rparr>) (s\<lparr>gAllPrimaryServers := prim\<rparr>))))"
| "client_turn ndebug cfg now rnd order c (CClaim body) s =
     (if mPrimaryServerID (clients s c) = - 1 then
        cassert ndebug (mRuntimeID (clients s c) \<noteq> - 1)
          (if mRuntimeID (clients s c) \<noteq> - 1 \<and> mPrimaryServer (clients s c) = None
           then Inr (CStore body (ClaimPrimaryLogicServer rnd order (gAllPrimaryServers s)), s)
           else Inr (CSlave body, s))
      else Inr (CSlave body, s))"
| "client_turn ndebug cfg now rnd order c (CStore body sid) s =
     Inr (if sid \<noteq> - 1 then CLoad body else CSlave body, upd_client c (\<lambda>cl. cl\<lparr>mPrimaryServerID := sid\<rparr>) s)"
| "client_turn ndebug cfg now rnd order c (CLoad body) s =
     (let (p, prim) = FindPrimaryLogicServer (gAllPrimaryServers s) (mPrimaryServerID (clients s c))
      in Inr (CSlave body, upd_client c (\<lambda>cl. cl\<lparr>mPrimaryServer := p\<rparr>) (s\<lparr>gAllPrimaryServers := prim\<rparr>)))"
| "client_turn ndebug cfg now rnd order c (CSlave body) s =
     (if mSlaveServerID (clients s c) \<noteq> - 1
      then Inr (if mSlaveServer (clients s c) = None then CSlaveFind body else CForward body, s)
      else Inr (CForward body, upd_client c (\<lambda>cl. cl\<lparr>mSlaveServer := None\<rparr>) s))"
| "client_turn ndebug cfg now rnd order c (CSlaveFind body) s =
     (let (p, m) = FindSlaveLogicServer (gAllSlaveServers s) (mSlaveServerID (clients s c))
      in Inr (CForward body, upd_client c (\<lambda>cl. cl\<lparr>mSlaveServer := p\<rparr>) (s\<lparr>gAllSlaveServers := m\<rparr>)))"
| "client_turn ndebug cfg now rnd order c (CForward body) s =
     rbind (forwardPacket c body s) (\<lambda>s'. Inr (CIdle, s'))"
| "client_turn ndebug cfg now rnd order c CErase s =
     Inr (if mRuntimeID (clients s c) \<noteq> - 1
          then (CTell, s\<lparr>gAllClientObject :=
                 EraseClientByRuntimeID (mRuntimeID (clients s c)) (gAllClientObject s)\<rparr>)
          else (CDone, s))"
| "client_turn ndebug cfg now rnd order c CTell s =
     (let cl = clients s c;
          sp = Packet TinyPacket CONNECTION_SERVER_SEND_LOGICSERVER_DESTROY_CLIENT [FI64 (mRuntimeID cl)]
      in Inr (CReset, emit_opt (mSlaveServer cl) sp (emit_opt (mPrimaryServer cl) sp s)))"
| "client_turn ndebug cfg now rnd order c CReset s =
     Inr (CDone, upd_client c (\<lambda>cl. cl\<lparr>mRuntimeID := - 1\<rparr>) s)"
| "client_turn ndebug cfg now rnd order c CIdle s = Inr (CIdle, s)"
| "client_turn ndebug cfg now rnd order c CDone s = Inr (CDone, s)"

text \<open>A callback takes a bounded number of turns, whatever the other threads do in between.\<close>

fun client_left :: "client_pc \<Rightarrow> nat" where
  "client_left (CPacket body) = 10"
| "client_left (CAssert body) = 9"
| "client_left (CAdd body) = 8"
| "client_left (CMirror body) = 7"
| "client_left (CClaim body) = 6"
| "client_left (CStore body sid) = 5"
| "client_left (CLoad body) = 4"
| "client_left (CSlave body) = 3"
| "client_left (CSlaveFind body) = 2"
| "client_left (CForward body) = 1"
| "client_left CErase = 3"
| "client_left CTell = 2"
| "client_left CReset = 1"
| "client_left CIdle = 0"
| "client_left CDone = 0"

lemma client_turn_left:
  "client_turn ndebug cfg now rnd order c pc s = Inr (pc', s') \<Longrightarrow> client_left pc \<noteq> 0 \<Longrightarrow>
   client_left pc' < client_left pc"
  by (cases pc) (auto simp: results Let_def split: if_splits prod.splits)

function client_finish :: "bool \<Rightarrow> conn_config \<Rightarrow> i64 \<Rightarrow> nat \<Rightarrow> logic_table \<Rightarrow> caddr \<Rightarrow> client_pc \<Rightarrow>
    conn_server \<Rightarrow> conn_server result" where
  "client_finish ndebug cfg now rnd order c pc s =
     (if client_left pc = 0 then Inr s
      else case client_turn ndebug cfg now rnd order c pc s of
        Inl e \<Rightarrow> Inl e
      | Inr (pc', s') \<Rightarrow> client_finish ndebug cfg now rnd order c pc' s')"
  by pat_completeness auto
termination
  by (relation "measure (\<lambda>(ndebug, cfg, now, rnd, order, c, pc, s). client_left pc)")
    (auto dest: client_turn_left)

declare client_finish.simps [simp del]

lemma client_finish_idle [simp]: "client_left pc = 0 \<Longrightarrow> client_finish ndebug cfg now rnd order c pc s = Inr s"
  by (simp add: client_finish.simps)

lemma client_finish_turn:
  "client_left pc \<noteq> 0 \<Longrightarrow> client_finish ndebug cfg now rnd order c pc s =
     rbind (client_turn ndebug cfg now rnd order c pc s)
       (\<lambda>(pc', s'). client_finish ndebug cfg now rnd order c pc' s')"
  by (subst client_finish.simps) (simp add: rbind_def split: sum.splits prod.splits)


text \<open>Uninterrupted, the turns are the handlers.\<close>

lemma cassert_rbind [simp]: "rbind (cassert n b k) f = cassert n b (rbind k f)"
  by (simp add: cassert_def)

lemma rbind_if [simp]: "rbind (if b then x else y) f = (if b then rbind x f else rbind y f)"
  by simp

lemma client_finish_claimed:
  "client_finish ndebug cfg now rnd order c (CClaim body) s =
     rbind (if mPrimaryServerID (clients s c) = - 1 then claimPrimaryServer ndebug rnd order c s else Inr s)
       (\<lambda>s2. forwardPacket c body (refreshSlave c s2))"
proof -
  have fw: "client_finish ndebug cfg now rnd order c (CForward body) s = forwardPacket c body s"
    for s ndebug order
    by (cases "forwardPacket c body s") (simp_all add: client_finish_turn)
  have sl: "client_finish ndebug cfg now rnd order c (CSlave body) s = forwardPacket c body (refreshSlave c s)"
    for s ndebug order
    by (simp add: client_finish_turn [of "CSlave body"] client_finish_turn [of "CSlaveFind body"] fw
        refreshSlave_def Find_live)
  have ld: "client_finish ndebug cfg now rnd order c (CLoad body) s =
      forwardPacket c body (refreshSlave c (let (p, prim) = FindPrimaryLogicServer (gAllPrimaryServers s)
        (mPrimaryServerID (clients s c)) in upd_client c (\<lambda>cl. cl\<lparr>mPrimaryServer := p\<rparr>) (s\<lparr>gAllPrimaryServers := prim\<rparr>)))"
    for s ndebug order
    by (simp add: client_finish_turn [of "CLoad body"] sl Find_live)
  show ?thesis
    by (simp add: client_finish_turn [of "CClaim body"] client_finish_turn [of "CStore body sid" for sid] sl ld
        claimPrimaryServer_def Find_live Let_def)
qed

lemma client_finish_packet:
  "client_finish ndebug cfg now rnd order c (CPacket body) s =
     client_procPacket ndebug cfg now rnd order c op body s"
proof -
  have "client_finish ndebug cfg now rnd order c (CPacket body) s =
      rbind (if mRuntimeID (clients s c) = - 1 then claimRuntimeID ndebug cfg now c s else Inr s)
        (client_finish ndebug cfg now rnd order c (CClaim body))"
    by (simp add: client_finish_turn [of "CPacket body"] client_finish_turn [of "CAssert body"]
        client_finish_turn [of "CAdd body"] client_finish_turn [of "CMirror body"] claimRuntimeID_def
        AddClientByRuntimeID_def Find_live Let_def split: prod.splits)
  moreover have "client_finish ndebug cfg now rnd order c (CClaim body) = (\<lambda>s1.
      rbind (if mPrimaryServerID (clients s1 c) = - 1 then claimPrimaryServer ndebug rnd order c s1 else Inr s1)
        (\<lambda>s2. forwardPacket c body (refreshSlave c s2)))"
    by (rule ext) (simp only: client_finish_claimed)
  ultimately show ?thesis by (simp add: client_procPacket_def)
qed

lemma client_finish_close:
  "client_finish ndebug cfg now rnd order c CErase s = Inr (client_onClose c s)"
  by (simp add: client_finish_turn client_onClose_def Let_def)


section \<open>Callbacks of a logic server's session\<close>

datatype 'r logic_pc =
    LIdle
  | LPacket nat bytes                      \<comment> \<open>\<open>procPacket\<close> entered\<close>
  | LAdd bool i32 bool                     \<comment> \<open>a login that has looked its id up: role, id, whether it was free\<close>
  | LSockets bytes nat 'r                  \<comment> \<open>the loop of \<open>onPacket2ClientBySocketInfo\<close>\<close>
  | LFind bytes nat 'r                     \<comment> \<open>the loop of \<open>onPacket2ClientByRuntimeID\<close>\<close>
  | LSend caddr bytes nat 'r               \<comment> \<open>a client of that loop was found\<close>
  | LSetSlave caddr i32                    \<comment> \<open>the client of \<open>onSlaveServerIsSetClient\<close> was found\<close>
  | LKick caddr                            \<comment> \<open>the client of \<open>onKickClientByRuntimeID\<close> was found\<close>
  | LClose                                 \<comment> \<open>\<open>onClose\<close> entered\<close>
  | LScan client_table                     \<comment> \<open>the loop of \<open>KickClientOfPrimary\<close>\<close>
  | LScanID caddr client_table             \<comment> \<open>a client of this primary: read its runtime id\<close>
  | LScanFind i64 client_table             \<comment> \<open>\<open>KickClientByRuntimeID\<close> inside the loop: look it up\<close>
  | LScanKick caddr client_table           \<comment> \<open>found\<close>
  | LDone                                  \<comment> \<open>\<open>onClose\<close> returned\<close>

definition kick_socket :: "caddr \<Rightarrow> conn_server \<Rightarrow> conn_server" where
  "kick_socket p s =
     (let socketID = mSocketID (clients s p) in if socketID \<noteq> - 1 then emit (DisConnect socketID) s else s)"

definition logic_dispatch :: "bool \<Rightarrow> 'r packet_lib \<Rightarrow> conn_config \<Rightarrow> laddr \<Rightarrow> nat \<Rightarrow> bytes \<Rightarrow> conn_server \<Rightarrow>
    ('r logic_pc \<times> conn_server) result" where
  "logic_dispatch ndebug P cfg l op body s =
     (let rp = rp_open P body in
      if op = CONNECTION_SERVER_RECV_PING then Inr (LIdle, cs_onPing l s)
      else if op = CONNECTION_SERVER_RECV_LOGICSERVER_LOGIN then
        (let (password, rp1) = rp_str P rp; (sid, rp2) = rp_i32 P rp1; (isPrimary, rp3) = rp_bool P rp2 in
         if checkPassword cfg password
         then (let (free, s1) = login_find isPrimary sid s in Inr (LAdd isPrimary sid free, s1))
         else Inr (LIdle, sendLogicServerLoginResult cfg l False reason_password s))
      else if op = CONNECTION_SERVER_RECV_PACKET2CLIENT_BYSOCKINFO then
        (case rp_bin P rp of
           (None, rp1) \<Rightarrow> Inr (LIdle, s)
         | (Some realPacket, rp1) \<Rightarrow>
             (let (destNum, rp2) = rp_i16 P rp1 in Inr (LSockets realPacket (nat (sint destNum)) rp2, s)))
      else if op = CONNECTION_SERVER_RECV_PACKET2CLIENT_BYRUNTIMEID then
        (case rp_bin P rp of
           (None, rp1) \<Rightarrow> Inr (LIdle, s)
         | (Some realPacket, rp1) \<Rightarrow>
             (let (destNum, rp2) = rp_i16 P rp1;
                  realPacketLen = fst (rp_len P (rp_open P realPacket)) in
              if realPacketLen \<le> length realPacket
              then Inr (LFind (take realPacketLen realPacket) (nat (sint destNum)) rp2, s)
              else Inl OutOfBounds))
      else if op = CONNECTION_SERVER_RECV_IS_SETCLIENT_SLAVEID then
        (let (runtimeID, rp1) = rp_i64 P rp; (isSet, rp2) = rp_bool P rp1 in
         Inr (case FindClientByRuntimeID (gAllClientObject s) runtimeID of
            None \<Rightarrow> (LIdle, s)
          | Some p \<Rightarrow> (LSetSlave p (if isSet then mID (logics s l) else - 1), s)))
      else if op = CONNECTION_SERVER_RECV_KICKCLIENT_BYRUNTIMEID then
        Inr (case FindClientByRuntimeID (gAllClientObject s) (fst (rp_i64 P rp)) of
            None \<Rightarrow> (LIdle, s)
          | Some p \<Rightarrow> (LKick p, s))
      else cassert ndebug False (Inr (LIdle, s)))"

text \<open>\<open>order\<close> is the order in which \<open>KickClientOfPrimary\<close> visits its copy of the client table.\<close>

fun logic_turn :: "bool \<Rightarrow> 'r packet_lib \<Rightarrow> conn_config \<Rightarrow> client_table \<Rightarrow> laddr \<Rightarrow> 'r logic_pc \<Rightarrow>
    conn_server \<Rightarrow> ('r logic_pc \<times> conn_server) result" where
  "logic_turn ndebug P cfg order l (LPacket op body) s = logic_dispatch ndebug P cfg l op body s"
| "logic_turn ndebug P cfg order l (LAdd isPrimary sid free) s =
     Inr (LIdle, login_add cfg l isPrimary sid free s)"
| "logic_turn ndebug P cfg order l (LSockets p 0 rp) s = Inr (LIdle, s)"
| "logic_turn ndebug P cfg order l (LSockets p (Suc n) rp) s =
     (let (csID, rp1) = rp_i32 P rp; (clientSocketID, rp2) = rp_i64 P rp1 in
      Inr (LSockets p n rp2, if csID = cfg_id cfg then emit (SendSocket clientSocketID p) s else s))"
| "logic_turn ndebug P cfg order l (LFind p 0 rp) s = Inr (LIdle, s)"
| "logic_turn ndebug P cfg order l (LFind p (Suc n) rp) s =
     (let (runtimeID, rp1) = rp_i64 P rp in
      Inr (case FindClientByRuntimeID (gAllClientObject s) runtimeID of
             None \<Rightarrow> LFind p n rp1 | Some client \<Rightarrow> LSend client p n rp1, s))"
| "logic_turn ndebug P cfg order l (LSend client p n rp) s =
     (let socketID = mSocketID (clients s client) in
      Inr (LFind p n rp, if socketID \<noteq> - 1 then emit (SendSocket socketID p) s else s))"
| "logic_turn ndebug P cfg order l (LSetSlave c sid) s = Inr (LIdle, setSlaveServerID c sid s)"
| "logic_turn ndebug P cfg order l (LKick c) s = Inr (LIdle, kick_socket c s)"
| "logic_turn ndebug P cfg order l LClose s =
     Inr (if mID (logics s l) = - 1 then (LDone, s)
          else if mIsPrimary (logics s l) then (LScan order, s)
          else (LDone, upd_logic l (\<lambda>x. x\<lparr>mIsPrimary := False, mID := - 1\<rparr>)
                 (s\<lparr>gAllSlaveServers := RemoveSlaveLogicServer (mID (logics s l)) (gAllSlaveServers s)\<rparr>)))"
| "logic_turn ndebug P cfg order l (LScan (v # vs)) s =
     Inr (if mPrimaryServerID (clients s (snd v)) = mID (logics s l) then LScanID (snd v) vs else LScan vs, s)"
| "logic_turn ndebug P cfg order l (LScanID c vs) s = Inr (LScanFind (mRuntimeID (clients s c)) vs, s)"
| "logic_turn ndebug P cfg order l (LScanFind rid vs) s =
     Inr (case FindClientByRuntimeID (gAllClientObject s) rid of
            None \<Rightarrow> LScan vs | Some p \<Rightarrow> LScanKick p vs, s)"
| "logic_turn ndebug P cfg order l (LScanKick p vs) s = Inr (LScan vs, kick_socket p s)"
| "logic_turn ndebug P cfg order l (LScan []) s =
     Inr (LDone, upd_logic l (\<lambda>x. x\<lparr>mIsPrimary := False, mID := - 1\<rparr>)
       (s\<lparr>gAllPrimaryServers := RemovePrimaryLogicServer (mID (logics s l)) (gAllPrimaryServers s)\<rparr>))"
| "logic_turn ndebug P cfg order l LIdle s = Inr (LIdle, s)"
| "logic_turn ndebug P cfg order l LDone s = Inr (LDone, s)"

text \<open>Once its packet is read, or its copy of the table made, a callback has a bounded number of turns left.\<close>

fun logic_left :: "'r logic_pc \<Rightarrow> nat" where
  "logic_left (LAdd isPrimary sid free) = 1"
| "logic_left (LSockets p n rp) = n + 1"
| "logic_left (LFind p n rp) = 2 * n + 1"
| "logic_left (LSend client p n rp) = 2 * n + 2"
| "logic_left (LSetSlave c sid) = 1"
| "logic_left (LKick c) = 1"
| "logic_left (LScan vs) = 4 * length vs + 1"
| "logic_left (LScanID c vs) = 4 * length vs + 4"
| "logic_left (LScanFind rid vs) = 4 * length vs + 3"
| "logic_left (LScanKick p vs) = 4 * length vs + 2"
| "logic_left pc = 0"

fun logic_new :: "'r logic_pc \<Rightarrow> bool" where
  "logic_new (LPacket op body) = True"
| "logic_new LClose = True"
| "logic_new pc = False"

definition logic_rest :: "'r logic_pc \<Rightarrow> bool" where
  "logic_rest pc \<longleftrightarrow> pc = LIdle \<or> pc = LDone"

lemma logic_rest_simps [simp]:
  "logic_rest LIdle" "logic_rest LDone" "\<not> logic_rest (LPacket op body)" "\<not> logic_rest (LAdd b sid f)"
  "\<not> logic_rest (LSockets p n rp)" "\<not> logic_rest (LFind p n rp)" "\<not> logic_rest (LSend c p n rp)"
  "\<not> logic_rest (LSetSlave c sid)" "\<not> logic_rest (LKick c)" "\<not> logic_rest LClose" "\<not> logic_rest (LScan vs)"
  "\<not> logic_rest (LScanID c vs)" "\<not> logic_rest (LScanFind rid vs)" "\<not> logic_rest (LScanKick c vs)"
  by (simp_all add: logic_rest_def)

lemma logic_dispatch_new: "logic_dispatch ndebug P cfg l op body s = Inr (pc', s') \<Longrightarrow> \<not> logic_new pc'"
  by (auto simp: logic_dispatch_def Let_def results split: if_splits prod.splits option.splits)

lemma logic_turn_left:
  assumes "logic_turn ndebug P cfg order l pc s = Inr (pc', s')" and "\<not> logic_rest pc"
  shows "logic_new pc \<and> \<not> logic_new pc' \<or> \<not> logic_new pc \<and> \<not> logic_new pc' \<and> logic_left pc' < logic_left pc"
  using assms by (induction ndebug P cfg order l pc s rule: logic_turn.induct)
    (auto simp: Let_def dest: logic_dispatch_new split: if_splits prod.splits option.splits)

function logic_finish :: "bool \<Rightarrow> 'r packet_lib \<Rightarrow> conn_config \<Rightarrow> client_table \<Rightarrow> laddr \<Rightarrow> 'r logic_pc \<Rightarrow>
    conn_server \<Rightarrow> conn_server result" where
  "logic_finish ndebug P cfg order l pc s =
     (if logic_rest pc then Inr s
      else case logic_turn ndebug P cfg order l pc s of
        Inl e \<Rightarrow> Inl e
      | Inr (pc', s') \<Rightarrow> logic_finish ndebug P cfg order l pc' s')"
  by pat_completeness auto
termination
  by (relation "measures [\<lambda>(ndebug, P, cfg, order, l, pc, s). of_bool (logic_new pc),
      \<lambda>(ndebug, P, cfg, order, l, pc, s). logic_left pc]") (auto dest: logic_turn_left)

declare logic_finish.simps [simp del]

lemma logic_finish_rest [simp]: "logic_rest pc \<Longrightarrow> logic_finish ndebug P cfg order l pc s = Inr s"
  by (simp add: logic_finish.simps)

lemma logic_finish_turn:
  "\<not> logic_rest pc \<Longrightarrow> logic_finish ndebug P cfg order l pc s =
     rbind (logic_turn ndebug P cfg order l pc s) (\<lambda>(pc', s'). logic_finish ndebug P cfg order l pc' s')"
  by (subst logic_finish.simps) (simp add: rbind_def split: sum.splits prod.splits)

lemma logic_finish_sockets:
  "logic_finish ndebug P cfg order l (LSockets p n rp) s = Inr (socketinfo_loop P cfg p n rp s)"
  by (induction n arbitrary: rp s) (simp_all add: logic_finish_turn Let_def split: prod.splits)

lemma logic_finish_runtimeids:
  "logic_finish ndebug P cfg order l (LFind p n rp) s = Inr (runtimeid_loop P p n rp s)"
  by (induction n arbitrary: rp s)
    (simp_all add: logic_finish_turn Let_def split: prod.splits option.splits)

lemma KickClient_socket:
  "KickClientByRuntimeID rid s =
     (case FindClientByRuntimeID (gAllClientObject s) rid of None \<Rightarrow> s | Some p \<Rightarrow> kick_socket p s)"
  by (simp add: KickClientByRuntimeID_def kick_socket_def split: option.splits)

lemma kick_socket_frame [simp]:
  "clients (kick_socket p s) = clients s" "logics (kick_socket p s) = logics s"
  "gAllClientObject (kick_socket p s) = gAllClientObject s"
  "gAllPrimaryServers (kick_socket p s) = gAllPrimaryServers s"
  "gAllSlaveServers (kick_socket p s) = gAllSlaveServers s" "incRuntimeID (kick_socket p s) = incRuntimeID s"
  by (simp_all add: kick_socket_def Let_def)

lemma logic_finish_scan:
  "logic_finish ndebug P cfg order l (LScan vs) s =
     logic_finish ndebug P cfg order l (LScan []) (kick_scan (mID (logics s l)) vs s)"
proof (induction vs arbitrary: s)
  case (Cons v vs)
  then show ?case
    by (simp add: logic_finish_turn [of "LScan (v # vs)"] logic_finish_turn [of "LScanID c vs" for c]
        logic_finish_turn [of "LScanFind rid vs" for rid] logic_finish_turn [of "LScanKick c vs" for c]
        KickClient_socket split: option.splits)
qed simp

lemma logic_finish_login:
  "Inr (onLogicServerLogin P cfg l rp s) =
     (let (password, rp1) = rp_str P rp; (sid, rp2) = rp_i32 P rp1; (isPrimary, rp3) = rp_bool P rp2 in
      if checkPassword cfg password
      then (let (free, s1) = login_find isPrimary sid s in
        logic_finish ndebug P cfg order l (LAdd isPrimary sid free) s1)
      else Inr (sendLogicServerLoginResult cfg l False reason_password s))"
proof -
  obtain password rp1 where 1: "rp_str P rp = (password, rp1)" by fastforce
  obtain sid rp2 where 2: "rp_i32 P rp1 = (sid, rp2)" by fastforce
  obtain isPrimary rp3 where 3: "rp_bool P rp2 = (isPrimary, rp3)" by fastforce
  show ?thesis
  proof (cases "password = cfg_password cfg")
    case True
    then show ?thesis
      using 1 2 3 onLogicServerLogin_phases [of P rp cfg rp1 sid rp2 isPrimary rp3 l s]
      by (simp add: checkPassword_def logic_finish_turn split: prod.splits)
  next
    case False
    then show ?thesis by (simp add: onLogicServerLogin_def checkPassword_def 1 2 3)
  qed
qed

lemma logic_finish_packet:
  "logic_finish ndebug P cfg order l (LPacket op body) s = logic_procPacket ndebug P cfg l op body s"
proof -
  have fin: "logic_finish ndebug P cfg order l (LSetSlave c sid) s = Inr (setSlaveServerID c sid s)"
    "logic_finish ndebug P cfg order l (LKick c) s = Inr (kick_socket c s)" for sid s c
    by (simp_all add: logic_finish_turn)
  show ?thesis
    by (simp add: logic_finish_turn [of "LPacket op body"] logic_procPacket_def logic_dispatch_def Let_def
        logic_finish_login [of P cfg l _ s ndebug order] onPacket2ClientBySocketInfo_def logic_finish_sockets
        onPacket2ClientByRuntimeID_def logic_finish_runtimeids onSlaveServerIsSetClient_def
        onKickClientByRuntimeID_def KickClient_socket fin split: prod.splits option.splits)
qed

lemma logic_finish_close:
  "logic_finish ndebug P cfg order l LClose s = Inr (logic_onClose order l s)"
  by (simp add: logic_finish_turn [of LClose] logic_finish_scan [of ndebug P cfg order l order]
      logic_finish_turn [of "LScan []"] logic_onClose_def KickClientOfPrimary_def Let_def)

end
