(* ===== verification/ConnInterleave.thy ===== *)
theory ConnInterleave
  imports ConnThreads
begin

text \<open>
  Every interleaving of the turns of ConnThreads as a transition system, and what it keeps of the
  sequential one (ConnSystem).

  \<^item> \<open>cp_step\<close>: a session enters, its next callback starts, one turn of any callback under way, a
    session whose \<open>onClose\<close> has returned is gone. The address of a session that another callback
    still points to is not reused. \<open>drawn\<close> lists the runtime ids handed out so far; no code reads it.
  \<^item> Every run of the sequential system is a run of this one (\<open>sequential_runs\<close>), with each callback
    uninterrupted.
  \<^item> The client table stays right in every interleaving (\<open>threads_client_table\<close>). The assignment of
    clients to primaries does not (\<open>stranded_client\<close>), although no sequential run breaks it, and neither
    does the table of primaries (\<open>threads_login_race\<close>).
\<close>

section \<open>The transition system\<close>

record 'r cp_sys = cs_sys +
  cpc :: "caddr \<Rightarrow> client_pc"
  lpc :: "laddr \<Rightarrow> 'r logic_pc"
  drawn :: "i64 list"

definition cp_init :: "'r cp_sys" where
  "cp_init = \<lparr>sv = sv cs_init, openC = {}, openL = {}, cpc = (\<lambda>_. CIdle), lpc = (\<lambda>_. LIdle), drawn = []\<rparr>"

text \<open>The clients a logic server's callback points to.\<close>

fun held :: "'r logic_pc \<Rightarrow> caddr set" where
  "held (LSend c p n rp) = {c}"
| "held (LSetSlave c sid) = {c}"
| "held (LKick c) = {c}"
| "held (LScan vs) = snd ` set vs"
| "held (LScanID c vs) = insert c (snd ` set vs)"
| "held (LScanFind rid vs) = snd ` set vs"
| "held (LScanKick c vs) = insert c (snd ` set vs)"
| "held pc = {}"

definition visits :: "'a list \<Rightarrow> 'a list \<Rightarrow> bool" where
  "visits order m \<longleftrightarrow> set order = set m \<and> length order = length m"

definition new_id :: "caddr \<Rightarrow> conn_server \<Rightarrow> conn_server \<Rightarrow> i64 list" where
  "new_id c s s' = (if mRuntimeID (clients s c) = - 1 \<and> mRuntimeID (clients s' c) \<noteq> - 1
     then [mRuntimeID (clients s' c)] else [])"

inductive cp_step :: "bool \<Rightarrow> 'r packet_lib \<Rightarrow> conn_config \<Rightarrow> 'r cp_sys \<Rightarrow> 'r cp_sys \<Rightarrow> bool"
  for ndebug P cfg where
  enterC: "c \<notin> openC y \<Longrightarrow> c \<notin> snd ` set (gAllClientObject (sv y)) \<Longrightarrow> \<forall>l. c \<notin> held (lpc y l) \<Longrightarrow>
     cp_step ndebug P cfg y
       (y\<lparr>sv := upd_client c (\<lambda>_. ConnectionClientSession sock) (sv y), openC := insert c (openC y)\<rparr>)"
| recvC: "c \<in> openC y \<Longrightarrow> cpc y c = CIdle \<Longrightarrow>
     cp_step ndebug P cfg y (y\<lparr>cpc := (cpc y)(c := CPacket body)\<rparr>)"
| shutC: "c \<in> openC y \<Longrightarrow> cpc y c = CIdle \<Longrightarrow> cp_step ndebug P cfg y (y\<lparr>cpc := (cpc y)(c := CErase)\<rparr>)"
| turnC: "c \<in> openC y \<Longrightarrow> (ucast now :: i32) \<noteq> - 1 \<Longrightarrow>
     \<forall>body. cpc y c = CClaim body \<longrightarrow> visits order (gAllPrimaryServers (sv y)) \<Longrightarrow>
     client_turn ndebug cfg now rnd order c (cpc y c) (sv y) = Inr (pc', s') \<Longrightarrow>
     cp_step ndebug P cfg y
       (y\<lparr>sv := s', cpc := (cpc y)(c := pc'), drawn := drawn y @ new_id c (sv y) s'\<rparr>)"
| goneC: "c \<in> openC y \<Longrightarrow> cpc y c = CDone \<Longrightarrow>
     cp_step ndebug P cfg y (y\<lparr>openC := openC y - {c}, cpc := (cpc y)(c := CIdle)\<rparr>)"
| enterL: "l \<notin> openL y \<Longrightarrow> Some l \<notin> snd ` set (gAllPrimaryServers (sv y)) \<Longrightarrow>
     Some l \<notin> snd ` set (gAllSlaveServers (sv y)) \<Longrightarrow>
     \<forall>c\<in>openC y. mPrimaryServer (clients (sv y) c) \<noteq> Some l \<and> mSlaveServer (clients (sv y) c) \<noteq> Some l \<Longrightarrow>
     cp_step ndebug P cfg y
       (y\<lparr>sv := upd_logic l (\<lambda>_. LogicServerSession) (sv y), openL := insert l (openL y)\<rparr>)"
| recvL: "l \<in> openL y \<Longrightarrow> lpc y l = LIdle \<Longrightarrow>
     cp_step ndebug P cfg y (y\<lparr>lpc := (lpc y)(l := LPacket op body)\<rparr>)"
| shutL: "l \<in> openL y \<Longrightarrow> lpc y l = LIdle \<Longrightarrow> cp_step ndebug P cfg y (y\<lparr>lpc := (lpc y)(l := LClose)\<rparr>)"
| turnL: "l \<in> openL y \<Longrightarrow> (lpc y l = LClose \<longrightarrow> visits order (gAllClientObject (sv y))) \<Longrightarrow>
     logic_turn ndebug P cfg order l (lpc y l) (sv y) = Inr (pc', s') \<Longrightarrow>
     cp_step ndebug P cfg y (y\<lparr>sv := s', lpc := (lpc y)(l := pc')\<rparr>)"
| goneL: "l \<in> openL y \<Longrightarrow> lpc y l = LDone \<Longrightarrow>
     cp_step ndebug P cfg y (y\<lparr>openL := openL y - {l}, lpc := (lpc y)(l := LIdle)\<rparr>)"

abbreviation cp_steps :: "bool \<Rightarrow> 'r packet_lib \<Rightarrow> conn_config \<Rightarrow> 'r cp_sys \<Rightarrow> 'r cp_sys \<Rightarrow> bool" where
  "cp_steps ndebug P cfg \<equiv> (cp_step ndebug P cfg)\<^sup>*\<^sup>*"

abbreviation cp_reach :: "bool \<Rightarrow> 'r packet_lib \<Rightarrow> conn_config \<Rightarrow> 'r cp_sys \<Rightarrow> bool" where
  "cp_reach ndebug P cfg \<equiv> cp_steps ndebug P cfg cp_init"

section \<open>A callback without interruption\<close>

text \<open>The primary table a client's callback is going to draw from, if nobody interrupts it.\<close>

fun draws_from :: "caddr \<Rightarrow> client_pc \<Rightarrow> conn_server \<Rightarrow> logic_table" where
  "draws_from c (CPacket body) s = (if mRuntimeID (clients s c) = - 1
     then um_touch (mPrimaryServerID (clients s c)) (gAllPrimaryServers s) else gAllPrimaryServers s)"
| "draws_from c (CClaim body) s = gAllPrimaryServers s"
| "draws_from c pc s = um_touch (mPrimaryServerID (clients s c)) (gAllPrimaryServers s)"

lemma draws_from_turn:
  "client_turn ndebug cfg now rnd order c pc s = Inr (pc', s') \<Longrightarrow> 6 \<le> client_left pc' \<Longrightarrow>
   6 \<le> client_left pc \<and> draws_from c pc' s' = draws_from c pc s"
  by (cases pc) (auto simp: results Let_def Find_live split: if_splits prod.splits)

fun closing :: "client_pc \<Rightarrow> bool" where
  "closing CErase = True"
| "closing CTell = True"
| "closing CReset = True"
| "closing CDone = True"
| "closing pc = False"

lemma closing_turn:
  "client_turn ndebug cfg now rnd order c pc s = Inr (pc', s') \<Longrightarrow> closing pc' = closing pc"
  by (cases pc) (auto simp: results Let_def split: if_splits prod.splits)

lemma client_uninterrupted:
  assumes "client_finish ndebug cfg now rnd order c (cpc y c) (sv y) = Inr s'" and "c \<in> openC y"
    and "(ucast now :: i32) \<noteq> - 1"
    and "6 \<le> client_left (cpc y c) \<longrightarrow> visits order (draws_from c (cpc y c) (sv y))"
  shows "\<exists>ids. cp_steps ndebug P cfg y (y\<lparr>sv := s',
    cpc := (cpc y)(c := (if closing (cpc y c) then CDone else CIdle)), drawn := ids\<rparr>)"
  using assms
proof (induction "client_left (cpc y c)" arbitrary: y rule: less_induct)
  case less
  show ?case
  proof (cases "client_left (cpc y c) = 0")
    case True
    then have "cpc y c = (if closing (cpc y c) then CDone else CIdle)" "s' = sv y"
      using less.prems(1) by (cases "cpc y c"; simp)+
    then have "y\<lparr>sv := s', cpc := (cpc y)(c := (if closing (cpc y c) then CDone else CIdle)), drawn := drawn y\<rparr> = y"
      by (cases y) (simp add: fun_upd_idem)
    then show ?thesis by (intro exI [of _ "drawn y"]) simp
  next
    case False
    then obtain pc1 s1 where t: "client_turn ndebug cfg now rnd order c (cpc y c) (sv y) = Inr (pc1, s1)"
      and f: "client_finish ndebug cfg now rnd order c pc1 s1 = Inr s'"
      using less.prems(1) by (auto simp: client_finish_turn results)
    let ?y = "y\<lparr>sv := s1, cpc := (cpc y)(c := pc1), drawn := drawn y @ new_id c (sv y) s1\<rparr>"
    have "cp_step ndebug P cfg y ?y"
      by (rule turnC [OF less.prems(2,3) _ t]) (use less.prems(4) in auto)
    moreover have "\<exists>ids. cp_steps ndebug P cfg ?y (?y\<lparr>sv := s',
        cpc := (cpc ?y)(c := (if closing (cpc ?y c) then CDone else CIdle)), drawn := ids\<rparr>)"
      by (rule less.hyps) (use client_turn_left [OF t False] f less.prems draws_from_turn [OF t] in auto)
    ultimately show ?thesis
      using closing_turn [OF t] by (fastforce intro: converse_rtranclp_into_rtranclp)
  qed
qed

fun leaving :: "'r logic_pc \<Rightarrow> bool" where
  "leaving LClose = True"
| "leaving (LScan vs) = True"
| "leaving (LScanID c vs) = True"
| "leaving (LScanFind rid vs) = True"
| "leaving (LScanKick c vs) = True"
| "leaving LDone = True"
| "leaving pc = False"

lemma leaving_turn:
  "logic_turn ndebug P cfg order l pc s = Inr (pc', s') \<Longrightarrow> leaving pc' = leaving pc"
  by (induction ndebug P cfg order l pc s rule: logic_turn.induct)
    (auto simp: Let_def logic_dispatch_def results split: if_splits prod.splits option.splits)

lemma logic_uninterrupted:
  assumes "logic_finish ndebug P cfg order l pc s = Inr s'" and "l \<in> openL y" and "lpc y l = pc" and "sv y = s"
    and "pc = LClose \<longrightarrow> visits order (gAllClientObject s)"
  shows "cp_steps ndebug P cfg y (y\<lparr>sv := s', lpc := (lpc y)(l := (if leaving pc then LDone else LIdle))\<rparr>)"
  using assms
proof (induction ndebug P cfg order l pc s arbitrary: y rule: logic_finish.induct)
  case (1 ndebug P cfg order l pc s)
  show ?case
  proof (cases "logic_rest pc")
    case True
    then have "pc = (if leaving pc then LDone else LIdle)" "s' = s"
      using 1 by (auto simp: logic_rest_def)
    then have "y\<lparr>sv := s', lpc := (lpc y)(l := (if leaving pc then LDone else LIdle))\<rparr> = y"
      using 1 by (cases y) (simp add: fun_upd_idem)
    then show ?thesis by (simp only: rtranclp.rtrancl_refl)
  next
    case False
    then obtain pc1 s1 where t: "logic_turn ndebug P cfg order l pc s = Inr (pc1, s1)"
      and f: "logic_finish ndebug P cfg order l pc1 s1 = Inr s'"
      using "1.prems" by (auto simp: logic_finish_turn results)
    let ?y = "y\<lparr>sv := s1, lpc := (lpc y)(l := pc1)\<rparr>"
    have "cp_step ndebug P cfg y ?y"
      by (rule turnL) (use t "1.prems" in auto)
    moreover have "cp_steps ndebug P cfg ?y (?y\<lparr>sv := s', lpc := (lpc ?y)(l := (if leaving pc1 then LDone else LIdle))\<rparr>)"
      by (rule "1.IH" [OF False t refl f]) (use logic_turn_left [OF t False] "1.prems" in auto)
    then have "cp_steps ndebug P cfg ?y (y\<lparr>sv := s', lpc := (lpc y)(l := (if leaving pc then LDone else LIdle))\<rparr>)"
      using leaving_turn [OF t] by simp
    ultimately show ?thesis by (rule converse_rtranclp_into_rtranclp)
  qed
qed

section \<open>Sequential runs\<close>

definition quiet :: "'r cp_sys \<Rightarrow> bool" where
  "quiet x \<longleftrightarrow> (\<forall>c. cpc x c = CIdle) \<and> (\<forall>l. lpc x l = LIdle)"

definition core :: "'r cp_sys \<Rightarrow> cs_sys" where
  "core x = \<lparr>sv = sv x, openC = openC x, openL = openL x\<rparr>"

lemma runs_to:
  "cp_steps ndebug P cfg x x' \<Longrightarrow> quiet x' \<Longrightarrow> core x' = z \<Longrightarrow>
   \<exists>x'. cp_steps ndebug P cfg x x' \<and> quiet x' \<and> core x' = z"
  by blast

lemma quiet_client:
  assumes "cp_step ndebug P cfg x x1" and "x1 = x\<lparr>cpc := (cpc x)(c := pc)\<rparr>"
    and "quiet x" and "c \<in> openC x" and "client_finish ndebug cfg now rnd order c pc (sv x) = Inr s'"
    and "(ucast now :: i32) \<noteq> - 1" and "6 \<le> client_left pc \<longrightarrow> visits order (draws_from c pc (sv x))"
  shows "\<exists>x'. cp_steps ndebug P cfg x x' \<and> quiet x' \<and>
    core x' = \<lparr>sv = s', openC = (if closing pc then openC x - {c} else openC x), openL = openL x\<rparr>"
proof -
  obtain ids where 1: "cp_steps ndebug P cfg x1 (x1\<lparr>sv := s',
      cpc := (cpc x1)(c := (if closing pc then CDone else CIdle)), drawn := ids\<rparr>)"
    using client_uninterrupted [of ndebug cfg now rnd order c x1 s' P] assms by auto
  let ?x = "x\<lparr>sv := s', cpc := (cpc x)(c := (if closing pc then CDone else CIdle)), drawn := ids\<rparr>"
  have 2: "cp_steps ndebug P cfg x ?x"
    using converse_rtranclp_into_rtranclp [of "cp_step ndebug P cfg", OF assms(1) 1] assms(2) by simp
  show ?thesis
  proof (cases "closing pc")
    case True
    have "cp_step ndebug P cfg ?x (?x\<lparr>openC := openC ?x - {c}, cpc := (cpc ?x)(c := CIdle)\<rparr>)"
      by (rule goneC) (use True assms(4) in auto)
    with 2 have "cp_steps ndebug P cfg x (?x\<lparr>openC := openC ?x - {c}, cpc := (cpc ?x)(c := CIdle)\<rparr>)" by simp
    then show ?thesis by (rule runs_to) (use True assms(3) in \<open>auto simp: quiet_def core_def\<close>)
  next
    case False
    with 2 assms(3) show ?thesis by (intro runs_to [of _ _ _ x ?x]) (auto simp: quiet_def core_def)
  qed
qed

lemma quiet_logic:
  assumes "cp_step ndebug P cfg x x1" and "x1 = x\<lparr>lpc := (lpc x)(l := pc)\<rparr>"
    and "quiet x" and "l \<in> openL x" and "logic_finish ndebug P cfg order l pc (sv x) = Inr s'"
    and "pc = LClose \<longrightarrow> visits order (gAllClientObject (sv x))"
  shows "\<exists>x'. cp_steps ndebug P cfg x x' \<and> quiet x' \<and>
    core x' = \<lparr>sv = s', openC = openC x, openL = (if leaving pc then openL x - {l} else openL x)\<rparr>"
proof -
  have 1: "cp_steps ndebug P cfg x1 (x1\<lparr>sv := s', lpc := (lpc x1)(l := (if leaving pc then LDone else LIdle))\<rparr>)"
    using logic_uninterrupted [of ndebug P cfg order l pc "sv x" s' x1] assms by auto
  let ?x = "x\<lparr>sv := s', lpc := (lpc x)(l := (if leaving pc then LDone else LIdle))\<rparr>"
  have 2: "cp_steps ndebug P cfg x ?x"
    using converse_rtranclp_into_rtranclp [of "cp_step ndebug P cfg", OF assms(1) 1] assms(2) by simp
  show ?thesis
  proof (cases "leaving pc")
    case True
    have "cp_step ndebug P cfg ?x (?x\<lparr>openL := openL ?x - {l}, lpc := (lpc ?x)(l := LIdle)\<rparr>)"
      by (rule goneL) (use True assms(4) in auto)
    with 2 have "cp_steps ndebug P cfg x (?x\<lparr>openL := openL ?x - {l}, lpc := (lpc ?x)(l := LIdle)\<rparr>)" by simp
    then show ?thesis by (rule runs_to) (use True assms(3) in \<open>auto simp: quiet_def core_def\<close>)
  next
    case False
    with 2 assms(3) show ?thesis by (intro runs_to [of _ _ _ x ?x]) (auto simp: quiet_def core_def)
  qed
qed

lemma cs_step_threads:
  assumes "cs_step once ndebug P cfg y z" and "core x = y" and "quiet x"
  shows "\<exists>x'. cp_steps ndebug P cfg x x' \<and> quiet x' \<and> core x' = z"
  using assms
proof (induction rule: cs_step.induct)
  case (client_enter c y sock)
  then have "cp_step ndebug P cfg x (x\<lparr>sv := upd_client c (\<lambda>_. ConnectionClientSession sock) (sv x),
      openC := insert c (openC x)\<rparr>)"
    by (intro enterC) (auto simp: core_def quiet_def)
  from runs_to [OF r_into_rtranclp, OF this] client_enter show ?case
    by (auto simp: quiet_def core_def)
next
  case (client_msg c y now s1 order rnd op body s')
  have s: "sv x = sv y" "openC x = openC y" "openL x = openL y" using client_msg.prems(1) by (auto simp: core_def)
  have T: "gAllPrimaryServers s1 = draws_from c (CPacket body) (sv y)"
  proof (cases "mRuntimeID (clients (sv y) c) = - 1")
    case True
    then show ?thesis using claimRuntimeID_Inr [of ndebug cfg now c "sv y" s1] client_msg.hyps(3) by fastforce
  qed (use client_msg.hyps(3) in simp)
  have "\<exists>x'. cp_steps ndebug P cfg x x' \<and> quiet x' \<and> core x' = \<lparr>sv = s',
      openC = (if closing (CPacket body) then openC x - {c} else openC x), openL = openL x\<rparr>"
    by (rule quiet_client [OF recvC refl client_msg.prems(2), where now = now and rnd = rnd and order = order])
      (use client_msg s T client_finish_packet [of ndebug cfg now rnd order c body "sv y" op]
        in \<open>auto simp: quiet_def visits_def\<close>)
  then show ?case using s by (cases y) auto
next
  case (client_close c y)
  have s: "sv x = sv y" "openC x = openC y" "openL x = openL y" using client_close.prems(1) by (auto simp: core_def)
  have "\<exists>x'. cp_steps ndebug P cfg x x' \<and> quiet x' \<and> core x' = \<lparr>sv = client_onClose c (sv y),
      openC = (if closing CErase then openC x - {c} else openC x), openL = openL x\<rparr>"
    by (rule quiet_client [OF shutC refl client_close.prems(2), where now = 0])
      (use client_close s client_finish_close in \<open>auto simp: quiet_def\<close>)
  then show ?case using s by (cases y) auto
next
  case (logic_enter l y)
  then have "cp_step ndebug P cfg x (x\<lparr>sv := upd_logic l (\<lambda>_. LogicServerSession) (sv x), openL := insert l (openL x)\<rparr>)"
    by (intro enterL) (auto simp: core_def)
  from runs_to [OF r_into_rtranclp, OF this] logic_enter show ?case
    by (auto simp: quiet_def core_def)
next
  case (logic_msg l y op body s')
  have s: "sv x = sv y" "openC x = openC y" "openL x = openL y" using logic_msg.prems(1) by (auto simp: core_def)
  have "\<exists>x'. cp_steps ndebug P cfg x x' \<and> quiet x' \<and> core x' = \<lparr>sv = s', openC = openC x,
      openL = (if leaving (LPacket op body :: 'a logic_pc) then openL x - {l} else openL x)\<rparr>"
    by (rule quiet_logic [OF recvL refl logic_msg.prems(2)])
      (use logic_msg s logic_finish_packet [of ndebug P cfg order l op body "sv y"] in \<open>auto simp: quiet_def\<close>)
  then show ?case using s by (cases y) auto
next
  case (logic_close l y order)
  have s: "sv x = sv y" "openC x = openC y" "openL x = openL y" using logic_close.prems(1) by (auto simp: core_def)
  have "\<exists>x'. cp_steps ndebug P cfg x x' \<and> quiet x' \<and> core x' = \<lparr>sv = logic_onClose order l (sv y), openC = openC x,
      openL = (if leaving (LClose :: 'a logic_pc) then openL x - {l} else openL x)\<rparr>"
    by (rule quiet_logic [OF shutL refl logic_close.prems(2), where order = order])
      (use logic_close s logic_finish_close [of ndebug P cfg order l "sv y"] in \<open>auto simp: quiet_def visits_def\<close>)
  then show ?case using s by (cases y) auto
qed

lemma cs_reach_threads:
  "cs_reach once ndebug P cfg y \<Longrightarrow> \<exists>x. cp_reach ndebug P cfg x \<and> quiet x \<and> core x = y"
proof (induction rule: cs_reach.induct)
  case start
  show ?case by (rule runs_to [OF rtranclp.rtrancl_refl]) (simp_all add: cp_init_def quiet_def core_def cs_init_def)
next
  case (step y z)
  then obtain x where x: "cp_reach ndebug P cfg x" "core x = y" "quiet x" by blast
  obtain x' where x': "cp_steps ndebug P cfg x x'" "quiet x'" "core x' = z"
    using cs_step_threads [OF step.hyps(2) x(2,3)] by blast
  from rtranclp_trans [OF x(1) x'(1)] x'(2,3) show ?case by (rule runs_to)
qed

text \<open>
  Uninterrupted, the turns of a callback are the handlers of ConnServer, on every branch and fault, and
  every run of the sequential transition system is a run of the threads.
\<close>

theorem sequential_runs:
  "client_finish ndebug cfg now rnd order c (CPacket body) s =
     client_procPacket ndebug cfg now rnd order c op body s \<and>
   client_finish ndebug cfg now rnd order c CErase s = Inr (client_onClose c s) \<and>
   logic_finish ndebug P cfg vorder l (LPacket op body) s = logic_procPacket ndebug P cfg l op body s \<and>
   logic_finish ndebug P cfg vorder l LClose s = Inr (logic_onClose vorder l s) \<and>
   (cs_reach once ndebug P cfg y \<longrightarrow> (\<exists>x. cp_reach ndebug P cfg x \<and> quiet x \<and> core x = y))"
  by (intro conjI impI client_finish_packet client_finish_close logic_finish_packet logic_finish_close cs_reach_threads)

theorem sequential_runs_witness: "\<exists>x. cp_reach False std_lib demo_cfg x \<and> quiet x \<and> core x = demo3"
  using sequential_runs [of False demo_cfg 0 0 "[]" 0 "[]" "sv demo3" 0 std_lib "[]" 0 False demo3] demo3_reach
  by blast

section \<open>The client table\<close>

text \<open>
  \<open>inside\<close>: the session carries a runtime id but is not in the table, because its callback is between
  writing the id and inserting the entry, or between erasing the entry and clearing the id.
\<close>

fun inside :: "client_pc \<Rightarrow> bool" where
  "inside (CAssert body) = True"
| "inside (CAdd body) = True"
| "inside CTell = True"
| "inside CReset = True"
| "inside pc = False"

definition entries_ok :: "'r cp_sys \<Rightarrow> bool" where
  "entries_ok x \<longleftrightarrow> (\<forall>rid c. um_find (gAllClientObject (sv x)) rid = Some c \<longrightarrow>
     c \<in> openC x \<and> mRuntimeID (clients (sv x) c) = rid \<and> rid \<noteq> - 1 \<and> \<not> inside (cpc x c))"

fun adding :: "client_pc \<Rightarrow> bool" where
  "adding (CAssert body) = True"
| "adding (CAdd body) = True"
| "adding pc = False"

definition pcs_ok :: "'r cp_sys \<Rightarrow> bool" where
  "pcs_ok x \<longleftrightarrow> (\<forall>c. (adding (cpc x c) \<longrightarrow> mRuntimeID (clients (sv x) c) \<noteq> - 1) \<and>
     (cpc x c = CDone \<longrightarrow> mRuntimeID (clients (sv x) c) = - 1) \<and> (c \<notin> openC x \<longrightarrow> cpc x c = CIdle))"

definition ids_ok :: "'r cp_sys \<Rightarrow> bool" where
  "ids_ok x \<longleftrightarrow> (\<forall>c\<in>openC x. mRuntimeID (clients (sv x) c) \<noteq> - 1 \<longrightarrow>
     mRuntimeID (clients (sv x) c) \<in> set (drawn x) \<and>
     (\<forall>d\<in>openC x. d \<noteq> c \<longrightarrow> mRuntimeID (clients (sv x) d) \<noteq> mRuntimeID (clients (sv x) c)) \<and>
     (\<not> inside (cpc x c) \<longrightarrow> um_find (gAllClientObject (sv x)) (mRuntimeID (clients (sv x) c)) = Some c))"

definition drawn_ok :: "conn_config \<Rightarrow> 'r cp_sys \<Rightarrow> bool" where
  "drawn_ok cfg x \<longleftrightarrow> (\<exists>nows. drawn x = runtime_ids (cfg_id cfg) nows 0 \<and>
     incRuntimeID (sv x) = of_nat (length nows))"

lemma runtime_ids_snoc:
  "runtime_ids srv (nows @ [now]) inc =
     runtime_ids srv nows inc @ [fst (MakeRuntimeID srv now (inc + of_nat (length nows)))]"
  by (induction nows arbitrary: inc) (simp_all add: MakeRuntimeID_def ac_simps)

lemma drawn_distinct:
  assumes "drawn_ok cfg x" and "length (drawn x) \<le> 65536"
  shows "distinct (drawn x)"
proof -
  obtain nows where "drawn x = runtime_ids (cfg_id cfg) nows 0" using assms(1) by (auto simp: drawn_ok_def)
  then show ?thesis using assms(2) by (auto intro!: MakeRuntimeID_unique)
qed

lemma login_add_frame [simp]:
  "clients (login_add cfg l b sid f s) = clients s" "gAllClientObject (login_add cfg l b sid f s) = gAllClientObject s"
  "incRuntimeID (login_add cfg l b sid f s) = incRuntimeID s"
  by (simp_all add: login_add_def sendLogicServerLoginResult_def)

text \<open>What a turn of a logic server's callback leaves alone.\<close>

lemma logic_turn_frame:
  "logic_turn ndebug P cfg order l pc s = Inr (pc', s') \<Longrightarrow> gAllClientObject s' = gAllClientObject s \<and>
   incRuntimeID s' = incRuntimeID s \<and> (\<forall>c. mRuntimeID (clients s' c) = mRuntimeID (clients s c) \<and>
     mPrimaryServerID (clients s' c) = mPrimaryServerID (clients s c) \<and>
     mPrimaryServer (clients s' c) = mPrimaryServer (clients s c) \<and> mSocketID (clients s' c) = mSocketID (clients s c))"
  by (induction ndebug P cfg order l pc s rule: logic_turn.induct)
    (auto simp: Let_def logic_dispatch_def results cs_onPing_def sendLogicServerLoginResult_def setSlaveServerID_def
      login_find_def split: if_splits prod.splits option.splits)

lemma forwardPacket_core:
  "forwardPacket c body s = Inr s' \<Longrightarrow> clients s' = clients s \<and> gAllClientObject s' = gAllClientObject s \<and>
   incRuntimeID s' = incRuntimeID s"
  by (auto simp: forwardPacket_def sendThrough_def Let_def split: if_splits option.splits)

text \<open>What a turn of a client's callback does to the ids and the table.\<close>

lemma client_turn_effect:
  assumes "client_turn ndebug cfg now rnd order c pc s = Inr (pc', s')"
  shows "\<forall>d. d \<noteq> c \<longrightarrow> clients s' d = clients s d"
    and "incRuntimeID s' = (case pc of CPacket body \<Rightarrow>
        if mRuntimeID (clients s c) = - 1 then incRuntimeID s + 1 else incRuntimeID s | _ \<Rightarrow> incRuntimeID s)"
    and "mRuntimeID (clients s' c) = (case pc of CPacket body \<Rightarrow> if mRuntimeID (clients s c) = - 1
        then fst (MakeRuntimeID (cfg_id cfg) now (incRuntimeID s)) else mRuntimeID (clients s c)
      | CReset \<Rightarrow> - 1 | _ \<Rightarrow> mRuntimeID (clients s c))"
    and "gAllClientObject s' = (case pc of CAdd body \<Rightarrow> um_set (mRuntimeID (clients s c)) c (gAllClientObject s)
      | CErase \<Rightarrow> if mRuntimeID (clients s c) \<noteq> - 1 then um_erase (mRuntimeID (clients s c)) (gAllClientObject s)
          else gAllClientObject s
      | _ \<Rightarrow> gAllClientObject s)"
    and "inside pc' = (case pc of CPacket body \<Rightarrow> mRuntimeID (clients s c) = - 1 | CAssert body \<Rightarrow> True
      | CErase \<Rightarrow> mRuntimeID (clients s c) \<noteq> - 1 | CTell \<Rightarrow> True | _ \<Rightarrow> False)"
    and "pc' = CDone \<longrightarrow> mRuntimeID (clients s' c) = - 1 \<or> pc = CDone"
    and "adding pc' = (case pc of CPacket body \<Rightarrow> mRuntimeID (clients s c) = - 1 | CAssert body \<Rightarrow> True | _ \<Rightarrow> False)"
  using assms by (cases pc; auto simp: results Let_def MakeRuntimeID_def mgr_defs dest: forwardPacket_core
      split: if_splits prod.splits)+

definition threads_ok :: "conn_config \<Rightarrow> 'r cp_sys \<Rightarrow> bool" where
  "threads_ok cfg x \<longleftrightarrow> entries_ok x \<and> pcs_ok x \<and> drawn_ok cfg x \<and> (distinct (drawn x) \<longrightarrow> ids_ok x)"

lemmas threads_defs = threads_ok_def entries_ok_def pcs_ok_def ids_ok_def

text \<open>Ghost-free steps: the ids, the table and the counter are as before, and whose callback is where.\<close>

lemma threads_ok_core:
  assumes "threads_ok cfg x" and "gAllClientObject (sv x') = gAllClientObject (sv x)"
    and "incRuntimeID (sv x') = incRuntimeID (sv x)"
    and "\<And>c. c \<in> openC x \<Longrightarrow> mRuntimeID (clients (sv x') c) = mRuntimeID (clients (sv x) c)"
    and "openC x' = openC x" and "drawn x' = drawn x"
    and "\<And>c. inside (cpc x' c) = inside (cpc x c)" and "\<And>c. adding (cpc x' c) = adding (cpc x c)"
    and "\<And>c. cpc x' c = CDone \<Longrightarrow> cpc x c = CDone" and "\<And>c. c \<notin> openC x \<Longrightarrow> cpc x' c = cpc x c"
  shows "threads_ok cfg x'"
proof -
  have "entries_ok x'" using assms by (auto simp: threads_ok_def entries_ok_def)
  moreover have "pcs_ok x'" using assms by (fastforce simp: threads_ok_def pcs_ok_def)
  moreover have "drawn_ok cfg x'" using assms by (simp add: threads_ok_def drawn_ok_def)
  moreover have "distinct (drawn x') \<longrightarrow> ids_ok x'" using assms by (auto simp: threads_ok_def ids_ok_def)
  ultimately show ?thesis by (simp add: threads_ok_def)
qed

lemma threads_ok_draw:
  assumes ok: "threads_ok cfg x" and c: "c \<in> openC x" "cpc x c = CPacket body"
    and fresh: "mRuntimeID (clients (sv x) c) = - 1" and now: "(ucast now :: i32) \<noteq> - 1"
    and t: "client_turn ndebug cfg now rnd order c (cpc x c) (sv x) = Inr (pc', s')"
  shows "threads_ok cfg (x\<lparr>sv := s', cpc := (cpc x)(c := pc'), drawn := drawn x @ new_id c (sv x) s'\<rparr>)"
proof -
  let ?x = "x\<lparr>sv := s', cpc := (cpc x)(c := pc'), drawn := drawn x @ new_id c (sv x) s'\<rparr>"
  define rid where "rid = fst (MakeRuntimeID (cfg_id cfg) now (incRuntimeID (sv x)))"
  have rid: "rid \<noteq> - 1" using MakeRuntimeID_minus1 [OF now] by (simp add: rid_def)
  note e = client_turn_effect [OF t]
  have s': "mRuntimeID (clients s' c) = rid" "gAllClientObject s' = gAllClientObject (sv x)"
    "incRuntimeID s' = incRuntimeID (sv x) + 1" "inside pc'" "adding pc'"
    "\<And>d. d \<noteq> c \<Longrightarrow> clients s' d = clients (sv x) d"
    using e c fresh by (simp_all add: rid_def)
  have dr: "drawn ?x = drawn x @ [rid]" using fresh rid s' by (simp add: new_id_def)
  have "entries_ok ?x" using ok fresh s' by (auto simp: threads_ok_def entries_ok_def)
  moreover have "pcs_ok ?x" using ok c rid s' by (auto simp: threads_ok_def pcs_ok_def)
  moreover have "drawn_ok cfg ?x"
  proof -
    obtain nows where n: "drawn x = runtime_ids (cfg_id cfg) nows 0" "incRuntimeID (sv x) = of_nat (length nows)"
      using ok by (auto simp: threads_ok_def drawn_ok_def)
    then show ?thesis
      using dr s' by (intro drawn_ok_def [THEN iffD2] exI [of _ "nows @ [now]"])
        (simp add: runtime_ids_snoc rid_def)
  qed
  moreover have "ids_ok ?x" if "distinct (drawn ?x)"
  proof -
    have I: "ids_ok x" and new: "rid \<notin> set (drawn x)" using ok that dr by (auto simp: threads_ok_def)
    have old: "mRuntimeID (clients (sv x) d) \<noteq> rid" if "d \<in> openC x" for d
      using I new rid that unfolding ids_ok_def by metis
    have o: "clients (sv ?x) d = clients (sv x) d" if "d \<noteq> c" for d using that s'(6) by simp
    show ?thesis
      unfolding ids_ok_def dr
    proof (intro ballI impI)
      fix d assume d: "d \<in> openC ?x" "mRuntimeID (clients (sv ?x) d) \<noteq> - 1"
      show "mRuntimeID (clients (sv ?x) d) \<in> set (drawn x @ [rid]) \<and>
        (\<forall>d'\<in>openC ?x. d' \<noteq> d \<longrightarrow> mRuntimeID (clients (sv ?x) d') \<noteq> mRuntimeID (clients (sv ?x) d)) \<and>
        (\<not> inside (cpc ?x d) \<longrightarrow> um_find (gAllClientObject (sv ?x)) (mRuntimeID (clients (sv ?x) d)) = Some d)"
      proof (cases "d = c")
        case True
        then show ?thesis using s'(1,4) old o by auto
      next
        case False
        then have i: "mRuntimeID (clients (sv x) d) \<noteq> - 1" "d \<in> openC x" using d o by auto
        have "mRuntimeID (clients (sv ?x) d') \<noteq> mRuntimeID (clients (sv x) d)" if "d' \<in> openC x" "d' \<noteq> d" for d'
        proof (cases "d' = c")
          case True
          then show ?thesis using s'(1) old [OF i(2)] by simp
        next
          case False
          then show ?thesis using I i that o [OF False] unfolding ids_ok_def by metis
        qed
        then show ?thesis using I i False o [OF False] s'(2) by (simp add: ids_ok_def)
      qed
    qed
  qed
  ultimately show ?thesis by (simp add: threads_ok_def)
qed

text \<open>The three other steps that matter: inserting, erasing, clearing the id.\<close>

lemma threads_ok_table:
  assumes ok: "threads_ok cfg x" and c: "c \<in> openC x" and pc: "cpc x c \<in> {CErase, CReset} \<union> range CAdd"
    and t: "client_turn ndebug cfg now rnd order c (cpc x c) (sv x) = Inr (pc', s')"
  shows "threads_ok cfg (x\<lparr>sv := s', cpc := (cpc x)(c := pc')\<rparr>)"
proof -
  let ?x = "x\<lparr>sv := s', cpc := (cpc x)(c := pc')\<rparr>"
  note e = client_turn_effect [OF t]
  have E: "entries_ok x" and A: "pcs_ok x" and I: "distinct (drawn x) \<longrightarrow> ids_ok x"
    using ok by (simp_all add: threads_ok_def)
  have other: "\<And>d. d \<noteq> c \<Longrightarrow> mRuntimeID (clients s' d) = mRuntimeID (clients (sv x) d)" using e(1) by simp
  have na: "\<not> adding pc'" using pc e(7) by auto
  have "drawn_ok cfg ?x" using ok pc e(2) by (auto simp: threads_ok_def drawn_ok_def)
  moreover have "pcs_ok ?x"
    unfolding pcs_ok_def
  proof (intro allI conjI impI)
    fix d
    show "mRuntimeID (clients (sv ?x) d) \<noteq> - 1" if "adding (cpc ?x d)"
      using A that na other [of d] by (cases "d = c") (auto simp: pcs_ok_def)
    show "mRuntimeID (clients (sv ?x) d) = - 1" if "cpc ?x d = CDone"
      using A that other [of d] e(6) pc by (cases "d = c") (auto simp: pcs_ok_def)
    show "cpc ?x d = CIdle" if "d \<notin> openC ?x" using A c that by (cases "d = c") (auto simp: pcs_ok_def)
  qed
  moreover have "entries_ok ?x \<and> (distinct (drawn ?x) \<longrightarrow> ids_ok ?x)"
  proof (cases "cpc x c = CReset")
    case True
    then have s: "mRuntimeID (clients s' c) = - 1" "gAllClientObject s' = gAllClientObject (sv x)"
      using e(3,4) by auto
    have no: "um_find (gAllClientObject (sv x)) rid \<noteq> Some c" for rid
      using E True unfolding entries_ok_def by (metis inside.simps(4))
    have "entries_ok ?x" unfolding entries_ok_def
    proof (intro allI impI)
      fix rid d assume f: "um_find (gAllClientObject (sv ?x)) rid = Some d"
      then have "d \<noteq> c" using no s(2) by auto
      then show "d \<in> openC ?x \<and> mRuntimeID (clients (sv ?x) d) = rid \<and> rid \<noteq> - 1 \<and> \<not> inside (cpc ?x d)"
        using E f s(2) other by (auto simp: entries_ok_def)
    qed
    moreover have "ids_ok ?x" if "ids_ok x"
      unfolding ids_ok_def
    proof (intro ballI impI)
      fix d assume d: "d \<in> openC ?x" "mRuntimeID (clients (sv ?x) d) \<noteq> - 1"
      then have dc: "d \<noteq> c" using s(1) by auto
      have i: "mRuntimeID (clients (sv x) d) \<noteq> - 1" "d \<in> openC x" using d other [OF dc] by auto
      show "mRuntimeID (clients (sv ?x) d) \<in> set (drawn ?x) \<and>
        (\<forall>d'\<in>openC ?x. d' \<noteq> d \<longrightarrow> mRuntimeID (clients (sv ?x) d') \<noteq> mRuntimeID (clients (sv ?x) d)) \<and>
        (\<not> inside (cpc ?x d) \<longrightarrow> um_find (gAllClientObject (sv ?x)) (mRuntimeID (clients (sv ?x) d)) = Some d)"
        using that i s dc other by (auto simp: ids_ok_def) metis+
    qed
    ultimately show ?thesis using I by simp
  next
    case False
    then have s: "mRuntimeID (clients s' d) = mRuntimeID (clients (sv x) d)" for d
      using other e(3) pc by (cases "d = c") auto
    have "cpc x c = CErase \<or> (\<exists>body. cpc x c = CAdd body)" using pc False by auto
    then show ?thesis
    proof (elim disjE exE)
      assume "cpc x c = CErase"
      then have "inside pc' = (mRuntimeID (clients (sv x) c) \<noteq> - 1)" and "\<not> inside (cpc x c)"
        "gAllClientObject s' = (if mRuntimeID (clients (sv x) c) \<noteq> - 1
           then um_erase (mRuntimeID (clients (sv x) c)) (gAllClientObject (sv x)) else gAllClientObject (sv x))"
        using e by auto
      note g = this
      have "entries_ok ?x" using E s c g by (auto simp: entries_ok_def)
      moreover have "distinct (drawn ?x) \<longrightarrow> ids_ok ?x" unfolding ids_ok_def using I c s g by (auto simp: ids_ok_def)
      ultimately show ?thesis ..
    next
      fix body assume p: "cpc x c = CAdd body"
      then have g: "mRuntimeID (clients (sv x) c) \<noteq> - 1" using A by (simp add: pcs_ok_def)
      have h: "\<not> inside pc'"
        "gAllClientObject s' = um_set (mRuntimeID (clients (sv x) c)) c (gAllClientObject (sv x))"
        using e p by auto
      have "entries_ok ?x" using E s c g h by (auto simp: entries_ok_def)
      moreover have "distinct (drawn ?x) \<longrightarrow> ids_ok ?x" unfolding ids_ok_def using I c s g h by (auto simp: ids_ok_def)
      ultimately show ?thesis ..
    qed
  qed
  ultimately show ?thesis by (simp add: threads_ok_def)
qed

lemma threads_ok_turn:
  assumes ok: "threads_ok cfg x" and c: "c \<in> openC x" and now: "(ucast now :: i32) \<noteq> - 1"
    and t: "client_turn ndebug cfg now rnd order c (cpc x c) (sv x) = Inr (pc', s')"
  shows "threads_ok cfg (x\<lparr>sv := s', cpc := (cpc x)(c := pc'), drawn := drawn x @ new_id c (sv x) s'\<rparr>)"
proof (cases "(\<exists>body. cpc x c = CPacket body) \<and> mRuntimeID (clients (sv x) c) = - 1")
  case True
  then show ?thesis using threads_ok_draw [OF ok c _ _ now t] by blast
next
  case False
  note e = client_turn_effect [OF t]
  have dr: "new_id c (sv x) s' = []" using False e(3) by (auto simp: new_id_def split: client_pc.splits if_splits)
  show ?thesis
  proof (cases "cpc x c \<in> {CErase, CReset} \<union> range CAdd")
    case True
    from threads_ok_table [OF ok c True t] dr show ?thesis by simp
  next
    case out: False
    have "mRuntimeID (clients s' d) = mRuntimeID (clients (sv x) d)" for d
      using e(1,3) out False by (cases "d = c") (auto split: client_pc.splits)
    moreover have "gAllClientObject s' = gAllClientObject (sv x)" "incRuntimeID s' = incRuntimeID (sv x)"
      "inside pc' = inside (cpc x c)" "adding pc' = adding (cpc x c)"
      using e out False by (auto split: client_pc.splits)
    moreover have "pc' = CDone \<longrightarrow> cpc x c = CDone" using t out by (cases "cpc x c") (auto simp: Let_def results split: if_splits prod.splits)
    ultimately show ?thesis by (intro threads_ok_core [OF ok]) (use dr c in \<open>auto split: if_splits\<close>)
  qed
qed

lemma threads_ok_step:
  "cp_step ndebug P cfg x x' \<Longrightarrow> threads_ok cfg x \<Longrightarrow> threads_ok cfg x'"
proof (induction rule: cp_step.induct)
  case (enterC c y sock)
  have no: "um_find (gAllClientObject (sv y)) rid \<noteq> Some c" for rid
    using enterC by (auto simp: threads_ok_def entries_ok_def)
  let ?y = "y\<lparr>sv := upd_client c (\<lambda>_. ConnectionClientSession sock) (sv y), openC := insert c (openC y)\<rparr>"
  have "cpc y c = CIdle" using enterC by (simp add: threads_ok_def pcs_ok_def)
  then have "entries_ok ?y" "pcs_ok ?y" using enterC no
    by (auto simp: threads_ok_def entries_ok_def pcs_ok_def ConnectionClientSession_def)
  moreover have "ids_ok ?y" if "ids_ok y"
    using that enterC by (auto simp: ids_ok_def ConnectionClientSession_def)
  ultimately show ?case using enterC by (simp add: threads_ok_def drawn_ok_def)
next
  case (recvC c y body)
  then show ?case by (intro threads_ok_core [OF recvC.prems]) (auto split: if_splits)
next
  case (shutC c y)
  then show ?case by (intro threads_ok_core [OF shutC.prems]) (auto split: if_splits)
next
  case (turnC c y now order rnd pc' s')
  then show ?case by (blast intro: threads_ok_turn)
next
  case (goneC c y)
  have "um_find (gAllClientObject (sv y)) rid \<noteq> Some c" for rid
    using goneC by (auto simp: threads_ok_def entries_ok_def pcs_ok_def)
  then have "entries_ok (y\<lparr>openC := openC y - {c}, cpc := (cpc y)(c := CIdle)\<rparr>)"
    using goneC by (auto simp: threads_ok_def entries_ok_def)
  moreover have "pcs_ok (y\<lparr>openC := openC y - {c}, cpc := (cpc y)(c := CIdle)\<rparr>)"
    using goneC by (auto simp: threads_ok_def pcs_ok_def)
  moreover have "ids_ok (y\<lparr>openC := openC y - {c}, cpc := (cpc y)(c := CIdle)\<rparr>)" if "ids_ok y"
    using that by (auto simp: ids_ok_def)
  ultimately show ?case using goneC by (simp add: threads_ok_def drawn_ok_def)
next
  case (enterL l y)
  then show ?case by (intro threads_ok_core [OF enterL.prems]) (auto split: if_splits)
next
  case (recvL l y op body)
  then show ?case by (intro threads_ok_core [OF recvL.prems]) (auto split: if_splits)
next
  case (shutL l y)
  then show ?case by (intro threads_ok_core [OF shutL.prems]) (auto split: if_splits)
next
  case (turnL l y order pc' s')
  then show ?case using logic_turn_frame [OF turnL.hyps(3)] by (intro threads_ok_core [OF turnL.prems]) (auto split: if_splits)
next
  case (goneL l y)
  then show ?case by (intro threads_ok_core [OF goneL.prems]) (auto split: if_splits)
qed

lemma cp_reach_ok: "cp_reach ndebug P cfg x \<Longrightarrow> threads_ok cfg x"
proof (induction rule: rtranclp_induct)
  case base
  show ?case by (auto simp: threads_defs drawn_ok_def cp_init_def cs_init_def intro: exI [of _ "[]"])
next
  case (step y z)
  then show ?case by (blast intro: threads_ok_step)
qed

lemma demo2_threads: "\<exists>x. cp_reach ndebug std_lib demo_cfg x \<and> quiet x \<and> core x = demo2"
  by (rule cs_reach_threads [OF demo2_reach [of False]])

text \<open>
  C4: However the network threads of a connection server interleave, what is found in the client table
  under a runtime id is an open session that carries this id. As long as at most 65536 ids have been drawn, the
  table holds exactly the open sessions with an id, except those whose callback is between writing the id
  and inserting the entry, or between erasing the entry and clearing the id.
\<close>

theorem threads_client_table:
  assumes "cp_reach ndebug P cfg x"
  shows "(\<forall>rid c. um_find (gAllClientObject (sv x)) rid = Some c \<longrightarrow>
      c \<in> openC x \<and> mRuntimeID (clients (sv x) c) = rid \<and> rid \<noteq> - 1) \<and>
    (length (drawn x) \<le> 65536 \<longrightarrow> (\<forall>rid c. um_find (gAllClientObject (sv x)) rid = Some c \<longleftrightarrow>
      c \<in> openC x \<and> mRuntimeID (clients (sv x) c) = rid \<and> rid \<noteq> - 1 \<and> \<not> inside (cpc x c)))"
proof -
  have ok: "threads_ok cfg x" by (rule cp_reach_ok [OF assms])
  then have E: "entries_ok x" by (simp add: threads_ok_def)
  have "um_find (gAllClientObject (sv x)) rid = Some c"
    if "length (drawn x) \<le> 65536" "c \<in> openC x" "mRuntimeID (clients (sv x) c) = rid" "rid \<noteq> - 1" "\<not> inside (cpc x c)"
    for rid c
  proof -
    have "ids_ok x" using ok drawn_distinct [OF _ that(1)] by (auto simp: threads_ok_def)
    then show ?thesis using that unfolding ids_ok_def by blast
  qed
  with E show ?thesis unfolding entries_ok_def by blast
qed

theorem threads_client_table_witness:
  "\<exists>x :: std_reader cp_sys. cp_reach False std_lib demo_cfg x \<and>
     um_find (gAllClientObject (sv x)) demo_rid = Some 0 \<and> 0 \<in> openC x \<and> mRuntimeID (clients (sv x) 0) = demo_rid"
proof -
  obtain x where x: "cp_reach False std_lib demo_cfg x" "core x = demo2"
    using demo2_threads by blast
  have "um_find (gAllClientObject (sv demo2)) demo_rid = Some 0"
    by (simp add: demo2_def um_find_def)
  moreover have "sv x = sv demo2" using arg_cong [OF x(2), of sv] by (simp add: core_def)
  ultimately have "um_find (gAllClientObject (sv x)) demo_rid = Some 0" by simp
  with threads_client_table [OF x(1)] x(1) show ?thesis by blast
qed

section \<open>Assigning a primary while it leaves\<close>

lemma logic_onClose_core:
  assumes "mID (logics s l) = sid" and "sid \<noteq> - 1" and "mIsPrimary (logics s l)"
  shows "clients (logic_onClose order l s) = clients s"
    and "gAllPrimaryServers (logic_onClose order l s) = um_erase sid (gAllPrimaryServers s)"
  using assms by (simp_all add: logic_onClose_def Let_def KickClientOfPrimary_def RemovePrimaryLogicServer_def)

lemma client_finish_late:
  assumes "um_live (gAllPrimaryServers s) sid = None" and "sid \<noteq> - 1" and "mSlaveServerID (clients s c) = - 1"
  shows "client_finish ndebug cfg now rnd order c (CStore body sid) s =
    Inr (upd_client c (\<lambda>cl. cl\<lparr>mPrimaryServerID := sid, mPrimaryServer := None, mSlaveServer := None\<rparr>)
      (s\<lparr>gAllPrimaryServers := um_touch sid (gAllPrimaryServers s)\<rparr>))"
  using assms by (simp add: client_finish_turn [of "CStore body sid"] client_finish_turn [of "CLoad body"]
      client_finish_turn [of "CSlave body"] client_finish_turn [of "CForward body"] forwardPacket_def Let_def
      Find_live upd_client_def)

text \<open>
  An open client with the id of a primary and no pointer to it, idle or in a callback that does not assign it again
  (\<open>claimPrimaryServer\<close> is called for the id -1 only).
\<close>

fun forwarding :: "client_pc \<Rightarrow> bool" where
  "forwarding CIdle = True" | "forwarding (CPacket body) = True" | "forwarding (CClaim body) = True"
| "forwarding (CSlave body) = True" | "forwarding (CSlaveFind body) = True" | "forwarding (CForward body) = True"
| "forwarding pc = False"

definition stranded :: "i32 \<Rightarrow> caddr \<Rightarrow> 'r cp_sys \<Rightarrow> bool" where
  "stranded sid c y \<longleftrightarrow> c \<in> openC y \<and> mRuntimeID (clients (sv y) c) \<noteq> - 1 \<and> mPrimaryServerID (clients (sv y) c) = sid \<and>
     mPrimaryServer (clients (sv y) c) = None \<and> forwarding (cpc y c)"

lemma client_turn_other:
  assumes "client_turn ndebug cfg now rnd order d pc s = Inr (pc', s')" and "c \<noteq> d"
  shows "clients s' c = clients s c"
  using assms by (cases pc) (auto simp: results Let_def forwardPacket_def sendThrough_def upd_client_def Find_live
      split: if_splits prod.splits option.splits)

lemma stranded_turn:
  assumes "stranded sid c y" and "sid \<noteq> - 1" and "client_turn ndebug cfg now rnd order c (cpc y c) (sv y) = Inr (pc', s')"
  shows "stranded sid c (y\<lparr>sv := s', cpc := (cpc y)(c := pc'), drawn := ids\<rparr>) \<and> out s' = out (sv y)"
  using assms unfolding stranded_def
  by (cases "cpc y c") (auto simp: results Let_def forwardPacket_def sendThrough_def Find_live split: if_splits option.splits)

lemma stranded_fault:
  assumes "stranded sid c y" and "sid \<noteq> - 1" and "client_turn ndebug cfg now rnd order c (cpc y c) (sv y) = Inl f"
  shows "f = NullDeref \<and> mSlaveServer (clients (sv y) c) \<noteq> None"
  using assms unfolding stranded_def
  by (cases "cpc y c") (auto simp: Let_def forwardPacket_def sendThrough_def Find_live split: if_splits option.splits)

lemma stranded_step:
  assumes "cp_step ndebug P cfg y z" and "stranded sid c y" and "sid \<noteq> - 1" and "\<not> closing (cpc z c)"
  shows "stranded sid c z"
  using assms
proof (induction rule: cp_step.induct)
  case (turnC d y now order rnd pc' s')
  show ?case
  proof (cases "d = c")
    case True
    with turnC stranded_turn show ?thesis by blast
  next
    case False
    then show ?thesis using turnC client_turn_other [OF turnC(4), of c] by (auto simp: stranded_def)
  qed
next
  case (turnL l y order pc' s')
  then show ?case using logic_turn_frame [OF turnL(3)] by (simp add: stranded_def)
qed (auto simp: stranded_def upd_client_def upd_logic_def)

text \<open>
  C5: A client whose callback is about to draw its primary, while a primary leaves: there is an
  interleaving after which the client is open and idle with the id of the server that is gone and
  no pointer to it, and the leaving server has kicked only whom it would have kicked before. From there on, in
  every run in which the client does not close, whatever the other threads do, it stays so: no turn of its
  callbacks sends anything, so that all its packets are dropped, except that once a logic server has made itself its slave, forwarding
  calls through the null primary. Without the interleaving this cannot happen: in a sequential run
  a client with a primary id always has the pointer.
\<close>

theorem stranded_client:
  assumes "c \<in> openC x" and "cpc x c = CClaim body" and "mRuntimeID (clients (sv x) c) \<noteq> - 1"
    and "mPrimaryServerID (clients (sv x) c) = - 1" and "mPrimaryServer (clients (sv x) c) = None"
    and "mSlaveServerID (clients (sv x) c) = - 1"
    and "l \<in> openL x" and "lpc x l = LIdle" and "logics (sv x) l = \<lparr>mIsPrimary = True, mID = sid\<rparr>"
    and "sid \<noteq> - 1" and "sid \<in> fst ` set (gAllPrimaryServers (sv x))"
  shows "(\<exists>x'. cp_steps ndebug P cfg x x' \<and> cpc x' c = CIdle \<and> stranded sid c x' \<and> l \<notin> openL x' \<and>
      out (sv x') = out (logic_onClose (gAllClientObject (sv x)) l (sv x)) \<and>
      (\<forall>z. (\<lambda>u v. cp_step ndebug P cfg u v \<and> \<not> closing (cpc v c))\<^sup>*\<^sup>* x' z \<longrightarrow> stranded sid c z \<and>
        (\<forall>now rnd order. case client_turn ndebug cfg now rnd order c (cpc z c) (sv z) of
            Inr (pc', s') \<Rightarrow> out s' = out (sv z)
          | Inl f \<Rightarrow> f = NullDeref \<and> mSlaveServer (clients (sv z) c) \<noteq> None))) \<and>
    (cs_reach once ndebug P cfg y \<longrightarrow> (\<forall>d\<in>openC y. mPrimaryServerID (clients (sv y) d) \<noteq> - 1 \<longrightarrow>
      mPrimaryServer (clients (sv y) d) \<noteq> None))"
proof -
  let ?order = "gAllClientObject (sv x)"
  let ?s1 = "logic_onClose ?order l (sv x)"
  obtain r where r: "ClaimPrimaryLogicServer r (gAllPrimaryServers (sv x)) (gAllPrimaryServers (sv x)) = sid"
    using ClaimPrimary_every [OF refl refl assms(11)] by blast
  let ?x1 = "x\<lparr>sv := sv x, cpc := (cpc x)(c := CStore body sid), drawn := drawn x @ new_id c (sv x) (sv x)\<rparr>"
  have 1: "cp_step ndebug P cfg x ?x1"
    by (rule turnC [where now = 0 and rnd = r and order = "gAllPrimaryServers (sv x)"])
      (use assms r in \<open>simp_all add: visits_def\<close>)
  let ?x2 = "?x1\<lparr>lpc := (lpc ?x1)(l := LClose)\<rparr>"
  have 2: "cp_step ndebug P cfg ?x1 ?x2" by (rule shutL) (use assms in auto)
  let ?x3 = "?x2\<lparr>sv := ?s1, lpc := (lpc ?x2)(l := LDone)\<rparr>"
  have 3: "cp_steps ndebug P cfg ?x2 ?x3"
    using logic_uninterrupted [of ndebug P cfg ?order l LClose "sv x" ?s1 ?x2] assms(7)
    by (simp add: logic_finish_close visits_def)
  let ?x4 = "?x3\<lparr>openL := openL ?x3 - {l}, lpc := (lpc ?x3)(l := LIdle)\<rparr>"
  have 4: "cp_step ndebug P cfg ?x3 ?x4" by (rule goneL) (use assms in auto)
  let ?s2 = "upd_client c (\<lambda>cl. cl\<lparr>mPrimaryServerID := sid, mPrimaryServer := None, mSlaveServer := None\<rparr>)
      (?s1\<lparr>gAllPrimaryServers := um_touch sid (gAllPrimaryServers ?s1)\<rparr>)"
  have s1: "clients ?s1 = clients (sv x)" "um_live (gAllPrimaryServers ?s1) sid = None"
    using logic_onClose_core [of "sv x" l sid ?order] assms(9,10) by simp_all
  obtain ids where 5: "cp_steps ndebug P cfg ?x4 (?x4\<lparr>sv := ?s2, cpc := (cpc ?x4)(c := CIdle), drawn := ids\<rparr>)"
    using client_uninterrupted [of ndebug cfg 0 0 "[]" c ?x4 ?s2 P]
      client_finish_late [of ?s1 sid c ndebug cfg 0 0 "[]" body] s1 assms by auto
  let ?x5 = "?x4\<lparr>sv := ?s2, cpc := (cpc ?x4)(c := CIdle), drawn := ids\<rparr>"
  have "cp_steps ndebug P cfg x ?x5"
    using 1 2 3 4 5 by (meson converse_rtranclp_into_rtranclp rtranclp_trans)
  moreover have "stranded sid c z \<and> (\<forall>now rnd order. case client_turn ndebug cfg now rnd order c (cpc z c) (sv z) of
        Inr (pc', s') \<Rightarrow> out s' = out (sv z) | Inl f \<Rightarrow> f = NullDeref \<and> mSlaveServer (clients (sv z) c) \<noteq> None)"
    if run: "(\<lambda>u v. cp_step ndebug P cfg u v \<and> \<not> closing (cpc v c))\<^sup>*\<^sup>* ?x5 z" for z
  proof -
    from run have z: "stranded sid c z"
    proof (induction rule: rtranclp_induct)
      case base
      show ?case using s1 assms by (simp add: stranded_def)
    next
      case (step u v)
      then show ?case using stranded_step assms(10) by blast
    qed
    then show ?thesis using stranded_turn [OF z assms(10)] stranded_fault [OF z assms(10)]
      by (auto split: sum.split prod.split)
  qed
  moreover have "stranded sid c ?x5" using s1 assms by (simp add: stranded_def)
  moreover have "cs_reach once ndebug P cfg y \<longrightarrow> primary_ok (openC y) (sv y)"
    using cs_reach_inv [of once ndebug P cfg y] by (simp add: cs_inv_def)
  ultimately show ?thesis by (intro conjI exI [of _ ?x5]) (auto simp: primary_ok_def)
qed

theorem stranded_client_witness:
  "\<exists>x :: std_reader cp_sys. cp_reach False std_lib demo_cfg x \<and> cpc x 0 = CIdle \<and> 0 \<notin> openL x \<and> stranded 4 0 x"
proof -
  obtain x where x: "cp_reach False std_lib demo_cfg x" "quiet x" "core x = demo2"
    using demo2_threads by blast
  have s: "sv x = sv demo2" "openC x = {0}" "openL x = {0}" using x(3) by (auto simp: core_def demo2_def)
  let ?x1 = "x\<lparr>cpc := (cpc x)(0 := CPacket [])\<rparr>"
  let ?x2 = "?x1\<lparr>sv := sv x, cpc := (cpc ?x1)(0 := CClaim []), drawn := drawn x @ new_id 0 (sv x) (sv x)\<rparr>"
  have "cp_step False std_lib demo_cfg x ?x1" by (rule recvC) (use s x(2) in \<open>auto simp: quiet_def\<close>)
  moreover have "cp_step False std_lib demo_cfg ?x1 ?x2"
    using turnC [of 0 ?x1 0 "[]" False demo_cfg 0 "CClaim []" "sv x" std_lib] s
    by (simp add: demo2_def demo_rid_def)
  ultimately have r: "cp_reach False std_lib demo_cfg ?x2" using x(1) by (meson rtranclp.rtrancl_into_rtrancl)
  have h: "0 \<in> openC ?x2" "cpc ?x2 0 = CClaim []" "mRuntimeID (clients (sv ?x2) 0) \<noteq> - 1"
    "mPrimaryServerID (clients (sv ?x2) 0) = - 1" "mPrimaryServer (clients (sv ?x2) 0) = None"
    "mSlaveServerID (clients (sv ?x2) 0) = - 1" "0 \<in> openL ?x2" "lpc ?x2 0 = LIdle"
    "logics (sv ?x2) 0 = \<lparr>mIsPrimary = True, mID = 4\<rparr>" "(4 :: i32) \<noteq> - 1"
    "4 \<in> fst ` set (gAllPrimaryServers (sv ?x2))"
    using s x(2) by (simp_all add: demo2_def demo_client_def demo_rid_def ConnectionClientSession_def quiet_def)
  from stranded_client [OF h, of False std_lib demo_cfg] r show ?thesis by (meson rtranclp_trans)
qed

section \<open>Two logins at once, as a run\<close>

lemma login_turn:
  assumes "rp_str P (rp_open P body) = (cfg_password cfg, rp1)" and "rp_i32 P rp1 = (sid, rp2)"
    and "rp_bool P rp2 = (True, rp3)" and "um_live (gAllPrimaryServers s) sid = None"
  shows "logic_turn ndebug P cfg order l (LPacket CONNECTION_SERVER_RECV_LOGICSERVER_LOGIN body) s =
    Inr (LAdd True sid True, s\<lparr>gAllPrimaryServers := um_touch sid (gAllPrimaryServers s)\<rparr>)"
  using assms by (simp add: logic_dispatch_def cs_recv_ops checkPassword_def login_find_def Find_live)

lemma kick_scan_extends: "\<exists>kicks. out (kick_scan sid vs s) = out s @ kicks"
proof (induction sid vs s rule: kick_scan.induct)
  case (2 sid v vs s)
  moreover have "\<exists>kicks. out (KickClientByRuntimeID rid s) = out s @ kicks" for rid
    by (simp add: KickClientByRuntimeID_def Let_def split: option.splits)
  ultimately show ?case by (auto split: if_splits) (metis append_assoc)
qed simp

lemma logic_onClose_extends: "\<exists>kicks. out (logic_onClose order l s) = out s @ kicks"
  using kick_scan_extends [of "mID (logics s l)" order s]
  by (auto simp: logic_onClose_def Let_def KickClientOfPrimary_def)

lemma logic_onClose_logics: "l' \<noteq> l \<Longrightarrow> logics (logic_onClose order l s) l' = logics s l'"
  by (simp add: logic_onClose_def Let_def KickClientOfPrimary_def)

text \<open>
  C6: Two connections whose login packets carry the same free primary id are handled on two threads: there
  is an interleaving in which both are told they succeeded, and once the first has disconnected the other is still
  open and logged in with the id, but the table has no server under it, so no client is ever assigned to it.
\<close>

theorem threads_login_race:
  assumes "l1 \<noteq> l2" and "l1 \<in> openL x" and "l2 \<in> openL x"
    and "lpc x l1 = LPacket CONNECTION_SERVER_RECV_LOGICSERVER_LOGIN body" and "lpc x l2 = lpc x l1"
    and "rp_str P (rp_open P body) = (cfg_password cfg, rp1)" and "rp_i32 P rp1 = (sid, rp2)"
    and "rp_bool P rp2 = (True, rp3)" and "sid \<noteq> - 1" and "um_live (gAllPrimaryServers (sv x)) sid = None"
  shows "\<exists>x' kicks. cp_steps ndebug P cfg x x' \<and> l1 \<notin> openL x' \<and> l2 \<in> openL x' \<and> lpc x' l2 = LIdle \<and>
    logics (sv x') l2 = \<lparr>mIsPrimary = True, mID = sid\<rparr> \<and> um_live (gAllPrimaryServers (sv x')) sid = None \<and>
    out (sv x') = out (sv x) @ map (\<lambda>l. SendLogic l (Packet TinyPacket
      CONNECTION_SERVER_SEND_LOGICSERVER_RECVCSID [FI32 (cfg_id cfg), FBool True, FBin []])) [l1, l2] @ kicks"
proof -
  let ?T = "gAllPrimaryServers (sv x)"
  let ?s1 = "(sv x)\<lparr>gAllPrimaryServers := um_touch sid ?T\<rparr>"
  let ?s2 = "?s1\<lparr>gAllPrimaryServers := um_touch sid (gAllPrimaryServers ?s1)\<rparr>"
  let ?s3 = "login_add cfg l1 True sid True ?s2"
  let ?s4 = "login_add cfg l2 True sid True ?s3"
  let ?order = "gAllClientObject ?s4"
  let ?s5 = "logic_onClose ?order l1 ?s4"
  let ?x1 = "x\<lparr>sv := ?s1, lpc := (lpc x)(l1 := LAdd True sid True)\<rparr>"
  let ?x2 = "?x1\<lparr>sv := ?s2, lpc := (lpc ?x1)(l2 := LAdd True sid True)\<rparr>"
  let ?x3 = "?x2\<lparr>sv := ?s3, lpc := (lpc ?x2)(l1 := LIdle)\<rparr>"
  let ?x4 = "?x3\<lparr>sv := ?s4, lpc := (lpc ?x3)(l2 := LIdle)\<rparr>"
  let ?x5 = "?x4\<lparr>lpc := (lpc ?x4)(l1 := LClose)\<rparr>"
  let ?x6 = "?x5\<lparr>sv := ?s5, lpc := (lpc ?x5)(l1 := LDone)\<rparr>"
  let ?x7 = "?x6\<lparr>openL := openL ?x6 - {l1}, lpc := (lpc ?x6)(l1 := LIdle)\<rparr>"
  note t = login_turn [OF assms(6-8)]
  have 1: "cp_step ndebug P cfg x ?x1" by (rule turnL) (use assms t [of "sv x"] in simp_all)
  have 2: "cp_step ndebug P cfg ?x1 ?x2" by (rule turnL) (use assms t [of ?s1] in simp_all)
  have 3: "cp_step ndebug P cfg ?x2 ?x3" by (rule turnL) (use assms in simp_all)
  have 4: "cp_step ndebug P cfg ?x3 ?x4" by (rule turnL) (use assms in simp_all)
  have 5: "cp_step ndebug P cfg ?x4 ?x5" by (rule shutL) (use assms in simp_all)
  have 6: "cp_steps ndebug P cfg ?x5 ?x6"
    using logic_uninterrupted [of ndebug P cfg ?order l1 LClose ?s4 ?s5 ?x5] assms(2)
    by (simp add: logic_finish_close visits_def)
  have 7: "cp_step ndebug P cfg ?x6 ?x7" by (rule goneL) (use assms in simp_all)
  note next_step = converse_rtranclp_into_rtranclp [of "cp_step ndebug P cfg"]
  have run: "cp_steps ndebug P cfg x ?x7"
    by (rule next_step [OF 1 next_step [OF 2 next_step [OF 3 next_step [OF 4 next_step [OF 5
      rtranclp.rtrancl_into_rtrancl [of "cp_step ndebug P cfg", OF 6 7]]]]]])
  have l: "logics ?s4 l1 = \<lparr>mIsPrimary = True, mID = sid\<rparr>" "logics ?s4 l2 = \<lparr>mIsPrimary = True, mID = sid\<rparr>"
    using assms(1) by (simp_all add: login_add_def logic_session_set)
  obtain kicks where k: "out ?s5 = out ?s4 @ kicks" using logic_onClose_extends by blast
  have o: "out ?s4 = out (sv x) @ map (\<lambda>l. SendLogic l (Packet TinyPacket
      CONNECTION_SERVER_SEND_LOGICSERVER_RECVCSID [FI32 (cfg_id cfg), FBool True, FBin []])) [l1, l2]"
    by (simp add: login_add_def sendLogicServerLoginResult_def)
  have "um_live (gAllPrimaryServers ?s5) sid = None" "logics ?s5 l2 = \<lparr>mIsPrimary = True, mID = sid\<rparr>"
    using logic_onClose_core(2) [of ?s4 l1 sid ?order] l assms(1,9) by (simp_all add: logic_onClose_logics)
  then show ?thesis
    using run assms(1,3) k o by (intro exI [of _ ?x7] exI [of _ kicks]) simp
qed

theorem threads_login_race_witness:
  "\<exists>x :: std_reader cp_sys. cp_reach False std_lib demo_cfg x \<and> 1 \<in> openL x \<and>
     logics (sv x) 1 = \<lparr>mIsPrimary = True, mID = 4\<rparr> \<and> um_live (gAllPrimaryServers (sv x)) 4 = None"
proof -
  let ?x0 = "cp_init :: std_reader cp_sys"
  let ?x1 = "?x0\<lparr>sv := upd_logic 0 (\<lambda>_. LogicServerSession) (sv ?x0), openL := insert 0 (openL ?x0)\<rparr>"
  let ?x2 = "?x1\<lparr>sv := upd_logic 1 (\<lambda>_. LogicServerSession) (sv ?x1), openL := insert 1 (openL ?x1)\<rparr>"
  let ?pc = "LPacket CONNECTION_SERVER_RECV_LOGICSERVER_LOGIN demo_login"
  let ?x3 = "?x2\<lparr>lpc := (lpc ?x2)(0 := ?pc)\<rparr>"
  let ?x4 = "?x3\<lparr>lpc := (lpc ?x3)(1 := ?pc)\<rparr>"
  have "cp_step False std_lib demo_cfg ?x0 ?x1" by (rule enterL) (simp_all add: cp_init_def cs_init_def)
  moreover have "cp_step False std_lib demo_cfg ?x1 ?x2" by (rule enterL) (simp_all add: cp_init_def cs_init_def)
  moreover have "cp_step False std_lib demo_cfg ?x2 ?x3" by (rule recvL) (simp_all add: cp_init_def)
  moreover have "cp_step False std_lib demo_cfg ?x3 ?x4" by (rule recvL) (simp_all add: cp_init_def)
  ultimately have r: "cp_reach False std_lib demo_cfg ?x4" by (meson rtranclp.rtrancl_refl rtranclp.rtrancl_into_rtrancl)
  obtain rp1 rp2 rp3 where h: "rp_str std_lib (rp_open std_lib demo_login) = (cfg_password demo_cfg, rp1)"
    "rp_i32 std_lib rp1 = (4, rp2)" "rp_bool std_lib rp2 = (True, rp3)"
    by (simp add: demo_login_def demo_cfg_def std_eval)
  have g: "(0 :: laddr) \<noteq> 1" "0 \<in> openL ?x4" "1 \<in> openL ?x4" "lpc ?x4 0 = ?pc" "lpc ?x4 1 = lpc ?x4 0"
    "(4 :: i32) \<noteq> - 1" "um_live (gAllPrimaryServers (sv ?x4)) 4 = None"
    by (simp_all add: cp_init_def cs_init_def)
  obtain x' kicks where "cp_steps False std_lib demo_cfg ?x4 x'" "1 \<in> openL x'"
    "logics (sv x') 1 = \<lparr>mIsPrimary = True, mID = 4\<rparr>" "um_live (gAllPrimaryServers (sv x')) 4 = None"
    using threads_login_race [OF g(1-5) h g(6,7), of False] by blast
  with r show ?thesis by (meson rtranclp_trans)
qed

end
