(* ===== verification/Framing.thy ===== *)
theory Framing
  imports PacketLib
begin

text \<open>
  Cutting a TCP byte stream into packets.

  The contract \<open>stream_framer\<close> is shared by every \<open>onMsg\<close> of the program: a step looks for one
  complete packet at the front of the buffer, hands it to the session, and says how many bytes
  it took; the loop repeats it and returns the number of bytes consumed. The network library
  keeps the rest and calls \<open>onMsg\<close> again with it in front of what arrives next (\<open>feed\<close>).
  The locale's lemmas: the loop returns, consumes no more than it was given, stops only where no
  complete packet is left, and gives the same result however the stream was cut into chunks.

  \<open>UsePacketSingleNetSession::onMsg\<close> (\<open>single_loop\<close>, \<open>single_onMsg\<close>) and
  \<open>UsePacketExtNetSession::onMsg\<close> (\<open>ext_loop\<close>, \<open>ext_onMsg\<close>) are the first two framers. The two loops
  may run forever when a header of size 0 is allowed, so they are partial functions, and their
  termination is proved from the library's contract.
\<close>

section \<open>The contract of a framer\<close>

type_synonym 's framing_run = "bytes \<Rightarrow> nat \<Rightarrow> 's \<Rightarrow> ('s \<times> nat) result option"

locale stream_framer =
  fixes step :: "bytes \<Rightarrow> 's \<Rightarrow> (nat \<times> 's result) option"
    and run :: "'s framing_run"
  assumes step_bound: "step buf s = Some (n, r) \<Longrightarrow> 0 < n \<and> n \<le> length buf"
    and step_stable: "step buf s = Some x \<Longrightarrow> step (buf @ tail) s = Some x"
    and run_unfold: "run buf t s = (case step buf s of
        None \<Rightarrow> Some (Inr (s, t))
      | Some (n, Inl f) \<Rightarrow> Some (Inl f)
      | Some (n, Inr s') \<Rightarrow> run (drop n buf) (t + n) s')"
begin

lemma step_empty: "step [] s = None"
  using step_bound [of "[]" s] by (cases "step [] s") auto

lemma run_stuck: "step buf s = None \<Longrightarrow> run buf t s = Some (Inr (s, t))"
  by (subst run_unfold) simp

lemma run_fault: "step buf s = Some (n, Inl f) \<Longrightarrow> run buf t s = Some (Inl f)"
  by (subst run_unfold) simp

lemma run_more: "step buf s = Some (n, Inr s') \<Longrightarrow> run buf t s = run (drop n buf) (t + n) s'"
  by (subst run_unfold) simp

lemma run_induct [case_names Stuck Fault More]:
  assumes "\<And>buf t s. step buf s = None \<Longrightarrow> Q buf t s"
    and "\<And>buf t s n f. step buf s = Some (n, Inl f) \<Longrightarrow> Q buf t s"
    and "\<And>buf t s n s'. step buf s = Some (n, Inr s') \<Longrightarrow> 0 < n \<Longrightarrow> n \<le> length buf \<Longrightarrow>
      Q (drop n buf) (t + n) s' \<Longrightarrow> Q buf t s"
  shows "Q buf t s"
proof (induction "length buf" arbitrary: buf t s rule: less_induct)
  case (less buf t s)
  show ?case
  proof (cases "step buf s")
    case None
    then show ?thesis by (rule assms(1))
  next
    case (Some x)
    obtain n r where x: "x = (n, r)" by (cases x)
    with Some have n: "0 < n" "n \<le> length buf" using step_bound by blast+
    show ?thesis
    proof (cases r)
      case (Inl f)
      with Some x show ?thesis using assms(2) by blast
    next
      case (Inr s')
      have "length (drop n buf) < length buf" using n by simp
      then have "Q (drop n buf) (t + n) s'" using less by blast
      with Inr Some x n show ?thesis using assms(3) by blast
    qed
  qed
qed

lemma run_returns: "\<exists>r. run buf t s = Some r"
  by (induction buf t s rule: run_induct) (auto simp: run_stuck run_fault run_more)

lemma run_consumed:
  "run buf t s = Some (Inr (s', t')) \<Longrightarrow> t \<le> t' \<and> t' \<le> t + length buf"
  by (induction buf t s rule: run_induct) (fastforce simp: run_stuck run_fault run_more)+

lemma run_residue:
  "run buf t s = Some (Inr (s', t')) \<Longrightarrow> step (drop (t' - t) buf) s' = None"
proof (induction buf t s rule: run_induct)
  case (More buf t s n s'')
  then have run: "run (drop n buf) (t + n) s'' = Some (Inr (s', t'))" by (simp add: run_more)
  then have "t + n \<le> t'" using run_consumed by blast
  with More run show ?case by (simp add: add.commute)
qed (auto simp: run_stuck run_fault)

lemma run_append:
  "run buf t s = Some (Inr (s', t')) \<Longrightarrow>
   run (buf @ tail) t s = run (drop (t' - t) buf @ tail) t' s'"
proof (induction buf t s rule: run_induct)
  case (More buf t s n s'')
  then have run: "run (drop n buf) (t + n) s'' = Some (Inr (s', t'))" by (simp add: run_more)
  have "step (buf @ tail) s = Some (n, Inr s'')" using More.hyps(1) by (rule step_stable)
  then have "run (buf @ tail) t s = run (drop n buf @ tail) (t + n) s''"
    using More.hyps by (simp add: run_more)
  also have "\<dots> = run (drop (t' - (t + n)) (drop n buf) @ tail) t' s'"
    by (rule More.IH [OF run])
  also have "drop (t' - (t + n)) (drop n buf) = drop (t' - t) buf"
    using run_consumed [OF run] by simp
  finally show ?case .
qed (auto simp: run_stuck run_fault)

lemma run_append_fault: "run buf t s = Some (Inl f) \<Longrightarrow> run (buf @ tail) t s = Some (Inl f)"
proof (induction buf t s rule: run_induct)
  case (More buf t s n s'')
  have "step (buf @ tail) s = Some (n, Inr s'')" using More.hyps(1) by (rule step_stable)
  with More show ?case by (simp add: run_more)
next
  case (Fault buf t s n g)
  have "step (buf @ tail) s = Some (n, Inl g)" using Fault.hyps by (rule step_stable)
  with Fault show ?case by (simp add: run_fault)
qed (simp add: run_stuck)

lemma run_shift:
  "run buf (t + d) s = map_option (\<lambda>r. rbind r (\<lambda>(s', n). Inr (s', n + d))) (run buf t s)"
proof (induction buf t s rule: run_induct)
  case (More buf t s n s')
  have "run buf (t + d) s = run (drop n buf) (t + n + d) s'"
    using More.hyps(1) by (simp add: run_more ac_simps)
  then show ?case using More by (simp add: run_more)
qed (simp_all add: run_stuck run_fault)

end

section \<open>The library's receive buffer\<close>

text \<open>What \<open>onMsg\<close> does not consume stays in front of the next chunk.\<close>

type_synonym 's on_msg = "bytes \<Rightarrow> 's \<Rightarrow> ('s \<times> nat) result option"

fun feed :: "'s on_msg \<Rightarrow> bytes \<Rightarrow> 's \<Rightarrow> bytes list \<Rightarrow> ('s \<times> bytes) result option" where
  "feed onMsg rest s [] = Some (Inr (s, rest))"
| "feed onMsg rest s (c # cs) = (case onMsg (rest @ c) s of
      None \<Rightarrow> None
    | Some (Inl f) \<Rightarrow> Some (Inl f)
    | Some (Inr (s', n)) \<Rightarrow> feed onMsg (drop n (rest @ c)) s' cs)"

definition at_once :: "'s on_msg \<Rightarrow> 's \<Rightarrow> bytes \<Rightarrow> ('s \<times> bytes) result option" where
  "at_once onMsg s buf = (case onMsg buf s of
      None \<Rightarrow> None
    | Some (Inl f) \<Rightarrow> Some (Inl f)
    | Some (Inr (s', n)) \<Rightarrow> Some (Inr (s', drop n buf)))"

lemma feed_cong:
  assumes "\<And>buf s. length buf \<le> length rest + length (concat cs) \<Longrightarrow> f buf s = g buf s"
  shows "feed f rest s cs = feed g rest s cs"
  using assms
proof (induction cs arbitrary: rest s)
  case (Cons c cs)
  have "f (rest @ c) s = g (rest @ c) s" by (rule Cons.prems) simp
  moreover have "feed f (drop n (rest @ c)) s' cs = feed g (drop n (rest @ c)) s' cs" for n s'
    by (rule Cons.IH) (rule Cons.prems, simp)
  ultimately show ?case by (simp split: option.splits sum.splits prod.splits)
qed simp

lemma at_once_cong: "f buf s = g buf s \<Longrightarrow> at_once f s buf = at_once g s buf"
  by (simp add: at_once_def)

context stream_framer
begin

lemma at_once_append:
  assumes "run buf 0 s = Some (Inr (s', n))"
  shows "at_once (\<lambda>b. run b 0) s (buf @ tail) = at_once (\<lambda>b. run b 0) s' (drop n buf @ tail)"
proof -
  have n: "n \<le> length buf" using run_consumed [OF assms] by simp
  have "run (buf @ tail) 0 s = run (drop n buf @ tail) (0 + n) s'"
    using run_append [OF assms] by simp
  also have "\<dots> = map_option (\<lambda>r. rbind r (\<lambda>(s'', k). Inr (s'', k + n))) (run (drop n buf @ tail) 0 s')"
    by (rule run_shift)
  finally have *: "run (buf @ tail) 0 s =
    map_option (\<lambda>r. rbind r (\<lambda>(s'', k). Inr (s'', k + n))) (run (drop n buf @ tail) 0 s')" .
  obtain r where r: "run (drop n buf @ tail) 0 s' = Some r" using run_returns by blast
  show ?thesis
  proof (cases r)
    case (Inl f)
    with r * show ?thesis by (simp add: at_once_def)
  next
    case (Inr p)
    then obtain s'' k where p: "r = Inr (s'', k)" by (cases p) auto
    with r * show ?thesis using n by (simp add: at_once_def add.commute)
  qed
qed

lemma feed_at_once:
  "step rest s = None \<Longrightarrow> feed (\<lambda>b. run b 0) rest s cs = at_once (\<lambda>b. run b 0) s (rest @ concat cs)"
proof (induction cs arbitrary: rest s)
  case Nil
  then show ?case by (simp add: at_once_def run_stuck)
next
  case (Cons c cs)
  obtain r where r: "run (rest @ c) 0 s = Some r" using run_returns by blast
  show ?case
  proof (cases r)
    case (Inl f)
    with r run_append_fault [of "rest @ c" 0 s f "concat cs"] show ?thesis by (simp add: at_once_def)
  next
    case (Inr p)
    then obtain s' n where p: "r = Inr (s', n)" by (cases p) auto
    with r have run: "run (rest @ c) 0 s = Some (Inr (s', n))" by simp
    then have "step (drop n (rest @ c)) s' = None" using run_residue by fastforce
    then have "feed (\<lambda>b. run b 0) (drop n (rest @ c)) s' cs =
      at_once (\<lambda>b. run b 0) s' (drop n (rest @ c) @ concat cs)"
      by (rule Cons.IH)
    also have "\<dots> = at_once (\<lambda>b. run b 0) s ((rest @ c) @ concat cs)"
      using at_once_append [OF run] by simp
    finally show ?thesis using run by simp
  qed
qed

text \<open>What every step keeps, the loop keeps.\<close>

lemma run_preserves:
  assumes "\<And>buf s n s'. I s \<Longrightarrow> step buf s = Some (n, Inr s') \<Longrightarrow> I s'"
    and "run buf t s = Some (Inr (s', t'))" and "I s"
  shows "I s'"
  using assms(2,3)
proof (induction buf t s rule: run_induct)
  case (More buf t s n s'')
  then show ?case using assms(1) by (simp add: run_more)
qed (auto simp: run_stuck run_fault)

text \<open>A loop that counts the bytes left is the loop over the buffer cut to them.\<close>

lemma loop_take:
  assumes loop: "\<And>ps left t s. left \<le> length ps \<Longrightarrow> loop ps left t s = (case step (take left ps) s of
        None \<Rightarrow> Some (Inr (s, t))
      | Some (n, Inl f) \<Rightarrow> Some (Inl f)
      | Some (n, Inr s') \<Rightarrow> loop (drop n ps) (left - n) (t + n) s')"
    and "left \<le> length ps"
  shows "loop ps left t s = run (take left ps) t s"
  using assms(2)
proof (induction left arbitrary: ps t s rule: less_induct)
  case (less left)
  have len: "length (take left ps) = left" using less.prems by simp
  note unfold = loop [OF less.prems, of t s]
  show ?case
  proof (cases "step (take left ps) s")
    case None
    then show ?thesis using unfold by (simp add: run_stuck)
  next
    case (Some x)
    obtain n r where x: "x = (n, r)" by (cases x)
    have n: "0 < n" "n \<le> left" using step_bound [of "take left ps" s n r] Some x len by auto
    show ?thesis
    proof (cases r)
      case (Inl f)
      then show ?thesis using unfold Some x by (simp add: run_fault)
    next
      case (Inr s')
      have "loop (drop n ps) (left - n) (t + n) s' = run (take (left - n) (drop n ps)) (t + n) s'"
        by (rule less.IH) (use n less.prems in auto)
      also have "take (left - n) (drop n ps) = drop n (take left ps)" by (simp add: drop_take)
      finally show ?thesis using unfold Inr Some x by (simp add: run_more)
    qed
  qed
qed

text \<open>Any \<open>onMsg\<close> that agrees with the loop on the buffers that occur may be cut into chunks freely.\<close>

lemma feed_chunks:
  assumes "\<And>b s. length b \<le> length (concat cs) \<Longrightarrow> onMsg b s = run b 0 s"
  shows "feed onMsg [] s cs = at_once onMsg s (concat cs)"
proof -
  have "feed onMsg [] s cs = feed (\<lambda>b. run b 0) [] s cs"
    by (rule feed_cong) (rule assms, simp)
  also have "\<dots> = at_once (\<lambda>b. run b 0) s (concat cs)"
    using feed_at_once [OF step_empty] by simp
  also have "\<dots> = at_once onMsg s (concat cs)"
    by (rule at_once_cong) (simp add: assms)
  finally show ?thesis .
qed

end

section \<open>UsePacketSingleNetSession::onMsg\<close>

text \<open>
  \<open>ps\<close> is the memory from \<open>parse_str\<close> on, \<open>left\<close> is \<open>left_len\<close>, \<open>tot\<close> is \<open>total_proc_len\<close>; \<open>proc\<close> is
  the virtual \<open>procPacket(op, body, bodyLen)\<close> over the session's state.
\<close>

partial_function (option) single_loop ::
  "'r packet_lib \<Rightarrow> (nat \<Rightarrow> bytes \<Rightarrow> 's \<Rightarrow> 's result) \<Rightarrow> bytes \<Rightarrow> nat \<Rightarrow> nat \<Rightarrow> 's \<Rightarrow> ('s \<times> nat) result option"
where
  "single_loop P proc ps left tot s =
     (if head_len P \<le> left then
        (let (plen, rp1) = rp_len P (rp_open P (take left ps)) in
         if plen \<le> left \<and> head_len P \<le> plen then
           (let (op, rp2) = rp_op P rp1 in
            case proc op (take (plen - head_len P) (drop (head_len P) ps)) s of
              Inl f \<Rightarrow> Some (Inl f)
            | Inr s' \<Rightarrow> single_loop P proc (drop plen ps) (left - plen) (tot + plen) s')
         else Some (Inr (s, tot)))
      else Some (Inr (s, tot)))"

text \<open>\<open>left_len\<close> is \<open>static_cast<PACKET_LEN_TYPE>(len)\<close>: the buffer's length cut to that type's width.\<close>

definition single_onMsg ::
  "'r packet_lib \<Rightarrow> (nat \<Rightarrow> bytes \<Rightarrow> 's \<Rightarrow> 's result) \<Rightarrow> bytes \<Rightarrow> 's \<Rightarrow> ('s \<times> nat) result option" where
  "single_onMsg P proc buf s = single_loop P proc buf (length buf mod 2 ^ len_bits P) 0 s"

definition single_step ::
  "'r packet_lib \<Rightarrow> (nat \<Rightarrow> bytes \<Rightarrow> 's \<Rightarrow> 's result) \<Rightarrow> bytes \<Rightarrow> 's \<Rightarrow> (nat \<times> 's result) option" where
  "single_step P proc buf s =
     (if head_len P \<le> length buf then
        (let (plen, rp1) = rp_len P (rp_open P buf) in
         if plen \<le> length buf \<and> head_len P \<le> plen then
           Some (plen, proc (fst (rp_op P rp1)) (take (plen - head_len P) (drop (head_len P) buf)) s)
         else None)
      else None)"

definition single_run :: "'r packet_lib \<Rightarrow> (nat \<Rightarrow> bytes \<Rightarrow> 's \<Rightarrow> 's result) \<Rightarrow> 's framing_run" where
  "single_run P proc buf t s = single_loop P proc buf (length buf) t s"

section \<open>UsePacketExtNetSession::onMsg\<close>

text \<open>
  Here \<open>left_len\<close> is the \<open>size_t\<close> itself and the whole packet, header included, goes to
  \<open>pushDataMsg2LogicMsgList\<close> (\<open>push\<close>); the opcode is read and not used.
\<close>

partial_function (option) ext_loop ::
  "'r packet_lib \<Rightarrow> (bytes \<Rightarrow> 's \<Rightarrow> 's) \<Rightarrow> bytes \<Rightarrow> nat \<Rightarrow> nat \<Rightarrow> 's \<Rightarrow> ('s \<times> nat) result option"
where
  "ext_loop P push ps left tot s =
     (if head_len P \<le> left then
        (let (plen, rp1) = rp_len P (rp_open P (take left ps)) in
         if plen \<le> left \<and> head_len P \<le> plen then
           (let (op, rp2) = rp_op P rp1 in
            ext_loop P push (drop plen ps) (left - plen) (tot + plen) (push (take plen ps) s))
         else Some (Inr (s, tot)))
      else Some (Inr (s, tot)))"

definition ext_onMsg ::
  "'r packet_lib \<Rightarrow> (bytes \<Rightarrow> 's \<Rightarrow> 's) \<Rightarrow> bytes \<Rightarrow> 's \<Rightarrow> ('s \<times> nat) result option" where
  "ext_onMsg P push buf s = ext_loop P push buf (length buf) 0 s"

definition ext_step ::
  "'r packet_lib \<Rightarrow> (bytes \<Rightarrow> 's \<Rightarrow> 's) \<Rightarrow> bytes \<Rightarrow> 's \<Rightarrow> (nat \<times> 's result) option" where
  "ext_step P push buf s =
     (if head_len P \<le> length buf then
        (let plen = fst (rp_len P (rp_open P buf)) in
         if plen \<le> length buf \<and> head_len P \<le> plen then Some (plen, Inr (push (take plen buf) s))
         else None)
      else None)"

definition ext_run :: "'r packet_lib \<Rightarrow> (bytes \<Rightarrow> 's \<Rightarrow> 's) \<Rightarrow> 's framing_run" where
  "ext_run P push buf t s = ext_loop P push buf (length buf) t s"

section \<open>Both loops are framers\<close>

sublocale packet_wire \<subseteq> single: stream_framer "single_step P proc" "single_run P proc" for proc
proof (unfold_locales, goal_cases)
  case (1 buf s n r)
  then show ?case using head_pos by (auto simp: single_step_def Let_def split: if_splits prod.splits)
next
  case (2 buf s x tail)
  then show ?case
    using len_prefix [of buf tail] op_prefix [of buf tail]
    by (auto simp: single_step_def Let_def split: if_splits prod.splits)
next
  case (3 buf t s)
  show ?case
    unfolding single_run_def
    by (subst single_loop.simps) (auto simp: single_step_def Let_def split: if_splits prod.splits sum.splits)
qed

sublocale packet_wire \<subseteq> ext: stream_framer "ext_step P push" "ext_run P push" for push
proof (unfold_locales, goal_cases)
  case (1 buf s n r)
  then show ?case using head_pos by (auto simp: ext_step_def Let_def split: if_splits)
next
  case (2 buf s x tail)
  then show ?case
    using len_prefix [of buf tail]
    by (auto simp: ext_step_def Let_def split: if_splits)
next
  case (3 buf t s)
  show ?case
    unfolding ext_run_def
    by (subst ext_loop.simps) (auto simp: ext_step_def Let_def split: if_splits prod.splits)
qed

text \<open>
  The library's contract, used below: the loop over \<open>left_len\<close> bytes is the loop over the buffer
  cut to them, and a packet that fits is one step.
\<close>

context packet_wire
begin

lemma single_loop_take:
  "left \<le> length ps \<Longrightarrow> single_loop P proc ps left t s = single_run P proc (take left ps) t s"
proof (rule single.loop_take)
  fix ps :: bytes and left t s assume left: "left \<le> length ps"
  have body: "n \<le> left \<Longrightarrow> take (n - head_len P) (drop (head_len P) (take left ps)) =
      take (n - head_len P) (drop (head_len P) ps)" for n
    by (simp add: drop_take min_def)
  show "single_loop P proc ps left t s = (case single_step P proc (take left ps) s of
        None \<Rightarrow> Some (Inr (s, t))
      | Some (n, Inl f) \<Rightarrow> Some (Inl f)
      | Some (n, Inr s') \<Rightarrow> single_loop P proc (drop n ps) (left - n) (t + n) s')"
    using left body
    by (subst single_loop.simps) (auto simp: single_step_def Let_def split: prod.splits sum.splits)
qed

lemma single_onMsg_run:
  "single_onMsg P proc buf s = single_run P proc (take (length buf mod 2 ^ len_bits P) buf) 0 s"
  by (simp add: single_onMsg_def single_loop_take)

lemma single_onMsg_small:
  "length buf < 2 ^ len_bits P \<Longrightarrow> single_onMsg P proc buf s = single_run P proc buf 0 s"
  by (simp add: single_onMsg_run)

lemma ext_onMsg_run: "ext_onMsg P push buf s = ext_run P push buf 0 s"
  by (simp add: ext_onMsg_def ext_run_def)

lemma single_feed:
  "length (concat cs) < 2 ^ len_bits P \<Longrightarrow>
   feed (single_onMsg P proc) [] s cs = at_once (single_onMsg P proc) s (concat cs)"
  by (rule single.feed_chunks) (simp add: single_onMsg_small)

lemma ext_feed: "feed (ext_onMsg P push) [] s cs = at_once (ext_onMsg P push) s (concat cs)"
  by (rule ext.feed_chunks) (simp add: ext_onMsg_run)

lemma single_onMsg_total:
  "\<exists>r. single_onMsg P proc buf s = Some r \<and>
    (case r of Inl f \<Rightarrow> True | Inr (s', n) \<Rightarrow> n \<le> length buf mod 2 ^ len_bits P)"
proof -
  let ?buf = "take (length buf mod 2 ^ len_bits P) buf"
  obtain r where r: "single_run P proc ?buf 0 s = Some r" using single.run_returns [of proc] by blast
  then show ?thesis using single.run_consumed [of proc ?buf 0 s]
    by (auto simp: single_onMsg_run split: sum.splits)
qed

end

text \<open>The packets of a stream handed to \<open>procPacket\<close> one after the other.\<close>

fun deliver :: "'r packet_lib \<Rightarrow> (nat \<Rightarrow> bytes \<Rightarrow> 's \<Rightarrow> 's result) \<Rightarrow> packet list \<Rightarrow> 's \<Rightarrow> 's result" where
  "deliver P proc [] s = Inr s"
| "deliver P proc (p # ps) s =
     rbind (proc (pk_op p) (drop (head_len P) (pk_bytes P p)) s) (deliver P proc ps)"

context packet_codec
begin

lemma single_step_packet:
  assumes "fits p"
  shows "single_step P proc (pk_bytes P p @ tail) s =
    Some (length (pk_bytes P p), proc (pk_op p) (drop (head_len P) (pk_bytes P p)) s)"
proof -
  have "single_step P proc (pk_bytes P p) s =
    Some (length (pk_bytes P p), proc (pk_op p) (drop (head_len P) (pk_bytes P p)) s)"
    using enc_head [OF assms] read_len [OF assms] read_op [OF assms]
    by (auto simp: single_step_def Let_def split: prod.splits)
  then show ?thesis by (rule single.step_stable)
qed

lemma ext_step_packet:
  assumes "fits p"
  shows "ext_step P push (pk_bytes P p @ tail) s = Some (length (pk_bytes P p), Inr (push (pk_bytes P p) s))"
proof -
  have "ext_step P push (pk_bytes P p) s = Some (length (pk_bytes P p), Inr (push (pk_bytes P p) s))"
    using enc_head [OF assms] read_len [OF assms]
    by (auto simp: ext_step_def Let_def split: prod.splits)
  then show ?thesis by (rule ext.step_stable)
qed

lemma single_run_packets:
  "\<forall>p\<in>set ps. fits p \<Longrightarrow> single_run P proc (concat (map (pk_bytes P) ps)) t s =
    Some (rbind (deliver P proc ps s) (\<lambda>s'. Inr (s', t + length (concat (map (pk_bytes P) ps)))))"
proof (induction ps arbitrary: t s)
  case Nil
  then show ?case by (simp add: single.run_stuck single.step_empty)
next
  case (Cons p ps)
  let ?b = "pk_bytes P p" and ?r = "concat (map (pk_bytes P) ps)"
  have step: "single_step P proc (?b @ ?r) s = Some (length ?b, proc (pk_op p) (drop (head_len P) ?b) s)"
    using Cons.prems by (simp add: single_step_packet)
  show ?case
  proof (cases "proc (pk_op p) (drop (head_len P) ?b) s")
    case (Inl f)
    then show ?thesis using step by (simp add: single.run_fault)
  next
    case (Inr s')
    then have "single_run P proc (?b @ ?r) t s = single_run P proc ?r (t + length ?b) s'"
      using step by (simp add: single.run_more)
    then show ?thesis using Cons Inr by (simp add: add.assoc)
  qed
qed

lemma ext_run_packets:
  "\<forall>p\<in>set ps. fits p \<Longrightarrow> ext_run P push (concat (map (pk_bytes P) ps)) t s =
    Some (Inr (fold push (map (pk_bytes P) ps) s, t + length (concat (map (pk_bytes P) ps))))"
proof (induction ps arbitrary: t s)
  case Nil
  then show ?case by (simp add: ext.run_stuck ext.step_empty)
next
  case (Cons p ps)
  let ?b = "pk_bytes P p" and ?r = "concat (map (pk_bytes P) ps)"
  have "ext_step P push (?b @ ?r) s = Some (length ?b, Inr (push ?b s))"
    using Cons.prems by (simp add: ext_step_packet)
  then have "ext_run P push (?b @ ?r) t s = ext_run P push ?r (t + length ?b) (push ?b s)"
    by (simp add: ext.run_more)
  then show ?case using Cons by (simp add: add.assoc)
qed

end

section \<open>Properties\<close>

text \<open>A session that records what \<open>procPacket\<close> is called with, for the witnesses.\<close>

definition record_proc :: "nat \<Rightarrow> bytes \<Rightarrow> (nat \<times> bytes) list \<Rightarrow> (nat \<times> bytes) list result" where
  "record_proc op body s = Inr (s @ [(op, body)])"

text \<open>
  C15: TCP segmentation does not matter: however the network cuts the stream into chunks,
  \<open>UsePacketSingleNetSession::onMsg\<close> makes the same \<open>procPacket\<close> calls, faults alike, and leaves
  the same unconsumed bytes as one call over the whole stream (for a stream shorter than
  \<open>PACKET_LEN_TYPE\<close> can count).
\<close>

theorem single_onMsg_chunks:
  assumes "packet_wire P" and "length (concat cs) < 2 ^ len_bits P"
  shows "feed (single_onMsg P proc) [] s cs = at_once (single_onMsg P proc) s (concat cs)"
  using assms by (rule packet_wire.single_feed)

theorem single_onMsg_chunks_witness:
  "feed (single_onMsg std_lib record_proc) [] [] [[7, 0], [0, 0, 1], [0, 9, 8, 0]] =
     Some (Inr ([(1, [9])], [8, 0]))"
proof -
  have "feed (single_onMsg std_lib record_proc) [] [] [[7, 0], [0, 0, 1], [0, 9, 8, 0]] =
      at_once (single_onMsg std_lib record_proc) [] (concat [[7, 0], [0, 0, 1], [0, 9, 8, 0]])"
    by (rule single_onMsg_chunks [OF std.packet_wire_axioms]) simp
  also have "\<dots> = Some (Inr ([(1, [9])], [8, 0]))"
    by (simp add: at_once_def single_onMsg_def single_loop.simps std_lib_simps record_proc_def)
  finally show ?thesis .
qed

text \<open>
  \<open>UsePacketSingleNetSession::onMsg\<close> returns on every buffer (its loop is a \<open>while (true)\<close>), and
  claims no more bytes than the buffer's length cut to \<open>PACKET_LEN_TYPE\<close>: it never reports bytes
  it was not given.
\<close>

theorem single_onMsg_terminates:
  assumes "packet_wire P"
  shows "\<exists>r. single_onMsg P proc buf s = Some r \<and>
    (case r of Inl f \<Rightarrow> True | Inr (s', n) \<Rightarrow> n \<le> length buf mod 2 ^ len_bits P)"
  using assms by (rule packet_wire.single_onMsg_total)

theorem single_onMsg_terminates_witness:
  "\<exists>r. single_onMsg std_lib record_proc [6, 0, 0, 0, 3, 0, 1] [] = Some r \<and>
    (case r of Inl f \<Rightarrow> True | Inr (s', n) \<Rightarrow> n \<le> 7)"
  using single_onMsg_terminates [OF std.packet_wire_axioms, of record_proc "[6, 0, 0, 0, 3, 0, 1]" "[]"]
  by (auto split: sum.splits)

text \<open>
  C16: Packets in, packets out: over the bytes of any sequence of packets that fit the packet
  classes, \<open>UsePacketSingleNetSession::onMsg\<close> calls \<open>procPacket\<close> once per packet, in order, with
  that packet's opcode and body, stops at the first fault, and otherwise consumes every byte.
\<close>

theorem single_onMsg_delivers:
  assumes "packet_codec P fits rem" and "\<forall>p\<in>set ps. fits p"
    and "length (concat (map (pk_bytes P) ps)) < 2 ^ len_bits P"
  shows "single_onMsg P proc (concat (map (pk_bytes P) ps)) s =
    Some (rbind (deliver P proc ps s) (\<lambda>s'. Inr (s', length (concat (map (pk_bytes P) ps)))))"
  using packet_codec.single_run_packets [OF assms(1,2), of proc 0 s] assms(3)
  by (simp add: packet_wire.single_onMsg_small [OF packet_codec.axioms(1) [OF assms(1)]])

theorem single_onMsg_delivers_witness:
  "single_onMsg std_lib record_proc
     (std_bytes (Packet TinyPacket 5 [FBool True]) @ std_bytes (Packet BigPacket 6 [FI16 2])) [] =
   Some (Inr ([(5, [1]), (6, [2, 0])], 15))"
proof -
  let ?ps = "[Packet TinyPacket 5 [FBool True], Packet BigPacket 6 [FI16 2]]"
  have "single_onMsg std_lib record_proc (concat (map (pk_bytes std_lib) ?ps)) [] =
    Some (rbind (deliver std_lib record_proc ?ps [])
      (\<lambda>s'. Inr (s', length (concat (map (pk_bytes std_lib) ?ps)))))"
    by (rule single_onMsg_delivers [OF std.packet_codec_axioms])
      (simp_all add: std_eval)
  then show ?thesis
    by (simp add: std_eval record_proc_def)
qed

text \<open>
  The same for \<open>UsePacketExtNetSession::onMsg\<close>, with no bound on the stream: each packet is
  pushed to the logic thread's queue whole, header included, in order, whatever the chunks were.
\<close>

theorem ext_onMsg_pushes:
  assumes "packet_codec P fits rem" and "\<forall>p\<in>set ps. fits p"
    and "concat cs = concat (map (pk_bytes P) ps)"
  shows "feed (ext_onMsg P push) [] s cs = Some (Inr (fold push (map (pk_bytes P) ps) s, []))"
proof -
  have wire: "packet_wire P" using assms(1) by (rule packet_codec.axioms)
  have "feed (ext_onMsg P push) [] s cs = at_once (ext_onMsg P push) s (concat cs)"
    using wire by (rule packet_wire.ext_feed)
  then show ?thesis
    using packet_codec.ext_run_packets [OF assms(1,2), of push 0 s] assms(3)
    by (simp add: at_once_def packet_wire.ext_onMsg_run [OF wire])
qed

theorem ext_onMsg_pushes_witness:
  "feed (ext_onMsg std_lib (\<lambda>b s. s @ [b])) [] [] [[7, 0, 0], [0, 5, 0, 1, 6, 0, 0], [0, 2, 0]] =
   Some (Inr ([[7, 0, 0, 0, 5, 0, 1], [6, 0, 0, 0, 2, 0]], []))"
proof -
  let ?ps = "[Packet TinyPacket 5 [FBool True], Packet TinyPacket 2 []]"
  have "feed (ext_onMsg std_lib (\<lambda>b s. s @ [b])) [] [] [[7, 0, 0], [0, 5, 0, 1, 6, 0, 0], [0, 2, 0]] =
    Some (Inr (fold (\<lambda>b s. s @ [b]) (map (pk_bytes std_lib) ?ps) [], []))"
    by (rule ext_onMsg_pushes [OF std.packet_codec_axioms])
      (simp_all add: std_eval)
  then show ?thesis by (simp add: std_eval)
qed

end
