(* ===== verification/MsgQueue.thy ===== *)
theory MsgQueue
  imports Prelude
begin

text \<open>
  \<open>dodo::MsgQueue<T>\<close>, the queue between threads of the git submodule \<open>accumulation-dev\<close>, which is not under
  src/: the messages for the logic thread and the lines of the log go through it. It is a parameter of
  the model, the record \<open>queue_lib\<close> of its operations. The locale \<open>msg_queue\<close> states what the code relies on:
  three lists, written by the producers, shared, and read by the consumer, none of which loses, repeats or
  reorders a message.
\<close>

record ('q, 'm) queue_lib =
  mq_new :: 'q
  mq_push :: "'m \<Rightarrow> 'q \<Rightarrow> 'q"
  mq_forceSyncWrite :: "'q \<Rightarrow> 'q"
  mq_sharedListSize :: "'q \<Rightarrow> nat"
  mq_readListSize :: "'q \<Rightarrow> nat"
  mq_syncRead :: "nat \<Rightarrow> 'q \<Rightarrow> 'q"                    \<comment> \<open>waits at most so long for the shared list\<close>
  mq_popFront :: "'q \<Rightarrow> ('m \<times> 'q) option"  \<comment> \<open>\<open>None\<close> is \<open>false\<close>\<close>

locale msg_queue =
  fixes Q :: "('q, 'm) queue_lib"
    and wlist slist rlist :: "'q \<Rightarrow> 'm list"
  assumes new_lists: "wlist (mq_new Q) = []" "slist (mq_new Q) = []" "rlist (mq_new Q) = []"
    and push_lists: "wlist (mq_push Q m q) = wlist q @ [m]" "slist (mq_push Q m q) = slist q"
      "rlist (mq_push Q m q) = rlist q"
    and sync_lists: "wlist (mq_forceSyncWrite Q q) = []" "slist (mq_forceSyncWrite Q q) = slist q @ wlist q"
      "rlist (mq_forceSyncWrite Q q) = rlist q"
    and size_slist: "mq_sharedListSize Q q = length (slist q)"
    and size_rlist: "mq_readListSize Q q = length (rlist q)"
    and read_lists: "wlist (mq_syncRead Q t q) = wlist q"
      "rlist (mq_syncRead Q t q) @ slist (mq_syncRead Q t q) = rlist q @ slist q"
    and read_takes: "rlist q = [] \<Longrightarrow> slist (mq_syncRead Q t q) = []"
    and pop_empty: "rlist q = [] \<Longrightarrow> mq_popFront Q q = None"
    and pop_lists: "rlist q = m # ms \<Longrightarrow> \<exists>q'. mq_popFront Q q = Some (m, q') \<and> rlist q' = ms \<and>
      slist q' = slist q \<and> wlist q' = wlist q"
begin

lemma pop_None: "mq_popFront Q q = None \<longleftrightarrow> rlist q = []"
  using pop_empty pop_lists by (cases "rlist q") fastforce+

lemma pop_Some:
  assumes "mq_popFront Q q = Some (m, q')"
  shows "rlist q = m # rlist q'" "slist q' = slist q" "wlist q' = wlist q"
  using assms pop_empty [of q] pop_lists [of q] by (cases "rlist q"; fastforce)+

text \<open>Everything in the queue, oldest first.\<close>

abbreviation qlist :: "'q \<Rightarrow> 'm list" where
  "qlist q \<equiv> rlist q @ slist q @ wlist q"

lemmas queue_lists = new_lists push_lists sync_lists read_lists(1) size_slist size_rlist

lemma qlist_push [simp]: "qlist (mq_push Q m q) = qlist q @ [m]"
  by (simp add: queue_lists)

lemma qlist_sync [simp]: "qlist (mq_forceSyncWrite Q q) = qlist q"
  by (simp add: queue_lists)

lemma qlist_read [simp]: "qlist (mq_syncRead Q t q) = qlist q"
  using read_lists(2) [of t q] by (simp add: queue_lists append_assoc [symmetric] del: append_assoc)

lemma qlist_pop: "mq_popFront Q q = Some (m, q') \<Longrightarrow> qlist q = m # qlist q'"
  using pop_Some [of q m q'] by simp

lemma read_all: "rlist q = [] \<Longrightarrow> rlist (mq_syncRead Q t q) = slist q"
  using read_lists(2) [of t q] read_takes [of q t] by simp

end

text \<open>One queue that satisfies the contract: the three lists themselves.\<close>

type_synonym 'm std_queue = "'m list \<times> 'm list \<times> 'm list"

definition std_queue_lib :: "('m std_queue, 'm) queue_lib" where
  "std_queue_lib = \<lparr>mq_new = ([], [], []), mq_push = (\<lambda>m (w, s, r). (w @ [m], s, r)),
     mq_forceSyncWrite = (\<lambda>(w, s, r). ([], s @ w, r)), mq_sharedListSize = (\<lambda>(w, s, r). length s),
     mq_readListSize = (\<lambda>(w, s, r). length r),
     mq_syncRead = (\<lambda>t (w, s, r). if r = [] then (w, [], s) else (w, s, r)),
     mq_popFront = (\<lambda>(w, s, r). case r of [] \<Rightarrow> None | m # ms \<Rightarrow> Some (m, (w, s, ms)))\<rparr>"

interpretation stdq: msg_queue std_queue_lib fst "\<lambda>q. fst (snd q)" "\<lambda>q. snd (snd q)"
  by unfold_locales (auto simp: std_queue_lib_def split: prod.splits)

end
