(* ===== verification/NetThread.thy ===== *)
theory NetThread
  imports Framing MsgQueue "HOL-Library.Sublist"
begin

text \<open>
  From the network threads to the logic thread (Common/NetThreadSession.{h,cpp}, LogicNetSession.h):
  the logic and center servers run every handler on one logic thread. A network session
  (\<open>ExtNetSession\<close>) turns its callbacks into messages of the queue \<open>gNet2LogicMsgList\<close>; the network loops
  publish it (\<open>syncNet2LogicMsgList\<close>) and the main loop empties it (\<open>procNet2LogicMsgList\<close>).

  \<^item> The queue is the library's (MsgQueue).
  \<^item> A logic session is an address; \<open>logic_bases\<close> holds the members of \<open>BaseLogicSession\<close>. Its virtual
    \<open>onEnter\<close>, \<open>onMsg\<close> and \<open>onClose\<close> are the fields of \<open>logic_handlers\<close>, over the logic thread's state.
  \<^item> \<open>node_step\<close> has one step per critical section, of any number of network threads and the logic thread.
\<close>

section \<open>Messages\<close>

datatype Net2LogicMsgType =
    Net2LogicMsgTypeNONE
  | Net2LogicMsgTypeEnter
  | Net2LogicMsgTypeData
  | Net2LogicMsgTypeClose
  | Net2LogicMsgTypeCompleteCallback

record net2logic_msg =
  msg_mSession :: "nat option"
  msg_mMsgType :: Net2LogicMsgType
  msg_mPacket :: bytes
  msg_mSendCompleteCallback :: "nat option"   \<comment> \<open>a shared \<open>std::function<void()>\<close>\<close>

definition Net2LogicMsg :: "nat option \<Rightarrow> Net2LogicMsgType \<Rightarrow> net2logic_msg" where
  "Net2LogicMsg session msgType = \<lparr>msg_mSession = session, msg_mMsgType = msgType, msg_mPacket = [],
     msg_mSendCompleteCallback = None\<rparr>"

definition msg_setData :: "bytes \<Rightarrow> net2logic_msg \<Rightarrow> net2logic_msg" where
  "msg_setData data m = m\<lparr>msg_mPacket := msg_mPacket m @ data\<rparr>"

section \<open>BaseLogicSession\<close>

record logic_base =
  base_mServer :: "nat option"
  base_mSocketID :: i64
  base_mIP :: bytes

text \<open>The constructor leaves the socket id as it finds it.\<close>

definition BaseLogicSession :: "i64 \<Rightarrow> logic_base" where
  "BaseLogicSession junk = \<lparr>base_mServer = None, base_mSocketID = junk, base_mIP = []\<rparr>"

definition setSession :: "nat option \<Rightarrow> i64 \<Rightarrow> bytes \<Rightarrow> logic_base \<Rightarrow> logic_base" where
  "setSession server socketID ip b = b\<lparr>base_mServer := server, base_mSocketID := socketID, base_mIP := ip\<rparr>"

datatype service_call =
    ServiceSend nat i64 bytes "nat option"
  | ServiceCacheSend nat i64 bytes "nat option"

definition base_send :: "bytes \<Rightarrow> nat option \<Rightarrow> logic_base \<Rightarrow> service_call result" where
  "base_send packet callback b = (case base_mServer b of
       None \<Rightarrow> Inl NullDeref
     | Some server \<Rightarrow> Inr (ServiceSend server (base_mSocketID b) packet callback))"

text \<open>\<open>USE_DELAY_SEND\<close> is defined.\<close>

definition base_cacheSend :: "bytes \<Rightarrow> nat option \<Rightarrow> logic_base \<Rightarrow> service_call result" where
  "base_cacheSend packet callback b = (case base_mServer b of
       None \<Rightarrow> Inl NullDeref
     | Some server \<Rightarrow> Inr (ServiceCacheSend server (base_mSocketID b) packet callback))"

section \<open>The network threads\<close>

record 'q net_side =
  logic_bases :: "nat \<Rightarrow> logic_base"
  gNet2LogicMsgList :: 'q
  loop_wakeups :: nat                     \<comment> \<open>calls of \<open>eventLoop->wakeup()\<close>\<close>

definition push_msg :: "('q, net2logic_msg) queue_lib \<Rightarrow> net2logic_msg \<Rightarrow> 'q net_side \<Rightarrow> 'q net_side" where
  "push_msg Q m w = w\<lparr>gNet2LogicMsgList := mq_push Q m (gNet2LogicMsgList w)\<rparr>"

definition ext_onEnter :: "('q, net2logic_msg) queue_lib \<Rightarrow> nat \<Rightarrow> nat option \<Rightarrow> i64 \<Rightarrow> bytes \<Rightarrow> 'q net_side \<Rightarrow> 'q net_side" where
  "ext_onEnter Q mLogicSession server socketID ip w =
     push_msg Q (Net2LogicMsg (Some mLogicSession) Net2LogicMsgTypeEnter)
       (w\<lparr>logic_bases := (logic_bases w)
            (mLogicSession := setSession server socketID ip (logic_bases w mLogicSession))\<rparr>)"

definition ext_onClose :: "('q, net2logic_msg) queue_lib \<Rightarrow> nat \<Rightarrow> 'q net_side \<Rightarrow> 'q net_side" where
  "ext_onClose Q mLogicSession w = push_msg Q (Net2LogicMsg (Some mLogicSession) Net2LogicMsgTypeClose) w"

definition pushDataMsg2LogicMsgList :: "('q, net2logic_msg) queue_lib \<Rightarrow> nat \<Rightarrow> bytes \<Rightarrow> 'q net_side \<Rightarrow> 'q net_side" where
  "pushDataMsg2LogicMsgList Q session data w =
     push_msg Q (msg_setData data (Net2LogicMsg (Some session) Net2LogicMsgTypeData)) w"

definition pushDataMsgToLogicThread :: "('q, net2logic_msg) queue_lib \<Rightarrow> nat \<Rightarrow> bytes \<Rightarrow> 'q net_side \<Rightarrow> 'q net_side" where
  "pushDataMsgToLogicThread Q mLogicSession data w = pushDataMsg2LogicMsgList Q mLogicSession data w"

definition pushCompleteCallback2LogicMsgList :: "('q, net2logic_msg) queue_lib \<Rightarrow> nat option \<Rightarrow> 'q net_side \<Rightarrow> 'q net_side" where
  "pushCompleteCallback2LogicMsgList Q callback w =
     push_msg Q ((Net2LogicMsg None Net2LogicMsgTypeCompleteCallback)\<lparr>msg_mSendCompleteCallback := callback\<rparr>) w"

text \<open>The locked half of \<open>syncNet2LogicMsgList\<close>, and the test after the unlock.\<close>

definition sync_force :: "('q, net2logic_msg) queue_lib \<Rightarrow> 'q net_side \<Rightarrow> 'q net_side" where
  "sync_force Q w = w\<lparr>gNet2LogicMsgList := mq_forceSyncWrite Q (gNet2LogicMsgList w)\<rparr>"

definition sync_wake :: "('q, net2logic_msg) queue_lib \<Rightarrow> 'q net_side \<Rightarrow> 'q net_side" where
  "sync_wake Q w = (if 0 < mq_sharedListSize Q (gNet2LogicMsgList w)
     then w\<lparr>loop_wakeups := loop_wakeups w + 1\<rparr> else w)"

definition syncNet2LogicMsgList :: "('q, net2logic_msg) queue_lib \<Rightarrow> 'q net_side \<Rightarrow> 'q net_side" where
  "syncNet2LogicMsgList Q w = sync_wake Q (sync_force Q w)"

definition UsePacketExt_onMsg ::
  "('q, net2logic_msg) queue_lib \<Rightarrow> 'r packet_lib \<Rightarrow> nat \<Rightarrow> bytes \<Rightarrow> 'q net_side \<Rightarrow> ('q net_side \<times> nat) result option" where
  "UsePacketExt_onMsg Q P mLogicSession data w = ext_onMsg P (pushDataMsg2LogicMsgList Q mLogicSession) data w"

section \<open>The logic thread\<close>

record 's logic_handlers =
  lh_onEnter :: "nat \<Rightarrow> 's \<Rightarrow> 's result"
  lh_onMsg :: "nat \<Rightarrow> bytes \<Rightarrow> 's \<Rightarrow> 's result"
  lh_onClose :: "nat \<Rightarrow> 's \<Rightarrow> 's result"
  lh_callback :: "nat \<Rightarrow> 's \<Rightarrow> 's result"

definition with_ptr :: "nat option \<Rightarrow> (nat \<Rightarrow> 's result) \<Rightarrow> 's result" where
  "with_ptr p f = (case p of None \<Rightarrow> Inl NullDeref | Some l \<Rightarrow> f l)"

definition proc_msg :: "bool \<Rightarrow> 's logic_handlers \<Rightarrow> net2logic_msg \<Rightarrow> 's \<Rightarrow> 's result" where
  "proc_msg ndebug H m s = (case msg_mMsgType m of
       Net2LogicMsgTypeEnter \<Rightarrow> with_ptr (msg_mSession m) (\<lambda>l. lh_onEnter H l s)
     | Net2LogicMsgTypeData \<Rightarrow> with_ptr (msg_mSession m) (\<lambda>l. lh_onMsg H l (msg_mPacket m) s)
     | Net2LogicMsgTypeClose \<Rightarrow> with_ptr (msg_mSession m) (\<lambda>l. lh_onClose H l s)
     | Net2LogicMsgTypeCompleteCallback \<Rightarrow>
         with_ptr (msg_mSendCompleteCallback m) (\<lambda>c. lh_callback H c s)
     | _ \<Rightarrow> cassert ndebug False (Inr s))"

partial_function (option) proc_loop ::
  "bool \<Rightarrow> ('q, net2logic_msg) queue_lib \<Rightarrow> 's logic_handlers \<Rightarrow> 'q \<Rightarrow> 's \<Rightarrow> ('q \<times> 's) result option" where
  "proc_loop ndebug Q H q s = (case mq_popFront Q q of
       None \<Rightarrow> Some (Inr (q, s))
     | Some (m, q') \<Rightarrow> (case proc_msg ndebug H m s of
           Inl f \<Rightarrow> Some (Inl f)
         | Inr s' \<Rightarrow> proc_loop ndebug Q H q' s'))"

definition procNet2LogicMsgList ::
  "bool \<Rightarrow> ('q, net2logic_msg) queue_lib \<Rightarrow> 's logic_handlers \<Rightarrow> 'q \<Rightarrow> 's \<Rightarrow> ('q \<times> 's) result option" where
  "procNet2LogicMsgList ndebug Q H q s = proc_loop ndebug Q H (mq_syncRead Q 0 q) s"

fun proc_all :: "bool \<Rightarrow> 's logic_handlers \<Rightarrow> net2logic_msg list \<Rightarrow> 's \<Rightarrow> 's result" where
  "proc_all ndebug H [] s = Inr s"
| "proc_all ndebug H (m # ms) s = rbind (proc_msg ndebug H m s) (proc_all ndebug H ms)"

lemma proc_all_append: "proc_all ndebug H (ms @ ns) s = rbind (proc_all ndebug H ms s) (proc_all ndebug H ns)"
  by (induction ms arbitrary: s) (simp_all add: rbind_def split: sum.splits)

text \<open>The contract's lemmas: the loop handles what the consumer's list holds, and a sync moves all of it there.\<close>

locale logic_queue = msg_queue Q wlist slist rlist
  for Q :: "('q, net2logic_msg) queue_lib" and wlist slist rlist :: "'q \<Rightarrow> net2logic_msg list"
begin

lemma proc_loop_all:
  "\<exists>q'. proc_loop ndebug Q H q s = Some (rbind (proc_all ndebug H (rlist q) s) (\<lambda>s'. Inr (q', s'))) \<and>
     rlist q' = [] \<and> slist q' = slist q \<and> wlist q' = wlist q"
proof (induction "rlist q" arbitrary: q s)
  case Nil
  have "proc_loop ndebug Q H q s = Some (Inr (q, s))"
    using pop_empty [of q] Nil by (subst proc_loop.simps) simp
  with Nil show ?case by (intro exI [of _ q]) (simp add: Nil(1) [symmetric])
next
  case (Cons m ms)
  obtain q1 where q1: "mq_popFront Q q = Some (m, q1)" "rlist q1 = ms" "slist q1 = slist q" "wlist q1 = wlist q"
    using pop_lists [of q m ms] Cons.hyps(2) by auto
  have loop: "proc_loop ndebug Q H q s = (case proc_msg ndebug H m s of Inl f \<Rightarrow> Some (Inl f)
      | Inr s' \<Rightarrow> proc_loop ndebug Q H q1 s')" for s
    using q1(1) by (subst proc_loop.simps) simp
  show ?case
  proof (cases "proc_msg ndebug H m s")
    case (Inl f)
    obtain q' where "rlist q' = []" "slist q' = slist q1" "wlist q' = wlist q1"
      using Cons.hyps(1) [of q1] q1(2) by blast
    then show ?thesis using Inl loop q1 Cons.hyps(2) [symmetric] by (intro exI [of _ q']) simp
  next
    case (Inr s')
    obtain q' where "proc_loop ndebug Q H q1 s' = Some (rbind (proc_all ndebug H (rlist q1) s') (\<lambda>s'. Inr (q', s')))"
      "rlist q' = []" "slist q' = slist q1" "wlist q' = wlist q1"
      using Cons.hyps(1) [of q1 s'] q1(2) by blast
    then show ?thesis using Inr loop q1 Cons.hyps(2) [symmetric] by (intro exI [of _ q']) simp
  qed
qed

lemma sync_proc_all:
  assumes "rlist q = []"
  shows "\<exists>q'. procNet2LogicMsgList ndebug Q H (mq_forceSyncWrite Q q) s =
      Some (rbind (proc_all ndebug H (slist q @ wlist q) s) (\<lambda>s'. Inr (q', s'))) \<and>
    rlist q' = [] \<and> slist q' = [] \<and> wlist q' = []"
proof -
  let ?q = "mq_syncRead Q 0 (mq_forceSyncWrite Q q)"
  have "slist ?q = []" by (rule read_takes) (simp add: queue_lists assms)
  moreover have "rlist ?q = slist q @ wlist q" "wlist ?q = []"
    using read_lists(2) [of 0 "mq_forceSyncWrite Q q"] calculation by (simp_all add: queue_lists assms)
  ultimately show ?thesis
    using proc_loop_all [of ndebug H ?q s] by (simp add: procNet2LogicMsgList_def)
qed

end

section \<open>The messages of a session\<close>

definition enter_msg :: "nat \<Rightarrow> net2logic_msg" where
  "enter_msg l = Net2LogicMsg (Some l) Net2LogicMsgTypeEnter"

definition data_msg :: "nat \<Rightarrow> bytes \<Rightarrow> net2logic_msg" where
  "data_msg l p = msg_setData p (Net2LogicMsg (Some l) Net2LogicMsgTypeData)"

definition close_msg :: "nat \<Rightarrow> net2logic_msg" where
  "close_msg l = Net2LogicMsg (Some l) Net2LogicMsgTypeClose"

definition session_msgs :: "nat \<Rightarrow> net2logic_msg list \<Rightarrow> net2logic_msg list" where
  "session_msgs l ms = filter (\<lambda>m. msg_mSession m = Some l) ms"

lemma session_msgs_simps [simp]:
  "session_msgs l [] = []" "session_msgs l (ms @ ns) = session_msgs l ms @ session_msgs l ns"
  "session_msgs l (m # ms) = (if msg_mSession m = Some l then m # session_msgs l ms else session_msgs l ms)"
  by (simp_all add: session_msgs_def)

lemma msg_session [simp]:
  "msg_mSession (enter_msg l) = Some l" "msg_mSession (data_msg l p) = Some l" "msg_mSession (close_msg l) = Some l"
  by (simp_all add: enter_msg_def data_msg_def close_msg_def msg_setData_def Net2LogicMsg_def)

lemma msg_type [simp]:
  "msg_mMsgType (enter_msg l) = Net2LogicMsgTypeEnter" "msg_mMsgType (data_msg l p) = Net2LogicMsgTypeData"
  "msg_mMsgType (close_msg l) = Net2LogicMsgTypeClose" "msg_mPacket (data_msg l p) = p"
  by (simp_all add: enter_msg_def data_msg_def close_msg_def msg_setData_def Net2LogicMsg_def)

text \<open>A message the switch of \<open>procNet2LogicMsgList\<close> can handle.\<close>

definition proper_msg :: "nat set \<Rightarrow> net2logic_msg \<Rightarrow> bool" where
  "proper_msg E m \<longleftrightarrow> (\<exists>l\<in>E. m = enter_msg l \<or> (\<exists>p. m = data_msg l p) \<or> m = close_msg l) \<or>
     (\<exists>c. m = (Net2LogicMsg None Net2LogicMsgTypeCompleteCallback)\<lparr>msg_mSendCompleteCallback := Some c\<rparr>)"

section \<open>The threads together\<close>

text \<open>
  \<open>unparsed l\<close> is the receive buffer of the network session of \<open>l\<close>; \<open>received\<close> and \<open>handled\<close> are
  histories: all bytes that arrived, and the messages the logic thread finished. A network loop cuts what
  it received before it serves the socket again. An address is not used for a second session, and
  \<open>getServer()\<close> is not null. A step whose handler faults is not a step: the process is gone.

  \<open>logic_env\<close> is what else changes the logic thread's state: the thread that connects or listens makes the
  object of a session, the object of a session whose close was handled is destroyed, and there are timers,
  other threads and the user's code (\<open>le_other\<close>).
\<close>

record 's logic_env =
  le_make :: "nat \<Rightarrow> 's \<Rightarrow> 's \<Rightarrow> bool"
  le_destroy :: "nat \<Rightarrow> 's \<Rightarrow> 's \<Rightarrow> bool"
  le_other :: "'s \<Rightarrow> 's \<Rightarrow> bool"

record ('q, 's) node =
  net :: "'q net_side"
  logic :: 's
  made :: "nat set"                \<comment> \<open>logic sessions that have ever been made\<close>
  popping :: bool                  \<comment> \<open>the logic thread is in the loop of \<open>procNet2LogicMsgList\<close>\<close>
  opened :: "nat set"              \<comment> \<open>network sessions between \<open>onEnter\<close> and \<open>onClose\<close>\<close>
  entered :: "nat set"             \<comment> \<open>those that have ever been open\<close>
  unparsed :: "nat \<Rightarrow> bytes"
  received :: "nat \<Rightarrow> bytes"
  handled :: "net2logic_msg list"

definition node_start :: "('q, net2logic_msg) queue_lib \<Rightarrow> 's \<Rightarrow> ('q, 's) node" where
  "node_start Q s = \<lparr>net = \<lparr>logic_bases = (\<lambda>_. BaseLogicSession 0), gNet2LogicMsgList = mq_new Q, loop_wakeups = 0\<rparr>,
     logic = s, made = {}, popping = False, opened = {}, entered = {}, unparsed = (\<lambda>_. []), received = (\<lambda>_. []), handled = []\<rparr>"

text \<open>The length of the packet at the front, if it is complete: the test of \<open>UsePacketExtNetSession::onMsg\<close>.\<close>

definition ext_cut :: "'r packet_lib \<Rightarrow> bytes \<Rightarrow> nat option" where
  "ext_cut P data =
     (if head_len P \<le> length data then
        (let plen = fst (rp_len P (rp_open P data)) in
         if plen \<le> length data \<and> head_len P \<le> plen then Some plen else None)
      else None)"

lemma ext_step_cut: "ext_step P push data s = map_option (\<lambda>n. (n, Inr (push (take n data) s))) (ext_cut P data)"
  by (simp add: ext_step_def ext_cut_def Let_def)

inductive node_step ::
  "bool \<Rightarrow> ('q, net2logic_msg) queue_lib \<Rightarrow> 'r packet_lib \<Rightarrow> 's logic_env \<Rightarrow> 's logic_handlers \<Rightarrow>
   ('q, 's) node \<Rightarrow> ('q, 's) node \<Rightarrow> bool"
  for ndebug Q P E H where
  make: "l \<notin> made y \<Longrightarrow> le_make E l (logic y) s \<Longrightarrow>
    node_step ndebug Q P E H y (y\<lparr>logic := s, made := insert l (made y)\<rparr>)"
| destroy: "close_msg l \<in> set (handled y) \<Longrightarrow> le_destroy E l (logic y) s \<Longrightarrow>
    node_step ndebug Q P E H y (y\<lparr>logic := s\<rparr>)"
| other: "le_other E (logic y) s \<Longrightarrow> node_step ndebug Q P E H y (y\<lparr>logic := s\<rparr>)"
| enter: "l \<in> made y \<Longrightarrow> l \<notin> entered y \<Longrightarrow>
    node_step ndebug Q P E H y (y\<lparr>net := ext_onEnter Q l (Some server) socketID ip (net y),
      opened := insert l (opened y), entered := insert l (entered y)\<rparr>)"
| recv: "l \<in> opened y \<Longrightarrow> ext_cut P (unparsed y l) = None \<Longrightarrow>
    node_step ndebug Q P E H y (y\<lparr>unparsed := (unparsed y)(l := unparsed y l @ chunk),
      received := (received y)(l := received y l @ chunk)\<rparr>)"
| cut: "l \<in> opened y \<Longrightarrow>
    ext_step P (pushDataMsg2LogicMsgList Q l) (unparsed y l) (net y) = Some (n, Inr w) \<Longrightarrow>
    node_step ndebug Q P E H y (y\<lparr>net := w, unparsed := (unparsed y)(l := drop n (unparsed y l))\<rparr>)"
| close: "l \<in> opened y \<Longrightarrow> ext_cut P (unparsed y l) = None \<Longrightarrow>
    node_step ndebug Q P E H y (y\<lparr>net := ext_onClose Q l (net y), opened := opened y - {l}\<rparr>)"
| callback: "node_step ndebug Q P E H y (y\<lparr>net := pushCompleteCallback2LogicMsgList Q (Some c) (net y)\<rparr>)"
| force: "node_step ndebug Q P E H y (y\<lparr>net := sync_force Q (net y)\<rparr>)"
| wake: "node_step ndebug Q P E H y (y\<lparr>net := sync_wake Q (net y)\<rparr>)"
| read: "\<not> popping y \<Longrightarrow>
    node_step ndebug Q P E H y (y\<lparr>net := (net y)\<lparr>gNet2LogicMsgList := mq_syncRead Q 0 (gNet2LogicMsgList (net y))\<rparr>,
      popping := True\<rparr>)"
| pop: "popping y \<Longrightarrow> mq_popFront Q (gNet2LogicMsgList (net y)) = Some (m, q) \<Longrightarrow>
    proc_msg ndebug H m (logic y) = Inr s \<Longrightarrow>
    node_step ndebug Q P E H y (y\<lparr>net := (net y)\<lparr>gNet2LogicMsgList := q\<rparr>, logic := s, handled := handled y @ [m]\<rparr>)"
| leave: "popping y \<Longrightarrow> mq_popFront Q (gNet2LogicMsgList (net y)) = None \<Longrightarrow>
    node_step ndebug Q P E H y (y\<lparr>popping := False\<rparr>)"

inductive node_reach ::
  "bool \<Rightarrow> ('q, net2logic_msg) queue_lib \<Rightarrow> 'r packet_lib \<Rightarrow> 's logic_env \<Rightarrow> 's logic_handlers \<Rightarrow> 's \<Rightarrow>
   ('q, 's) node \<Rightarrow> bool"
  for ndebug Q P E H s0 where
  start: "node_reach ndebug Q P E H s0 (node_start Q s0)"
| step: "node_reach ndebug Q P E H s0 y \<Longrightarrow> node_step ndebug Q P E H y z \<Longrightarrow> node_reach ndebug Q P E H s0 z"

section \<open>What the logic thread sees of a session\<close>

abbreviation snoc_packet :: "bytes \<Rightarrow> bytes list \<Rightarrow> bytes list" where
  "snoc_packet p ps \<equiv> ps @ [p]"

text \<open>The bytes that came in were cut into \<open>ps\<close>, and \<open>un\<close> is left.\<close>

definition cut_to :: "'r packet_lib \<Rightarrow> bytes \<Rightarrow> bytes \<Rightarrow> bytes list \<Rightarrow> bool" where
  "cut_to P rcv un ps \<longleftrightarrow> (\<exists>t\<le>length rcv. un = drop t rcv \<and>
     ext_run P snoc_packet rcv 0 [] = ext_run P snoc_packet un t ps)"

context packet_wire
begin

lemma cut_to_start: "cut_to P [] [] []"
  by (auto simp: cut_to_def)

lemma ext_run_stuck: "ext_cut P data = None \<Longrightarrow> ext_run P push data t s = Some (Inr (s, t))"
  by (rule ext.run_stuck) (simp add: ext_step_cut)

lemma cut_to_recv:
  assumes "cut_to P rcv un ps" and "ext_cut P un = None"
  shows "cut_to P (rcv @ chunk) (un @ chunk) ps"
proof -
  obtain t where t: "t \<le> length rcv" "un = drop t rcv"
    "ext_run P snoc_packet rcv 0 [] = ext_run P snoc_packet un t ps"
    using assms(1) by (auto simp: cut_to_def)
  then have "ext_run P snoc_packet rcv 0 [] = Some (Inr (ps, t))" using ext_run_stuck [OF assms(2)] by simp
  from ext.run_append [OF this, of chunk] t show ?thesis
    by (auto simp: cut_to_def intro!: exI [of _ t])
qed

lemma cut_to_cut:
  assumes "cut_to P rcv un ps" and cut: "ext_cut P un = Some n"
  shows "cut_to P rcv (drop n un) (ps @ [take n un])"
proof -
  obtain t where t: "t \<le> length rcv" "un = drop t rcv"
    "ext_run P snoc_packet rcv 0 [] = ext_run P snoc_packet un t ps"
    using assms(1) by (auto simp: cut_to_def)
  have step: "ext_step P snoc_packet un ps = Some (n, Inr (ps @ [take n un]))" using cut by (simp add: ext_step_cut)
  have "n \<le> length un" using ext.step_bound [OF step] by simp
  then show ?thesis using t ext.run_more [OF step, of t]
    by (auto simp: cut_to_def add.commute intro!: exI [of _ "t + n"])
qed

text \<open>\<open>onMsg\<close> itself is the pushes of what it cuts, one after the other: \<open>node_step\<close> may take them one by one.\<close>

lemma ext_run_fold:
  "\<exists>ps t'. ext_run P snoc_packet data t qs = Some (Inr (qs @ ps, t')) \<and>
     ext_run P push data t w = Some (Inr (fold push ps w, t'))"
proof (induction data t qs arbitrary: w rule: ext.run_induct [where push = snoc_packet])
  case (Stuck data t qs)
  then have "ext_cut P data = None" by (simp add: ext_step_cut)
  then show ?case by (auto simp: ext_run_stuck intro!: exI [of _ "[]"])
next
  case (Fault data t qs n f)
  then show ?case by (simp add: ext_step_cut)
next
  case (More data t qs n qs')
  have n: "ext_cut P data = Some n" "qs' = qs @ [take n data]" using More(1) by (auto simp: ext_step_cut)
  have "ext_run P snoc_packet data t qs = ext_run P snoc_packet (drop n data) (t + n) qs'"
    by (rule ext.run_more [OF More(1)])
  moreover have "ext_run P push data t w = ext_run P push (drop n data) (t + n) (push (take n data) w)"
    by (rule ext.run_more) (simp add: ext_step_cut n(1))
  moreover obtain ps t' where "ext_run P snoc_packet (drop n data) (t + n) qs' = Some (Inr (qs' @ ps, t'))"
    "ext_run P push (drop n data) (t + n) (push (take n data) w) = Some (Inr (fold push ps (push (take n data) w), t'))"
    using More(4) [of "push (take n data) w"] by blast
  ultimately show ?case by (auto simp: n(2) intro!: exI [of _ "take n data # ps"])
qed

lemma UsePacketExt_onMsg_pushes:
  "\<exists>ps n. ext_onMsg P snoc_packet data [] = Some (Inr (ps, n)) \<and>
     UsePacketExt_onMsg Q P l data w = Some (Inr (fold (pushDataMsg2LogicMsgList Q l) ps w, n))"
  using ext_run_fold [of data 0 "[]" "pushDataMsg2LogicMsgList Q l" w]
  by (simp add: UsePacketExt_onMsg_def ext_onMsg_run)

text \<open>What is cut so far is a beginning of what the whole stream holds, and all of it once nothing is left.\<close>

lemma cut_to_all:
  assumes "cut_to P rcv un ps"
  obtains qs rest where "at_once (ext_onMsg P snoc_packet) [] rcv = Some (Inr (ps @ qs, rest))"
    "ext_cut P un = None \<Longrightarrow> qs = []"
proof -
  obtain t where t: "ext_run P snoc_packet rcv 0 [] = ext_run P snoc_packet un t ps"
    using assms by (auto simp: cut_to_def)
  obtain r where r: "ext_run P snoc_packet un t ps = Some r" using ext.run_returns [of snoc_packet] by blast
  have "ext_run P snoc_packet data k s \<noteq> Some (Inl f)" for data k s f
    by (induction data k s rule: ext.run_induct [where push = snoc_packet])
      (auto simp: ext.run_stuck ext.run_more ext_step_cut)
  with r obtain ps' k where ps': "ext_run P snoc_packet un t ps = Some (Inr (ps', k))" by (cases r) auto
  have "\<exists>qs. ps' = ps @ qs"
    by (rule ext.run_preserves [OF _ ps']) (auto simp: ext_step_cut)
  then obtain qs where qs: "ps' = ps @ qs" by blast
  show thesis
  proof (rule that)
    show "at_once (ext_onMsg P snoc_packet) [] rcv = Some (Inr (ps @ qs, drop k rcv))"
      using ps' t qs by (simp add: at_once_def ext_onMsg_run)
    show "ext_cut P un = None \<Longrightarrow> qs = []" using ps' qs ext_run_stuck [of un snoc_packet t ps] by simp
  qed
qed

end

text \<open>The result \<open>r\<close> is a handler's: the switch itself neither asserts nor calls through a null pointer.\<close>

definition from_handler :: "'s logic_handlers \<Rightarrow> 's \<Rightarrow> 's result \<Rightarrow> bool" where
  "from_handler H s r \<longleftrightarrow> (\<exists>l. r = lh_onEnter H l s \<or> (\<exists>p. r = lh_onMsg H l p s) \<or> r = lh_onClose H l s \<or>
     r = lh_callback H l s)"

text \<open>Every message there is: those handled, and those of the queue's three lists (\<open>qlist\<close>).\<close>

definition node_msgs :: "('q \<Rightarrow> net2logic_msg list) \<Rightarrow> ('q, 's) node \<Rightarrow> net2logic_msg list" where
  "node_msgs qlist y = handled y @ qlist (gNet2LogicMsgList (net y))"

text \<open>The network session of \<open>l\<close> has queued \<open>onEnter\<close>, the packets cut so far, and \<open>onClose\<close> if it is closed.\<close>

definition session_inv :: "'r packet_lib \<Rightarrow> ('q, 's) node \<Rightarrow> net2logic_msg list \<Rightarrow> nat \<Rightarrow> bool" where
  "session_inv P y ms l \<longleftrightarrow> (if l \<in> entered y then
       (\<exists>ps. session_msgs l ms = enter_msg l # map (data_msg l) ps @ (if l \<in> opened y then [] else [close_msg l]) \<and>
         cut_to P (received y l) (unparsed y l) ps \<and> (l \<notin> opened y \<longrightarrow> ext_cut P (unparsed y l) = None))
     else session_msgs l ms = [] \<and> received y l = [] \<and> unparsed y l = [])"

text \<open>
  The logic thread's state from its own side: sessions are made, messages handled, one after the other, and
  whatever \<open>logic_env\<close> allows happens in between.
\<close>

inductive logic_run ::
  "bool \<Rightarrow> 's logic_env \<Rightarrow> 's logic_handlers \<Rightarrow> 's \<Rightarrow> nat set \<Rightarrow> net2logic_msg list \<Rightarrow> 's \<Rightarrow> bool"
  for ndebug E H s0 where
  start: "logic_run ndebug E H s0 {} [] s0"
| make: "logic_run ndebug E H s0 M ms s \<Longrightarrow> l \<notin> M \<Longrightarrow> le_make E l s s' \<Longrightarrow>
    logic_run ndebug E H s0 (insert l M) ms s'"
| msg: "logic_run ndebug E H s0 M ms s \<Longrightarrow> proper_msg M m \<Longrightarrow> proc_msg ndebug H m s = Inr s' \<Longrightarrow>
    logic_run ndebug E H s0 M (ms @ [m]) s'"
| destroy: "logic_run ndebug E H s0 M ms s \<Longrightarrow> close_msg l \<in> set ms \<Longrightarrow> le_destroy E l s s' \<Longrightarrow>
    logic_run ndebug E H s0 M ms s'"
| other: "logic_run ndebug E H s0 M ms s \<Longrightarrow> le_other E s s' \<Longrightarrow> logic_run ndebug E H s0 M ms s'"

definition queue_inv ::
  "bool \<Rightarrow> 's logic_env \<Rightarrow> 's logic_handlers \<Rightarrow> 's \<Rightarrow> ('q, 's) node \<Rightarrow> net2logic_msg list \<Rightarrow> bool" where
  "queue_inv ndebug E H s0 y ms \<longleftrightarrow> logic_run ndebug E H s0 (made y) (handled y) (logic y) \<and>
     opened y \<subseteq> entered y \<and> entered y \<subseteq> made y \<and> (\<forall>m\<in>set ms. proper_msg (entered y) m) \<and>
     (\<forall>l\<in>entered y. \<exists>srv. base_mServer (logic_bases (net y) l) = Some srv)"

locale node_io = logic_queue Q wlist slist rlist + packet_wire P
  for Q :: "('q, net2logic_msg) queue_lib" and wlist slist rlist :: "'q \<Rightarrow> net2logic_msg list" and P :: "'r packet_lib"
begin

lemma net_sides:
  "gNet2LogicMsgList (ext_onEnter Q l srv sid ip w) = mq_push Q (enter_msg l) (gNet2LogicMsgList w)"
  "gNet2LogicMsgList (ext_onClose Q l w) = mq_push Q (close_msg l) (gNet2LogicMsgList w)"
  "gNet2LogicMsgList (pushDataMsg2LogicMsgList Q l p w) = mq_push Q (data_msg l p) (gNet2LogicMsgList w)"
  "gNet2LogicMsgList (sync_force Q w) = mq_forceSyncWrite Q (gNet2LogicMsgList w)"
  "gNet2LogicMsgList (sync_wake Q w) = gNet2LogicMsgList w"
  "logic_bases (ext_onClose Q l w) = logic_bases w" "logic_bases (pushDataMsg2LogicMsgList Q l p w) = logic_bases w"
  "logic_bases (pushCompleteCallback2LogicMsgList Q c w) = logic_bases w"
  "logic_bases (sync_force Q w) = logic_bases w" "logic_bases (sync_wake Q w) = logic_bases w"
  "base_mServer (logic_bases (ext_onEnter Q l srv sid ip w) l') =
     (if l' = l then srv else base_mServer (logic_bases w l'))"
  by (simp_all add: ext_onEnter_def ext_onClose_def pushDataMsg2LogicMsgList_def push_msg_def sync_force_def
      sync_wake_def enter_msg_def close_msg_def data_msg_def pushCompleteCallback2LogicMsgList_def setSession_def)

lemma proper_intros:
  "l \<in> E \<Longrightarrow> proper_msg E (enter_msg l)" "l \<in> E \<Longrightarrow> proper_msg E (data_msg l p)"
  "l \<in> E \<Longrightarrow> proper_msg E (close_msg l)"
  "proper_msg E ((Net2LogicMsg None Net2LogicMsgTypeCompleteCallback)\<lparr>msg_mSendCompleteCallback := Some c\<rparr>)"
  by (auto simp: proper_msg_def)

lemma proper_mono: "proper_msg E m \<Longrightarrow> E \<subseteq> F \<Longrightarrow> proper_msg F m"
  by (auto simp: proper_msg_def)

lemma queue_inv_step:
  assumes inv: "queue_inv ndebug E H s0 y (node_msgs qlist y)" and st: "node_step ndebug Q P E H y z"
  shows "queue_inv ndebug E H s0 z (node_msgs qlist z)"
  using st
proof cases
  case (make l s)
  then show ?thesis using inv by (auto simp: queue_inv_def node_msgs_def intro: logic_run.make)
next
  case (destroy l s)
  then show ?thesis using inv by (auto simp: queue_inv_def node_msgs_def intro: logic_run.destroy)
next
  case (other s)
  then show ?thesis using inv by (auto simp: queue_inv_def node_msgs_def intro: logic_run.other)
next
  case (enter l server socketID ip)
  then show ?thesis using inv
    by (auto simp: queue_inv_def node_msgs_def net_sides queue_lists
        intro: proper_mono proper_intros)
next
  case (cut l n w)
  then have "l \<in> entered y" using inv by (auto simp: queue_inv_def)
  with cut show ?thesis using inv
    by (auto simp: queue_inv_def node_msgs_def net_sides queue_lists ext_step_cut
        intro: proper_intros)
next
  case (close l)
  then have "l \<in> entered y" using inv by (auto simp: queue_inv_def)
  with close show ?thesis using inv
    by (auto simp: queue_inv_def node_msgs_def net_sides queue_lists intro: proper_intros)
next
  case (callback c)
  then show ?thesis using inv
    by (auto simp: queue_inv_def node_msgs_def net_sides queue_lists
        pushCompleteCallback2LogicMsgList_def push_msg_def intro: proper_intros)
next
  case read
  then show ?thesis using inv by (simp add: queue_inv_def node_msgs_def del: set_append)
next
  case (pop m q s)
  have "node_msgs qlist y = handled y @ m # qlist q" using qlist_pop [OF pop(3)] by (simp add: node_msgs_def)
  then have "proper_msg (made y) m" using inv proper_mono by (auto simp: queue_inv_def)
  then show ?thesis using pop inv qlist_pop [OF pop(3)]
    by (auto simp: queue_inv_def node_msgs_def intro: logic_run.msg)
qed (use inv in \<open>simp_all add: queue_inv_def node_msgs_def net_sides queue_lists\<close>)

text \<open>Each session's messages, step by step: only its own network session adds to them.\<close>

lemma session_inv_same:
  assumes "session_inv P y ms l" and "session_msgs l ns = session_msgs l ms"
    and "l \<in> opened z \<longleftrightarrow> l \<in> opened y" "l \<in> entered z \<longleftrightarrow> l \<in> entered y"
    and "received z l = received y l" "unparsed z l = unparsed y l"
  shows "session_inv P z ns l"
  using assms by (simp add: session_inv_def)

lemma session_inv_step:
  assumes inv: "session_inv P y (node_msgs qlist y) l" and q: "opened y \<subseteq> entered y"
    and st: "node_step ndebug Q P E H y z"
  shows "session_inv P z (node_msgs qlist z) l"
  using st
proof cases
  case (enter l' server socketID ip)
  show ?thesis
  proof (cases "l' = l")
    case True
    then show ?thesis using enter inv
      by (auto simp: session_inv_def node_msgs_def net_sides queue_lists cut_to_start intro!: exI [of _ "[]"])
  next
    case False
    then show ?thesis using enter inv
      by (intro session_inv_same [OF inv]) (auto simp: node_msgs_def net_sides queue_lists)
  qed
next
  case (recv l' chunk)
  then show ?thesis using inv q cut_to_recv
    by (cases "l' = l") (fastforce simp: session_inv_def node_msgs_def)+
next
  case (cut l' n w)
  show ?thesis
  proof (cases "l' = l")
    case True
    have l: "l \<in> entered y" using cut(2) q True by auto
    obtain ps where ps: "session_msgs l (node_msgs qlist y) = enter_msg l # map (data_msg l) ps"
      "cut_to P (received y l) (unparsed y l) ps"
      using inv l cut(2) True by (auto simp: session_inv_def)
    have n: "ext_cut P (unparsed y l) = Some n" "w = pushDataMsg2LogicMsgList Q l (take n (unparsed y l)) (net y)"
      using cut(3) True by (auto simp: ext_step_cut)
    then show ?thesis using cut ps l cut_to_cut [OF ps(2) n(1)] True
      by (auto simp: session_inv_def node_msgs_def net_sides queue_lists
          intro!: exI [of _ "ps @ [take n (unparsed y l)]"])
  next
    case False
    then show ?thesis using cut
      by (intro session_inv_same [OF inv]) (auto simp: node_msgs_def net_sides queue_lists ext_step_cut)
  qed
next
  case (close l')
  show ?thesis
  proof (cases "l' = l")
    case True
    then show ?thesis using close inv q
      by (auto simp: session_inv_def node_msgs_def net_sides queue_lists)
  next
    case False
    then show ?thesis using close
      by (intro session_inv_same [OF inv]) (auto simp: node_msgs_def net_sides queue_lists)
  qed
next
  case (callback c)
  then show ?thesis
    by (intro session_inv_same [OF inv])
      (auto simp: node_msgs_def pushCompleteCallback2LogicMsgList_def push_msg_def queue_lists Net2LogicMsg_def)
next
  case read
  then show ?thesis
    by (intro session_inv_same [OF inv]) (simp_all add: node_msgs_def del: session_msgs_simps(2))
next
  case (pop m q' s)
  then show ?thesis using qlist_pop [OF pop(3)]
    by (intro session_inv_same [OF inv]) (simp_all add: node_msgs_def)
qed (intro session_inv_same [OF inv]; simp add: node_msgs_def net_sides queue_lists)+

lemma node_reach_inv:
  assumes "node_reach ndebug Q P E H s0 y"
  shows "queue_inv ndebug E H s0 y (node_msgs qlist y) \<and> (\<forall>l. session_inv P y (node_msgs qlist y) l) \<and>
    (\<not> popping y \<longrightarrow> rlist (gNet2LogicMsgList (net y)) = [])"
  using assms
proof (induction rule: node_reach.induct)
  case start
  show ?case by (simp add: node_start_def queue_inv_def session_inv_def node_msgs_def queue_lists logic_run.start)
next
  case (step y z)
  have "\<not> popping z \<longrightarrow> rlist (gNet2LogicMsgList (net z)) = []"
    using step.hyps(2)
  proof cases
    case (cut l n w)
    then show ?thesis using step.IH by (auto simp: net_sides queue_lists ext_step_cut)
  next
    case (callback c)
    then show ?thesis using step.IH
      by (simp add: pushCompleteCallback2LogicMsgList_def push_msg_def queue_lists)
  qed (use step.IH in \<open>simp_all add: net_sides queue_lists pop_None\<close>)
  moreover have "queue_inv ndebug E H s0 z (node_msgs qlist z)"
    using queue_inv_step [OF _ step.hyps(2)] step.IH by blast
  moreover have "session_inv P z (node_msgs qlist z) l" for l
    using session_inv_step [OF _ _ step.hyps(2)] step.IH by (auto simp: queue_inv_def)
  ultimately show ?case by blast
qed

lemma proper_proc:
  assumes "proper_msg E m"
  shows "from_handler H s (proc_msg ndebug H m s)"
proof -
  consider l p where "m = enter_msg l \<or> m = data_msg l p \<or> m = close_msg l"
    | c where "m = (Net2LogicMsg None Net2LogicMsgTypeCompleteCallback)\<lparr>msg_mSendCompleteCallback := Some c\<rparr>"
    using assms by (auto simp: proper_msg_def)
  then show ?thesis
  proof cases
    case 1
    then have "proc_msg ndebug H m s \<in> {lh_onEnter H l s, lh_onMsg H l p s, lh_onClose H l s}"
      by (auto simp: proc_msg_def with_ptr_def)
    then show ?thesis by (auto simp: from_handler_def)
  next
    case 2
    then have "proc_msg ndebug H m s = lh_callback H c s" by (simp add: proc_msg_def with_ptr_def Net2LogicMsg_def)
    then show ?thesis by (auto simp: from_handler_def)
  qed
qed

lemma session_seen:
  assumes inv: "session_inv P y (node_msgs qlist y) l"
  shows "\<exists>ps rest. at_once (ext_onMsg P snoc_packet) [] (received y l) = Some (Inr (ps, rest)) \<and>
    prefix (session_msgs l (node_msgs qlist y)) (enter_msg l # map (data_msg l) ps @ [close_msg l]) \<and>
    (l \<in> entered y - opened y \<longrightarrow>
      session_msgs l (node_msgs qlist y) = enter_msg l # map (data_msg l) ps @ [close_msg l])"
proof (cases "l \<in> entered y")
  case True
  then obtain ps where ps: "session_msgs l (node_msgs qlist y) =
      enter_msg l # map (data_msg l) ps @ (if l \<in> opened y then [] else [close_msg l])"
    "cut_to P (received y l) (unparsed y l) ps" "l \<notin> opened y \<longrightarrow> ext_cut P (unparsed y l) = None"
    using inv by (auto simp: session_inv_def)
  obtain qs rest where qs: "at_once (ext_onMsg P snoc_packet) [] (received y l) = Some (Inr (ps @ qs, rest))"
    "ext_cut P (unparsed y l) = None \<Longrightarrow> qs = []"
    using cut_to_all [OF ps(2)] by blast
  then show ?thesis using ps by (auto simp: append_assoc [symmetric] simp del: append_assoc)
next
  case False
  then have "received y l = []" using inv by (simp add: session_inv_def)
  then show ?thesis using False inv cut_to_all [OF cut_to_start]
    by (auto simp: session_inv_def) (metis prefix_bot.bot_least)
qed

lemma node_seen:
  assumes "node_reach ndebug Q P E H s0 y"
  shows "\<exists>ps rest. at_once (ext_onMsg P snoc_packet) [] (received y l) = Some (Inr (ps, rest)) \<and>
    prefix (session_msgs l (handled y)) (enter_msg l # map (data_msg l) ps @ [close_msg l]) \<and>
    (session_msgs l (handled y) \<noteq> [] \<longrightarrow> (\<exists>srv. base_mServer (logic_bases (net y) l) = Some srv))"
proof -
  note inv = node_reach_inv [OF assms]
  obtain ps rest where *: "at_once (ext_onMsg P snoc_packet) [] (received y l) = Some (Inr (ps, rest))"
    "prefix (session_msgs l (node_msgs qlist y)) (enter_msg l # map (data_msg l) ps @ [close_msg l])"
    using session_seen inv by blast
  have "prefix (session_msgs l (handled y)) (session_msgs l (node_msgs qlist y))"
    by (simp add: node_msgs_def)
  then have "prefix (session_msgs l (handled y)) (enter_msg l # map (data_msg l) ps @ [close_msg l])"
    using *(2) by (rule prefix_order.trans)
  moreover have "l \<in> entered y" if "session_msgs l (handled y) \<noteq> []"
    using inv that by (auto simp: session_inv_def node_msgs_def split: if_splits)
  ultimately show ?thesis using *(1) inv by (auto simp: queue_inv_def)
qed

lemma node_drains:
  assumes reach: "node_reach ndebug Q P E H s0 y" and idle: "\<not> popping y"
  shows "\<exists>ms q'. procNet2LogicMsgList ndebug Q H (gNet2LogicMsgList (syncNet2LogicMsgList Q (net y))) (logic y) =
      Some (rbind (proc_all ndebug H ms (logic y)) (\<lambda>s'. Inr (q', s'))) \<and> qlist q' = [] \<and>
    (ms \<noteq> [] \<longrightarrow> loop_wakeups (syncNet2LogicMsgList Q (net y)) = loop_wakeups (net y) + 1) \<and>
    (\<forall>m\<in>set ms. \<forall>s. from_handler H s (proc_msg ndebug H m s)) \<and>
    (\<forall>l\<in>entered y - opened y. \<exists>ps rest.
       at_once (ext_onMsg P snoc_packet) [] (received y l) = Some (Inr (ps, rest)) \<and>
       session_msgs l (handled y @ ms) = enter_msg l # map (data_msg l) ps @ [close_msg l])"
proof -
  let ?q = "gNet2LogicMsgList (net y)"
  note inv = node_reach_inv [OF reach]
  have r: "rlist ?q = []" using inv idle by blast
  have ms: "node_msgs qlist y = handled y @ slist ?q @ wlist ?q" by (simp add: node_msgs_def r)
  have sync: "gNet2LogicMsgList (syncNet2LogicMsgList Q (net y)) = mq_forceSyncWrite Q ?q"
    "loop_wakeups (syncNet2LogicMsgList Q (net y)) =
       loop_wakeups (net y) + (if slist ?q @ wlist ?q = [] then 0 else 1)"
    by (auto simp: syncNet2LogicMsgList_def sync_wake_def sync_force_def queue_lists)
  have "\<forall>l\<in>entered y - opened y. \<exists>ps rest.
       at_once (ext_onMsg P snoc_packet) [] (received y l) = Some (Inr (ps, rest)) \<and>
       session_msgs l (handled y @ slist ?q @ wlist ?q) = enter_msg l # map (data_msg l) ps @ [close_msg l]"
    using session_seen inv unfolding ms [symmetric] by blast
  moreover have "\<forall>m\<in>set (slist ?q @ wlist ?q). \<forall>s. from_handler H s (proc_msg ndebug H m s)"
    using inv ms by (auto simp: queue_inv_def intro: proper_proc)
  moreover obtain q' where "procNet2LogicMsgList ndebug Q H (mq_forceSyncWrite Q ?q) (logic y) =
      Some (rbind (proc_all ndebug H (slist ?q @ wlist ?q) (logic y)) (\<lambda>s'. Inr (q', s')))" "qlist q' = []"
    using sync_proc_all [OF r, of ndebug H "logic y"] by auto
  ultimately show ?thesis
    using sync by (intro exI [of _ "slist ?q @ wlist ?q"] exI [of _ q']) simp
qed

end

section \<open>Runs of the logic thread\<close>

definition live_sessions :: "net2logic_msg list \<Rightarrow> nat set" where
  "live_sessions ms = {l. enter_msg l \<in> set ms \<and> close_msg l \<notin> set ms}"

text \<open>Each session's messages are a beginning of an entry, packets, a close.\<close>

definition orderly :: "net2logic_msg list \<Rightarrow> bool" where
  "orderly ms \<longleftrightarrow> (\<forall>l. \<exists>ps. prefix (session_msgs l ms) (enter_msg l # map (data_msg l) ps @ [close_msg l]))"

lemma orderly_take: "orderly (ms @ ns) \<Longrightarrow> orderly ms"
  unfolding orderly_def by (metis append_prefixD session_msgs_simps(2))

lemma msg_distinct [simp]:
  "enter_msg l \<noteq> data_msg l' p" "enter_msg l \<noteq> close_msg l'" "data_msg l p \<noteq> close_msg l'"
  "data_msg l p \<noteq> enter_msg l'" "close_msg l \<noteq> enter_msg l'" "close_msg l \<noteq> data_msg l' p"
  by (metis msg_type Net2LogicMsgType.distinct)+

lemma msg_inject [simp]:
  "enter_msg l = enter_msg l' \<longleftrightarrow> l = l'" "close_msg l = close_msg l' \<longleftrightarrow> l = l'"
  by (metis msg_session option.inject)+

lemma in_session_msgs: "msg_mSession m = Some l \<Longrightarrow> m \<in> set ms \<longleftrightarrow> m \<in> set (session_msgs l ms)"
  by (auto simp: session_msgs_def)

lemma orderly_enter:
  assumes "orderly (ms @ [enter_msg l])"
  shows "session_msgs l ms = []"
proof -
  obtain ps where ps: "prefix (session_msgs l ms @ [enter_msg l]) (enter_msg l # map (data_msg l) ps @ [close_msg l])"
    using assms by (auto simp: orderly_def dest: spec [of _ l])
  show ?thesis
  proof (cases "session_msgs l ms")
    case (Cons m ns)
    then have "prefix (ns @ [enter_msg l]) (map (data_msg l) ps @ [close_msg l])" using ps by simp
    then have "enter_msg l \<in> set (map (data_msg l) ps @ [close_msg l])"
      using set_mono_prefix by fastforce
    then show ?thesis by auto
  qed simp
qed

lemma orderly_after:
  assumes ord: "orderly (ms @ [m])" and m: "m = data_msg l p \<or> m = close_msg l"
  shows "l \<in> live_sessions ms"
proof -
  have s: "msg_mSession m = Some l" using m by auto
  obtain ps where ps: "prefix (session_msgs l ms @ [m]) (enter_msg l # map (data_msg l) ps @ [close_msg l])"
    using ord s by (auto simp: orderly_def dest: spec [of _ l])
  obtain ns where ns: "session_msgs l ms = enter_msg l # ns"
    using ps m by (cases "session_msgs l ms") auto
  then obtain r where r: "ns @ m # r = map (data_msg l) ps @ [close_msg l]" using ps by (auto simp: prefix_def)
  have "close_msg l \<notin> set ns"
  proof
    assume "close_msg l \<in> set ns"
    then obtain i where i: "i < length ns" "ns ! i = close_msg l" by (auto simp: in_set_conv_nth)
    then have "(map (data_msg l) ps @ [close_msg l]) ! i = close_msg l" by (metis r nth_append)
    moreover have "length ns < length (map (data_msg l) ps @ [close_msg l])" unfolding r [symmetric] by simp
    ultimately show False using i by (simp add: nth_append)
  qed
  then have "enter_msg l \<in> set (session_msgs l ms)" "close_msg l \<notin> set (session_msgs l ms)" using ns by simp_all
  then show ?thesis by (auto simp: live_sessions_def session_msgs_def)
qed

lemma live_simps:
  "live_sessions [] = {}"
  "live_sessions (ms @ [data_msg l p]) = live_sessions ms"
  "live_sessions (ms @ [close_msg l]) = live_sessions ms - {l}"
  by (auto simp: live_sessions_def)

lemma live_enter:
  assumes "session_msgs l ms = []"
  shows "live_sessions (ms @ [enter_msg l]) = insert l (live_sessions ms)"
proof -
  have "close_msg l \<notin> set ms" using assms by (auto simp: session_msgs_def filter_empty_conv)
  then show ?thesis by (auto simp: live_sessions_def)
qed

lemma run_made: "logic_run ndebug E H s0 M ms s \<Longrightarrow> l \<notin> M \<Longrightarrow> session_msgs l ms = []"
  by (induction rule: logic_run.induct) (auto simp: proper_msg_def Net2LogicMsg_def)

text \<open>The session a message of a run is about: made, and not there before it enters, there until it closes.\<close>

lemma run_msg_cases:
  assumes ord: "orderly (ms @ [m])" and m: "proper_msg M m"
    and no: "msg_mMsgType m \<noteq> Net2LogicMsgTypeCompleteCallback"
  obtains (enter) l where "m = enter_msg l" "l \<in> M" "session_msgs l ms = []" "l \<notin> live_sessions ms"
    | (data) l p where "m = data_msg l p" "l \<in> live_sessions ms"
    | (close) l where "m = close_msg l" "l \<in> live_sessions ms"
proof -
  consider l where "m = enter_msg l" "l \<in> M" | l p where "m = data_msg l p" | l where "m = close_msg l"
    using m no by (auto simp: proper_msg_def Net2LogicMsg_def)
  then show thesis
  proof cases
    case (1 l)
    then have "session_msgs l ms = []" using ord orderly_enter by blast
    moreover from this have "l \<notin> live_sessions ms"
      using in_session_msgs [of "enter_msg l" l ms] by (simp add: live_sessions_def)
    ultimately show thesis using 1 enter by blast
  next
    case 2
    then show thesis using orderly_after [OF ord] data by blast
  next
    case 3
    then show thesis using orderly_after [OF ord] close by blast
  qed
qed

interpretation stdlq: logic_queue std_queue_lib fst "\<lambda>q. fst (snd q)" "\<lambda>q. snd (snd q)"
  by unfold_locales

interpretation stdn: node_io std_queue_lib fst "\<lambda>q. fst (snd q)" "\<lambda>q. snd (snd q)" std_lib
  by unfold_locales

section \<open>Properties\<close>

text \<open>A logic thread that records what it is called with, and a run, for the witnesses.\<close>

definition demo_handlers :: "(nat \<times> bytes) list logic_handlers" where
  "demo_handlers = \<lparr>lh_onEnter = (\<lambda>l s. Inr (s @ [(l, [])])), lh_onMsg = (\<lambda>l p s. Inr (s @ [(l, p)])),
     lh_onClose = (\<lambda>l s. Inr (s @ [(l, [])])), lh_callback = (\<lambda>c s. Inr s)\<rparr>"

definition free_env :: "'s logic_env" where
  "free_env = \<lparr>le_make = (\<lambda>l s s'. s' = s), le_destroy = (\<lambda>l s s'. s' = s), le_other = (\<lambda>s s'. False)\<rparr>"

text \<open>Session 7 enters, sends one packet and a half, and leaves; the logic thread has handled its entry.\<close>

definition demo_msgs :: "net2logic_msg list" where
  "demo_msgs = [data_msg 7 [6, 0, 0, 0, 2, 0], close_msg 7]"

definition demo_node :: "(net2logic_msg std_queue, (nat \<times> bytes) list) node" where
  "demo_node = \<lparr>net = \<lparr>logic_bases = (\<lambda>_. BaseLogicSession 0)(7 := setSession (Some 1) 5 [49] (BaseLogicSession 0)),
       gNet2LogicMsgList = (demo_msgs, [], []), loop_wakeups = 1\<rparr>,
     logic = [(7, [])], made = {7}, popping = False, opened = {}, entered = {7}, unparsed = (\<lambda>_. [])(7 := [9, 0]),
     received = (\<lambda>_. [])(7 := [6, 0, 0, 0, 2, 0, 9, 0]), handled = [enter_msg 7]\<rparr>"

lemmas demo_eval = demo_handlers_def free_env_def demo_msgs_def node_start_def std_queue_lib_def ext_onEnter_def
  ext_onClose_def pushDataMsg2LogicMsgList_def push_msg_def sync_force_def sync_wake_def proc_msg_def with_ptr_def
  enter_msg_def data_msg_def close_msg_def msg_setData_def Net2LogicMsg_def ext_step_cut

lemma demo_cuts:
  "ext_cut std_lib [6, 0, 0, 0, 2, 0, 9, 0] = Some 6" "ext_cut std_lib [9, 0] = None" "ext_cut std_lib [] = None"
  by (simp_all add: ext_cut_def std_lib_simps)

text \<open>A run in which session \<open>l\<close> is made and enters, and the logic thread handles its entry.\<close>

definition entered_node :: "nat \<Rightarrow> 's \<Rightarrow> (net2logic_msg std_queue, 's) node" where
  "entered_node l s = \<lparr>net = \<lparr>logic_bases = (\<lambda>_. BaseLogicSession 0)(l := setSession (Some 1) 5 [49] (BaseLogicSession 0)),
       gNet2LogicMsgList = ([], [], []), loop_wakeups = 1\<rparr>,
     logic = s, made = {l}, popping = False, opened = {l}, entered = {l}, unparsed = (\<lambda>_. []),
     received = (\<lambda>_. []), handled = [enter_msg l]\<rparr>"

lemma enter_reach:
  fixes s0 s1 s :: 's
  assumes new: "le_make E l s0 s1" and run: "lh_onEnter H l s1 = Inr s"
  shows "node_reach ndebug std_queue_lib P E H s0 (entered_node l s)"
proof -
  let ?step = "node_step ndebug std_queue_lib P E H"
  let ?reach = "node_reach ndebug std_queue_lib P E H s0"
  let ?n = "\<lambda>q k. \<lparr>logic_bases = (\<lambda>_. BaseLogicSession 0)(l := setSession (Some 1) 5 [49] (BaseLogicSession 0)),
       gNet2LogicMsgList = q, loop_wakeups = k\<rparr>"
  define y0 :: "(net2logic_msg std_queue, 's) node" where "y0 = node_start std_queue_lib s0"
  define ym where "ym = y0\<lparr>logic := s1, made := {l}\<rparr>"
  define y1 where "y1 = ym\<lparr>net := ?n ([enter_msg l], [], []) 0, opened := {l}, entered := {l}\<rparr>"
  define y2 where "y2 = y1\<lparr>net := ?n ([], [enter_msg l], []) 0\<rparr>"
  define y3 where "y3 = y2\<lparr>net := ?n ([], [enter_msg l], []) 1\<rparr>"
  define y4 where "y4 = y3\<lparr>net := ?n ([], [], [enter_msg l]) 1, popping := True\<rparr>"
  define y5 where "y5 = y4\<lparr>net := ?n ([], [], []) 1, logic := s, handled := [enter_msg l]\<rparr>"
  define y6 where "y6 = y5\<lparr>popping := False\<rparr>"
  note ys = y0_def ym_def y1_def y2_def y3_def y4_def y5_def y6_def
  have s0: "?step y0 ym" using node_step.make [of l y0 E s1 ndebug std_queue_lib P H] new
    by (simp add: ys demo_eval)
  have s1: "?step ym y1" using node_step.enter [of l ym ndebug std_queue_lib P E H 1 5 "[49]"] by (simp add: ys demo_eval)
  have s2: "?step y1 y2" using node_step.force [of ndebug std_queue_lib P E H y1] by (simp add: ys demo_eval)
  have s3: "?step y2 y3" using node_step.wake [of ndebug std_queue_lib P E H y2] by (simp add: ys demo_eval)
  have s4: "?step y3 y4" using node_step.read [of y3 ndebug std_queue_lib P E H] by (simp add: ys demo_eval)
  have s5: "?step y4 y5" using node_step.pop [of y4 std_queue_lib "enter_msg l" "([], [], [])" ndebug H s P E] run
    by (simp add: ys demo_eval)
  have s6: "?step y5 y6" using node_step.leave [of y5 std_queue_lib ndebug P E H] by (simp add: ys demo_eval)
  have "?reach y0" unfolding y0_def by (rule node_reach.start)
  note R = node_reach.step
  have "y6 = entered_node l s" by (simp add: ys entered_node_def node_start_def)
  then show ?thesis
    using R [OF R [OF R [OF R [OF R [OF R [OF R [OF \<open>?reach y0\<close> s0] s1] s2] s3] s4] s5] s6] by simp
qed

lemma demo_reach: "node_reach ndebug std_queue_lib std_lib free_env demo_handlers [] demo_node"
proof -
  let ?step = "node_step ndebug std_queue_lib std_lib free_env demo_handlers"
  let ?reach = "node_reach ndebug std_queue_lib std_lib free_env demo_handlers []"
  define y6 :: "(net2logic_msg std_queue, (nat \<times> bytes) list) node" where "y6 = entered_node 7 [(7, [])]"
  define y7 where "y7 = y6\<lparr>unparsed := (unparsed y6)(7 := [6, 0, 0, 0, 2, 0, 9, 0]),
    received := (received y6)(7 := [6, 0, 0, 0, 2, 0, 9, 0])\<rparr>"
  define y8 where "y8 = y7\<lparr>net := (net y6)\<lparr>gNet2LogicMsgList := ([data_msg 7 [6, 0, 0, 0, 2, 0]], [], [])\<rparr>,
    unparsed := (unparsed y7)(7 := [9, 0])\<rparr>"
  note ys = y6_def y7_def y8_def entered_node_def
  have r6: "?reach y6" unfolding y6_def
    by (rule enter_reach [where ?s1.0 = "[]"]) (simp_all add: demo_eval)
  have s7: "?step y6 y7" using node_step.recv [of 7 y6 std_lib ndebug std_queue_lib free_env demo_handlers "[6, 0, 0, 0, 2, 0, 9, 0]"]
    by (simp add: ys demo_cuts)
  have s8: "?step y7 y8"
  proof -
    have "ext_step std_lib (pushDataMsg2LogicMsgList std_queue_lib 7) (unparsed y7 7) (net y7) = Some (6, Inr (net y8))"
      by (simp add: ys ext_step_cut demo_cuts) (simp add: demo_eval)
    from node_step.cut [OF _ this] have "?step y7 (y7\<lparr>net := net y8, unparsed := (unparsed y7)(7 := drop 6 (unparsed y7 7))\<rparr>)"
      by (simp add: ys)
    then show ?thesis by (simp add: ys)
  qed
  have s9: "?step y8 demo_node"
  proof -
    have "?step y8 (y8\<lparr>net := ext_onClose std_queue_lib 7 (net y8), opened := opened y8 - {7}\<rparr>)"
      by (rule node_step.close) (simp_all add: ys demo_cuts)
    moreover have "y8\<lparr>net := ext_onClose std_queue_lib 7 (net y8), opened := opened y8 - {7}\<rparr> = demo_node"
      by (simp add: ys demo_node_def) (simp add: demo_eval)
    ultimately show ?thesis by simp
  qed
  show ?thesis by (rule node_reach.step [OF node_reach.step [OF node_reach.step [OF r6 s7] s8] s9])
qed

text \<open>
  C8: What a session sends is what its logic session sees. Whatever the network threads and the logic
  thread interleave, the messages of a session that the logic thread has handled are a beginning of: its
  entry, the packets that \<open>UsePacketExtNetSession::onMsg\<close> cuts from all the bytes it received, in order, its
  close; and when one of them is handled, \<open>setSession\<close> has given the session its server, so a handler
  that sends does not meet a null \<open>mServer\<close>.
\<close>

theorem logic_sees_session:
  assumes "msg_queue Q wlist slist rlist" and "packet_wire P" and "node_reach ndebug Q P E H s0 y"
  shows "\<exists>ps rest. at_once (ext_onMsg P (\<lambda>p ps. ps @ [p])) [] (received y l) = Some (Inr (ps, rest)) \<and>
    prefix (session_msgs l (handled y)) (enter_msg l # map (data_msg l) ps @ [close_msg l]) \<and>
    (session_msgs l (handled y) \<noteq> [] \<longrightarrow>
      (\<exists>server. base_send packet callback (logic_bases (net y) l) =
         Inr (ServiceSend server (base_mSocketID (logic_bases (net y) l)) packet callback)))"
  using node_io.node_seen [OF node_io.intro [OF logic_queue.intro [OF assms(1)] assms(2)] assms(3), of l]
  by (auto simp: base_send_def)

theorem logic_sees_session_witness:
  "prefix [enter_msg 7] (enter_msg 7 # map (data_msg 7) [[6, 0, 0, 0, 2, 0]] @ [close_msg 7]) \<and>
   base_send [1] None (logic_bases (net demo_node) 7) = Inr (ServiceSend 1 5 [1] None)"
proof -
  have cuts: "at_once (ext_onMsg std_lib (\<lambda>p ps. ps @ [p])) [] (received demo_node 7) =
      Some (Inr ([[6, 0, 0, 0, 2, 0]], [9, 0]))"
    by (simp add: demo_node_def at_once_def ext_onMsg_def ext_loop.simps std_lib_simps)
  have seen: "session_msgs 7 (handled demo_node) = [enter_msg 7]" by (simp add: demo_node_def)
  show ?thesis
    using logic_sees_session [OF stdq.msg_queue_axioms std.packet_wire_axioms demo_reach, of 7 "[1]" None]
    by (simp add: cuts seen) (simp add: demo_node_def base_send_def setSession_def)
qed



end
