(* ===== verification/LogicServer.thy ===== *)
theory LogicServer
  imports ConnServer
begin

text \<open>
  The logic server (LogicServer/): its connections to the connection servers
  (ConnectionServerConnection.cpp), its connection to the center server (CenterServerConnection.cpp)
  and the mirrors of the clients (ClientMirror.cpp). All of it runs on the one logic thread.

  \<^item> Sessions and mirrors live in heaps indexed by address; a \<open>shared_ptr\<close> is an address or null.
    A \<open>weak_ptr\<close> is an address whose object may be gone (\<open>alive\<close>); only the library and the queue
    decide when a session is destroyed.
  \<^item> What the user's game code registered (message handlers, enter and disconnect callbacks) is not
    in the repository: a handler is a number and calling it is an action with its arguments.
  \<^item> \<open>acts\<close> is, in order, what was handed to the network, the timers and the user's code.
\<close>

type_synonym csaddr = nat  \<comment> \<open>a \<open>ConnectionServerConnection\<close>\<close>
type_synonym maddr = nat   \<comment> \<open>a \<open>ClientMirror\<close>\<close>

record cs_connection =
  cc_mIsSuccess :: bool
  cc_mPort :: i32
  cc_mIDInEtcd :: i32
  cc_mConnectionServerID :: i32
  cc_mPassword :: bytes
  cc_ip :: bytes

record client_mirror =
  cm_mRuntimeID :: i64
  cm_mConnectionServerID :: i32
  cm_mSocketIDOnConnectionServer :: i64
  cm_mConnectionServer :: "csaddr option"

datatype 'r ls_action =
    SendCS csaddr packet             \<comment> \<open>\<open>send\<close> on a connection server's session\<close>
  | SendCenter packet                \<comment> \<open>\<open>send\<close> on the center server's session\<close>
  | PingTimerCS csaddr               \<comment> \<open>\<open>addTimer(5000, ping)\<close>\<close>
  | PingTimerCenter
  | CancelPingCS csaddr              \<comment> \<open>\<open>mPingTimer.lock()->cancel()\<close>\<close>
  | CancelPingCenter
  | ReconnectTimer                   \<comment> \<open>\<open>addTimer(AUTO_CONNECT_DELAY, startConnectThread...)\<close>\<close>
  | Connect i32 bytes i32 bytes      \<comment> \<open>a connecting thread: id, ip, port, password\<close>
  | ClientEnter nat maddr            \<comment> \<open>the enter callback\<close>
  | ClientDisConnect nat "maddr option"
  | ClientMsg nat maddr 'r           \<comment> \<open>a mirror's user handler on the rest of the packet\<close>
  | CenterMsg nat 'r
  | CenterRpc bytes

record 'r logic_server =
  conns :: "csaddr \<Rightarrow> cs_connection"
  alive :: "csaddr \<Rightarrow> bool"
  mirrors :: "maddr \<Rightarrow> client_mirror"
  next_mirror :: maddr                                    \<comment> \<open>the next address \<open>make_shared\<close> returns\<close>
  gAllLogicConnectionServerClient :: "(i32, csaddr option) umap"
  alreadyConnectingServers :: "(i32, bytes \<times> i32) umap"
  mAllClientMirrorOnRuntimeID :: "(i64, maddr) umap"
  sUserMsgHandlers :: "(nat, nat) umap"                   \<comment> \<open>\<open>ClientMirror\<close>'s\<close>
  sEnterHandle :: "nat option"
  sDisConnectHandle :: "nat option"
  center_mSelfID :: i32
  center_sUserMsgHandlers :: "(nat, nat) umap"            \<comment> \<open>\<open>CenterServerConnection\<close>'s\<close>
  gLogicCenterServerClient :: bool                        \<comment> \<open>whether it is not null\<close>
  acts :: "'r ls_action list"

record logic_config =
  lcfg_id :: i32
  lcfg_isprimary :: bool
  lcfg_center_password :: bytes

definition act :: "'r ls_action \<Rightarrow> 'r logic_server \<Rightarrow> 'r logic_server" where
  "act a s = s\<lparr>acts := acts s @ [a]\<rparr>"

definition upd_conn :: "csaddr \<Rightarrow> (cs_connection \<Rightarrow> cs_connection) \<Rightarrow> 'r logic_server \<Rightarrow> 'r logic_server" where
  "upd_conn k f s = s\<lparr>conns := (conns s)(k := f (conns s k))\<rparr>"

lemma act_sel [simp]:
  "acts (act a s) = acts s @ [a]" "conns (act a s) = conns s" "alive (act a s) = alive s"
  "mirrors (act a s) = mirrors s" "next_mirror (act a s) = next_mirror s"
  "gAllLogicConnectionServerClient (act a s) = gAllLogicConnectionServerClient s"
  "alreadyConnectingServers (act a s) = alreadyConnectingServers s"
  "mAllClientMirrorOnRuntimeID (act a s) = mAllClientMirrorOnRuntimeID s"
  "sUserMsgHandlers (act a s) = sUserMsgHandlers s" "sEnterHandle (act a s) = sEnterHandle s"
  "sDisConnectHandle (act a s) = sDisConnectHandle s" "center_mSelfID (act a s) = center_mSelfID s"
  "center_sUserMsgHandlers (act a s) = center_sUserMsgHandlers s"
  "gLogicCenterServerClient (act a s) = gLogicCenterServerClient s"
  by (simp_all add: act_def)

lemma upd_conn_sel [simp]:
  "conns (upd_conn k f s) = (conns s)(k := f (conns s k))" "acts (upd_conn k f s) = acts s"
  "alive (upd_conn k f s) = alive s" "mirrors (upd_conn k f s) = mirrors s"
  "next_mirror (upd_conn k f s) = next_mirror s"
  "gAllLogicConnectionServerClient (upd_conn k f s) = gAllLogicConnectionServerClient s"
  "alreadyConnectingServers (upd_conn k f s) = alreadyConnectingServers s"
  "mAllClientMirrorOnRuntimeID (upd_conn k f s) = mAllClientMirrorOnRuntimeID s"
  by (simp_all add: upd_conn_def)

section \<open>ClientMirrorMgr\<close>

definition FindMirrorByRuntimeID :: "(i64, maddr) umap \<Rightarrow> i64 \<Rightarrow> maddr option" where
  "FindMirrorByRuntimeID m k = um_find m k"

definition AddClientOnRuntimeID :: "i64 \<Rightarrow> maddr \<Rightarrow> (i64, maddr) umap \<Rightarrow> (i64, maddr) umap" where
  "AddClientOnRuntimeID k p m = um_set k p m"

definition DelClientByRuntimeID :: "i64 \<Rightarrow> (i64, maddr) umap \<Rightarrow> (i64, maddr) umap" where
  "DelClientByRuntimeID k m = um_erase k m"

interpretation mirrors: registry "\<lambda>m k. (FindMirrorByRuntimeID m k, m)" AddClientOnRuntimeID
    DelClientByRuntimeID um_find
  by unfold_locales (auto simp: FindMirrorByRuntimeID_def AddClientOnRuntimeID_def DelClientByRuntimeID_def)

section \<open>ClientMirror\<close>

text \<open>
  The constructor reads \<open>gAllLogicConnectionServerClient\<close> with \<open>operator[]\<close>, which inserts a null
  entry for an id that is not there.
\<close>

definition ClientMirror :: "i64 \<Rightarrow> i32 \<Rightarrow> i64 \<Rightarrow> 'r logic_server \<Rightarrow> client_mirror \<times> 'r logic_server" where
  "ClientMirror runtimeID csID socketID s =
     (let (p, m) = um_index None (gAllLogicConnectionServerClient s) csID
      in (\<lparr>cm_mRuntimeID = runtimeID, cm_mConnectionServerID = csID,
           cm_mSocketIDOnConnectionServer = socketID, cm_mConnectionServer = p\<rparr>,
          s\<lparr>gAllLogicConnectionServerClient := m\<rparr>))"

definition make_mirror :: "i64 \<Rightarrow> i32 \<Rightarrow> i64 \<Rightarrow> 'r logic_server \<Rightarrow> maddr \<times> 'r logic_server" where
  "make_mirror runtimeID csID socketID s =
     (let (obj, s1) = ClientMirror runtimeID csID socketID s
      in (next_mirror s1, s1\<lparr>mirrors := (mirrors s1)(next_mirror s1 := obj), next_mirror := Suc (next_mirror s1)\<rparr>))"

definition sendToConnectionServer :: "maddr \<Rightarrow> packet \<Rightarrow> 'r logic_server \<Rightarrow> 'r logic_server" where
  "sendToConnectionServer m p s = (case cm_mConnectionServer (mirrors s m) of
       None \<Rightarrow> s
     | Some k \<Rightarrow> if alive s k then act (SendCS k p) s else s)"

definition mirror_packet :: "client_mirror \<Rightarrow> bytes \<Rightarrow> packet" where
  "mirror_packet cm buffer = Packet BigPacket CONNECTION_SERVER_RECV_PACKET2CLIENT_BYSOCKINFO
     [FBin buffer, FI16 1, FI32 (cm_mConnectionServerID cm), FI64 (cm_mSocketIDOnConnectionServer cm)]"

definition mirror_sendPacket :: "maddr \<Rightarrow> bytes \<Rightarrow> 'r logic_server \<Rightarrow> 'r logic_server" where
  "mirror_sendPacket m buffer s = sendToConnectionServer m (mirror_packet (mirrors s m) buffer) s"

definition requestConnectionServerSlave :: "maddr \<Rightarrow> bool \<Rightarrow> 'r logic_server \<Rightarrow> 'r logic_server" where
  "requestConnectionServerSlave m isSet s = sendToConnectionServer m
     (Packet TinyPacket CONNECTION_SERVER_RECV_IS_SETCLIENT_SLAVEID
       [FI64 (cm_mRuntimeID (mirrors s m)), FBool isSet]) s"

definition registerUserMsgHandle :: "bool \<Rightarrow> nat \<Rightarrow> nat \<Rightarrow> 'r logic_server \<Rightarrow> 'r logic_server result" where
  "registerUserMsgHandle ndebug op handle s = cassert ndebug (um_find (sUserMsgHandlers s) op = None)
     (Inr (s\<lparr>sUserMsgHandlers := um_set op handle (sUserMsgHandlers s)\<rparr>))"

definition setClientEnterCallback :: "nat option \<Rightarrow> 'r logic_server \<Rightarrow> 'r logic_server" where
  "setClientEnterCallback handle s = s\<lparr>sEnterHandle := handle\<rparr>"

definition setClientDisConnectCallback :: "nat option \<Rightarrow> 'r logic_server \<Rightarrow> 'r logic_server" where
  "setClientDisConnectCallback handle s = s\<lparr>sDisConnectHandle := handle\<rparr>"

definition mirror_procData ::
  "bool \<Rightarrow> 'r packet_lib \<Rightarrow> maddr \<Rightarrow> bytes \<Rightarrow> 'r logic_server \<Rightarrow> 'r logic_server result" where
  "mirror_procData ndebug P m buffer s =
     (let (packetlen, rp1) = rp_len P (rp_open P buffer) in
      cassert ndebug (packetlen = length buffer)
        (let (op, rp2) = rp_op P rp1 in
         case um_find (sUserMsgHandlers s) op of
           None \<Rightarrow> Inr s
         | Some h \<Rightarrow> Inr (act (ClientMsg h m rp2) s)))"

section \<open>ConnectionServerConnection\<close>

definition ConnectionServerConnection :: "i32 \<Rightarrow> i32 \<Rightarrow> bytes \<Rightarrow> bytes \<Rightarrow> cs_connection" where
  "ConnectionServerConnection idInEtcd port password ip = \<lparr>cc_mIsSuccess = False, cc_mPort = port,
     cc_mIDInEtcd = idInEtcd, cc_mConnectionServerID = - 1, cc_mPassword = password, cc_ip = ip\<rparr>"

definition isAlreadyConnecting :: "i32 \<Rightarrow> 'r logic_server \<Rightarrow> bool" where
  "isAlreadyConnecting k s \<longleftrightarrow> um_find (alreadyConnectingServers s) k \<noteq> None"

definition eraseConnectingServer :: "i32 \<Rightarrow> 'r logic_server \<Rightarrow> 'r logic_server" where
  "eraseConnectingServer k s = s\<lparr>alreadyConnectingServers := um_erase k (alreadyConnectingServers s)\<rparr>"

definition addConnectingServer :: "i32 \<Rightarrow> bytes \<Rightarrow> i32 \<Rightarrow> 'r logic_server \<Rightarrow> 'r logic_server" where
  "addConnectingServer k ip port s =
     s\<lparr>alreadyConnectingServers := um_set k (ip, port) (alreadyConnectingServers s)\<rparr>"

text \<open>The range-for over the servers etcd listed, in the order visited.\<close>

fun tryCompareConnect :: "(i32 \<times> bytes \<times> i32 \<times> bytes) list \<Rightarrow> 'r logic_server \<Rightarrow> 'r logic_server" where
  "tryCompareConnect [] s = s"
| "tryCompareConnect ((idInEtcd, ip, port, password) # vs) s =
     tryCompareConnect vs
       (if um_find (alreadyConnectingServers s) idInEtcd = None
        then act (Connect idInEtcd ip port password) s else s)"

definition cs_ping :: "csaddr \<Rightarrow> 'r logic_server \<Rightarrow> 'r logic_server" where
  "cs_ping k s = act (PingTimerCS k) (act (SendCS k (Packet TinyPacket CONNECTION_SERVER_RECV_PING [])) s)"

definition csconn_onEnter :: "logic_config \<Rightarrow> csaddr \<Rightarrow> 'r logic_server \<Rightarrow> 'r logic_server" where
  "csconn_onEnter cfg k s =
     (if \<not> isAlreadyConnecting (cc_mIDInEtcd (conns s k)) s then
        (let s1 = upd_conn k (\<lambda>c. c\<lparr>cc_mIsSuccess := True\<rparr>) s;
             s2 = addConnectingServer (cc_mIDInEtcd (conns s1 k)) (cc_ip (conns s1 k)) (cc_mPort (conns s1 k)) s1;
             packet = Packet TinyPacket CONNECTION_SERVER_RECV_LOGICSERVER_LOGIN
               [FBin (cc_mPassword (conns s2 k)), FI32 (lcfg_id cfg), FBool (lcfg_isprimary cfg)]
         in cs_ping k (act (SendCS k packet) s2))
      else s)"

definition csconn_onClose :: "csaddr \<Rightarrow> 'r logic_server \<Rightarrow> 'r logic_server" where
  "csconn_onClose k s =
     (let s1 = s\<lparr>gAllLogicConnectionServerClient :=
            um_erase (cc_mConnectionServerID (conns s k)) (gAllLogicConnectionServerClient s)\<rparr>
      in if cc_mIsSuccess (conns s1 k) then eraseConnectingServer (cc_mIDInEtcd (conns s1 k)) s1 else s1)"

text \<open>The destructor. \<open>pending\<close> says whether the ping timer still exists.\<close>

definition csconn_destroy :: "bool \<Rightarrow> csaddr \<Rightarrow> 'r logic_server \<Rightarrow> 'r logic_server" where
  "csconn_destroy pending k s =
     (let s1 = (if pending then act (CancelPingCS k) s else s) in s1\<lparr>alive := (alive s1)(k := False)\<rparr>)"

definition csconn_onRecvCSID ::
  "bool \<Rightarrow> 'r packet_lib \<Rightarrow> csaddr \<Rightarrow> 'r \<Rightarrow> 'r logic_server \<Rightarrow> 'r logic_server result" where
  "csconn_onRecvCSID ndebug P k rp s =
     (let (csID, rp1) = rp_i32 P rp; (isSuccess, rp2) = rp_bool P rp1; (reason, rp3) = rp_str P rp2;
          s1 = upd_conn k (\<lambda>c. c\<lparr>cc_mConnectionServerID := csID\<rparr>) s
      in if isSuccess then
           cassert ndebug (um_find (gAllLogicConnectionServerClient s1) csID = None)
             (Inr (s1\<lparr>gAllLogicConnectionServerClient :=
                um_set csID (Some k) (gAllLogicConnectionServerClient s1)\<rparr>))
         else Inr s1)"

definition csconn_onInitMirror :: "'r packet_lib \<Rightarrow> csaddr \<Rightarrow> 'r \<Rightarrow> 'r logic_server \<Rightarrow> 'r logic_server" where
  "csconn_onInitMirror P k rp s =
     (let (socketID, rp1) = rp_i64 P rp; (runtimeID, rp2) = rp_i64 P rp1;
          (p, s1) = make_mirror runtimeID (cc_mConnectionServerID (conns s k)) socketID s;
          s2 = s1\<lparr>mAllClientMirrorOnRuntimeID := AddClientOnRuntimeID runtimeID p (mAllClientMirrorOnRuntimeID s1)\<rparr>
      in case sEnterHandle s2 of None \<Rightarrow> s2 | Some h \<Rightarrow> act (ClientEnter h p) s2)"

definition csconn_onDestroyClient :: "'r packet_lib \<Rightarrow> 'r \<Rightarrow> 'r logic_server \<Rightarrow> 'r logic_server" where
  "csconn_onDestroyClient P rp s =
     (let runtimeID = fst (rp_i64 P rp);
          client = FindMirrorByRuntimeID (mAllClientMirrorOnRuntimeID s) runtimeID;
          s1 = s\<lparr>mAllClientMirrorOnRuntimeID := DelClientByRuntimeID runtimeID (mAllClientMirrorOnRuntimeID s)\<rparr>
      in case sDisConnectHandle s1 of None \<Rightarrow> s1 | Some h \<Rightarrow> act (ClientDisConnect h client) s1)"

definition csconn_onFromClient ::
  "bool \<Rightarrow> 'r packet_lib \<Rightarrow> 'r \<Rightarrow> 'r logic_server \<Rightarrow> 'r logic_server result" where
  "csconn_onFromClient ndebug P rp s =
     (let (clientRuntimeID, rp1) = rp_i64 P rp in
      case fst (rp_bin P rp1) of
        None \<Rightarrow> Inr s
      | Some b \<Rightarrow>
          (case FindMirrorByRuntimeID (mAllClientMirrorOnRuntimeID s) clientRuntimeID of
             None \<Rightarrow> Inr s
           | Some client \<Rightarrow> mirror_procData ndebug P client b s))"

definition csconn_onMsg ::
  "bool \<Rightarrow> 'r packet_lib \<Rightarrow> csaddr \<Rightarrow> bytes \<Rightarrow> 'r logic_server \<Rightarrow> 'r logic_server result" where
  "csconn_onMsg ndebug P k data s =
     (let (op, rp) = rp_op P (snd (rp_len P (rp_open P data))) in
      if op = CONNECTION_SERVER_SEND_PONG then Inr s
      else if op = CONNECTION_SERVER_SEND_LOGICSERVER_RECVCSID then csconn_onRecvCSID ndebug P k rp s
      else if op = CONNECTION_SERVER_SEND_LOGICSERVER_INIT_CLIENTMIRROR then Inr (csconn_onInitMirror P k rp s)
      else if op = CONNECTION_SERVER_SEND_LOGICSERVER_DESTROY_CLIENT then Inr (csconn_onDestroyClient P rp s)
      else if op = CONNECTION_SERVER_SEND_LOGICSERVER_FROMCLIENT then csconn_onFromClient ndebug P rp s
      else cassert ndebug False (Inr s))"

section \<open>CenterServerConnection\<close>

text \<open>Common/prototol/CenterServerRecvOP.h and CenterServerSendOP.h.\<close>

definition CENTERSERVER_RECV_OP_RPC :: nat where "CENTERSERVER_RECV_OP_RPC = 0"
definition CENTERSERVER_RECV_OP_PING :: nat where "CENTERSERVER_RECV_OP_PING = 1"
definition CENTERSERVER_RECV_OP_LOGICSERVER_LOGIN :: nat where "CENTERSERVER_RECV_OP_LOGICSERVER_LOGIN = 2"
definition CENTERSERVER_RECV_OP_USER :: nat where "CENTERSERVER_RECV_OP_USER = 3"

definition CENTERSERVER_SEND_OP_RPC :: nat where "CENTERSERVER_SEND_OP_RPC = 0"
definition CENTERSERVER_SEND_OP_PONG :: nat where "CENTERSERVER_SEND_OP_PONG = 1"
definition CENTERSERVER_SEND_OP_LOGICSERVER_SELFID :: nat where "CENTERSERVER_SEND_OP_LOGICSERVER_SELFID = 2"
definition CENTERSERVER_SEND_OP_PACKET2CLIENTMIRROR :: nat where "CENTERSERVER_SEND_OP_PACKET2CLIENTMIRROR = 3"
definition CENTERSERVER_SEND_OP_USER :: nat where "CENTERSERVER_SEND_OP_USER = 4"

lemmas center_ops = CENTERSERVER_RECV_OP_RPC_def CENTERSERVER_RECV_OP_PING_def
  CENTERSERVER_RECV_OP_LOGICSERVER_LOGIN_def CENTERSERVER_RECV_OP_USER_def CENTERSERVER_SEND_OP_RPC_def
  CENTERSERVER_SEND_OP_PONG_def CENTERSERVER_SEND_OP_LOGICSERVER_SELFID_def
  CENTERSERVER_SEND_OP_PACKET2CLIENTMIRROR_def CENTERSERVER_SEND_OP_USER_def

definition center_registerUserMsgHandle :: "bool \<Rightarrow> nat \<Rightarrow> nat \<Rightarrow> 'r logic_server \<Rightarrow> 'r logic_server result" where
  "center_registerUserMsgHandle ndebug op handle s =
     cassert ndebug (um_find (center_sUserMsgHandlers s) op = None)
       (Inr (s\<lparr>center_sUserMsgHandlers := um_set op handle (center_sUserMsgHandlers s)\<rparr>))"

definition CenterServerConnection :: "'r logic_server \<Rightarrow> 'r logic_server" where
  "CenterServerConnection s = s\<lparr>center_mSelfID := - 1\<rparr>"

definition center_ping :: "'r logic_server \<Rightarrow> 'r logic_server" where
  "center_ping s = act PingTimerCenter (act (SendCenter (Packet TinyPacket CENTERSERVER_RECV_OP_PING [])) s)"

definition center_onEnter :: "logic_config \<Rightarrow> 'r logic_server \<Rightarrow> 'r logic_server" where
  "center_onEnter cfg s =
     (let sp = Packet TinyPacket CENTERSERVER_RECV_OP_LOGICSERVER_LOGIN
            [FBin (lcfg_center_password cfg), FI32 (lcfg_id cfg)];
          s1 = act (SendCenter sp) s
      in center_ping (s1\<lparr>gLogicCenterServerClient := True\<rparr>))"

definition center_onClose :: "'r logic_server \<Rightarrow> 'r logic_server" where
  "center_onClose s = s\<lparr>gLogicCenterServerClient := False\<rparr>"

text \<open>The destructor. \<open>pending\<close> says whether the ping timer still exists.\<close>

definition center_destroy :: "bool \<Rightarrow> 'r logic_server \<Rightarrow> 'r logic_server" where
  "center_destroy pending s = act ReconnectTimer (if pending then act CancelPingCenter s else s)"

fun center_packet_loop :: "'r packet_lib \<Rightarrow> bytes \<Rightarrow> nat \<Rightarrow> 'r \<Rightarrow> 'r logic_server \<Rightarrow> 'r logic_server" where
  "center_packet_loop P b 0 rp s = s"
| "center_packet_loop P b (Suc n) rp s =
     (let (runtimeID, rp1) = rp_i64 P rp in
      center_packet_loop P b n rp1
        (case FindMirrorByRuntimeID (mAllClientMirrorOnRuntimeID s) runtimeID of
           None \<Rightarrow> s
         | Some p \<Rightarrow> mirror_sendPacket p b s))"

definition onCenterServerSendPacket2Client :: "'r packet_lib \<Rightarrow> 'r \<Rightarrow> 'r logic_server \<Rightarrow> 'r logic_server" where
  "onCenterServerSendPacket2Client P rp s =
     (case rp_bin P rp of
        (None, rp1) \<Rightarrow> s
      | (Some b, rp1) \<Rightarrow> (let (destNum, rp2) = rp_i16 P rp1 in center_packet_loop P b (nat (sint destNum)) rp2 s))"

definition center_onUserMsg :: "bool \<Rightarrow> 'r packet_lib \<Rightarrow> 'r \<Rightarrow> 'r logic_server \<Rightarrow> 'r logic_server result" where
  "center_onUserMsg ndebug P rp s =
     (case fst (rp_bin P rp) of
        None \<Rightarrow> Inr s
      | Some b \<Rightarrow>
          (let (packetLen, rp1) = rp_len P (rp_open P b) in
           cassert ndebug (packetLen = length b)
             (if packetLen = length b then
                (let (op, rp2) = rp_op P rp1 in
                 case um_find (center_sUserMsgHandlers s) op of
                   None \<Rightarrow> Inr s
                 | Some h \<Rightarrow> Inr (act (CenterMsg h rp2) s))
              else Inr s)))"

definition center_onMsg :: "bool \<Rightarrow> 'r packet_lib \<Rightarrow> bytes \<Rightarrow> 'r logic_server \<Rightarrow> 'r logic_server result" where
  "center_onMsg ndebug P data s =
     (let (op, rp) = rp_op P (snd (rp_len P (rp_open P data))) in
      if op = CENTERSERVER_SEND_OP_PONG then Inr s
      else if op = CENTERSERVER_SEND_OP_RPC then
        (case fst (rp_bin P rp) of None \<Rightarrow> Inr s | Some b \<Rightarrow> Inr (act (CenterRpc b) s))
      else if op = CENTERSERVER_SEND_OP_PACKET2CLIENTMIRROR then Inr (onCenterServerSendPacket2Client P rp s)
      else if op = CENTERSERVER_SEND_OP_LOGICSERVER_SELFID then Inr (s\<lparr>center_mSelfID := fst (rp_i32 P rp)\<rparr>)
      else if op = CENTERSERVER_SEND_OP_USER then center_onUserMsg ndebug P rp s
      else cassert ndebug False (Inr s))"

definition center_sendUserPacket :: "bytes \<Rightarrow> 'r logic_server \<Rightarrow> 'r logic_server" where
  "center_sendUserPacket subPacket s =
     act (SendCenter (Packet BigPacket CENTERSERVER_RECV_OP_USER [FBin subPacket])) s"

end
