(* ===== verification/LogicProps.thy ===== *)
theory LogicProps
  imports LogicServer
begin

text \<open>
  The logic server's connections as a transition system, and what its tables keep: at most one
  connection per connection server is logged in, the connector asks only for servers that are not
  connected, and how one connection's failed login removes another's entry.
\<close>

section \<open>Connections\<close>

text \<open>
  A step: a connecting thread makes the object of a connection, a connection enters, a packet of it
  arrives, it closes, its object is destroyed, or its ping timer fires; the same for the connection to the
  center server; the etcd thread compares the servers listed; the user's code registers a handler. \<open>fresh\<close>
  are the objects made that have not entered, \<open>openK\<close> those entered whose close has not been handled. An
  object is destroyed when nothing points to it, so not while the table of connection servers does.
\<close>

record 'r ls_sys =
  lsv :: "'r logic_server"
  openK :: "csaddr set"
  fresh :: "csaddr set"

definition new_conn :: "csaddr \<Rightarrow> cs_connection \<Rightarrow> 'r logic_server \<Rightarrow> 'r logic_server" where
  "new_conn k c s = upd_conn k (\<lambda>_. c) (s\<lparr>alive := (alive s)(k := True)\<rparr>)"

definition ls_empty :: "'r logic_server" where
  "ls_empty = \<lparr>conns = (\<lambda>_. ConnectionServerConnection 0 0 [] []), alive = (\<lambda>_. False),
     mirrors = (\<lambda>_. \<lparr>cm_mRuntimeID = 0, cm_mConnectionServerID = 0, cm_mSocketIDOnConnectionServer = 0,
       cm_mConnectionServer = None\<rparr>), next_mirror = 0,
     gAllLogicConnectionServerClient = [], alreadyConnectingServers = [], mAllClientMirrorOnRuntimeID = [],
     sUserMsgHandlers = [], sEnterHandle = None, sDisConnectHandle = None, center_mSelfID = - 1,
     center_sUserMsgHandlers = [], gLogicCenterServerClient = False, acts = []\<rparr>"

definition ls_init :: "'r ls_sys" where
  "ls_init = \<lparr>lsv = ls_empty, openK = {}, fresh = {}\<rparr>"

text \<open>What the other threads and the timers do to the server, and what the user's code registers.\<close>

inductive ls_other :: "bool \<Rightarrow> 'r logic_server \<Rightarrow> 'r logic_server \<Rightarrow> bool" for ndebug where
  compare: "ls_other ndebug s (tryCompareConnect servers s)"
| ping: "alive s k \<Longrightarrow> ls_other ndebug s (cs_ping k s)"
| center_create: "ls_other ndebug s (CenterServerConnection s)"
| center_ping: "ls_other ndebug s (center_ping s)"
| center_destroy: "ls_other ndebug s (center_destroy pending s)"
| mirror_handler: "registerUserMsgHandle ndebug op h s = Inr s' \<Longrightarrow> ls_other ndebug s s'"
| center_handler: "center_registerUserMsgHandle ndebug op h s = Inr s' \<Longrightarrow> ls_other ndebug s s'"
| enter_handler: "ls_other ndebug s (setClientEnterCallback c s)"
| disconnect_handler: "ls_other ndebug s (setClientDisConnectCallback c s)"

inductive ls_step :: "bool \<Rightarrow> 'r packet_lib \<Rightarrow> logic_config \<Rightarrow> 'r ls_sys \<Rightarrow> 'r ls_sys \<Rightarrow> bool"
  for ndebug P cfg where
  create: "k \<notin> openK y \<Longrightarrow> k \<notin> fresh y \<Longrightarrow>
    ls_step ndebug P cfg y (y\<lparr>lsv := new_conn k (ConnectionServerConnection idInEtcd port password ip) (lsv y),
      fresh := insert k (fresh y)\<rparr>)"
| enter: "k \<in> fresh y \<Longrightarrow>
    ls_step ndebug P cfg y (y\<lparr>lsv := csconn_onEnter cfg k (lsv y), openK := insert k (openK y), fresh := fresh y - {k}\<rparr>)"
| msg: "k \<in> openK y \<Longrightarrow> csconn_onMsg ndebug P k data (lsv y) = Inr s' \<Longrightarrow> ls_step ndebug P cfg y (y\<lparr>lsv := s'\<rparr>)"
| close: "k \<in> openK y \<Longrightarrow> ls_step ndebug P cfg y (y\<lparr>lsv := csconn_onClose k (lsv y), openK := openK y - {k}\<rparr>)"
| destroy: "k \<notin> openK y \<Longrightarrow> k \<notin> fresh y \<Longrightarrow> Some k \<notin> snd ` set (gAllLogicConnectionServerClient (lsv y)) \<Longrightarrow>
    ls_step ndebug P cfg y (y\<lparr>lsv := csconn_destroy pending k (lsv y)\<rparr>)"
| center_enter: "ls_step ndebug P cfg y (y\<lparr>lsv := center_onEnter cfg (lsv y)\<rparr>)"
| center_msg: "center_onMsg ndebug P data (lsv y) = Inr s' \<Longrightarrow> ls_step ndebug P cfg y (y\<lparr>lsv := s'\<rparr>)"
| center_close: "ls_step ndebug P cfg y (y\<lparr>lsv := center_onClose (lsv y)\<rparr>)"
| other: "ls_other ndebug (lsv y) s' \<Longrightarrow> ls_step ndebug P cfg y (y\<lparr>lsv := s'\<rparr>)"

inductive ls_reach :: "bool \<Rightarrow> 'r packet_lib \<Rightarrow> logic_config \<Rightarrow> 'r ls_sys \<Rightarrow> bool" for ndebug P cfg where
  start: "ls_reach ndebug P cfg ls_init"
| step: "ls_reach ndebug P cfg y \<Longrightarrow> ls_step ndebug P cfg y z \<Longrightarrow> ls_reach ndebug P cfg z"

definition conn_inv :: "csaddr set \<Rightarrow> 'r logic_server \<Rightarrow> bool" where
  "conn_inv K s \<longleftrightarrow>
     (\<forall>k\<in>K. \<forall>k'\<in>K. cc_mIsSuccess (conns s k) \<longrightarrow> cc_mIsSuccess (conns s k') \<longrightarrow>
        cc_mIDInEtcd (conns s k) = cc_mIDInEtcd (conns s k') \<longrightarrow> k = k') \<and>
     (\<forall>e. um_find (alreadyConnectingServers s) e \<noteq> None \<longleftrightarrow>
        (\<exists>k\<in>K. cc_mIsSuccess (conns s k) \<and> cc_mIDInEtcd (conns s k) = e))"

text \<open>What a packet of a connection server can change.\<close>

lemma csconn_onMsg_frame:
  assumes "csconn_onMsg ndebug P k data s = Inr s'"
  shows "alreadyConnectingServers s' = alreadyConnectingServers s \<and>
    (\<forall>j. cc_mIsSuccess (conns s' j) = cc_mIsSuccess (conns s j) \<and>
       cc_mIDInEtcd (conns s' j) = cc_mIDInEtcd (conns s j))"
proof -
  have "alreadyConnectingServers (csconn_onInitMirror P k rp s) = alreadyConnectingServers s"
    "conns (csconn_onInitMirror P k rp s) = conns s" for rp
    by (auto simp: csconn_onInitMirror_def make_mirror_def ClientMirror_def Let_def split: prod.splits option.splits)
  moreover have "alreadyConnectingServers (csconn_onDestroyClient P rp s) = alreadyConnectingServers s"
    "conns (csconn_onDestroyClient P rp s) = conns s" for rp
    by (auto simp: csconn_onDestroyClient_def Let_def split: option.splits)
  ultimately show ?thesis
    using assms by (auto simp: csconn_onMsg_def csconn_onRecvCSID_def csconn_onFromClient_def mirror_procData_def
        Let_def results split: prod.splits if_splits option.splits)
qed

lemma tryCompareConnect_frame [simp]:
  "conns (tryCompareConnect vs s) = conns s"
  "alreadyConnectingServers (tryCompareConnect vs s) = alreadyConnectingServers s"
  by (induction vs s rule: tryCompareConnect.induct) simp_all

lemma conn_inv_same:
  assumes "conn_inv K s" and "alreadyConnectingServers s' = alreadyConnectingServers s"
    and "\<And>j. cc_mIsSuccess (conns s' j) = cc_mIsSuccess (conns s j)"
    and "\<And>j. cc_mIDInEtcd (conns s' j) = cc_mIDInEtcd (conns s j)"
  shows "conn_inv K s'"
  using assms by (simp add: conn_inv_def)

lemma mirror_send_frame [simp]:
  "conns (mirror_sendPacket m b s) = conns s"
  "alreadyConnectingServers (mirror_sendPacket m b s) = alreadyConnectingServers s"
  by (simp_all add: mirror_sendPacket_def sendToConnectionServer_def split: option.splits)

lemma center_packet_loop_frame [simp]:
  "conns (center_packet_loop P b n rp s) = conns s"
  "alreadyConnectingServers (center_packet_loop P b n rp s) = alreadyConnectingServers s"
  by (induction P b n rp s rule: center_packet_loop.induct) (auto simp: Let_def split: prod.splits option.splits)

lemma center_frames:
  "conns (center_onEnter cfg s) = conns s" "alreadyConnectingServers (center_onEnter cfg s) = alreadyConnectingServers s"
  "conns (center_onClose s) = conns s" "alreadyConnectingServers (center_onClose s) = alreadyConnectingServers s"
  by (simp_all add: center_onEnter_def center_ping_def center_onClose_def Let_def)

lemma center_onMsg_frame:
  assumes "center_onMsg ndebug P data s = Inr s'"
  shows "conns s' = conns s \<and> alreadyConnectingServers s' = alreadyConnectingServers s"
  using assms by (auto simp: center_onMsg_def onCenterServerSendPacket2Client_def center_onUserMsg_def results
      Let_def split: prod.splits option.splits if_splits)

lemma ls_other_frame:
  assumes "ls_other ndebug s s'"
  shows "conns s' = conns s \<and> alreadyConnectingServers s' = alreadyConnectingServers s"
  using assms
  by cases (auto simp: cs_ping_def CenterServerConnection_def center_ping_def center_destroy_def registerUserMsgHandle_def
      center_registerUserMsgHandle_def setClientEnterCallback_def setClientDisConnectCallback_def results)

lemma new_conn_inv:
  assumes "conn_inv K s" and "k \<notin> K"
  shows "conn_inv K (new_conn k c s)"
  using assms unfolding conn_inv_def new_conn_def by (simp add: upd_conn_def) metis

lemma csconn_onEnter_inv:
  assumes inv: "conn_inv K s" and k: "k \<notin> K" and new: "\<not> cc_mIsSuccess (conns s k)"
  shows "conn_inv (insert k K) (csconn_onEnter cfg k s)"
proof (cases "isAlreadyConnecting (cc_mIDInEtcd (conns s k)) s")
  case True
  then have eq: "csconn_onEnter cfg k s = s" by (simp add: csconn_onEnter_def)
  show ?thesis unfolding eq conn_inv_def using inv new by (simp add: conn_inv_def)
next
  case False
  let ?s = "csconn_onEnter cfg k s" and ?e = "cc_mIDInEtcd (conns s k)"
  have 2: "conns ?s j = (if j = k then (conns s k)\<lparr>cc_mIsSuccess := True\<rparr> else conns s j)"
    "alreadyConnectingServers ?s = um_set ?e (cc_ip (conns s k), cc_mPort (conns s k)) (alreadyConnectingServers s)" for j
    using False by (simp_all add: csconn_onEnter_def addConnectingServer_def cs_ping_def Let_def upd_conn_def)
  have "um_find (alreadyConnectingServers s) ?e = None" using False unfolding isAlreadyConnecting_def by blast
  then have none: "j \<in> K \<Longrightarrow> cc_mIsSuccess (conns s j) \<Longrightarrow> cc_mIDInEtcd (conns s j) \<noteq> ?e" for j
    using inv unfolding conn_inv_def by blast
  have uniq: "i \<in> K \<Longrightarrow> j \<in> K \<Longrightarrow> cc_mIsSuccess (conns s i) \<Longrightarrow> cc_mIsSuccess (conns s j) \<Longrightarrow>
      cc_mIDInEtcd (conns s i) = cc_mIDInEtcd (conns s j) \<Longrightarrow> i = j" for i j
    using inv unfolding conn_inv_def by blast
  have 3: "cc_mIsSuccess (conns ?s k)" "cc_mIDInEtcd (conns ?s k) = ?e" using 2(1) [of k] by simp_all
  have 4: "j \<in> K \<Longrightarrow> conns ?s j = conns s j" for j using 2(1) k by auto
  have "\<forall>i\<in>insert k K. \<forall>j\<in>insert k K. cc_mIsSuccess (conns ?s i) \<longrightarrow> cc_mIsSuccess (conns ?s j) \<longrightarrow>
      cc_mIDInEtcd (conns ?s i) = cc_mIDInEtcd (conns ?s j) \<longrightarrow> i = j"
    by (intro ballI impI) (metis insertE 3(2) 4 none uniq)
  moreover have "um_find (alreadyConnectingServers ?s) d \<noteq> None \<longleftrightarrow>
      (\<exists>j\<in>insert k K. cc_mIsSuccess (conns ?s j) \<and> cc_mIDInEtcd (conns ?s j) = d)" for d
  proof (cases "d = ?e")
    case False
    have "um_find (alreadyConnectingServers s) d \<noteq> None \<longleftrightarrow>
        (\<exists>j\<in>K. cc_mIsSuccess (conns s j) \<and> cc_mIDInEtcd (conns s j) = d)"
      using inv unfolding conn_inv_def by blast
    with False 3 4 show ?thesis by (simp add: 2(2))
  qed (use 3 in \<open>simp add: 2(2)\<close>)
  ultimately show ?thesis unfolding conn_inv_def by blast
qed

lemma csconn_onClose_inv:
  assumes inv: "conn_inv K s" and k: "k \<in> K"
  shows "conn_inv (K - {k}) (csconn_onClose k s)"
proof -
  let ?s = "csconn_onClose k s"
  have 1: "conns ?s = conns s" "alreadyConnectingServers ?s = (if cc_mIsSuccess (conns s k)
      then um_erase (cc_mIDInEtcd (conns s k)) (alreadyConnectingServers s) else alreadyConnectingServers s)"
    by (simp_all add: csconn_onClose_def eraseConnectingServer_def Let_def)
  have u: "i \<in> K \<Longrightarrow> j \<in> K \<Longrightarrow> cc_mIsSuccess (conns s i) \<Longrightarrow> cc_mIsSuccess (conns s j) \<Longrightarrow>
      cc_mIDInEtcd (conns s i) = cc_mIDInEtcd (conns s j) \<Longrightarrow> i = j"
    and f: "um_find (alreadyConnectingServers s) d \<noteq> None \<longleftrightarrow>
        (\<exists>j\<in>K. cc_mIsSuccess (conns s j) \<and> cc_mIDInEtcd (conns s j) = d)" for i j d
    using inv unfolding conn_inv_def by blast+
  have "um_find (alreadyConnectingServers ?s) d \<noteq> None \<longleftrightarrow>
      (\<exists>j\<in>K - {k}. cc_mIsSuccess (conns s j) \<and> cc_mIDInEtcd (conns s j) = d)" for d
    using f [of d] u k by (cases "cc_mIsSuccess (conns s k) \<and> cc_mIDInEtcd (conns s k) = d") (auto simp: 1)
  then show ?thesis using u unfolding conn_inv_def 1(1) by blast
qed

text \<open>No connection is logged in before it has entered.\<close>

lemma ls_reach_inv:
  assumes "ls_reach ndebug P cfg y"
  shows "conn_inv (openK y) (lsv y) \<and> (\<forall>k\<in>fresh y. k \<notin> openK y \<and> \<not> cc_mIsSuccess (conns (lsv y) k))"
  using assms
proof (induction rule: ls_reach.induct)
  case start
  show ?case by (simp add: conn_inv_def ls_init_def ls_empty_def)
next
  case (step y z)
  note inv = step.IH [THEN conjunct1]
  let ?ok = "\<lambda>s'. conn_inv (openK y) s' \<and> (\<forall>k\<in>fresh y. k \<notin> openK y \<and> \<not> cc_mIsSuccess (conns s' k))"
  have same: "?ok s'" if "alreadyConnectingServers s' = alreadyConnectingServers (lsv y)"
      "\<And>j. cc_mIsSuccess (conns s' j) = cc_mIsSuccess (conns (lsv y) j)"
      "\<And>j. cc_mIDInEtcd (conns s' j) = cc_mIDInEtcd (conns (lsv y) j)" for s'
    using conn_inv_same [OF inv that] that(2) step.IH by blast
  from step.hyps(2) show ?case
  proof cases
    case (create k e port pw ip)
    then show ?thesis using new_conn_inv [OF inv create(2)] step.IH
      by (auto simp: new_conn_def ConnectionServerConnection_def)
  next
    case (enter k)
    have "\<not> cc_mIsSuccess (conns (csconn_onEnter cfg k (lsv y)) j)" if "j \<in> fresh y - {k}" for j
      using that step.IH by (auto simp: csconn_onEnter_def addConnectingServer_def cs_ping_def Let_def)
    then show ?thesis using enter csconn_onEnter_inv [OF inv] step.IH by auto
  next
    case (msg k data s')
    note csconn_onMsg_frame [OF msg(3)]
    then have "?ok s'"
      by (intro same) blast+
    then show ?thesis using msg by simp
  next
    case (close k)
    then show ?thesis using csconn_onClose_inv [OF inv] step.IH
      by (auto simp: csconn_onClose_def eraseConnectingServer_def Let_def)
  next
    case (destroy k pending)
    have "conns (csconn_destroy pending k (lsv y)) = conns (lsv y)"
      "alreadyConnectingServers (csconn_destroy pending k (lsv y)) = alreadyConnectingServers (lsv y)"
      by (simp_all add: csconn_destroy_def Let_def)
    then have "?ok (csconn_destroy pending k (lsv y))"
      by (intro same) simp_all
    then show ?thesis using destroy by simp
  next
    case center_enter
    have "?ok (center_onEnter cfg (lsv y))"
      by (rule same) (simp_all only: center_frames)
    then show ?thesis using center_enter by simp
  next
    case (center_msg data s')
    note center_onMsg_frame [OF center_msg(2)]
    then have "?ok s'"
      by (intro same) simp_all
    then show ?thesis using center_msg by simp
  next
    case center_close
    have "?ok (center_onClose (lsv y))"
      by (rule same) (simp_all only: center_frames)
    then show ?thesis using center_close by simp
  next
    case (other s')
    note ls_other_frame [OF other(2)]
    then have "?ok s'"
      by (intro same) simp_all
    then show ?thesis using other by simp
  qed
qed

lemma tryCompareConnect_acts:
  "acts (tryCompareConnect vs s) = acts s @
     map (\<lambda>(e, ip, port, pw). Connect e ip port pw)
       (filter (\<lambda>v. um_find (alreadyConnectingServers s) (fst v) = None) vs)"
  by (induction vs s rule: tryCompareConnect.induct) auto

text \<open>
  C21: However often connections are made, lost and re-made, of all open connections to one
  connection server (one etcd id) at most one has logged in, and the etcd comparison starts a new
  connection exactly for the listed servers no open connection has logged in to.
\<close>

theorem one_login_per_server:
  assumes "ls_reach ndebug P cfg y"
  shows "(k \<in> openK y \<and> k' \<in> openK y \<and> cc_mIsSuccess (conns (lsv y) k) \<and> cc_mIsSuccess (conns (lsv y) k') \<and>
      cc_mIDInEtcd (conns (lsv y) k) = cc_mIDInEtcd (conns (lsv y) k') \<longrightarrow> k = k') \<and>
    acts (tryCompareConnect vs (lsv y)) = acts (lsv y) @ map (\<lambda>(e, ip, port, pw). Connect e ip port pw)
      (filter (\<lambda>v. \<not> (\<exists>j\<in>openK y. cc_mIsSuccess (conns (lsv y) j) \<and> cc_mIDInEtcd (conns (lsv y) j) = fst v)) vs)"
proof -
  note inv = ls_reach_inv [OF assms, THEN conjunct1, unfolded conn_inv_def]
  have "(um_find (alreadyConnectingServers (lsv y)) (fst v) = None) =
      (\<not> (\<exists>j\<in>openK y. cc_mIsSuccess (conns (lsv y) j) \<and> cc_mIDInEtcd (conns (lsv y) j) = fst v))" for v :: "i32 \<times> bytes \<times> i32 \<times> bytes"
    using inv by blast
  with inv show ?thesis by (simp add: tryCompareConnect_acts)
qed


definition demo_lcfg :: logic_config where
  "demo_lcfg = \<lparr>lcfg_id = 4, lcfg_isprimary = True, lcfg_center_password = [99]\<rparr>"

text \<open>Two connections to the connection server listed as 5.\<close>

definition two_conns :: "bool \<Rightarrow> 'r packet_lib \<Rightarrow> 'r ls_sys \<Rightarrow> bool" where
  "two_conns ndebug P y \<longleftrightarrow> ls_reach ndebug P demo_lcfg y \<and> openK y = {0, 1} \<and>
     cc_mIsSuccess (conns (lsv y) 0) \<and> cc_mIDInEtcd (conns (lsv y) 0) = 5 \<and> cc_mIDInEtcd (conns (lsv y) 1) = 5"

lemma two_conns_ex:
  fixes P :: "'r packet_lib"
  shows "\<exists>y. two_conns ndebug P y"
proof -
  let ?c = "ConnectionServerConnection 5 80 [112, 119] [49]"
  let ?reach = "ls_reach ndebug P demo_lcfg"
  define y1 :: "'r ls_sys" where "y1 = ls_init\<lparr>lsv := new_conn 0 ?c (lsv ls_init), fresh := {0}\<rparr>"
  define y2 where "y2 = y1\<lparr>lsv := new_conn 1 ?c (lsv y1), fresh := {1, 0}\<rparr>"
  define y3 where "y3 = y2\<lparr>lsv := csconn_onEnter demo_lcfg 0 (lsv y2), openK := {0}, fresh := {1}\<rparr>"
  define y4 where "y4 = y3\<lparr>lsv := csconn_onEnter demo_lcfg 1 (lsv y3), openK := {1, 0}, fresh := {}\<rparr>"
  note ys = y1_def y2_def y3_def y4_def ls_init_def
  have "?reach ls_init" by (rule ls_reach.start)
  from ls_reach.step [OF this ls_step.create [of 0 ls_init ndebug P demo_lcfg 5 80 "[112, 119]" "[49]"]]
  have "?reach y1" by (simp add: ys)
  from ls_reach.step [OF this ls_step.create [of 1 y1 ndebug P demo_lcfg 5 80 "[112, 119]" "[49]"]]
  have "?reach y2" by (simp add: ys)
  from ls_reach.step [OF this ls_step.enter [of 0 y2]]
  have "?reach y3" by (simp add: ys insert_commute)
  from ls_reach.step [OF this ls_step.enter [of 1 y3]]
  have "?reach y4" by (simp add: ys)
  then have "two_conns ndebug P y4"
    by (auto simp: two_conns_def ys csconn_onEnter_def new_conn_def upd_conn_def ConnectionServerConnection_def
        isAlreadyConnecting_def addConnectingServer_def cs_ping_def ls_empty_def Let_def)
  then show ?thesis by blast
qed

theorem one_login_per_server_witness:
  "\<exists>y. two_conns False std_lib y \<and> \<not> cc_mIsSuccess (conns (lsv y) 1)"
proof -
  obtain y where y: "two_conns False std_lib y" using two_conns_ex by blast
  then have "ls_reach False std_lib demo_lcfg y" by (simp add: two_conns_def)
  from one_login_per_server [OF this, of 0 1] y show ?thesis by (auto simp: two_conns_def)
qed

section \<open>The table of connection servers\<close>

text \<open>
  A refused login harms a healthy connection: when connection \<open>j\<close> to server \<open>csID\<close> works and a
  second connection \<open>k\<close> is told by a server with that id that its login failed, then \<open>k\<close> closing
  removes \<open>j\<close> from the table, although \<open>j\<close> is open and logged in.
\<close>

theorem failed_login_close:
  assumes "packet_codec P fits rem" and "fits p" and "j \<noteq> k"
    and "p = Packet cls CONNECTION_SERVER_SEND_LOGICSERVER_RECVCSID [FI32 csID, FBool False, FBin reason]"
    and "um_find (gAllLogicConnectionServerClient s) csID = Some (Some j)"
  shows "\<exists>s'. csconn_onMsg ndebug P k (pk_bytes P p) s = Inr s' \<and>
    um_find (gAllLogicConnectionServerClient s') csID = Some (Some j) \<and>
    um_find (gAllLogicConnectionServerClient (csconn_onClose k s')) csID = None \<and>
    conns (csconn_onClose k s') j = conns s j"
proof -
  obtain r where r: "rp_op P (snd (rp_len P (rp_open P (pk_bytes P p)))) = (pk_op p, r)" "rem r (pk_fields p)"
    using packet_codec.whole_read [OF assms(1,2)] by blast
  then have "rem r [FI32 csID, FBool False, FBin reason]" using assms(4) by simp
  then obtain r1 r2 r3 where "rp_i32 P r = (csID, r1)" "rp_bool P r1 = (False, r2)" "rp_str P r2 = (reason, r3)"
    using packet_codec.take_i32 [OF assms(1)] packet_codec.take_bool [OF assms(1)] packet_codec.take_str [OF assms(1)]
    by metis
  then have "csconn_onMsg ndebug P k (pk_bytes P p) s = Inr (upd_conn k (\<lambda>c. c\<lparr>cc_mConnectionServerID := csID\<rparr>) s)"
    using r(1) assms(4) by (simp add: csconn_onMsg_def csconn_onRecvCSID_def cs_send_ops Let_def)
  then show ?thesis using assms(3,5)
    by (simp add: csconn_onClose_def eraseConnectingServer_def Let_def)
qed

theorem failed_login_close_witness:
  "\<exists>s'. csconn_onMsg False std_lib 1 [15, 0, 0, 0, 1, 0, 3, 0, 0, 0, 0, 0, 0, 0, 0]
      (ls_empty\<lparr>gAllLogicConnectionServerClient := [(3, Some 0)]\<rparr>) = Inr s' \<and>
     um_find (gAllLogicConnectionServerClient (csconn_onClose 1 s')) 3 = None"
proof -
  let ?p = "Packet TinyPacket CONNECTION_SERVER_SEND_LOGICSERVER_RECVCSID [FI32 3, FBool False, FBin []]"
  let ?s = "ls_empty\<lparr>gAllLogicConnectionServerClient := [(3, Some 0)]\<rparr> :: std_reader logic_server"
  have fits: "std_fits ?p" by (simp add: std_eval cs_send_ops)
  have "um_find (gAllLogicConnectionServerClient ?s) 3 = Some (Some 0)" by (simp add: um_find_def)
  from failed_login_close [OF std.packet_codec_axioms fits _ refl this, of 1 False]
  have "\<exists>s'. csconn_onMsg False std_lib 1 (std_bytes ?p) ?s = Inr s' \<and>
     um_find (gAllLogicConnectionServerClient (csconn_onClose 1 s')) 3 = None" by auto
  moreover have "std_bytes ?p = [15, 0, 0, 0, 1, 0, 3, 0, 0, 0, 0, 0, 0, 0, 0]" by (simp add: std_eval cs_send_ops)
  ultimately show ?thesis by simp
qed

end
