(* ===== verification/CenterServer.thy ===== *)
theory CenterServer
  imports LogicServer
begin

text \<open>
  The center server (CenterServer/CenterServerSession.cpp): the sessions of the logic servers, the
  table of those logged in, the dispatch of user messages and RPCs, and the transition system of
  its sessions. One logic thread runs all of it.

  \<^item> The RPC service is the library's and the message handlers are user code: calling them is an
    action. A null \<open>sCenterServerSessionRpc\<close> (before \<open>init\<close>, after \<open>destroy\<close>) is \<open>False\<close>.
  \<^item> What \<open>onMsg\<close> does after the switch only logs and drops the rest of the packet.
\<close>

type_synonym saddr = nat  \<comment> \<open>a \<open>CenterServerSession\<close>\<close>

record center_session =
  center_mID :: i32

datatype 'r center_action =
    CenterSend saddr packet
  | CenterHandleRpc bytes
  | CenterUser nat saddr 'r

record 'r center_server =
  sessions :: "saddr \<Rightarrow> center_session"
  sAllLogicServer :: "(i32, saddr) umap"
  sCenterServerSessionRpc :: bool
  sCenterServerSessionRpcFromer :: "saddr option"
  sUserMsgHandles :: "(nat, nat) umap"
  cacts :: "'r center_action list"

definition cact :: "'r center_action \<Rightarrow> 'r center_server \<Rightarrow> 'r center_server" where
  "cact a s = s\<lparr>cacts := cacts s @ [a]\<rparr>"

definition upd_session :: "saddr \<Rightarrow> (center_session \<Rightarrow> center_session) \<Rightarrow> 'r center_server \<Rightarrow> 'r center_server" where
  "upd_session l f s = s\<lparr>sessions := (sessions s)(l := f (sessions s l))\<rparr>"

lemma cact_sel [simp]:
  "cacts (cact a s) = cacts s @ [a]" "sessions (cact a s) = sessions s"
  "sAllLogicServer (cact a s) = sAllLogicServer s"
  "sCenterServerSessionRpc (cact a s) = sCenterServerSessionRpc s"
  "sCenterServerSessionRpcFromer (cact a s) = sCenterServerSessionRpcFromer s"
  "sUserMsgHandles (cact a s) = sUserMsgHandles s"
  by (simp_all add: cact_def)

lemma upd_session_sel [simp]:
  "sessions (upd_session l f s) = (sessions s)(l := f (sessions s l))" "cacts (upd_session l f s) = cacts s"
  "sAllLogicServer (upd_session l f s) = sAllLogicServer s"
  "sUserMsgHandles (upd_session l f s) = sUserMsgHandles s"
  by (simp_all add: upd_session_def)

section \<open>CenterServerSessionGlobalData\<close>

definition global_init :: "'r center_server \<Rightarrow> 'r center_server" where
  "global_init s = s\<lparr>sCenterServerSessionRpc := True\<rparr>"

definition global_destroy :: "'r center_server \<Rightarrow> 'r center_server" where
  "global_destroy s = s\<lparr>sAllLogicServer := [], sCenterServerSessionRpc := False,
     sCenterServerSessionRpcFromer := None, sUserMsgHandles := []\<rparr>"

definition findLogicServer :: "(i32, saddr) umap \<Rightarrow> i32 \<Rightarrow> saddr option" where
  "findLogicServer m k = um_find m k"

definition removeLogicServer :: "i32 \<Rightarrow> (i32, saddr) umap \<Rightarrow> (i32, saddr) umap" where
  "removeLogicServer k m = um_erase k m"

definition insertLogicServer :: "i32 \<Rightarrow> saddr \<Rightarrow> (i32, saddr) umap \<Rightarrow> (i32, saddr) umap" where
  "insertLogicServer k l m = um_set k l m"

definition setRpcFrommer :: "saddr option \<Rightarrow> 'r center_server \<Rightarrow> 'r center_server" where
  "setRpcFrommer fromer s = s\<lparr>sCenterServerSessionRpcFromer := fromer\<rparr>"

definition global_registerUserMsgHandle :: "bool \<Rightarrow> nat \<Rightarrow> nat \<Rightarrow> 'r center_server \<Rightarrow> 'r center_server result" where
  "global_registerUserMsgHandle ndebug op handle s = cassert ndebug (um_find (sUserMsgHandles s) op = None)
     (Inr (s\<lparr>sUserMsgHandles := um_set op handle (sUserMsgHandles s)\<rparr>))"

definition findUserMsgHandle :: "'r center_server \<Rightarrow> nat \<Rightarrow> nat option" where
  "findUserMsgHandle s op = um_find (sUserMsgHandles s) op"

lemmas global_defs = findLogicServer_def removeLogicServer_def insertLogicServer_def findUserMsgHandle_def

interpretation centers: registry "\<lambda>m k. (findLogicServer m k, m)" insertLogicServer removeLogicServer um_find
  by unfold_locales (auto simp: global_defs)

section \<open>CenterServerSession\<close>

definition CenterServerSession :: center_session where
  "CenterServerSession = \<lparr>center_mID = - 1\<rparr>"

definition session_onClose :: "saddr \<Rightarrow> 'r center_server \<Rightarrow> 'r center_server" where
  "session_onClose l s =
     (if center_mID (sessions s l) \<noteq> - 1
      then s\<lparr>sAllLogicServer := removeLogicServer (center_mID (sessions s l)) (sAllLogicServer s)\<rparr> else s)"

definition session_onPing :: "saddr \<Rightarrow> 'r center_server \<Rightarrow> 'r center_server" where
  "session_onPing l s = cact (CenterSend l (Packet BigPacket CENTERSERVER_SEND_OP_PONG [])) s"

definition session_onRpc :: "'r packet_lib \<Rightarrow> saddr \<Rightarrow> 'r \<Rightarrow> 'r center_server \<Rightarrow> 'r center_server result" where
  "session_onRpc P l rp s =
     (case fst (rp_bin P rp) of
        None \<Rightarrow> Inr s
      | Some msg \<Rightarrow>
          (let s1 = setRpcFrommer (Some l) s
           in if sCenterServerSessionRpc s1 then Inr (cact (CenterHandleRpc msg) s1) else Inl NullDeref))"

definition session_onLogin :: "'r packet_lib \<Rightarrow> bytes \<Rightarrow> saddr \<Rightarrow> 'r \<Rightarrow> 'r center_server \<Rightarrow> 'r center_server" where
  "session_onLogin P pw l rp s =
     (if center_mID (sessions s l) = - 1 then
        (let (password, rp1) = rp_str P rp; (sid, rp2) = rp_i32 P rp1 in
         if password = pw then
           (if findLogicServer (sAllLogicServer s) sid = None then
              (let s1 = upd_session l (\<lambda>x. x\<lparr>center_mID := sid\<rparr>) s;
                   s2 = cact (CenterSend l (Packet BigPacket CENTERSERVER_SEND_OP_LOGICSERVER_SELFID [FI32 sid])) s1
               in s2\<lparr>sAllLogicServer := insertLogicServer sid l (sAllLogicServer s2)\<rparr>)
            else s)
         else s)
      else s)"

definition session_onUserMsg :: "'r packet_lib \<Rightarrow> saddr \<Rightarrow> 'r \<Rightarrow> 'r center_server \<Rightarrow> 'r center_server" where
  "session_onUserMsg P l rp s =
     (case fst (rp_bin P rp) of
        None \<Rightarrow> s
      | Some subPacket \<Rightarrow>
          (let (subOP, subRP) = rp_op P (snd (rp_len P (rp_open P subPacket))) in
           case findUserMsgHandle s subOP of
             None \<Rightarrow> s
           | Some handle \<Rightarrow> cact (CenterUser handle l subRP) s))"

definition session_onMsg :: "'r packet_lib \<Rightarrow> bytes \<Rightarrow> saddr \<Rightarrow> bytes \<Rightarrow> 'r center_server \<Rightarrow> 'r center_server result" where
  "session_onMsg P pw l data s =
     (let (op, rp) = rp_op P (snd (rp_len P (rp_open P data))) in
      if op = CENTERSERVER_RECV_OP_PING then Inr (session_onPing l s)
      else if op = CENTERSERVER_RECV_OP_RPC then session_onRpc P l rp s
      else if op = CENTERSERVER_RECV_OP_LOGICSERVER_LOGIN then Inr (session_onLogin P pw l rp s)
      else if op = CENTERSERVER_RECV_OP_USER then Inr (session_onUserMsg P l rp s)
      else Inr s)"

definition session_sendUserPacket :: "saddr \<Rightarrow> bytes \<Rightarrow> 'r center_server \<Rightarrow> 'r center_server" where
  "session_sendUserPacket l subPacket s =
     cact (CenterSend l (Packet BigPacket CENTERSERVER_SEND_OP_USER [FBin subPacket])) s"

definition sendPacket2Client :: "saddr \<Rightarrow> i64 \<Rightarrow> bytes \<Rightarrow> 'r center_server \<Rightarrow> 'r center_server" where
  "sendPacket2Client l runtimeID realPacket s =
     cact (CenterSend l (Packet BigPacket CENTERSERVER_SEND_OP_PACKET2CLIENTMIRROR
       [FBin realPacket, FI16 1, FI64 runtimeID])) s"

section \<open>The sessions as a transition system\<close>

text \<open>
  A step is one message of the queue (NetThreadSession.cpp): a session enters, sends a packet, or
  closes. A handler that faults is not a step.
\<close>

record 'r center_sys =
  csv :: "'r center_server"
  openS :: "saddr set"

definition center_init :: "'r center_sys" where
  "center_init = \<lparr>csv = global_init \<lparr>sessions = (\<lambda>_. CenterServerSession), sAllLogicServer = [],
     sCenterServerSessionRpc = False, sCenterServerSessionRpcFromer = None, sUserMsgHandles = [],
     cacts = []\<rparr>, openS = {}\<rparr>"

inductive center_step :: "'r packet_lib \<Rightarrow> bytes \<Rightarrow> 'r center_sys \<Rightarrow> 'r center_sys \<Rightarrow> bool"
  for P pw where
  enter: "l \<notin> openS y \<Longrightarrow> l \<notin> snd ` set (sAllLogicServer (csv y)) \<Longrightarrow>
    center_step P pw y (y\<lparr>csv := upd_session l (\<lambda>_. CenterServerSession) (csv y), openS := insert l (openS y)\<rparr>)"
| msg: "l \<in> openS y \<Longrightarrow> session_onMsg P pw l data (csv y) = Inr s' \<Longrightarrow> center_step P pw y (y\<lparr>csv := s'\<rparr>)"
| close: "l \<in> openS y \<Longrightarrow> center_step P pw y (y\<lparr>csv := session_onClose l (csv y), openS := openS y - {l}\<rparr>)"
| register: "global_registerUserMsgHandle ndebug op handle (csv y) = Inr s' \<Longrightarrow> center_step P pw y (y\<lparr>csv := s'\<rparr>)"

inductive center_reach :: "'r packet_lib \<Rightarrow> bytes \<Rightarrow> 'r center_sys \<Rightarrow> bool" for P pw where
  start: "center_reach P pw center_init"
| step: "center_reach P pw y \<Longrightarrow> center_step P pw y z \<Longrightarrow> center_reach P pw z"

text \<open>
  The table is exactly the open sessions that are logged in, except under the id -1, which the
  session cannot tell from not being logged in.
\<close>

definition center_inv :: "saddr set \<Rightarrow> 'r center_server \<Rightarrow> bool" where
  "center_inv S s \<longleftrightarrow> um_ok (sAllLogicServer s) \<and> sCenterServerSessionRpc s \<and>
     (\<forall>sid l. sid \<noteq> - 1 \<longrightarrow>
       (um_find (sAllLogicServer s) sid = Some l \<longleftrightarrow> l \<in> S \<and> center_mID (sessions s l) = sid))"

lemma center_inv_found:
  "center_inv S s \<Longrightarrow> l \<in> S \<Longrightarrow> center_mID (sessions s l) \<noteq> - 1 \<Longrightarrow>
   um_find (sAllLogicServer s) (center_mID (sessions s l)) = Some l"
  by (auto simp: center_inv_def)

lemma session_onLogin_inv:
  assumes inv: "center_inv S s" and l: "l \<in> S"
  shows "center_inv S (session_onLogin P pw l rp s)"
proof -
  have "um_find (sAllLogicServer s) sid \<noteq> Some l" if "center_mID (sessions s l) = - 1" "sid \<noteq> - 1" for sid
    using inv that by (auto simp: center_inv_def)
  then show ?thesis
    using inv l center_inv_found [OF inv]
    by (auto simp: session_onLogin_def center_inv_def global_defs upd_session_def cact_def Let_def
        split: prod.splits) (metis option.distinct(1))
qed

lemma session_onMsg_inv:
  assumes inv: "center_inv S s" and l: "l \<in> S" and run: "session_onMsg P pw l data s = Inr s'"
  shows "center_inv S s'"
proof -
  have same: "center_inv S t" if "sessions t = sessions s" "sAllLogicServer t = sAllLogicServer s"
    "sCenterServerSessionRpc t = sCenterServerSessionRpc s" for t :: "'a center_server"
    using inv that by (simp add: center_inv_def)
  have "center_inv S (session_onPing l s)" by (rule same) (simp_all add: session_onPing_def)
  moreover have "session_onRpc P l rp s = Inr s' \<Longrightarrow> center_inv S s'" for rp
    by (rule same) (auto simp: session_onRpc_def setRpcFrommer_def Let_def split: option.splits if_splits)
  moreover have "center_inv S (session_onUserMsg P l rp s)" for rp
    by (rule same) (auto simp: session_onUserMsg_def Let_def split: option.splits prod.splits)
  ultimately show ?thesis
    using run inv session_onLogin_inv [OF inv l]
    by (auto simp: session_onMsg_def Let_def split: prod.splits if_splits)
qed

lemma center_reach_inv: "center_reach P pw y \<Longrightarrow> center_inv (openS y) (csv y)"
proof (induction rule: center_reach.induct)
  case start
  show ?case by (simp add: center_init_def center_inv_def global_init_def CenterServerSession_def)
next
  case (step y z)
  from step.hyps(2) step.IH show ?case
  proof cases
    case (enter l)
    have "um_find (sAllLogicServer (csv y)) sid \<noteq> Some l" if "sid \<noteq> - 1" for sid
      using step.IH enter(2) that by (auto simp: center_inv_def)
    then show ?thesis
      using step.IH enter by (auto simp: center_inv_def CenterServerSession_def upd_session_def)
  next
    case (msg l data s')
    then show ?thesis using session_onMsg_inv [OF step.IH] by simp
  next
    case (close l)
    then show ?thesis using step.IH center_inv_found [OF step.IH]
      by (auto simp: center_inv_def session_onClose_def global_defs) (metis option.inject)
  next
    case (register ndebug op handle s')
    then show ?thesis using step.IH by (auto simp: center_inv_def global_registerUserMsgHandle_def results)
  qed
qed

end
