(* ===== verification/Cluster.thy ===== *)
theory Cluster
  imports ConnWire LogicProps CenterServer
begin

text \<open>
  Packets across servers: what one server writes is handed, as bytes, to the handler of the server
  that reads it, for any packet library with the contract \<open>packet_codec\<close>. A packet has to fit its
  class (\<open>fits\<close>); \<open>UsePacketSingleNetSession\<close> hands over the body, \<open>UsePacketExtNetSession\<close> the
  whole packet (Framing).
\<close>

section \<open>Center server: who is logged in\<close>

text \<open>
  C31: In every reachable state of the center server the table holds, under every id but -1, exactly
  the open session that logged in with that id: nobody is displaced, a session logs in once, and a
  closed session is not found. The RPC service is there, so no RPC meets a null pointer.
\<close>

theorem center_table_exact:
  assumes "center_reach P pw y" and "sid \<noteq> - 1"
  shows "(um_find (sAllLogicServer (csv y)) sid = Some l \<longleftrightarrow> l \<in> openS y \<and> center_mID (sessions (csv y) l) = sid) \<and>
    session_onMsg P pw l data (csv y) \<noteq> Inl NullDeref"
proof -
  have inv: "center_inv (openS y) (csv y)" by (rule center_reach_inv [OF assms(1)])
  then have "session_onMsg P pw l data (csv y) \<noteq> Inl NullDeref"
    by (auto simp: session_onMsg_def session_onRpc_def setRpcFrommer_def center_inv_def Let_def
        split: prod.splits option.splits)
  with inv assms(2) show ?thesis by (simp add: center_inv_def)
qed

text \<open>One session that logs in, with id 4 and with id -1.\<close>

definition center_demo :: "bytes \<Rightarrow> std_reader center_sys" where
  "center_demo data =
     (let s = upd_session 0 (\<lambda>_. CenterServerSession) (csv (center_init :: std_reader center_sys))
      in \<lparr>csv = (case session_onMsg std_lib [112] 0 data s of Inr s' \<Rightarrow> s' | Inl _ \<Rightarrow> s), openS = {0}\<rparr>)"

definition center_login :: "bytes \<Rightarrow> bytes" where
  "center_login sid = [15, 0, 0, 0, 2, 0, 1, 0, 0, 0, 112] @ sid"

lemmas center_eval = session_onMsg_def session_onLogin_def global_defs upd_session_def cact_def Let_def
  center_init_def global_init_def CenterServerSession_def um_set_def um_find_def

lemma center_demo_reach: "center_reach std_lib [112] (center_demo data)"
proof -
  let ?y = "\<lparr>csv = upd_session 0 (\<lambda>_. CenterServerSession) (csv center_init), openS = {0}\<rparr> :: std_reader center_sys"
  have 1: "center_reach std_lib [112] ?y"
    using center_reach.step [OF center_reach.start center_step.enter [of 0 center_init std_lib "[112]"]]
    by (simp add: center_init_def global_init_def)
  show ?thesis
  proof (cases "session_onMsg std_lib [112] 0 data (csv ?y)")
    case (Inl f)
    then have "center_demo data = ?y" by (simp add: center_demo_def Let_def)
    with 1 show ?thesis by simp
  next
    case (Inr s')
    then have "center_demo data = ?y\<lparr>csv := s'\<rparr>" by (simp add: center_demo_def Let_def)
    then show ?thesis using center_reach.step [OF 1 center_step.msg [OF _ Inr]] by simp
  qed
qed

theorem center_table_exact_witness: "um_find (sAllLogicServer (csv (center_demo (center_login [4, 0, 0, 0])))) 4 = Some 0"
proof -
  have "0 \<in> openS (center_demo (center_login [4, 0, 0, 0])) \<and> center_mID (sessions (csv (center_demo (center_login [4, 0, 0, 0]))) 0) = 4"
    by (simp add: center_demo_def center_login_def center_ops std_eval center_eval)
  then show ?thesis using center_table_exact [OF center_demo_reach [of "center_login [4, 0, 0, 0]"], of 4 0 "[]"] by simp
qed

text \<open>
  The id -1 is accepted by a login and then counts as not logged in: there is a reachable state
  in which the session was told its id and is in the table under -1, and after it has closed the
  entry is still there and every later login with -1 is ignored.
\<close>

theorem center_minus1_leaks:
  "\<exists>y. center_reach std_lib [112] y \<and> openS y = {} \<and> um_find (sAllLogicServer (csv y)) (- 1) = Some 0 \<and>
     session_onMsg std_lib [112] 1 (center_login [255, 255, 255, 255]) (csv y) = Inr (csv y)"
proof -
  let ?y = "center_demo (center_login [255, 255, 255, 255])"
  let ?z = "?y\<lparr>csv := session_onClose 0 (csv ?y), openS := openS ?y - {0}\<rparr>"
  have "center_reach std_lib [112] ?z"
    by (rule center_reach.step [OF center_demo_reach center_step.close]) (simp add: center_demo_def Let_def)
  moreover have "csv ?z = csv ?y" "openS ?z = {}" "um_find (sAllLogicServer (csv ?y)) (- 1) = Some 0"
    "session_onMsg std_lib [112] 1 (center_login [255, 255, 255, 255]) (csv ?y) = Inr (csv ?y)"
    by (simp_all add: center_demo_def center_login_def center_ops std_eval center_eval session_onClose_def)
  ultimately show ?thesis by (intro exI [of _ ?z]) simp
qed


section \<open>A logic server logs in to a connection server\<close>

text \<open>
  The handshake: when a connection enters that is the first to its server, the logic server
  sends its login, a ping and starts the ping timer; the connection server's handler, given that
  login, registers the session and answers; the logic server's handler, given the answer, registers
  the connection under the connection server's id.
\<close>

theorem login_handshake:
  assumes "packet_codec P fits rem"
    and "login = Packet TinyPacket CONNECTION_SERVER_RECV_LOGICSERVER_LOGIN
      [FBin (cfg_password ccfg), FI32 (lcfg_id cfg), FBool (lcfg_isprimary cfg)]"
    and "reply = Packet TinyPacket CONNECTION_SERVER_SEND_LOGICSERVER_RECVCSID
      [FI32 (cfg_id ccfg), FBool True, FBin []]"
    and "fits login" and "fits reply"
    and "cc_mPassword (conns s k) = cfg_password ccfg"
    and "um_find (alreadyConnectingServers s) (cc_mIDInEtcd (conns s k)) = None"
    and "um_live (if lcfg_isprimary cfg then gAllPrimaryServers c else gAllSlaveServers c) (lcfg_id cfg) = None"
    and "um_find (gAllLogicConnectionServerClient s) (cfg_id ccfg) = None"
  shows "acts (csconn_onEnter cfg k s) = acts s @ [SendCS k login,
      SendCS k (Packet TinyPacket CONNECTION_SERVER_RECV_PING []), PingTimerCS k] \<and>
    (\<exists>c'. logic_procPacket ndebug P ccfg l (pk_op login) (drop (head_len P) (pk_bytes P login)) c = Inr c' \<and>
      out c' = out c @ [SendLogic l reply] \<and>
      um_live (if lcfg_isprimary cfg then gAllPrimaryServers c' else gAllSlaveServers c') (lcfg_id cfg) = Some l) \<and>
    (\<exists>s'. csconn_onMsg ndebug P k (pk_bytes P reply) (csconn_onEnter cfg k s) = Inr s' \<and>
      um_find (gAllLogicConnectionServerClient s') (cfg_id ccfg) = Some (Some k))"
proof -
  let ?s = "csconn_onEnter cfg k s"
  let ?live = "um_live (if lcfg_isprimary cfg then gAllPrimaryServers c else gAllSlaveServers c)"
  have enter: "acts ?s = acts s @ [SendCS k login,
      SendCS k (Packet TinyPacket CONNECTION_SERVER_RECV_PING []), PingTimerCS k]"
    "gAllLogicConnectionServerClient ?s = gAllLogicConnectionServerClient s"
    using assms(2,6,7) by (simp_all add: csconn_onEnter_def isAlreadyConnecting_def addConnectingServer_def
        cs_ping_def Let_def)
  let ?rp = "rp_open P (drop (head_len P) (pk_bytes P login))"
  have "rem ?rp [FBin (cfg_password ccfg), FI32 (lcfg_id cfg), FBool (lcfg_isprimary cfg)]"
    using packet_codec.rem_handler [OF assms(1,4)] assms(2) by simp
  note r = packet_codec.login_result [OF assms(1) this refl refl refl, where cfg = ccfg and s = c and l = l]
  have conn: "\<exists>c'. logic_procPacket ndebug P ccfg l (pk_op login) (drop (head_len P) (pk_bytes P login)) c = Inr c' \<and>
      out c' = out c @ [SendLogic l reply] \<and>
      um_live (if lcfg_isprimary cfg then gAllPrimaryServers c' else gAllSlaveServers c') (lcfg_id cfg) = Some l"
  proof (intro exI conjI)
    show "logic_procPacket ndebug P ccfg l (pk_op login) (drop (head_len P) (pk_bytes P login)) c =
        Inr (onLogicServerLogin P ccfg l ?rp c)"
      using assms(2) by (simp add: logic_procPacket_def cs_recv_ops)
    show "out (onLogicServerLogin P ccfg l ?rp c) = out c @ [SendLogic l reply]"
      unfolding r(4) assms(3) using assms(8) by simp
    show "um_live (if lcfg_isprimary cfg then gAllPrimaryServers (onLogicServerLogin P ccfg l ?rp c)
        else gAllSlaveServers (onLogicServerLogin P ccfg l ?rp c)) (lcfg_id cfg) = Some l"
      unfolding r(1) using assms(8) by simp
  qed
  obtain r where r: "rp_op P (snd (rp_len P (rp_open P (pk_bytes P reply)))) = (pk_op reply, r)" "rem r (pk_fields reply)"
    using packet_codec.whole_read [OF assms(1,5)] by blast
  then have "rem r [FI32 (cfg_id ccfg), FBool True, FBin []]" using assms(3) by simp
  then obtain r1 r2 r3 where "rp_i32 P r = (cfg_id ccfg, r1)" "rp_bool P r1 = (True, r2)" "rp_str P r2 = ([], r3)"
    using packet_codec.take_i32 [OF assms(1)] packet_codec.take_bool [OF assms(1)] packet_codec.take_str [OF assms(1)]
    by metis
  then have "\<exists>s'. csconn_onMsg ndebug P k (pk_bytes P reply) ?s = Inr s' \<and>
      um_find (gAllLogicConnectionServerClient s') (cfg_id ccfg) = Some (Some k)"
    using r(1) assms(3,9) enter(2) by (simp add: csconn_onMsg_def csconn_onRecvCSID_def cs_send_ops Let_def)
  with enter conn show ?thesis by blast
qed

text \<open>The demonstration: logic server 4 and connection server 1.\<close>

definition demo_ls :: "std_reader logic_server" where
  "demo_ls = upd_conn 0 (\<lambda>_. ConnectionServerConnection 1 80 [112, 119] [49]) (ls_empty\<lparr>alive := (\<lambda>k. k = 0)\<rparr>)"

theorem login_handshake_witness:
  "\<exists>c'. logic_procPacket False std_lib demo_cfg 0 0 demo_login (sv cs_init) = Inr c' \<and>
     um_live (gAllPrimaryServers c') 4 = Some 0"
proof -
  let ?login = "Packet TinyPacket CONNECTION_SERVER_RECV_LOGICSERVER_LOGIN
    [FBin (cfg_password demo_cfg), FI32 (lcfg_id demo_lcfg), FBool (lcfg_isprimary demo_lcfg)]"
  have fits: "std_fits ?login"
    "std_fits (Packet TinyPacket CONNECTION_SERVER_SEND_LOGICSERVER_RECVCSID [FI32 (cfg_id demo_cfg), FBool True, FBin []])"
    by (simp_all add: std_eval cs_recv_ops cs_send_ops demo_cfg_def demo_lcfg_def)
  have "drop 6 (std_bytes ?login) = demo_login"
    by (simp add: std_bytes_drop6 demo_login_def std_eval demo_cfg_def demo_lcfg_def)
  then show ?thesis
    using login_handshake [OF std.packet_codec_axioms refl refl fits, of demo_ls 0 "sv cs_init" False 0]
    by (auto simp: demo_ls_def ls_empty_def cs_init_def demo_cfg_def demo_lcfg_def cs_recv_ops
        ConnectionServerConnection_def)
qed


section \<open>From a mirror to its client\<close>

text \<open>What \<open>INIT_CLIENTMIRROR\<close> and \<open>PACKET2CLIENT_BYSOCKINFO\<close> do, over any codec.\<close>

context packet_codec
begin

lemma init_mirror_reads:
  assumes "fits p" and "p = Packet cls CONNECTION_SERVER_SEND_LOGICSERVER_INIT_CLIENTMIRROR [FI64 sock, FI64 rid]"
  obtains s1 where "csconn_onMsg ndebug P k (pk_bytes P p) s = Inr s1"
    and "um_find (mAllClientMirrorOnRuntimeID s1) rid = Some (next_mirror s)"
    and "mirrors s1 (next_mirror s) = \<lparr>cm_mRuntimeID = rid, cm_mConnectionServerID = cc_mConnectionServerID (conns s k),
      cm_mSocketIDOnConnectionServer = sock,
      cm_mConnectionServer = um_live (gAllLogicConnectionServerClient s) (cc_mConnectionServerID (conns s k))\<rparr>"
    and "alive s1 = alive s"
    and "acts s1 = acts s @ (case sEnterHandle s of None \<Rightarrow> [] | Some h \<Rightarrow> [ClientEnter h (next_mirror s)])"
proof -
  obtain r where r: "rp_op P (snd (rp_len P (rp_open P (pk_bytes P p)))) = (pk_op p, r)" "rem r (pk_fields p)"
    using whole_read [OF assms(1)] by blast
  then have "rem r [FI64 sock, FI64 rid]" using assms(2) by simp
  then obtain r1 r2 where "rp_i64 P r = (sock, r1)" "rp_i64 P r1 = (rid, r2)"
    using take_i64 by metis
  then show ?thesis
    using r(1) assms(2) that by (simp add: csconn_onMsg_def csconn_onInitMirror_def make_mirror_def ClientMirror_def
        um_index_live AddClientOnRuntimeID_def cs_send_ops Let_def split: option.splits)
qed

lemma mirror_packet_arrives:
  assumes "fits p" and "p = mirror_packet cm b" and "cm_mConnectionServerID cm = cfg_id ccfg"
  shows "\<exists>c'. logic_procPacket ndebug P ccfg l (pk_op p) (drop (head_len P) (pk_bytes P p)) c = Inr c' \<and>
    out c' = out c @ [SendSocket (cm_mSocketIDOnConnectionServer cm) b]"
proof -
  let ?rp = "rp_open P (drop (head_len P) (pk_bytes P p))"
  have "rem ?rp (FBin b # FI16 1 # socket_fields [(cm_mConnectionServerID cm, cm_mSocketIDOnConnectionServer cm)])"
    using rem_handler [OF assms(1)] assms(2) by (simp add: mirror_packet_def)
  then obtain rp1 rp2 where "rp_bin P ?rp = (Some b, rp1)" "rp_i16 P rp1 = (1, rp2)"
    "rem rp2 (socket_fields [(cm_mConnectionServerID cm, cm_mSocketIDOnConnectionServer cm)])"
    by (rule count_read)
  then show ?thesis
    using assms(2,3) socketinfo_loop_sends [of rp2 "[(cm_mConnectionServerID cm, cm_mSocketIDOnConnectionServer cm)]" ccfg b c]
    by (simp add: logic_procPacket_def cs_recv_ops onPacket2ClientBySocketInfo_def mirror_packet_def Let_def)
qed

end

text \<open>
  C17: A client's way out: once a logic server was told of a client (\<open>INIT_CLIENTMIRROR\<close> with the
  socket and runtime id the connection server chose) over a logged-in connection, the mirror it
  creates sends each packet over that connection, and the connection server hands it, unchanged, to
  exactly that client's socket.
\<close>

theorem mirror_reaches_client:
  assumes "packet_codec P fits rem" and "fits init" and "fits (mirror_packet cm b)"
    and "init = Packet cls CONNECTION_SERVER_SEND_LOGICSERVER_INIT_CLIENTMIRROR [FI64 sock, FI64 rid]"
    and "um_find (gAllLogicConnectionServerClient s) (cfg_id ccfg) = Some (Some k)"
    and "cc_mConnectionServerID (conns s k) = cfg_id ccfg" and "alive s k"
    and "cm = \<lparr>cm_mRuntimeID = rid, cm_mConnectionServerID = cfg_id ccfg,
      cm_mSocketIDOnConnectionServer = sock, cm_mConnectionServer = Some k\<rparr>"
  shows "\<exists>s1 m. csconn_onMsg ndebug P k (pk_bytes P init) s = Inr s1 \<and>
    um_find (mAllClientMirrorOnRuntimeID s1) rid = Some m \<and> mirrors s1 m = cm \<and>
    acts (mirror_sendPacket m b s1) = acts s1 @ [SendCS k (mirror_packet cm b)] \<and>
    (\<exists>c'. logic_procPacket ndebug P ccfg l (pk_op (mirror_packet cm b))
        (drop (head_len P) (pk_bytes P (mirror_packet cm b))) c = Inr c' \<and>
      out c' = out c @ [SendSocket sock b])"
proof -
  obtain s1 where s1: "csconn_onMsg ndebug P k (pk_bytes P init) s = Inr s1"
    "um_find (mAllClientMirrorOnRuntimeID s1) rid = Some (next_mirror s)"
    "mirrors s1 (next_mirror s) = \<lparr>cm_mRuntimeID = rid, cm_mConnectionServerID = cc_mConnectionServerID (conns s k),
      cm_mSocketIDOnConnectionServer = sock,
      cm_mConnectionServer = um_live (gAllLogicConnectionServerClient s) (cc_mConnectionServerID (conns s k))\<rparr>"
    "alive s1 = alive s"
    by (rule packet_codec.init_mirror_reads [OF assms(1,2,4)])
  have cm: "mirrors s1 (next_mirror s) = cm" using s1(3) assms(5,6,8) by (simp add: um_live_def)
  have "acts (mirror_sendPacket (next_mirror s) b s1) = acts s1 @ [SendCS k (mirror_packet cm b)]"
    using cm s1(4) assms(7,8) by (simp add: mirror_sendPacket_def sendToConnectionServer_def)
  moreover have "cm_mSocketIDOnConnectionServer cm = sock" "cm_mConnectionServerID cm = cfg_id ccfg"
    using assms(8) by simp_all
  ultimately show ?thesis
    using s1(1,2) cm packet_codec.mirror_packet_arrives [OF assms(1,3) refl, of ccfg ndebug l c] by metis
qed

definition demo_ls_in :: "std_reader logic_server" where
  "demo_ls_in = (upd_conn 0 (\<lambda>c. c\<lparr>cc_mConnectionServerID := 1\<rparr>) demo_ls)
     \<lparr>gAllLogicConnectionServerClient := [(1, Some 0)]\<rparr>"

definition demo_mirror :: client_mirror where
  "demo_mirror = \<lparr>cm_mRuntimeID = demo_rid, cm_mConnectionServerID = 1, cm_mSocketIDOnConnectionServer = 7,
     cm_mConnectionServer = Some 0\<rparr>"

lemma demo_ls_in_sel: "gAllLogicConnectionServerClient demo_ls_in = [(1, Some 0)]"
  "cc_mConnectionServerID (conns demo_ls_in 0) = 1" "alive demo_ls_in 0"
  "mAllClientMirrorOnRuntimeID demo_ls_in = []" "acts demo_ls_in = []"
  by (simp_all add: demo_ls_in_def demo_ls_def ls_empty_def)

theorem mirror_reaches_client_witness:
  "\<exists>s1 m. csconn_onMsg False std_lib 0
      (std_bytes (Packet BigPacket CONNECTION_SERVER_SEND_LOGICSERVER_INIT_CLIENTMIRROR [FI64 7, FI64 demo_rid]))
      demo_ls_in = Inr s1 \<and> um_find (mAllClientMirrorOnRuntimeID s1) demo_rid = Some m \<and>
    acts (mirror_sendPacket m [42] s1) = acts s1 @ [SendCS 0 (mirror_packet demo_mirror [42])]"
proof -
  have fits: "std_fits (Packet BigPacket CONNECTION_SERVER_SEND_LOGICSERVER_INIT_CLIENTMIRROR [FI64 7, FI64 demo_rid])"
    "std_fits (mirror_packet demo_mirror [42])"
    by (simp_all add: std_eval cs_send_ops cs_recv_ops demo_rid_def mirror_packet_def)
  have "um_find (gAllLogicConnectionServerClient demo_ls_in) (cfg_id demo_cfg) = Some (Some 0)"
    "cc_mConnectionServerID (conns demo_ls_in 0) = cfg_id demo_cfg" "alive demo_ls_in 0"
    "demo_mirror = \<lparr>cm_mRuntimeID = demo_rid, cm_mConnectionServerID = cfg_id demo_cfg,
      cm_mSocketIDOnConnectionServer = 7, cm_mConnectionServer = Some 0\<rparr>"
    by (simp_all add: demo_ls_in_sel demo_cfg_def um_find_def demo_mirror_def)
  from mirror_reaches_client [OF std.packet_codec_axioms fits refl this, of False 0 "sv cs_init"]
  show ?thesis by auto
qed

section \<open>From a client to its mirror\<close>

text \<open>
  A client's way in: when the connection server forwards a client's packet \<open>p\<close>, what reaches the
  mirror's \<open>procData\<close> is \<open>p\<close>'s body without its header. \<open>procData\<close> reads a header there all the same:
  a build with \<open>assert\<close> fails unless the body happens to start with its own length, and the opcode
  the handler is looked up by is taken from the body, not from \<open>p\<close>.
\<close>

theorem client_packet_headless:
  assumes "packet_codec P fits rem" and "body = drop (head_len P) (pk_bytes P p)"
    and "fw = Packet BigPacket CONNECTION_SERVER_SEND_LOGICSERVER_FROMCLIENT [FI64 rid, FBin body]" and "fits fw"
    and "um_find (mAllClientMirrorOnRuntimeID s) rid = Some m"
    and "rp_len P (rp_open P body) = (len, rp1)" and "rp_op P rp1 = (op, rp2)"
  shows "csconn_onMsg ndebug P k (pk_bytes P fw) s =
    (if \<not> ndebug \<and> len \<noteq> length body then Inl AssertFailed
     else Inr (case um_find (sUserMsgHandlers s) op of None \<Rightarrow> s | Some h \<Rightarrow> act (ClientMsg h m rp2) s))"
proof -
  obtain r where r: "rp_op P (snd (rp_len P (rp_open P (pk_bytes P fw)))) = (pk_op fw, r)" "rem r (pk_fields fw)"
    using packet_codec.whole_read [OF assms(1,4)] by blast
  then have "rem r [FI64 rid, FBin body]" using assms(3) by simp
  then obtain r1 r2 where "rp_i64 P r = (rid, r1)" "rp_bin P r1 = (Some body, r2)"
    using packet_codec.take_i64 [OF assms(1)] packet_codec.take_bin [OF assms(1)] by metis
  then show ?thesis
    using r(1) assms(3,5-7) by (auto simp: csconn_onMsg_def csconn_onFromClient_def mirror_procData_def
        FindMirrorByRuntimeID_def cs_send_ops cassert_def Let_def split: option.splits)
qed

text \<open>A client sends the packet 5 with the two fields 7 and 3; the mirror takes it for a packet 3 of length 7.\<close>

theorem client_packet_headless_witness:
  "csconn_onMsg False std_lib 0 (std_bytes (Packet BigPacket 4 [FI64 9, FBin [7, 0, 0, 0, 3, 0]]))
      (demo_ls_in\<lparr>mAllClientMirrorOnRuntimeID := [(9, 2)], sUserMsgHandlers := [(3, 33), (5, 55)]\<rparr>) = Inl AssertFailed \<and>
   (\<exists>s' rp. csconn_onMsg True std_lib 0 (std_bytes (Packet BigPacket 4 [FI64 9, FBin [7, 0, 0, 0, 3, 0]]))
      (demo_ls_in\<lparr>mAllClientMirrorOnRuntimeID := [(9, 2)], sUserMsgHandlers := [(3, 33), (5, 55)]\<rparr>) = Inr s' \<and>
     acts s' = [ClientMsg 33 2 rp])"
proof -
  let ?s = "demo_ls_in\<lparr>mAllClientMirrorOnRuntimeID := [(9, 2)], sUserMsgHandlers := [(3, 33), (5, 55)]\<rparr>"
  let ?p = "Packet TinyPacket 5 [FI32 7, FI16 3]"
  have b: "[7, 0, 0, 0, 3, 0] = drop (head_len std_lib) (pk_bytes std_lib ?p)" by (simp add: std_bytes_drop6 std_eval)
  have fw: "Packet BigPacket 4 [FI64 9, FBin [7, 0, 0, 0, 3, 0]] =
      Packet BigPacket CONNECTION_SERVER_SEND_LOGICSERVER_FROMCLIENT [FI64 9, FBin [7, 0, 0, 0, 3, 0]]"
    by (simp add: cs_send_ops)
  have fits: "std_fits (Packet BigPacket 4 [FI64 9, FBin [7, 0, 0, 0, 3, 0]])" by (simp add: std_eval)
  have rd: "um_find (mAllClientMirrorOnRuntimeID ?s) 9 = Some 2"
    "rp_len std_lib (rp_open std_lib [7, 0, 0, 0, 3, 0]) = (7, (6, [3, 0]))" "rp_op std_lib (6, [3, 0]) = (3, (6, []))"
    by (simp_all add: um_find_def std_lib_simps)
  show ?thesis
    using client_packet_headless [OF std.packet_codec_axioms b fw fits rd, of False 0]
      client_packet_headless [OF std.packet_codec_axioms b fw fits rd, of True 0]
    by (simp add: um_find_def demo_ls_in_sel)
qed


section \<open>The center server and the logic servers\<close>

context packet_codec
begin

lemma center_packet_arrives:
  assumes "fits p" and "p = Packet BigPacket CENTERSERVER_SEND_OP_PACKET2CLIENTMIRROR [FBin b, FI16 1, FI64 rid]"
  shows "center_onMsg ndebug P (pk_bytes P p) s = Inr
    (case um_find (mAllClientMirrorOnRuntimeID s) rid of None \<Rightarrow> s | Some m \<Rightarrow> mirror_sendPacket m b s)"
proof -
  obtain r where r: "rp_op P (snd (rp_len P (rp_open P (pk_bytes P p)))) = (pk_op p, r)" "rem r (pk_fields p)"
    using whole_read [OF assms(1)] by blast
  then have "rem r [FBin b, FI16 1, FI64 rid]" using assms(2) by simp
  then obtain r1 r2 r3 where "rp_bin P r = (Some b, r1)" "rp_i16 P r1 = (1, r2)" "rp_i64 P r2 = (rid, r3)"
    using take_bin take_i16 take_i64 by metis
  then show ?thesis
    using r(1) assms(2) by (simp add: center_onMsg_def onCenterServerSendPacket2Client_def FindMirrorByRuntimeID_def
        center_ops Let_def)
qed

lemma user_body:
  assumes "fits p" and "pk_fields p = [FBin b]"
  obtains r r1 where "rp_op P (snd (rp_len P (rp_open P (pk_bytes P p)))) = (pk_op p, r)" "rp_bin P r = (Some b, r1)"
proof -
  obtain r where r: "rp_op P (snd (rp_len P (rp_open P (pk_bytes P p)))) = (pk_op p, r)" "rem r [FBin b]"
    using whole_read [OF assms(1)] assms(2) by metis
  then obtain r1 where "rp_bin P r = (Some b, r1)" using take_bin by blast
  with r show ?thesis using that by blast
qed

lemma sub_packet:
  assumes "fits q"
  obtains r r2 where "rp_len P (rp_open P (pk_bytes P q)) = (length (pk_bytes P q), r)" "rp_op P r = (pk_op q, r2)"
    "rem r2 (pk_fields q)"
  using read_len [OF assms] whole_read [OF assms] by (metis prod.collapse)

lemma user_arrives:
  assumes "fits q" and "down = Packet BigPacket CENTERSERVER_SEND_OP_USER [FBin (pk_bytes P q)]" and "fits down"
    and "up = Packet BigPacket CENTERSERVER_RECV_OP_USER [FBin (pk_bytes P q)]" and "fits up"
  obtains r where "rem r (pk_fields q)"
    "center_onMsg ndebug P (pk_bytes P down) s = Inr (case um_find (center_sUserMsgHandlers s) (pk_op q) of
        None \<Rightarrow> s | Some h \<Rightarrow> act (CenterMsg h r) s)"
    "session_onMsg P pw l (pk_bytes P up) c = Inr (case findUserMsgHandle c (pk_op q) of
        None \<Rightarrow> c | Some h \<Rightarrow> cact (CenterUser h l r) c)"
proof -
  obtain r r2 where q: "rp_len P (rp_open P (pk_bytes P q)) = (length (pk_bytes P q), r)" "rp_op P r = (pk_op q, r2)"
    "rem r2 (pk_fields q)" by (rule sub_packet [OF assms(1)])
  obtain d d1 where "rp_op P (snd (rp_len P (rp_open P (pk_bytes P down)))) = (pk_op down, d)"
    "rp_bin P d = (Some (pk_bytes P q), d1)"
    by (rule user_body [OF assms(3), of "pk_bytes P q"]) (use assms(2) in auto)
  then have "center_onMsg ndebug P (pk_bytes P down) s = Inr (case um_find (center_sUserMsgHandlers s) (pk_op q) of
        None \<Rightarrow> s | Some h \<Rightarrow> act (CenterMsg h r2) s)"
    using q assms(2) by (simp add: center_onMsg_def center_onUserMsg_def center_ops Let_def split: option.splits)
  moreover obtain u u1 where "rp_op P (snd (rp_len P (rp_open P (pk_bytes P up)))) = (pk_op up, u)"
    "rp_bin P u = (Some (pk_bytes P q), u1)"
    by (rule user_body [OF assms(5), of "pk_bytes P q"]) (use assms(4) in auto)
  then have "session_onMsg P pw l (pk_bytes P up) c = Inr (case findUserMsgHandle c (pk_op q) of
        None \<Rightarrow> c | Some h \<Rightarrow> cact (CenterUser h l r2) c)"
    using q assms(4) by (simp add: session_onMsg_def session_onUserMsg_def center_ops Let_def split: option.splits)
  ultimately show thesis using that q(3) by blast
qed

end

text \<open>
  C30: The center server's way to a client: \<open>sendPacket2Client\<close> on a logic server's session sends one
  packet; the logic server that gets it passes the real packet to the mirror with that runtime id,
  whose connection server hands it, unchanged, to the client's socket. With no such mirror the logic
  server sends nothing.
\<close>

theorem center_packet_reaches_client:
  assumes "packet_codec P fits rem"
    and "p = Packet BigPacket CENTERSERVER_SEND_OP_PACKET2CLIENTMIRROR [FBin b, FI16 1, FI64 rid]"
    and "fits p" and "fits (mirror_packet cm b)"
    and "um_find (mAllClientMirrorOnRuntimeID s) rid = Some m" and "mirrors s m = cm"
    and "cm_mConnectionServer cm = Some k" and "alive s k" and "cm_mConnectionServerID cm = cfg_id ccfg"
    and "um_find (mAllClientMirrorOnRuntimeID s') rid = None"
  shows "cacts (sendPacket2Client l rid b x) = cacts x @ [CenterSend l p] \<and>
    (\<exists>s1. center_onMsg ndebug P (pk_bytes P p) s = Inr s1 \<and> acts s1 = acts s @ [SendCS k (mirror_packet cm b)]) \<and>
    (\<exists>c'. logic_procPacket ndebug P ccfg j (pk_op (mirror_packet cm b))
        (drop (head_len P) (pk_bytes P (mirror_packet cm b))) c = Inr c' \<and>
      out c' = out c @ [SendSocket (cm_mSocketIDOnConnectionServer cm) b]) \<and>
    center_onMsg ndebug P (pk_bytes P p) s' = Inr s'"
  using packet_codec.center_packet_arrives [OF assms(1,3,2)] packet_codec.mirror_packet_arrives [OF assms(1,4) refl assms(9)]
    assms(2,5-8,10) by (simp add: sendPacket2Client_def mirror_sendPacket_def sendToConnectionServer_def)

theorem center_packet_reaches_client_witness:
  "\<exists>s1. center_onMsg False std_lib
      (std_bytes (Packet BigPacket CENTERSERVER_SEND_OP_PACKET2CLIENTMIRROR [FBin [42], FI16 1, FI64 demo_rid]))
      (demo_ls_in\<lparr>mAllClientMirrorOnRuntimeID := [(demo_rid, 0)], mirrors := (\<lambda>_. demo_mirror)\<rparr>) = Inr s1 \<and>
     acts s1 = [SendCS 0 (mirror_packet demo_mirror [42])]"
proof -
  let ?p = "Packet BigPacket CENTERSERVER_SEND_OP_PACKET2CLIENTMIRROR [FBin [42], FI16 1, FI64 demo_rid]"
  let ?s = "demo_ls_in\<lparr>mAllClientMirrorOnRuntimeID := [(demo_rid, 0)], mirrors := (\<lambda>_. demo_mirror)\<rparr>"
  have fits: "std_fits ?p" "std_fits (mirror_packet demo_mirror [42])"
    by (simp_all add: std_eval center_ops cs_recv_ops mirror_packet_def)
  have m: "um_find (mAllClientMirrorOnRuntimeID ?s) demo_rid = Some 0" "mirrors ?s 0 = demo_mirror"
    "cm_mConnectionServer demo_mirror = Some 0" "alive ?s 0" "cm_mConnectionServerID demo_mirror = cfg_id demo_cfg"
    "um_find (mAllClientMirrorOnRuntimeID demo_ls_in) demo_rid = None"
    by (simp_all add: um_find_def demo_ls_in_sel demo_mirror_def demo_cfg_def)
  from center_packet_reaches_client [OF std.packet_codec_axioms refl fits m] show ?thesis
    by (simp add: demo_ls_in_sel) blast
qed

text \<open>
  User messages, both ways: a packet \<open>q\<close> sent with \<open>sendUserPacket\<close> reaches, on the other side, the
  handler registered for \<open>q\<close>'s opcode, if there is one, with the reader standing on \<open>q\<close>'s fields; with
  no handler nothing happens.
\<close>

theorem user_message_roundtrip:
  assumes "packet_codec P fits rem" and "fits q"
    and "down = Packet BigPacket CENTERSERVER_SEND_OP_USER [FBin (pk_bytes P q)]" and "fits down"
    and "up = Packet BigPacket CENTERSERVER_RECV_OP_USER [FBin (pk_bytes P q)]" and "fits up"
  shows "cacts (session_sendUserPacket l (pk_bytes P q) c) = cacts c @ [CenterSend l down] \<and>
    acts (center_sendUserPacket (pk_bytes P q) s) = acts s @ [SendCenter up] \<and>
    (\<exists>r. rem r (pk_fields q) \<and>
      center_onMsg ndebug P (pk_bytes P down) s = Inr (case um_find (center_sUserMsgHandlers s) (pk_op q) of
        None \<Rightarrow> s | Some h \<Rightarrow> act (CenterMsg h r) s) \<and>
      session_onMsg P pw l (pk_bytes P up) c = Inr (case findUserMsgHandle c (pk_op q) of
        None \<Rightarrow> c | Some h \<Rightarrow> cact (CenterUser h l r) c))"
  by (rule packet_codec.user_arrives [OF assms, of ndebug s pw l c])
    (auto simp: session_sendUserPacket_def center_sendUserPacket_def assms(3,5))

theorem user_message_roundtrip_witness:
  "\<exists>r. center_onMsg False std_lib
      (std_bytes (Packet BigPacket CENTERSERVER_SEND_OP_USER [FBin (std_bytes (Packet TinyPacket 9 [FI16 3]))]))
      (demo_ls\<lparr>center_sUserMsgHandlers := [(9, 1)]\<rparr>) =
     Inr (act (CenterMsg 1 r) (demo_ls\<lparr>center_sUserMsgHandlers := [(9, 1)]\<rparr>))"
proof -
  let ?q = "Packet TinyPacket 9 [FI16 3]"
  have fits: "std_fits ?q" "std_fits (Packet BigPacket CENTERSERVER_SEND_OP_USER [FBin (pk_bytes std_lib ?q)])"
    "std_fits (Packet BigPacket CENTERSERVER_RECV_OP_USER [FBin (pk_bytes std_lib ?q)])"
    by (simp_all add: std_eval center_ops)
  from user_message_roundtrip [OF std.packet_codec_axioms fits(1) refl fits(2) refl fits(3), of 0 "csv center_init"
      "demo_ls\<lparr>center_sUserMsgHandlers := [(9, 1)]\<rparr>" False "[]"]
  show ?thesis by (auto simp: um_find_def)
qed

end
