(* ===== verification/CenterThread.thy ===== *)
theory CenterThread
  imports NetThread Cluster
begin

text \<open>
  The center server behind its queue: the handlers of \<open>CenterServerSession\<close> run on the logic thread of
  a \<open>node\<close>. Whatever the threads interleave, its state is one that the transition system of
  CenterServer reaches, where a step is one whole callback of one session: what is proved of
  \<open>center_reach\<close> holds of the threaded server.

  \<^item> \<open>CenterServerSession::onEnter\<close> is empty. Completion callbacks are user code (\<open>user\<close>); nothing under
    src/ queues one.
\<close>

definition session_onEnter :: "saddr \<Rightarrow> 'r center_server \<Rightarrow> 'r center_server" where
  "session_onEnter l s = s"

definition center_handlers ::
  "'r packet_lib \<Rightarrow> bytes \<Rightarrow> (nat \<Rightarrow> 'r center_server \<Rightarrow> 'r center_server result) \<Rightarrow> 'r center_server logic_handlers" where
  "center_handlers P pw user = \<lparr>lh_onEnter = (\<lambda>l s. Inr (session_onEnter l s)), lh_onMsg = session_onMsg P pw,
     lh_onClose = (\<lambda>l s. Inr (session_onClose l s)), lh_callback = user\<rparr>"

text \<open>
  The listening thread makes a session's object; the object of a closed session has nothing to destroy; the
  user's code registers handlers. The tables start as \<open>main\<close> leaves them.
\<close>

definition center_env :: "bool \<Rightarrow> 'r center_server logic_env" where
  "center_env ndebug = \<lparr>le_make = (\<lambda>l s s'. s' = upd_session l (\<lambda>_. CenterServerSession) s),
     le_destroy = (\<lambda>l s s'. s' = s),
     le_other = (\<lambda>s s'. \<exists>op handle. global_registerUserMsgHandle ndebug op handle s = Inr s')\<rparr>"

section \<open>The simulation\<close>

text \<open>What a session of which nothing was handled yet looks like.\<close>

definition untouched :: "saddr \<Rightarrow> 'r center_server \<Rightarrow> bool" where
  "untouched l s \<longleftrightarrow> sessions s l = CenterServerSession \<and> l \<notin> snd ` set (sAllLogicServer s)"

lemma set_um_set: "snd ` set (um_set k v m) \<subseteq> insert v (snd ` set m)"
  by (induction m) (auto simp: um_set_def)

lemma set_um_erase: "snd ` set (um_erase k m) \<subseteq> snd ` set m"
  by (auto simp: um_erase_def AList.delete_eq)

lemma session_onLogin_untouched:
  assumes "untouched k s" and "k \<noteq> l"
  shows "untouched k (session_onLogin P pw l rp s)"
proof -
  have "k \<notin> snd ` set (um_set sid l (sAllLogicServer s))" for sid
    using assms set_um_set [of sid l "sAllLogicServer s"] by (auto simp: untouched_def)
  then show ?thesis using assms
    by (simp add: untouched_def session_onLogin_def global_defs Let_def split: prod.splits)
qed

lemma session_onMsg_untouched:
  assumes "untouched k s" and "k \<noteq> l" and "session_onMsg P pw l data s = Inr s'"
  shows "untouched k s'"
proof -
  have same: "untouched k t" if "sessions t = sessions s" "sAllLogicServer t = sAllLogicServer s"
    for t :: "'a center_server"
    using assms(1) that by (simp add: untouched_def)
  have "untouched k (session_onPing l s)" by (rule same) (simp_all add: session_onPing_def)
  moreover have "session_onRpc P l rp s = Inr s' \<Longrightarrow> untouched k s'" for rp
    by (rule same) (auto simp: session_onRpc_def setRpcFrommer_def Let_def split: option.splits if_splits)
  moreover have "untouched k (session_onUserMsg P l rp s)" for rp
    by (rule same) (auto simp: session_onUserMsg_def Let_def split: option.splits prod.splits)
  ultimately show ?thesis
    using assms session_onLogin_untouched [OF assms(1,2)]
    by (auto simp: session_onMsg_def Let_def split: prod.splits if_splits)
qed

lemma session_onClose_untouched: "untouched k s \<Longrightarrow> untouched k (session_onClose l s)"
  using set_um_erase [of _ "sAllLogicServer s"]
  by (auto simp: untouched_def session_onClose_def global_defs)

lemma run_is_center_run:
  assumes "logic_run ndebug (center_env ndebug) (center_handlers P pw user) (csv center_init) M ms s"
    and "orderly ms" and "\<forall>m\<in>set ms. msg_mMsgType m \<noteq> Net2LogicMsgTypeCompleteCallback"
  shows "\<exists>z. center_reach P pw z \<and> csv z = s \<and> openS z = live_sessions ms \<and>
    (\<forall>l. session_msgs l ms = [] \<longrightarrow> untouched l s)"
  using assms
proof (induction rule: logic_run.induct)
  case start
  have "untouched l (csv center_init)" for l by (simp add: untouched_def center_init_def global_init_def)
  moreover have "openS (center_init :: 'a center_sys) = {}" by (simp add: center_init_def)
  ultimately show ?case using center_reach.start live_simps(1) by metis
next
  case (make M ms s l s')
  then obtain z where z: "center_reach P pw z" "csv z = s" "openS z = live_sessions ms"
    "\<And>l. session_msgs l ms = [] \<Longrightarrow> untouched l s"
    by blast
  have "untouched l s" using run_made [OF make.hyps(1,2)] by (rule z(4))
  then have "s' = s"
    using make.hyps(3) by (simp add: center_env_def upd_session_def untouched_def fun_upd_idem)
  then show ?case using z by blast
next
  case (msg M ms s m s')
  then obtain z where z: "center_reach P pw z" "csv z = s" "openS z = live_sessions ms"
    "\<And>l. session_msgs l ms = [] \<Longrightarrow> untouched l s"
    using orderly_take by fastforce
  have "msg_mMsgType m \<noteq> Net2LogicMsgTypeCompleteCallback" using msg.prems(2) by simp
  with msg.prems(1) msg.hyps(2) show ?case
  proof (cases rule: run_msg_cases)
    case (enter l)
    then have fresh: "untouched l s" using z(4) by blast
    have s': "s' = s" using msg.hyps(3) by (simp add: enter proc_msg_def with_ptr_def center_handlers_def session_onEnter_def)
    have "upd_session l (\<lambda>_. CenterServerSession) s = s"
      using fresh by (simp add: upd_session_def untouched_def fun_upd_idem)
    moreover have "center_step P pw z
        (z\<lparr>csv := upd_session l (\<lambda>_. CenterServerSession) (csv z), openS := insert l (openS z)\<rparr>)"
      using fresh enter z(2,3) by (intro center_step.enter) (simp_all add: untouched_def)
    ultimately have "center_reach P pw (z\<lparr>csv := s, openS := insert l (openS z)\<rparr>)"
      using center_reach.step [OF z(1)] z(2) by simp
    then show ?thesis
      using z(2-4) s' live_enter [OF enter(3)] enter(1)
      by (intro exI [of _ "z\<lparr>csv := s, openS := insert l (openS z)\<rparr>"]) (auto split: if_splits)
  next
    case (data l p)
    have run: "session_onMsg P pw l p s = Inr s'"
      using msg.hyps(3) by (simp add: data proc_msg_def with_ptr_def center_handlers_def)
    have "center_step P pw z (z\<lparr>csv := s'\<rparr>)" using data(2) run z(2,3) by (intro center_step.msg) auto
    then show ?thesis
      using center_reach.step [OF z(1)] z data session_onMsg_untouched [OF _ _ run] live_simps(2)
      by (fastforce split: if_splits)
  next
    case (close l)
    have s': "s' = session_onClose l s"
      using msg.hyps(3) by (simp add: close proc_msg_def with_ptr_def center_handlers_def)
    let ?z = "z\<lparr>csv := session_onClose l (csv z), openS := openS z - {l}\<rparr>"
    have "center_step P pw z ?z" using close(2) z(3) by (intro center_step.close) simp
    then have "center_reach P pw ?z" by (rule center_reach.step [OF z(1)])
    moreover have "untouched k s'" if "session_msgs k (ms @ [m]) = []" for k
      unfolding s' using that by (intro session_onClose_untouched z(4)) simp
    moreover have "csv ?z = s'" "openS ?z = live_sessions (ms @ [m])" using z(2,3) s' by (simp_all add: close live_simps(3))
    ultimately show ?thesis by blast
  qed
next
  case (destroy M ms s l s')
  then show ?case by (simp add: center_env_def)
next
  case (other M ms s s')
  then obtain z where z: "center_reach P pw z" "csv z = s" "openS z = live_sessions ms"
    "\<And>l. session_msgs l ms = [] \<Longrightarrow> untouched l s"
    by blast
  obtain op handle where reg: "global_registerUserMsgHandle ndebug op handle s = Inr s'"
    using other.hyps(2) by (auto simp: center_env_def)
  then have "untouched l s \<longleftrightarrow> untouched l s'" for l
    by (auto simp: global_registerUserMsgHandle_def untouched_def results)
  moreover have "center_reach P pw (z\<lparr>csv := s'\<rparr>)"
    using reg z(2) by (intro center_reach.step [OF z(1)] center_step.register) simp
  ultimately show ?case using z by (intro exI [of _ "z\<lparr>csv := s'\<rparr>"]) simp
qed

section \<open>Property\<close>

text \<open>
  C9: The threads do not matter to the center server. In every state the threaded server reaches (any
  interleaving of network threads, syncs and the logic thread, as long as no completion callback ran),
  the logic thread's state is one the sequential transition system reaches, with the sessions it has
  seen enter and not close; so under every id but -1 the table holds exactly such a session, the one
  that logged in with it.
\<close>

theorem center_behind_queue:
  assumes "msg_queue Q wlist slist rlist" and "packet_wire P"
    and "node_reach ndebug Q P (center_env ndebug) (center_handlers P pw user) (csv center_init) y"
    and "\<forall>m\<in>set (handled y). msg_mMsgType m \<noteq> Net2LogicMsgTypeCompleteCallback"
  shows "\<exists>z. center_reach P pw z \<and> csv z = logic y \<and> openS z = live_sessions (handled y) \<and>
    (\<forall>sid l. sid \<noteq> - 1 \<longrightarrow> (um_find (sAllLogicServer (logic y)) sid = Some l \<longleftrightarrow>
       l \<in> live_sessions (handled y) \<and> center_mID (sessions (logic y) l) = sid))"
proof -
  have io: "node_io Q wlist slist rlist P" using assms(1,2) by (intro node_io.intro logic_queue.intro)
  note inv = node_io.node_reach_inv [OF io assms(3)]
  have "orderly (handled y)"
    using node_io.node_seen [OF io assms(3)] by (fastforce simp: orderly_def)
  moreover have "logic_run ndebug (center_env ndebug) (center_handlers P pw user) (csv center_init) (made y)
      (handled y) (logic y)"
    using inv by (simp add: queue_inv_def)
  ultimately obtain z where z: "center_reach P pw z" "csv z = logic y" "openS z = live_sessions (handled y)"
    using run_is_center_run assms(4) by blast
  then show ?thesis
    using center_reach_inv [OF z(1)] by (intro exI [of _ z]) (auto simp: center_inv_def)
qed

text \<open>A run for the witness: session 0 enters and logs in as 4; the logic thread handles both messages.\<close>

definition login_node :: "std_reader center_server \<Rightarrow> (net2logic_msg std_queue, std_reader center_server) node" where
  "login_node s = (entered_node 0 s)\<lparr>popping := True, received := (\<lambda>_. [])(0 := center_login [4, 0, 0, 0]),
     handled := [enter_msg 0, data_msg 0 (center_login [4, 0, 0, 0])]\<rparr>"

lemma login_cut: "ext_cut std_lib (center_login [4, 0, 0, 0]) = Some 15" "ext_cut std_lib [] = None"
  by (simp_all add: ext_cut_def center_login_def std_lib_simps)

lemma login_length: "take 15 (center_login [4, 0, 0, 0]) = center_login [4, 0, 0, 0]"
    "drop 15 (center_login [4, 0, 0, 0]) = []"
  by (simp_all add: center_login_def)

lemma login_reach:
  assumes new: "sessions s0 0 = CenterServerSession"
    and login: "session_onMsg std_lib pw 0 (center_login [4, 0, 0, 0]) s0 = Inr s"
  shows "node_reach ndebug std_queue_lib std_lib (center_env ndebug) (center_handlers std_lib pw user) s0 (login_node s)"
proof -
  let ?H = "center_handlers std_lib pw user"
  let ?E = "center_env ndebug"
  let ?step = "node_step ndebug std_queue_lib std_lib ?E ?H"
  let ?reach = "node_reach ndebug std_queue_lib std_lib ?E ?H s0"
  let ?m = "data_msg 0 (center_login [4, 0, 0, 0])"
  define y1 :: "(net2logic_msg std_queue, std_reader center_server) node" where "y1 = entered_node 0 s0"
  let ?n = "\<lambda>q. (net y1)\<lparr>gNet2LogicMsgList := q\<rparr>"
  define y2 where "y2 = y1\<lparr>unparsed := (unparsed y1)(0 := center_login [4, 0, 0, 0]),
    received := (received y1)(0 := center_login [4, 0, 0, 0])\<rparr>"
  define y3 where "y3 = y2\<lparr>net := ?n ([?m], [], []), unparsed := (unparsed y2)(0 := [])\<rparr>"
  define y4 where "y4 = y3\<lparr>net := ?n ([], [?m], [])\<rparr>"
  define y5 where "y5 = y4\<lparr>net := ?n ([], [], [?m]), popping := True\<rparr>"
  define y6 where "y6 = y5\<lparr>net := ?n ([], [], []), logic := s, handled := [enter_msg 0, ?m]\<rparr>"
  note ys = y1_def y2_def y3_def y4_def y5_def y6_def entered_node_def
  have "?reach y1" unfolding y1_def using new
    by (intro enter_reach [where ?s1.0 = s0])
      (simp_all add: center_env_def center_handlers_def session_onEnter_def upd_session_def fun_upd_idem)
  moreover have "?step y1 y2"
    using node_step.recv [of 0 y1 std_lib ndebug std_queue_lib ?E ?H "center_login [4, 0, 0, 0]"]
    by (simp add: ys login_cut)
  moreover have "?step y2 y3"
  proof -
    have "ext_step std_lib (pushDataMsg2LogicMsgList std_queue_lib 0) (unparsed y2 0) (net y2) = Some (15, Inr (net y3))"
      by (simp add: ys ext_step_cut login_cut login_length) (simp add: demo_eval)
    from node_step.cut [OF _ this] show ?thesis
      by (simp add: ys login_length)
  qed
  moreover have "?step y3 y4"
    using node_step.force [of ndebug std_queue_lib std_lib ?E ?H y3] by (simp add: ys sync_force_def std_queue_lib_def)
  moreover have "?step y4 y5"
    using node_step.read [of y4 ndebug std_queue_lib std_lib ?E ?H] by (simp add: ys std_queue_lib_def)
  moreover have "?step y5 y6"
    using node_step.pop [of y5 std_queue_lib ?m "([], [], [])" ndebug ?H s std_lib ?E] login
    by (simp add: ys std_queue_lib_def proc_msg_def with_ptr_def center_handlers_def)
  moreover have "y6 = login_node s" by (simp add: ys login_node_def fun_upd_idem_iff)
  ultimately show ?thesis by (metis node_reach.step)
qed

theorem center_behind_queue_witness:
  "\<exists>s. session_onMsg std_lib [112] 0 (center_login [4, 0, 0, 0]) (csv center_init) = Inr s \<and>
     0 \<in> live_sessions [enter_msg 0, data_msg 0 (center_login [4, 0, 0, 0])] \<and>
     (\<exists>z. center_reach std_lib [112] z \<and> csv z = s \<and> um_find (sAllLogicServer s) 4 = Some 0)"
proof -
  obtain s where s: "session_onMsg std_lib [112] 0 (center_login [4, 0, 0, 0]) (csv center_init) = Inr s"
    "center_mID (sessions s 0) = 4"
    by (simp add: center_login_def center_ops std_eval center_eval)
  have new: "sessions (csv center_init) 0 = CenterServerSession" by (simp add: center_init_def global_init_def)
  let ?y = "login_node s"
  have y: "logic ?y = s" "handled ?y = [enter_msg 0, data_msg 0 (center_login [4, 0, 0, 0])]"
    by (simp_all add: login_node_def entered_node_def)
  have live: "0 \<in> live_sessions (handled ?y)" by (simp add: y live_sessions_def)
  show ?thesis
    using center_behind_queue [OF stdq.msg_queue_axioms std.packet_wire_axioms
        login_reach [OF new s(1), of False "\<lambda>c s. Inr s"]] live s
    by (auto simp: y)
qed

end
