(* ===== verification/LogicThread.thy ===== *)
theory LogicThread
  imports NetThread LogicProps
begin

text \<open>
  The logic server behind its queue: \<open>ConnectionServerConnection\<close> and \<open>CenterServerConnection\<close> are the
  logic sessions of one node, and their callbacks run on its logic thread. Whatever the connecting
  threads, the network threads, the etcd thread and the timers interleave, the logic server's state is one
  the transition system of LogicProps reaches, so at most one connection per connection server is logged in.

  \<^item> \<open>host_centers\<close> are the sessions whose object is a \<open>CenterServerConnection\<close>: the class decides which
    override a message calls. Completion callbacks are user code (\<open>user\<close>); nothing under src/ queues one.
\<close>

record 'r host =
  hsv :: "'r logic_server"
  host_centers :: "nat set"

definition upd_host :: "'r host \<Rightarrow> 'r logic_server \<Rightarrow> 'r host" where
  "upd_host h s = h\<lparr>hsv := s\<rparr>"

definition host_init :: "'r host" where
  "host_init = \<lparr>hsv = ls_empty, host_centers = {}\<rparr>"

definition host_handlers ::
  "bool \<Rightarrow> 'r packet_lib \<Rightarrow> logic_config \<Rightarrow> (nat \<Rightarrow> 'r host \<Rightarrow> 'r host result) \<Rightarrow> 'r host logic_handlers" where
  "host_handlers ndebug P cfg user = \<lparr>
     lh_onEnter = (\<lambda>l h. Inr (upd_host h
       (if l \<in> host_centers h then center_onEnter cfg (hsv h) else csconn_onEnter cfg l (hsv h)))),
     lh_onMsg = (\<lambda>l data h. rbind
       (if l \<in> host_centers h then center_onMsg ndebug P data (hsv h) else csconn_onMsg ndebug P l data (hsv h))
       (\<lambda>s. Inr (upd_host h s))),
     lh_onClose = (\<lambda>l h. Inr (upd_host h
       (if l \<in> host_centers h then center_onClose (hsv h) else csconn_onClose l (hsv h)))),
     lh_callback = user\<rparr>"

text \<open>A connecting thread makes the object of one class or the other.\<close>

inductive host_make :: "nat \<Rightarrow> 'r host \<Rightarrow> 'r host \<Rightarrow> bool" for l h where
  conn: "host_make l h (h\<lparr>hsv := new_conn l (ConnectionServerConnection idInEtcd port password ip) (hsv h),
    host_centers := host_centers h - {l}\<rparr>)"
| center: "host_make l h (h\<lparr>hsv := CenterServerConnection (hsv h), host_centers := insert l (host_centers h)\<rparr>)"

text \<open>An object is destroyed when nothing points to it, so not while the table of connection servers does.\<close>

inductive host_destroy :: "nat \<Rightarrow> 'r host \<Rightarrow> 'r host \<Rightarrow> bool" for l h where
  conn: "l \<notin> host_centers h \<Longrightarrow> Some l \<notin> snd ` set (gAllLogicConnectionServerClient (hsv h)) \<Longrightarrow>
    host_destroy l h (upd_host h (csconn_destroy pending l (hsv h)))"
| center: "l \<in> host_centers h \<Longrightarrow> host_destroy l h (upd_host h (center_destroy pending (hsv h)))"

definition host_env :: "bool \<Rightarrow> 'r host logic_env" where
  "host_env ndebug = \<lparr>le_make = host_make, le_destroy = host_destroy,
     le_other = (\<lambda>h h'. host_centers h' = host_centers h \<and> ls_other ndebug (hsv h) (hsv h'))\<rparr>"

lemma upd_host_sel [simp]: "hsv (upd_host h s) = s" "host_centers (upd_host h s) = host_centers h"
  by (simp_all add: upd_host_def)

lemmas host_runs = proc_msg_def with_ptr_def host_handlers_def

section \<open>The simulation\<close>

text \<open>The sequential state \<open>z\<close> that stands for the host after the messages \<open>ms\<close>.\<close>

definition host_sim :: "nat set \<Rightarrow> net2logic_msg list \<Rightarrow> 'r host \<Rightarrow> 'r ls_sys \<Rightarrow> bool" where
  "host_sim M ms h z \<longleftrightarrow> lsv z = hsv h \<and> openK z = live_sessions ms - host_centers h \<and>
     fresh z = {l \<in> M. session_msgs l ms = []} - host_centers h"

lemma live_msgs: "l \<in> live_sessions ms \<Longrightarrow> session_msgs l ms \<noteq> []"
  by (auto simp: live_sessions_def session_msgs_def filter_empty_conv intro: bexI [of _ "enter_msg l"])

lemma run_is_ls_run:
  assumes "logic_run ndebug (host_env ndebug) (host_handlers ndebug P cfg user) host_init M ms h"
    and "orderly ms" and "\<forall>m\<in>set ms. msg_mMsgType m \<noteq> Net2LogicMsgTypeCompleteCallback"
  shows "\<exists>z. ls_reach ndebug P cfg z \<and> host_sim M ms h z"
  using assms
proof (induction rule: logic_run.induct)
  case start
  have "host_sim {} [] host_init ls_init" by (simp add: host_sim_def host_init_def ls_init_def live_simps)
  then show ?case using ls_reach.start by blast
next
  case (make M ms h l h')
  then obtain z where z: "ls_reach ndebug P cfg z" "host_sim M ms h z" by blast
  have none: "session_msgs l ms = []" using run_made [OF make.hyps(1,2)] .
  then have dead: "l \<notin> live_sessions ms" using live_msgs by blast
  have "host_make l h h'" using make.hyps(3) by (simp add: host_env_def)
  then show ?case
  proof cases
    case (conn e port pw ip)
    let ?z = "z\<lparr>lsv := new_conn l (ConnectionServerConnection e port pw ip) (lsv z), fresh := insert l (fresh z)\<rparr>"
    have "ls_step ndebug P cfg z ?z"
      using z(2) dead make.hyps(2) by (intro ls_step.create) (auto simp: host_sim_def)
    moreover have "host_sim (insert l M) ms h' ?z" using z(2) conn none dead by (auto simp: host_sim_def)
    ultimately show ?thesis using ls_reach.step [OF z(1)] by blast
  next
    case center
    let ?z = "z\<lparr>lsv := CenterServerConnection (lsv z)\<rparr>"
    have "ls_step ndebug P cfg z ?z" by (intro ls_step.other ls_other.center_create)
    moreover have "host_sim (insert l M) ms h' ?z" using z(2) center dead make.hyps(2) none by (auto simp: host_sim_def)
    ultimately show ?thesis using ls_reach.step [OF z(1)] by blast
  qed
next
  case (msg M ms h m h')
  then obtain z where z: "ls_reach ndebug P cfg z" "host_sim M ms h z"
    using orderly_take by fastforce
  note next_z = ls_reach.step [OF z(1)]
  have "msg_mMsgType m \<noteq> Net2LogicMsgTypeCompleteCallback" using msg.prems(2) by simp
  with msg.prems(1) msg.hyps(2) show ?case
  proof (cases rule: run_msg_cases)
    case (enter l)
    have live: "live_sessions (ms @ [m]) = insert l (live_sessions ms)" using live_enter [OF enter(3)] enter(1) by simp
    show ?thesis
    proof (cases "l \<in> host_centers h")
      case True
      let ?z = "z\<lparr>lsv := center_onEnter cfg (lsv z)\<rparr>"
      have "host_sim M (ms @ [m]) h' ?z"
        using True msg.hyps(3) z(2) live by (auto simp: enter(1) host_sim_def host_runs)
      then show ?thesis using next_z [OF ls_step.center_enter] by blast
    next
      case False
      let ?z = "z\<lparr>lsv := csconn_onEnter cfg l (lsv z), openK := insert l (openK z), fresh := fresh z - {l}\<rparr>"
      have "ls_step ndebug P cfg z ?z"
        using False enter z(2) by (intro ls_step.enter) (simp add: host_sim_def)
      moreover have "host_sim M (ms @ [m]) h' ?z"
        using False msg.hyps(3) z(2) live by (auto simp: enter(1) host_sim_def host_runs)
      ultimately show ?thesis using next_z by blast
    qed
  next
    case (data l p)
    have sess: "session_msgs k (ms @ [m]) = [] \<longleftrightarrow> session_msgs k ms = []" for k
      using live_msgs [OF data(2)] by (auto simp: data(1))
    obtain s where s: "hsv h' = s" "host_centers h' = host_centers h"
      "(if l \<in> host_centers h then center_onMsg ndebug P p (hsv h) else csconn_onMsg ndebug P l p (hsv h)) = Inr s"
      using msg.hyps(3) by (auto simp: data(1) host_runs rbind_def split: sum.splits)
    have "ls_step ndebug P cfg z (z\<lparr>lsv := s\<rparr>)"
      using s(3) z(2) data(2)
      by (cases "l \<in> host_centers h") (simp_all add: host_sim_def ls_step.center_msg ls_step.msg)
    moreover have "host_sim M (ms @ [m]) h' (z\<lparr>lsv := s\<rparr>)"
      using z(2) s sess by (simp add: host_sim_def data(1) live_simps)
    ultimately show ?thesis using next_z by blast
  next
    case (close l)
    have sess: "session_msgs k (ms @ [m]) = [] \<longleftrightarrow> session_msgs k ms = []" for k
      using live_msgs [OF close(2)] by (auto simp: close(1))
    show ?thesis
    proof (cases "l \<in> host_centers h")
      case True
      let ?z = "z\<lparr>lsv := center_onClose (lsv z)\<rparr>"
      have "host_sim M (ms @ [m]) h' ?z"
        using True msg.hyps(3) z(2) sess by (auto simp: close(1) host_sim_def host_runs live_simps)
      then show ?thesis using next_z [OF ls_step.center_close] by blast
    next
      case False
      let ?z = "z\<lparr>lsv := csconn_onClose l (lsv z), openK := openK z - {l}\<rparr>"
      have "ls_step ndebug P cfg z ?z"
        using False close(2) z(2) by (intro ls_step.close) (simp add: host_sim_def)
      moreover have "host_sim M (ms @ [m]) h' ?z"
        using False msg.hyps(3) z(2) sess by (auto simp: close(1) host_sim_def host_runs live_simps)
      ultimately show ?thesis using next_z by blast
    qed
  qed
next
  case (destroy M ms h l h')
  then obtain z where z: "ls_reach ndebug P cfg z" "host_sim M ms h z" by blast
  have "host_destroy l h h'" using destroy.hyps(3) by (simp add: host_env_def)
  then show ?case
  proof cases
    case (conn pending)
    have "l \<notin> live_sessions ms" "session_msgs l ms \<noteq> []"
      using destroy.hyps(2) in_session_msgs [of "close_msg l" l ms] by (auto simp: live_sessions_def)
    then have "ls_step ndebug P cfg z (z\<lparr>lsv := csconn_destroy pending l (lsv z)\<rparr>)"
      using conn z(2) by (intro ls_step.destroy) (auto simp: host_sim_def)
    moreover have "host_sim M ms h' (z\<lparr>lsv := csconn_destroy pending l (lsv z)\<rparr>)"
      using conn z(2) by (simp add: host_sim_def)
    ultimately show ?thesis using ls_reach.step [OF z(1)] by blast
  next
    case (center pending)
    then have "host_sim M ms h' (z\<lparr>lsv := center_destroy pending (lsv z)\<rparr>)"
      using z(2) by (simp add: host_sim_def)
    then show ?thesis using ls_reach.step [OF z(1) ls_step.other [OF ls_other.center_destroy]] by blast
  qed
next
  case (other M ms h h')
  then obtain z where z: "ls_reach ndebug P cfg z" "host_sim M ms h z" by blast
  have "host_centers h' = host_centers h" "ls_other ndebug (lsv z) (hsv h')"
    using other.hyps(2) z(2) by (simp_all add: host_env_def host_sim_def)
  then have "host_sim M ms h' (z\<lparr>lsv := hsv h'\<rparr>)" "ls_step ndebug P cfg z (z\<lparr>lsv := hsv h'\<rparr>)"
    using z(2) by (simp_all add: host_sim_def ls_step.other)
  then show ?case using ls_reach.step [OF z(1)] by blast
qed

section \<open>Property\<close>

text \<open>
  C10: The threads do not matter to the logic server. In every state the threaded logic server reaches (any
  interleaving of connecting threads, network threads, syncs, the etcd thread, timers and the logic thread,
  as long as no completion callback ran), its state is one the sequential transition system reaches, with
  the connections to connection servers it has seen enter and not close; so of those to one connection
  server at most one has logged in.
\<close>

theorem logic_behind_queue:
  assumes "msg_queue Q wlist slist rlist" and "packet_wire P"
    and "node_reach ndebug Q P (host_env ndebug) (host_handlers ndebug P cfg user) host_init y"
    and "\<forall>m\<in>set (handled y). msg_mMsgType m \<noteq> Net2LogicMsgTypeCompleteCallback"
  shows "\<exists>z. ls_reach ndebug P cfg z \<and> lsv z = hsv (logic y) \<and>
    openK z = live_sessions (handled y) - host_centers (logic y) \<and>
    (\<forall>k\<in>openK z. \<forall>j\<in>openK z. cc_mIsSuccess (conns (lsv z) k) \<longrightarrow> cc_mIsSuccess (conns (lsv z) j) \<longrightarrow>
       cc_mIDInEtcd (conns (lsv z) k) = cc_mIDInEtcd (conns (lsv z) j) \<longrightarrow> k = j)"
proof -
  have io: "node_io Q wlist slist rlist P" using assms(1,2) by (intro node_io.intro logic_queue.intro)
  note inv = node_io.node_reach_inv [OF io assms(3)]
  have "orderly (handled y)"
    using node_io.node_seen [OF io assms(3)] by (fastforce simp: orderly_def)
  moreover have "logic_run ndebug (host_env ndebug) (host_handlers ndebug P cfg user) host_init (made y)
      (handled y) (logic y)"
    using inv by (simp add: queue_inv_def)
  ultimately obtain z where z: "ls_reach ndebug P cfg z" "host_sim (made y) (handled y) (logic y) z"
    using run_is_ls_run assms(4) by blast
  then show ?thesis
    using ls_reach_inv [OF z(1)] by (intro exI [of _ z]) (simp add: host_sim_def conn_inv_def)
qed

text \<open>The connection 0 to the server listed as 5 is made and enters: it has logged in, and is the only one.\<close>

theorem logic_behind_queue_witness:
  "\<exists>z. ls_reach False std_lib demo_lcfg z \<and> openK z = {0} \<and> cc_mIsSuccess (conns (lsv z) 0) \<and>
     um_find (alreadyConnectingServers (lsv z)) 5 = Some ([49], 80)"
proof -
  let ?c = "ConnectionServerConnection 5 80 [112, 119] [49]"
  define h1 :: "std_reader host" where "h1 = host_init\<lparr>hsv := new_conn 0 ?c ls_empty, host_centers := {}\<rparr>"
  define h where "h = upd_host h1 (csconn_onEnter demo_lcfg 0 (hsv h1))"
  have "le_make (host_env False) 0 host_init h1"
    using host_make.conn [of 0 host_init 5 80 "[112, 119]" "[49]"] by (simp add: host_env_def h1_def host_init_def)
  moreover have "lh_onEnter (host_handlers False std_lib demo_lcfg (\<lambda>_ h. Inr h)) 0 h1 = Inr h"
    by (simp add: host_handlers_def h_def) (simp add: h1_def)
  ultimately have reach: "node_reach False std_queue_lib std_lib (host_env False)
      (host_handlers False std_lib demo_lcfg (\<lambda>_ h. Inr h)) host_init (entered_node 0 h)"
    by (rule enter_reach)
  have live: "live_sessions (handled (entered_node 0 h)) - host_centers (logic (entered_node 0 h)) = {0}"
    by (auto simp: entered_node_def live_sessions_def h_def h1_def)
  have cb: "\<forall>m\<in>set (handled (entered_node 0 h)). msg_mMsgType m \<noteq> Net2LogicMsgTypeCompleteCallback"
    by (simp add: entered_node_def)
  obtain z where z: "ls_reach False std_lib demo_lcfg z" "lsv z = hsv h" "openK z = {0}"
    using logic_behind_queue [OF stdq.msg_queue_axioms std.packet_wire_axioms reach cb] live
    by (auto simp: entered_node_def)
  moreover have "cc_mIsSuccess (conns (hsv h) 0)" "um_find (alreadyConnectingServers (hsv h)) 5 = Some ([49], 80)"
    by (simp_all add: h_def h1_def new_conn_def csconn_onEnter_def ConnectionServerConnection_def
        isAlreadyConnecting_def addConnectingServer_def cs_ping_def ls_empty_def Let_def)
  ultimately show ?thesis by metis
qed

end
