(* ===== verification/Log.thy ===== *)
theory Log
  imports MsgQueue "HOL-Library.Sublist"
begin

text \<open>
  The log of every server (Common/WrapLog.h): any thread formats a line and queues it, and a thread of its
  own writes the queued lines to the disk, and to the console those with fewer than 100 lines behind them.

  \<^item> The queue is the library's (MsgQueue). \<open>fmt::format\<close> is the parameter \<open>F\<close>: \<open>Inl\<close> is the text of the
    \<open>FormatError\<close> it throws.
  \<^item> A logger of spdlog is the lines it was given and how many of them are flushed. \<open>force_log\<close> with no
    arguments writes the text as it is. spdlog reports a failed write by throwing out of the destructor of
    \<open>line_logger\<close>, which ends the process before the handler of the loop can run; a run has no such write.
  \<^item> Colours are set on Windows only.
\<close>

section \<open>Levels\<close>

text \<open>\<open>spdlog::level::level_enum\<close>.\<close>

datatype level_enum =
    Level_trace | Level_debug | Level_info | Level_notice | Level_warn | Level_err | Level_critical
  | Level_alert | Level_emerg | Level_off

primrec level_num :: "level_enum \<Rightarrow> nat" where
  "level_num Level_trace = 0"
| "level_num Level_debug = 1"
| "level_num Level_info = 2"
| "level_num Level_notice = 3"
| "level_num Level_warn = 4"
| "level_num Level_err = 5"
| "level_num Level_critical = 6"
| "level_num Level_alert = 7"
| "level_num Level_emerg = 8"
| "level_num Level_off = 9"

instantiation level_enum :: linorder
begin

definition less_eq_level_enum :: "level_enum \<Rightarrow> level_enum \<Rightarrow> bool" where
  "less_eq_level_enum a b \<longleftrightarrow> level_num a \<le> level_num b"

definition less_level_enum :: "level_enum \<Rightarrow> level_enum \<Rightarrow> bool" where
  "less_level_enum a b \<longleftrightarrow> level_num a < level_num b"

instance
proof
  fix a b :: level_enum
  show "a = b" if "a \<le> b" "b \<le> a"
    using that by (cases a; cases b) (simp_all add: less_eq_level_enum_def)
qed (auto simp: less_eq_level_enum_def less_level_enum_def)

end

section \<open>The state\<close>

record thread_log =
  tl_type :: level_enum
  tl_msg :: bytes

definition ThreadLog :: "level_enum \<Rightarrow> bytes \<Rightarrow> thread_log" where
  "ThreadLog aType aMsg = \<lparr>tl_type = aType, tl_msg = aMsg\<rparr>"

datatype ConsoleAttribute =
    CONSOLE_INTENSE | CONSOLE_NO_INTENSE | CONSOLE_BLACK | CONSOLE_WHITE | CONSOLE_RED | CONSOLE_GREEN
  | CONSOLE_BLUE | CONSOLE_YELLOW | CONSOLE_MAGENTA | CONSOLE_CYAN

type_synonym log_line = "level_enum \<times> bytes"

record logger =
  lg_lines :: "log_line list"
  lg_flushed :: nat

record 'q wrap_log =
  mLogQueue :: 'q
  mConsoleLogger :: "logger option"
  mDiskLogger :: "logger option"
  mLevel :: level_enum
  mCurrentColor :: ConsoleAttribute
  mLogThread :: bool                \<comment> \<open>\<open>joinable()\<close>\<close>
  mIsClose :: bool

definition setColor :: "ConsoleAttribute \<Rightarrow> 'q wrap_log \<Rightarrow> 'q wrap_log" where
  "setColor ca w = w"

definition setLevel :: "level_enum \<Rightarrow> 'q wrap_log \<Rightarrow> 'q wrap_log" where
  "setLevel num w = w\<lparr>mLevel := num\<rparr>"

text \<open>The constructor; \<open>junk\<close> are the members it has not set yet.\<close>

definition WrapLog :: "('q, thread_log) queue_lib \<Rightarrow> level_enum \<Rightarrow> bool \<Rightarrow> 'q wrap_log" where
  "WrapLog Q junk_level junk_close =
     (let w = \<lparr>mLogQueue = mq_new Q, mConsoleLogger = None, mDiskLogger = None, mLevel = junk_level,
            mCurrentColor = CONSOLE_INTENSE, mLogThread = False, mIsClose = junk_close\<rparr>
      in (setLevel Level_debug (setColor CONSOLE_GREEN w))\<lparr>mIsClose := False\<rparr>)"

definition empty_logger :: logger where
  "empty_logger = \<lparr>lg_lines = [], lg_flushed = 0\<rparr>"

definition setFile :: "bytes \<Rightarrow> bytes \<Rightarrow> 'q wrap_log \<Rightarrow> 'q wrap_log" where
  "setFile name fileName w =
     (if \<not> mLogThread w
      then w\<lparr>mConsoleLogger := Some empty_logger, mDiskLogger := Some empty_logger, mLogThread := True\<rparr>
      else w)"

text \<open>\<open>stop\<close> up to the \<open>join\<close>, and the \<open>join\<close>, which returns once the log thread is over.\<close>

definition stop_close :: "'q wrap_log \<Rightarrow> 'q wrap_log" where
  "stop_close w = w\<lparr>mIsClose := True\<rparr>"

definition stop_join :: "'q wrap_log \<Rightarrow> 'q wrap_log" where
  "stop_join w = w\<lparr>mLogThread := False\<rparr>"

section \<open>Queueing a line\<close>

definition shouldLog :: "level_enum \<Rightarrow> 'q wrap_log \<Rightarrow> bool" where
  "shouldLog num w \<longleftrightarrow> num \<ge> mLevel w"

text \<open>The critical section.\<close>

definition push_line :: "('q, thread_log) queue_lib \<Rightarrow> thread_log \<Rightarrow> 'q wrap_log \<Rightarrow> 'q wrap_log" where
  "push_line Q m w = w\<lparr>mLogQueue := mq_forceSyncWrite Q (mq_push Q m (mLogQueue w))\<rparr>"

type_synonym 'a fmt_lib = "bytes \<Rightarrow> 'a \<Rightarrow> bytes + bytes"

definition log_of :: "'a fmt_lib \<Rightarrow> level_enum \<Rightarrow> bytes \<Rightarrow> 'a \<Rightarrow> thread_log" where
  "log_of F type fmt args = (case F fmt args of
       Inr str \<Rightarrow> ThreadLog type str
     | Inl what \<Rightarrow> ThreadLog Level_err (fmt @ string_bytes '' format error:'' @ what))"

definition pushLog ::
  "('q, thread_log) queue_lib \<Rightarrow> 'a fmt_lib \<Rightarrow> level_enum \<Rightarrow> bytes \<Rightarrow> 'a \<Rightarrow> 'q wrap_log \<Rightarrow> 'q wrap_log" where
  "pushLog Q F type fmt args w =
     (if shouldLog type w then push_line Q (log_of F type fmt args) w else w)"

definition log_debug :: "('q, thread_log) queue_lib \<Rightarrow> 'a fmt_lib \<Rightarrow> bytes \<Rightarrow> 'a \<Rightarrow> 'q wrap_log \<Rightarrow> 'q wrap_log" where
  "log_debug Q F fmt args w = pushLog Q F Level_debug fmt args w"

definition log_info :: "('q, thread_log) queue_lib \<Rightarrow> 'a fmt_lib \<Rightarrow> bytes \<Rightarrow> 'a \<Rightarrow> 'q wrap_log \<Rightarrow> 'q wrap_log" where
  "log_info Q F fmt args w = pushLog Q F Level_info fmt args w"

definition log_warn :: "('q, thread_log) queue_lib \<Rightarrow> 'a fmt_lib \<Rightarrow> bytes \<Rightarrow> 'a \<Rightarrow> 'q wrap_log \<Rightarrow> 'q wrap_log" where
  "log_warn Q F fmt args w = pushLog Q F Level_warn fmt args w"

definition log_error :: "('q, thread_log) queue_lib \<Rightarrow> 'a fmt_lib \<Rightarrow> bytes \<Rightarrow> 'a \<Rightarrow> 'q wrap_log \<Rightarrow> 'q wrap_log" where
  "log_error Q F fmt args w = pushLog Q F Level_err fmt args w"

section \<open>The log thread\<close>

definition line_of :: "thread_log \<Rightarrow> log_line" where
  "line_of log = (tl_type log, c_str (tl_msg log))"

definition force_log :: "log_line \<Rightarrow> logger option \<Rightarrow> logger result" where
  "force_log line p = (case p of
       None \<Rightarrow> Inl NullDeref
     | Some lg \<Rightarrow> Inr (lg\<lparr>lg_lines := lg_lines lg @ [line]\<rparr>))"

definition outputDisk :: "thread_log \<Rightarrow> 'q wrap_log \<Rightarrow> 'q wrap_log result" where
  "outputDisk log w = rbind (force_log (line_of log) (mDiskLogger w)) (\<lambda>lg. Inr (w\<lparr>mDiskLogger := Some lg\<rparr>))"

definition outputConcole :: "thread_log \<Rightarrow> 'q wrap_log \<Rightarrow> 'q wrap_log result" where
  "outputConcole log w =
     (let w1 = (case tl_type log of
            Level_debug \<Rightarrow> setColor CONSOLE_CYAN w
          | Level_info \<Rightarrow> setColor CONSOLE_GREEN w
          | Level_warn \<Rightarrow> setColor CONSOLE_YELLOW w
          | Level_err \<Rightarrow> setColor CONSOLE_RED w
          | _ \<Rightarrow> w)
      in rbind (force_log (line_of log) (mConsoleLogger w1)) (\<lambda>lg. Inr (w1\<lparr>mConsoleLogger := Some lg\<rparr>)))"

definition maxConsole :: nat where "maxConsole = 100"

text \<open>The loop's body on a popped line, the loop, and one turn of the thread's own loop.\<close>

definition log_one :: "('q, thread_log) queue_lib \<Rightarrow> thread_log \<Rightarrow> 'q wrap_log \<Rightarrow> 'q wrap_log result" where
  "log_one Q tmp w = rbind (outputDisk tmp w) (\<lambda>w1.
     if mq_readListSize Q (mLogQueue w1) < maxConsole then outputConcole tmp w1 else Inr w1)"

partial_function (option) log_drain ::
  "('q, thread_log) queue_lib \<Rightarrow> 'q wrap_log \<Rightarrow> 'q wrap_log result option" where
  "log_drain Q w = (case mq_popFront Q (mLogQueue w) of
       None \<Rightarrow> Some (Inr w)
     | Some (tmp, q) \<Rightarrow> (case log_one Q tmp (w\<lparr>mLogQueue := q\<rparr>) of
           Inl f \<Rightarrow> Some (Inl f)
         | Inr w1 \<Rightarrow> log_drain Q w1))"

definition log_flush :: "'q wrap_log \<Rightarrow> 'q wrap_log result" where
  "log_flush w = (case mDiskLogger w of
       None \<Rightarrow> Inl NullDeref
     | Some lg \<Rightarrow> Inr (w\<lparr>mDiskLogger := Some (lg\<lparr>lg_flushed := length (lg_lines lg)\<rparr>)\<rparr>))"

definition log_read :: "('q, thread_log) queue_lib \<Rightarrow> 'q wrap_log \<Rightarrow> 'q wrap_log" where
  "log_read Q w = w\<lparr>mLogQueue := mq_syncRead Q 5 (mLogQueue w)\<rparr>"

definition log_turn :: "('q, thread_log) queue_lib \<Rightarrow> 'q wrap_log \<Rightarrow> 'q wrap_log result option" where
  "log_turn Q w = map_option (\<lambda>r. rbind r log_flush) (log_drain Q (log_read Q w))"

section \<open>The threads together\<close>

text \<open>
  \<open>queued\<close> is the history of the lines queued, oldest first. A caller of \<open>pushLog\<close> that passed the test of
  the level enters its critical section some time later (\<open>push\<close>). The log thread tests \<open>mIsClose\<close> where it
  reads again or ends.
\<close>

record 'q log_sys =
  lw :: "'q wrap_log"
  draining :: bool
  thread_over :: bool
  queued :: "thread_log list"

inductive log_step :: "('q, thread_log) queue_lib \<Rightarrow> 'a fmt_lib \<Rightarrow> 'q log_sys \<Rightarrow> 'q log_sys \<Rightarrow> bool" for Q F where
  push: "log_step Q F y (y\<lparr>lw := push_line Q (log_of F type fmt args) (lw y), queued := queued y @ [log_of F type fmt args]\<rparr>)"
| level: "log_step Q F y (y\<lparr>lw := setLevel num (lw y)\<rparr>)"
| close: "log_step Q F y (y\<lparr>lw := stop_close (lw y)\<rparr>)"
| read: "\<not> draining y \<Longrightarrow> \<not> thread_over y \<Longrightarrow> \<not> mIsClose (lw y) \<Longrightarrow>
    log_step Q F y (y\<lparr>lw := log_read Q (lw y), draining := True\<rparr>)"
| pop: "draining y \<Longrightarrow> mq_popFront Q (mLogQueue (lw y)) = Some (tmp, q) \<Longrightarrow>
    log_one Q tmp ((lw y)\<lparr>mLogQueue := q\<rparr>) = Inr w \<Longrightarrow> log_step Q F y (y\<lparr>lw := w\<rparr>)"
| empty: "draining y \<Longrightarrow> mq_popFront Q (mLogQueue (lw y)) = None \<Longrightarrow> log_flush (lw y) = Inr w \<Longrightarrow>
    log_step Q F y (y\<lparr>lw := w, draining := False\<rparr>)"
| over: "\<not> draining y \<Longrightarrow> mIsClose (lw y) \<Longrightarrow> log_step Q F y (y\<lparr>thread_over := True\<rparr>)"
| join: "thread_over y \<Longrightarrow> mIsClose (lw y) \<Longrightarrow> log_step Q F y (y\<lparr>lw := stop_join (lw y)\<rparr>)"

inductive log_reach :: "('q, thread_log) queue_lib \<Rightarrow> 'a fmt_lib \<Rightarrow> 'q log_sys \<Rightarrow> bool" for Q F where
  start: "log_reach Q F \<lparr>lw = setFile name fileName (WrapLog Q junk_level junk_close), draining = False,
    thread_over = False, queued = []\<rparr>"
| step: "log_reach Q F y \<Longrightarrow> log_step Q F y z \<Longrightarrow> log_reach Q F z"

text \<open>\<open>pushLog\<close> is one such step, or none.\<close>

lemma pushLog_step:
  "(\<exists>m. log_step Q F y (y\<lparr>lw := pushLog Q F type fmt args (lw y), queued := queued y @ [m]\<rparr>)) \<or>
   y\<lparr>lw := pushLog Q F type fmt args (lw y)\<rparr> = y"
  using log_step.push [of Q F y type fmt args] by (auto simp: pushLog_def)

section \<open>What is written\<close>

lemmas log_defs = push_line_def setLevel_def stop_close_def stop_join_def log_read_def log_flush_def

lemma outputConcole_eq:
  "outputConcole log w = rbind (force_log (line_of log) (mConsoleLogger w)) (\<lambda>lg. Inr (w\<lparr>mConsoleLogger := Some lg\<rparr>))"
  by (simp add: outputConcole_def setColor_def split: level_enum.split)

lemma log_one_writes:
  assumes "mDiskLogger w = Some dk" and "mConsoleLogger w = Some cn"
  shows "\<exists>dk' cn'. log_one Q tmp w = Inr (w\<lparr>mDiskLogger := Some dk', mConsoleLogger := Some cn'\<rparr>) \<and>
    lg_lines dk' = lg_lines dk @ [line_of tmp] \<and> lg_flushed dk' = lg_flushed dk \<and>
    lg_lines cn' = lg_lines cn @ (if mq_readListSize Q (mLogQueue w) < maxConsole then [line_of tmp] else [])"
proof -
  let ?dk = "dk\<lparr>lg_lines := lg_lines dk @ [line_of tmp]\<rparr>"
  let ?cn = "if mq_readListSize Q (mLogQueue w) < maxConsole then cn\<lparr>lg_lines := lg_lines cn @ [line_of tmp]\<rparr> else cn"
  have "w\<lparr>mDiskLogger := p\<rparr> = w\<lparr>mDiskLogger := p, mConsoleLogger := Some cn\<rparr>" for p
    using assms(2) by (cases w) simp
  then show ?thesis using assms
    by (intro exI [of _ ?dk] exI [of _ ?cn]) (simp add: log_one_def outputDisk_def outputConcole_eq force_log_def)
qed

type_synonym 'q queue_view = "'q \<Rightarrow> thread_log list"

definition log_inv :: "'q queue_view \<Rightarrow> 'q queue_view \<Rightarrow> 'q queue_view \<Rightarrow> 'q log_sys \<Rightarrow> bool" where
  "log_inv wlist slist rlist y \<longleftrightarrow> wlist (mLogQueue (lw y)) = [] \<and> (\<exists>dk cn. mDiskLogger (lw y) = Some dk \<and> mConsoleLogger (lw y) = Some cn \<and>
     map line_of (queued y) = lg_lines dk @ map line_of (rlist (mLogQueue (lw y)) @ slist (mLogQueue (lw y))) \<and>
     subseq (lg_lines cn) (lg_lines dk) \<and>
     (\<not> draining y \<longrightarrow> rlist (mLogQueue (lw y)) = [] \<and> lg_flushed dk = length (lg_lines dk)))"

locale log_queue = msg_queue Q wlist slist rlist
  for Q :: "('q, thread_log) queue_lib" and wlist slist rlist :: "'q \<Rightarrow> thread_log list"
begin

lemma log_inv_start:
  "log_inv wlist slist rlist \<lparr>lw = setFile name fileName (WrapLog Q jl jc), draining = False, thread_over = False, queued = []\<rparr>"
  by (simp add: log_inv_def setFile_def WrapLog_def setColor_def setLevel_def empty_logger_def queue_lists Let_def)

lemma log_inv_step:
  assumes inv: "log_inv wlist slist rlist y" and st: "log_step Q F y z"
  shows "log_inv wlist slist rlist z"
proof -
  have wl: "wlist (mLogQueue (lw y)) = []" using inv by (simp add: log_inv_def)
  obtain dk cn where w: "mDiskLogger (lw y) = Some dk" "mConsoleLogger (lw y) = Some cn"
    "map line_of (queued y) = lg_lines dk @ map line_of (rlist (mLogQueue (lw y)) @ slist (mLogQueue (lw y)))"
    "subseq (lg_lines cn) (lg_lines dk)"
    "\<not> draining y \<Longrightarrow> rlist (mLogQueue (lw y)) = [] \<and> lg_flushed dk = length (lg_lines dk)"
    using inv by (auto simp: log_inv_def)
  from st show ?thesis
  proof cases
    case (push type fmt args)
    then show ?thesis using w wl by (simp add: log_inv_def log_defs queue_lists)
  next
    case read
    then show ?thesis using w(1-4) wl read_lists [of 5 "mLogQueue (lw y)"]
      by (simp add: log_inv_def log_defs del: map_append)
  next
    case (pop tmp q w')
    obtain dk' cn' where o: "w' = (lw y)\<lparr>mLogQueue := q, mDiskLogger := Some dk', mConsoleLogger := Some cn'\<rparr>"
      "lg_lines dk' = lg_lines dk @ [line_of tmp]"
      "lg_lines cn' = lg_lines cn \<or> lg_lines cn' = lg_lines cn @ [line_of tmp]"
      using log_one_writes [of "(lw y)\<lparr>mLogQueue := q\<rparr>" dk cn Q tmp] w(1,2) pop(4) by (auto split: if_splits)
    have "subseq (lg_lines cn') (lg_lines dk')" using o(2,3) w(4) by auto
    then show ?thesis using pop o w(3) wl pop_Some [OF pop(3)] by (simp add: log_inv_def)
  next
    case (empty w')
    then show ?thesis using w wl pop_None by (auto simp: log_inv_def log_defs)
  qed (use w wl in \<open>simp_all add: log_inv_def log_defs\<close>)
qed

lemma log_reach_inv: "log_reach Q F y \<Longrightarrow> log_inv wlist slist rlist y"
  by (induction rule: log_reach.induct) (auto intro: log_inv_start log_inv_step)

text \<open>The loop ends, and writes what the consumer's list held; of it the last 100 to the console.\<close>

lemma log_drain_writes:
  assumes "mDiskLogger w = Some dk" and "mConsoleLogger w = Some cn"
  shows "\<exists>q dk' cn'. log_drain Q w = Some (Inr (w\<lparr>mLogQueue := q, mDiskLogger := Some dk', mConsoleLogger := Some cn'\<rparr>)) \<and>
    lg_lines dk' = lg_lines dk @ map line_of (rlist (mLogQueue w)) \<and>
    lg_lines cn' = lg_lines cn @ map line_of (drop (length (rlist (mLogQueue w)) - maxConsole) (rlist (mLogQueue w)))"
  using assms
proof (induction "rlist (mLogQueue w)" arbitrary: w dk cn)
  case Nil
  have "mq_popFront Q (mLogQueue w) = None" using pop_None Nil.hyps by metis
  then have "log_drain Q w = Some (Inr w)" by (subst log_drain.simps) simp
  moreover have "w = w\<lparr>mLogQueue := mLogQueue w, mDiskLogger := Some dk, mConsoleLogger := Some cn\<rparr>"
    using Nil.prems by simp
  ultimately show ?case using Nil.hyps [symmetric] by (metis append_Nil2 drop_Nil list.map(1))
next
  case (Cons m ms)
  obtain q where q: "mq_popFront Q (mLogQueue w) = Some (m, q)" "rlist q = ms"
    using pop_lists [of "mLogQueue w" m ms] Cons.hyps(2) by auto
  obtain dk1 cn1 where o: "log_one Q m (w\<lparr>mLogQueue := q\<rparr>) =
      Inr (w\<lparr>mLogQueue := q, mDiskLogger := Some dk1, mConsoleLogger := Some cn1\<rparr>)"
    "lg_lines dk1 = lg_lines dk @ [line_of m]"
    "lg_lines cn1 = lg_lines cn @ (if length ms < maxConsole then [line_of m] else [])"
    using log_one_writes [of "w\<lparr>mLogQueue := q\<rparr>" dk cn Q m] Cons.prems by (auto simp: size_rlist q(2))
  let ?w = "w\<lparr>mLogQueue := q, mDiskLogger := Some dk1, mConsoleLogger := Some cn1\<rparr>"
  obtain q' dk' cn' where r: "log_drain Q ?w = Some (Inr (?w\<lparr>mLogQueue := q', mDiskLogger := Some dk', mConsoleLogger := Some cn'\<rparr>))"
    "lg_lines dk' = lg_lines dk1 @ map line_of ms"
    "lg_lines cn' = lg_lines cn1 @ map line_of (drop (length ms - maxConsole) ms)"
    using Cons.hyps(1) [of ?w dk1 cn1] q(2) by auto
  have "log_drain Q w = log_drain Q ?w" using q(1) o(1) by (subst log_drain.simps) simp
  moreover have "drop (length (m # ms) - maxConsole) (m # ms) =
      (if length ms < maxConsole then [m] else []) @ drop (length ms - maxConsole) ms"
    by (auto simp: Suc_diff_le)
  ultimately show ?case
    using r o(2,3) Cons.hyps(2) [symmetric] by (auto split: if_splits)
qed

lemma log_turn_all:
  assumes "log_inv wlist slist rlist y" and "\<not> draining y"
    and "mDiskLogger (lw y) = Some dk" and "mConsoleLogger (lw y) = Some cn"
    and "new = drop (length (lg_lines dk)) (map line_of (queued y))"
  shows "\<exists>w dk' cn'. log_turn Q (lw y) = Some (Inr w) \<and> mDiskLogger w = Some dk' \<and> mConsoleLogger w = Some cn' \<and>
    lg_lines dk' = map line_of (queued y) \<and> lg_flushed dk' = length (lg_lines dk') \<and>
    lg_lines cn' = lg_lines cn @ drop (length new - maxConsole) new"
proof -
  let ?q = "mLogQueue (lw y)"
  have w: "map line_of (queued y) = lg_lines dk @ map line_of (slist ?q)" "rlist ?q = []"
    using assms(1-4) by (auto simp: log_inv_def)
  have new: "new = map line_of (slist ?q)" by (simp add: assms(5) w(1))
  show ?thesis
    using log_drain_writes [of "log_read Q (lw y)" dk cn] assms(3,4) w(1) read_all [OF w(2)]
    by (auto simp: log_turn_def log_read_def log_flush_def new drop_map)
qed

end

interpretation stdl: log_queue std_queue_lib fst "\<lambda>q. fst (snd q)" "\<lambda>q. snd (snd q)"
  by unfold_locales

text \<open>Once \<open>stop\<close> has set \<open>mIsClose\<close> while the thread sleeps, nothing is written any more.\<close>

lemma closed_writes_nothing:
  assumes "(log_step Q F)\<^sup>*\<^sup>* y z" and "\<not> draining y" and "mIsClose (lw y)"
  shows "\<not> draining z \<and> mIsClose (lw z) \<and> mDiskLogger (lw z) = mDiskLogger (lw y) \<and>
    mConsoleLogger (lw z) = mConsoleLogger (lw y)"
  using assms
proof (induction rule: rtranclp_induct)
  case (step z z')
  from step.hyps(2) show ?case by cases (use step.IH step.prems in \<open>simp_all add: log_defs\<close>)
qed simp

section \<open>Properties\<close>

text \<open>A format that appends its arguments, and a run with one line queued.\<close>

definition demo_fmt :: "bytes fmt_lib" where
  "demo_fmt fmt args = Inr (fmt @ args)"

definition demo_log :: "thread_log std_queue log_sys" where
  "demo_log = \<lparr>lw = log_info std_queue_lib demo_fmt [65] [66, 0, 67]
       (setFile [] [] (WrapLog std_queue_lib Level_off True)),
     draining = False, thread_over = False, queued = [ThreadLog Level_info [65, 66, 0, 67]]\<rparr>"

lemmas demo_log_eval = demo_log_def log_info_def pushLog_def push_line_def shouldLog_def log_of_def demo_fmt_def
  setFile_def WrapLog_def setLevel_def setColor_def empty_logger_def std_queue_lib_def less_eq_level_enum_def

lemma demo_log_reach: "log_reach std_queue_lib demo_fmt demo_log"
  using log_reach.step [OF log_reach.start log_step.push [of std_queue_lib demo_fmt _ Level_info "[65]" "[66, 0, 67]"],
      of "[]" "[]" Level_off True]
  by (simp add: demo_log_eval)

text \<open>
  C37: The log keeps every line, in order. Whatever threads log and however they interleave with the log
  thread, the lines on the disk, followed by those still queued, are all the lines ever queued, in the order
  of their critical sections, each cut at its first NUL; those on the console are some of those on the
  disk, in the same order; and while the thread sleeps, all that is on the disk is flushed.
\<close>

theorem log_keeps_lines:
  assumes "msg_queue Q wlist slist rlist" and "log_reach Q F y"
  shows "\<exists>dk cn. mDiskLogger (lw y) = Some dk \<and> mConsoleLogger (lw y) = Some cn \<and>
    map (\<lambda>m. (tl_type m, c_str (tl_msg m))) (queued y) =
      lg_lines dk @ map (\<lambda>m. (tl_type m, c_str (tl_msg m))) (rlist (mLogQueue (lw y)) @ slist (mLogQueue (lw y))) \<and>
    subseq (lg_lines cn) (lg_lines dk) \<and>
    (\<not> draining y \<longrightarrow> lg_flushed dk = length (lg_lines dk))"
  using log_queue.log_reach_inv [OF log_queue.intro [OF assms(1)] assms(2)]
  by (auto simp: log_inv_def line_of_def [abs_def])

theorem log_keeps_lines_witness:
  "\<exists>dk. mDiskLogger (lw demo_log) = Some dk \<and> lg_lines dk @ [(Level_info, [65, 66])] = [(Level_info, [65, 66])]"
  using log_keeps_lines [OF stdq.msg_queue_axioms demo_log_reach]
  by (simp add: demo_log_eval ThreadLog_def c_str_def)

text \<open>
  C38: One turn of the log thread writes everything. Started between two turns, \<open>syncRead\<close>, the loop over
  \<open>popFront\<close> and the flush return, without a null logger, with every line queued so far on the disk, and
  on the console exactly the last 100 of the new ones.
\<close>

theorem log_turn_writes:
  assumes "msg_queue Q wlist slist rlist" and "log_reach Q F y" and "\<not> draining y"
    and "mDiskLogger (lw y) = Some dk" and "mConsoleLogger (lw y) = Some cn"
    and "new = drop (length (lg_lines dk)) (map (\<lambda>m. (tl_type m, c_str (tl_msg m))) (queued y))"
  shows "\<exists>w dk' cn'. log_turn Q (lw y) = Some (Inr w) \<and> mDiskLogger w = Some dk' \<and> mConsoleLogger w = Some cn' \<and>
    lg_lines dk' = map (\<lambda>m. (tl_type m, c_str (tl_msg m))) (queued y) \<and> lg_flushed dk' = length (lg_lines dk') \<and>
    lg_lines cn' = lg_lines cn @ drop (length new - 100) new"
  using log_queue.log_turn_all [OF log_queue.intro log_queue.log_reach_inv, OF assms(1) log_queue.intro assms(2-5),
      OF assms(1)] assms(6)
  by (simp add: line_of_def [abs_def] maxConsole_def)

theorem log_turn_writes_witness:
  "\<exists>w dk'. log_turn std_queue_lib (lw demo_log) = Some (Inr w) \<and> mDiskLogger w = Some dk' \<and>
     lg_lines dk' = [(Level_info, [65, 66])]"
proof -
  have "\<not> draining demo_log" "mDiskLogger (lw demo_log) = Some empty_logger" "mConsoleLogger (lw demo_log) = Some empty_logger"
    by (simp_all add: demo_log_eval)
  from log_turn_writes [OF stdq.msg_queue_axioms demo_log_reach this refl] show ?thesis
    by (auto simp: demo_log_def ThreadLog_def c_str_def)
qed

text \<open>
  \<open>stop\<close> loses what is queued. If \<open>mIsClose\<close> is set while the log thread sleeps, no later step of any
  thread writes a line, to the disk or the console: the lines queued and not yet written, and all queued
  from then on, are lost.
\<close>

theorem log_stop_loses:
  assumes "(log_step Q F)\<^sup>*\<^sup>* (y\<lparr>lw := stop_close (lw y)\<rparr>) z" and "\<not> draining y"
  shows "mDiskLogger (lw z) = mDiskLogger (lw y) \<and> mConsoleLogger (lw z) = mConsoleLogger (lw y) \<and> \<not> draining z"
  using closed_writes_nothing [OF assms(1)] assms(2) by (simp add: stop_close_def)

theorem log_stop_loses_witness:
  "\<exists>z. log_reach std_queue_lib demo_fmt z \<and> thread_over z \<and> queued z = [ThreadLog Level_info [65, 66, 0, 67]] \<and>
     mDiskLogger (lw z) = Some empty_logger"
proof -
  let ?y = "demo_log\<lparr>lw := stop_close (lw demo_log)\<rparr>"
  let ?z = "?y\<lparr>thread_over := True\<rparr>"
  have close: "log_step std_queue_lib demo_fmt demo_log ?y" by (rule log_step.close)
  have over: "log_step std_queue_lib demo_fmt ?y ?z"
    by (rule log_step.over) (simp_all add: demo_log_def stop_close_def)
  have "mDiskLogger (lw ?z) = mDiskLogger (lw demo_log)"
    using log_stop_loses [OF r_into_rtranclp [of "log_step std_queue_lib demo_fmt", OF over]] by (simp add: demo_log_def)
  moreover have "log_reach std_queue_lib demo_fmt ?z"
    by (rule log_reach.step [OF log_reach.step [OF demo_log_reach close] over])
  ultimately show ?thesis
    by (intro exI [of _ ?z]) (simp add: demo_log_eval)
qed

end
