(* ===== verification/LogConsole.thy ===== *)
theory LogConsole
  imports Log "HOL-Library.Word"
begin

text \<open>
  The colours of the log (Common/WrapLog.h as it is built on Windows; elsewhere \<open>setColor\<close> does nothing, Log):
  every level has a colour, and \<open>mCurrentColor\<close> remembers the last one, so that the console is asked and set
  only when it changes.

  \<^item> The console is its attributes, and the lines written to it, each with the attributes in force. Standard output is a
    console, and nobody else sets its attributes.
  \<^item> \<open>_error\<close> is what the log thread does with an exception of the loggers.
\<close>

unbundle bit_operations_syntax

section \<open>The console\<close>

type_synonym WORD = "16 word"

definition FOREGROUND_BLUE :: WORD where "FOREGROUND_BLUE = 1"
definition FOREGROUND_GREEN :: WORD where "FOREGROUND_GREEN = 2"
definition FOREGROUND_RED :: WORD where "FOREGROUND_RED = 4"
definition FOREGROUND_INTENSITY :: WORD where "FOREGROUND_INTENSITY = 8"

definition colorToWORD :: "ConsoleAttribute \<Rightarrow> WORD \<Rightarrow> WORD" where
  "colorToWORD ca wAttributes =
     (let flag_instensity = wAttributes AND FOREGROUND_INTENSITY;
          word = (case ca of
              CONSOLE_BLACK \<Rightarrow> 0
            | CONSOLE_WHITE \<Rightarrow> FOREGROUND_RED OR FOREGROUND_GREEN OR FOREGROUND_BLUE
            | CONSOLE_RED \<Rightarrow> FOREGROUND_RED
            | CONSOLE_GREEN \<Rightarrow> FOREGROUND_GREEN
            | CONSOLE_BLUE \<Rightarrow> FOREGROUND_BLUE
            | CONSOLE_YELLOW \<Rightarrow> FOREGROUND_RED OR FOREGROUND_GREEN
            | CONSOLE_MAGENTA \<Rightarrow> FOREGROUND_RED OR FOREGROUND_BLUE
            | CONSOLE_CYAN \<Rightarrow> FOREGROUND_GREEN OR FOREGROUND_BLUE
            | _ \<Rightarrow> wAttributes)
      in word OR flag_instensity)"

record win_console =
  con_attributes :: WORD
  con_lines :: "(WORD \<times> log_line) list"
  con_current :: ConsoleAttribute        \<comment> \<open>\<open>mCurrentColor\<close>\<close>

definition win_setColor :: "ConsoleAttribute \<Rightarrow> win_console \<Rightarrow> win_console" where
  "win_setColor ca c =
     (if ca \<noteq> con_current c
      then c\<lparr>con_attributes := colorToWORD ca (con_attributes c), con_current := ca\<rparr>
      else c)"

text \<open>What the constructor does to a console that has the attributes \<open>a\<close>.\<close>

definition win_WrapLog :: "WORD \<Rightarrow> win_console" where
  "win_WrapLog a = win_setColor CONSOLE_GREEN \<lparr>con_attributes = a, con_lines = [], con_current = CONSOLE_INTENSE\<rparr>"

definition con_write :: "log_line \<Rightarrow> win_console \<Rightarrow> win_console" where
  "con_write line c = c\<lparr>con_lines := con_lines c @ [(con_attributes c, line)]\<rparr>"

definition win_outputConcole :: "thread_log \<Rightarrow> win_console \<Rightarrow> win_console" where
  "win_outputConcole log c = con_write (line_of log)
     (case tl_type log of
        Level_debug \<Rightarrow> win_setColor CONSOLE_CYAN c
      | Level_info \<Rightarrow> win_setColor CONSOLE_GREEN c
      | Level_warn \<Rightarrow> win_setColor CONSOLE_YELLOW c
      | Level_err \<Rightarrow> win_setColor CONSOLE_RED c
      | _ \<Rightarrow> c)"

text \<open>
  \<open>_error\<close>: the text goes to the console, in red, and to the disk, unless the level of the loggers
  (spdlog's own, \<open>info\<close> unless it is set) is above \<open>err\<close>.
\<close>

definition log__error :: "level_enum \<Rightarrow> bytes \<Rightarrow> win_console \<Rightarrow> log_line list \<Rightarrow> win_console \<times> log_line list" where
  "log__error spd_level what c disk =
     (let c1 = win_setColor CONSOLE_RED c in
      if spd_level \<le> Level_err then (con_write (Level_err, what) c1, disk @ [(Level_err, what)]) else (c1, disk))"

section \<open>The colours of the lines\<close>

definition level_color :: "level_enum \<Rightarrow> ConsoleAttribute option" where
  "level_color l = (case l of Level_debug \<Rightarrow> Some CONSOLE_CYAN | Level_info \<Rightarrow> Some CONSOLE_GREEN
     | Level_warn \<Rightarrow> Some CONSOLE_YELLOW | Level_err \<Rightarrow> Some CONSOLE_RED | _ \<Rightarrow> None)"

text \<open>A colour, as a foreground without intensity.\<close>

definition foreground :: "ConsoleAttribute \<Rightarrow> WORD" where
  "foreground ca = colorToWORD ca 0"

text \<open>A line of a level without a colour has that of the line before it.\<close>

fun colors :: "ConsoleAttribute \<Rightarrow> level_enum list \<Rightarrow> ConsoleAttribute list" where
  "colors c [] = []"
| "colors c (l # ls) = (let d = (case level_color l of None \<Rightarrow> c | Some d \<Rightarrow> d) in d # colors d ls)"

text \<open>The two enumerators about the intensity change nothing.\<close>

lemma intense_ignored: "colorToWORD CONSOLE_INTENSE a = a" "colorToWORD CONSOLE_NO_INTENSE a = a"
  by (simp_all add: colorToWORD_def Let_def or.commute)

lemmas foreground_defs = FOREGROUND_BLUE_def FOREGROUND_GREEN_def FOREGROUND_RED_def FOREGROUND_INTENSITY_def

lemma colorToWORD_foreground:
  "ca \<notin> {CONSOLE_INTENSE, CONSOLE_NO_INTENSE} \<Longrightarrow> colorToWORD ca a = foreground ca OR (a AND 8)"
  by (cases ca) (simp_all add: foreground_def colorToWORD_def foreground_defs)

lemma foreground_dark: "foreground ca AND 8 = 0"
  by (cases ca) (simp_all add: foreground_def colorToWORD_def foreground_defs)

lemma colorToWORD_again:
  "ca \<notin> {CONSOLE_INTENSE, CONSOLE_NO_INTENSE} \<Longrightarrow> colorToWORD ca (foreground d OR (a AND 8)) = foreground ca OR (a AND 8)"
  using foreground_dark [of d]
  by (simp add: colorToWORD_foreground bit.conj_disj_distrib2 and.assoc)

text \<open>The attributes are always those of the remembered colour.\<close>

definition con_ok :: "WORD \<Rightarrow> win_console \<Rightarrow> bool" where
  "con_ok a c \<longleftrightarrow> con_attributes c = foreground (con_current c) OR (a AND 8)"

lemma win_setColor_ok:
  "con_ok a c \<Longrightarrow> ca \<notin> {CONSOLE_INTENSE, CONSOLE_NO_INTENSE} \<Longrightarrow>
   con_ok a (win_setColor ca c) \<and> con_current (win_setColor ca c) = ca \<and> con_lines (win_setColor ca c) = con_lines c"
  by (simp add: con_ok_def win_setColor_def colorToWORD_again)

lemma win_WrapLog_ok: "con_ok a (win_WrapLog a) \<and> con_current (win_WrapLog a) = CONSOLE_GREEN \<and> con_lines (win_WrapLog a) = []"
  by (simp add: con_ok_def win_WrapLog_def win_setColor_def colorToWORD_foreground)

lemma win_outputConcole_ok:
  assumes "con_ok a c"
  shows "con_ok a (win_outputConcole log c) \<and>
    con_current (win_outputConcole log c) = hd (colors (con_current c) [tl_type log]) \<and>
    con_lines (win_outputConcole log c) =
      con_lines c @ [(foreground (hd (colors (con_current c) [tl_type log])) OR (a AND 8), line_of log)]"
  using assms win_setColor_ok [OF assms]
  by (cases "tl_type log") (simp_all add: win_outputConcole_def con_write_def level_color_def con_ok_def)

lemma win_output_all:
  assumes "con_ok a c"
  shows "con_lines (fold win_outputConcole ms c) =
      con_lines c @ zip (map (\<lambda>d. foreground d OR (a AND 8)) (colors (con_current c) (map tl_type ms))) (map line_of ms) \<and>
    con_ok a (fold win_outputConcole ms c)"
  using assms
proof (induction ms arbitrary: c)
  case (Cons m ms)
  then show ?case using win_outputConcole_ok [OF Cons.prems, of m] by (simp add: Let_def)
qed simp

text \<open>
  On Windows every line of the log is on the console in the colour of its level, whatever was shown before it,
  although the colour is set only when \<open>mCurrentColor\<close> changes: debug in cyan, info in green, warnings in
  yellow, errors in red, all other levels in the colour of the line before (green at first). The intensity is
  the one the console had at the start, and its background is black. What \<open>_error\<close> reports is red.
\<close>

theorem console_colours:
  "con_lines (fold win_outputConcole ms (win_WrapLog a)) =
     zip (map (\<lambda>d. foreground d OR (a AND FOREGROUND_INTENSITY)) (colors CONSOLE_GREEN (map tl_type ms))) (map line_of ms) \<and>
   (\<forall>what disk. \<exists>c. log__error Level_info what (fold win_outputConcole ms (win_WrapLog a)) disk = (c, disk @ [(Level_err, what)]) \<and>
     last (con_lines c) = (FOREGROUND_RED OR (a AND FOREGROUND_INTENSITY), (Level_err, what))) \<and>
   map foreground [CONSOLE_CYAN, CONSOLE_GREEN, CONSOLE_YELLOW, CONSOLE_RED] = [3, 2, 6, 4]"
proof (intro conjI allI)
  note w = win_WrapLog_ok [of a]
  note all = win_output_all [OF w [THEN conjunct1], of ms]
  show "con_lines (fold win_outputConcole ms (win_WrapLog a)) =
     zip (map (\<lambda>d. foreground d OR (a AND FOREGROUND_INTENSITY)) (colors CONSOLE_GREEN (map tl_type ms))) (map line_of ms)"
    using all w by (simp add: FOREGROUND_INTENSITY_def)
  fix what disk
  let ?c = "fold win_outputConcole ms (win_WrapLog a)"
  have "con_attributes (win_setColor CONSOLE_RED ?c) = FOREGROUND_RED OR (a AND FOREGROUND_INTENSITY)"
    using win_setColor_ok [OF all [THEN conjunct2], of CONSOLE_RED]
    by (simp add: con_ok_def foreground_def colorToWORD_def foreground_defs)
  then show "\<exists>c. log__error Level_info what ?c disk = (c, disk @ [(Level_err, what)]) \<and>
     last (con_lines c) = (FOREGROUND_RED OR (a AND FOREGROUND_INTENSITY), (Level_err, what))"
    by (simp add: log__error_def con_write_def less_eq_level_enum_def Let_def)
qed (simp add: foreground_def colorToWORD_def foreground_defs)

text \<open>The lines are those the model of Log shows.\<close>

lemma console_same_lines:
  "mConsoleLogger w = Some lg \<Longrightarrow> con_ok a c \<Longrightarrow> map snd (con_lines c) = lg_lines lg \<Longrightarrow>
   \<exists>w' lg'. outputConcole log w = Inr w' \<and> mConsoleLogger w' = Some lg' \<and>
     map snd (con_lines (win_outputConcole log c)) = lg_lines lg'"
  using win_outputConcole_ok [of a c log] by (simp add: outputConcole_eq force_log_def)

end
