(* ===== verification/Rpc.thy ===== *)
theory Rpc
  imports Cluster
begin

text \<open>
  What a logic server and the center server send by template: \<open>sendv\<close>, user messages built in place,
  and remote calls with their replies (the headers CenterServer/CenterServerSession.h,
  LogicServer/CenterServerConnection.h and LogicServer/ClientMirror.h).

  \<^item> \<open>dodo::rpc::RpcService\<close> belongs to the absent submodule. What the code uses of it, the text of a
    call and of a reply, is the parameter \<open>rpc_lib\<close>, over the arguments \<open>'a\<close> and the service's own state \<open>'w\<close>
    (its pending requests). No property needs a law of it.
  \<^item> \<open>packet.writev(args...)\<close> writes the arguments one after the other; a string is written as a blob.
\<close>

record ('a, 'w) rpc_lib =
  rpc_call :: "bytes \<Rightarrow> 'a \<Rightarrow> 'w \<Rightarrow> bytes \<times> 'w"    \<comment> \<open>\<open>call(funname, args...)\<close>\<close>
  rpc_reply :: "int \<Rightarrow> 'a \<Rightarrow> 'w \<Rightarrow> bytes \<times> 'w"     \<comment> \<open>\<open>reply(requestID, args...)\<close>\<close>

section \<open>CenterServerSession\<close>

definition session_sendv :: "saddr \<Rightarrow> nat \<Rightarrow> field list \<Rightarrow> 'r center_server \<Rightarrow> 'r center_server" where
  "session_sendv l op args s = cact (CenterSend l (Packet BigPacket op args)) s"

definition session_sendUserMsgV ::
  "'r packet_lib \<Rightarrow> saddr \<Rightarrow> nat \<Rightarrow> field list \<Rightarrow> 'r center_server \<Rightarrow> 'r center_server" where
  "session_sendUserMsgV P l op args s = session_sendUserPacket l (pk_bytes P (Packet BigPacket op args)) s"

text \<open>\<open>info\<close> is the request id; \<open>reply\<close> sets it to -1.\<close>

definition session_reply ::
  "('a, 'w) rpc_lib \<Rightarrow> saddr \<Rightarrow> 'a \<Rightarrow> int \<Rightarrow> 'w \<Rightarrow> 'r center_server \<Rightarrow> (int \<times> 'w \<times> 'r center_server) result" where
  "session_reply R l args info w s =
     (if info \<noteq> - 1 then
        (if sCenterServerSessionRpc s then
           (let (rpcstr, w1) = rpc_reply R info args w
            in Inr (- 1, w1, session_sendv l CENTERSERVER_SEND_OP_RPC [FBin rpcstr] s))
         else Inl NullDeref)
      else Inr (info, w, s))"

section \<open>CenterServerConnection\<close>

definition center_sendv :: "nat \<Rightarrow> field list \<Rightarrow> 'r logic_server \<Rightarrow> 'r logic_server" where
  "center_sendv op args s = act (SendCenter (Packet BigPacket op args)) s"

definition center_sendUserV :: "'r packet_lib \<Rightarrow> nat \<Rightarrow> field list \<Rightarrow> 'r logic_server \<Rightarrow> 'r logic_server" where
  "center_sendUserV P op args s = center_sendUserPacket (pk_bytes P (Packet BigPacket op args)) s"

definition center_call ::
  "('a, 'w) rpc_lib \<Rightarrow> bytes \<Rightarrow> 'a \<Rightarrow> 'w \<Rightarrow> 'r logic_server \<Rightarrow> 'w \<times> 'r logic_server" where
  "center_call R funname args w s =
     (let (tmp, w1) = rpc_call R funname args w
      in (w1, center_sendv CENTERSERVER_RECV_OP_RPC [FBin tmp] s))"

definition center_reply ::
  "('a, 'w) rpc_lib \<Rightarrow> 'a \<Rightarrow> int \<Rightarrow> 'w \<Rightarrow> 'r logic_server \<Rightarrow> int \<times> 'w \<times> 'r logic_server" where
  "center_reply R args info w s =
     (if info \<noteq> - 1 then
        (let (rpcstr, w1) = rpc_reply R info args w
         in (- 1, w1, center_sendv CENTERSERVER_RECV_OP_RPC [FBin rpcstr] s))
      else (info, w, s))"

section \<open>ClientMirror\<close>

definition mirror_sendv :: "'r packet_lib \<Rightarrow> maddr \<Rightarrow> nat \<Rightarrow> field list \<Rightarrow> 'r logic_server \<Rightarrow> 'r logic_server" where
  "mirror_sendv P m op args s = mirror_sendPacket m (pk_bytes P (Packet BigPacket op args)) s"

section \<open>A call and its reply\<close>

context packet_codec
begin

lemma rpc_at_center:
  assumes "fits up" and "up = Packet BigPacket CENTERSERVER_RECV_OP_RPC [FBin b]" and "sCenterServerSessionRpc c"
  shows "session_onMsg P pw l (pk_bytes P up) c = Inr (cact (CenterHandleRpc b) (setRpcFrommer (Some l) c))"
proof -
  obtain r r1 where "rp_op P (snd (rp_len P (rp_open P (pk_bytes P up)))) = (pk_op up, r)" "rp_bin P r = (Some b, r1)"
    by (rule user_body [OF assms(1), of b]) (use assms(2) in auto)
  then show ?thesis
    using assms(2,3) by (simp add: session_onMsg_def session_onRpc_def center_ops setRpcFrommer_def Let_def)
qed

lemma rpc_at_logic:
  assumes "fits down" and "down = Packet BigPacket CENTERSERVER_SEND_OP_RPC [FBin b]"
  shows "center_onMsg ndebug P (pk_bytes P down) s = Inr (act (CenterRpc b) s)"
proof -
  obtain r r1 where "rp_op P (snd (rp_len P (rp_open P (pk_bytes P down)))) = (pk_op down, r)" "rp_bin P r = (Some b, r1)"
    by (rule user_body [OF assms(1), of b]) (use assms(2) in auto)
  then show ?thesis using assms(2) by (simp add: center_onMsg_def center_ops Let_def)
qed

end

text \<open>
  C32: A remote call and its reply: \<open>call\<close> on the logic server sends one packet, from which the center
  server hands exactly the text of the call to its RPC service, with the caller remembered; the first
  \<open>reply\<close> to the request sends exactly one packet to that caller, whose text the logic server's
  service gets; and a second \<open>reply\<close> with the same request, on either side, sends nothing.
\<close>

theorem rpc_roundtrip:
  assumes "packet_codec P fits rem" and "rpc_call R f args w = (msg, w1)" and "rpc_reply R req ret v = (answer, v1)"
    and "req \<noteq> - 1" and "sCenterServerSessionRpc c"
    and "up = Packet BigPacket CENTERSERVER_RECV_OP_RPC [FBin msg]" and "fits up"
    and "down = Packet BigPacket CENTERSERVER_SEND_OP_RPC [FBin answer]" and "fits down"
  shows "acts (snd (center_call R f args w s)) = acts s @ [SendCenter up] \<and>
    (\<exists>c1. session_onMsg P pw l (pk_bytes P up) c = Inr c1 \<and> cacts c1 = cacts c @ [CenterHandleRpc msg] \<and>
      sCenterServerSessionRpcFromer c1 = Some l \<and>
      (\<exists>c2. session_reply R l ret req v c1 = Inr (- 1, v1, c2) \<and> cacts c2 = cacts c1 @ [CenterSend l down] \<and>
        session_reply R l ret2 (- 1) v1 c2 = Inr (- 1, v1, c2))) \<and>
    center_onMsg ndebug P (pk_bytes P down) s = Inr (act (CenterRpc answer) s) \<and>
    (\<exists>s2. center_reply R ret req v s = (- 1, v1, s2) \<and> length (acts s2) = length (acts s) + 1 \<and>
      center_reply R ret2 (- 1) v1 s2 = (- 1, v1, s2))"
  using packet_codec.rpc_at_center [OF assms(1,7,6,5)] packet_codec.rpc_at_logic [OF assms(1,9,8)] assms(2-6,8)
  by (simp add: center_call_def center_sendv_def session_reply_def session_sendv_def center_reply_def setRpcFrommer_def)

theorem rpc_roundtrip_witness:
  "\<exists>c1. session_onMsg std_lib [112] 3 (std_bytes (Packet BigPacket CENTERSERVER_RECV_OP_RPC [FBin [1, 97]])) (csv center_init) =
     Inr c1 \<and> sCenterServerSessionRpcFromer c1 = Some 3"
proof -
  let ?R = "\<lparr>rpc_call = (\<lambda>f a (w::nat). (of_nat w # f, w + 1)), rpc_reply = (\<lambda>q a w. (a, w))\<rparr>"
  have fits: "std_fits (Packet BigPacket CENTERSERVER_RECV_OP_RPC [FBin [1, 97]])"
    "std_fits (Packet BigPacket CENTERSERVER_SEND_OP_RPC [FBin [5]])"
    by (simp_all add: std_eval center_ops)
  have lib: "rpc_call ?R [97] [] 1 = ([1, 97], 2)" "rpc_reply ?R 1 [5] 2 = ([5], 2)" "(1 :: int) \<noteq> - 1"
    "sCenterServerSessionRpc (csv center_init :: std_reader center_server)"
    by (simp_all add: center_init_def global_init_def)
  from rpc_roundtrip [OF std.packet_codec_axioms lib refl fits(1) refl fits(2), of demo_ls "[112]" 3 "[]" False]
  show ?thesis by auto
qed

end
