(* ===== verification/RpcService.thy ===== *)
theory RpcService
  imports Rpc
begin

text \<open>
  Functions that can be called remotely: how the center server registers them
  (\<open>CenterServerSessionGlobalData::def\<close>, CenterServer/CenterServerSession.h), and what a call of one
  does: the service finds it by name, the registered wrapper runs it and, when it returns a value,
  replies to the session that called.

  \<^item> The service's table is the library's (\<open>rpc_table\<close>, over an abstract type of tables). The locale
    \<open>rpc_service\<close> states what is relied on: it finds, from the text of a call, the function of that name with
    the arguments of the call, and the caller finds in a reply its request and the value.
  \<^item> A wrapper that gets arguments of other types than its function's is \<open>None\<close>: converting them is the
    library's.
\<close>

section \<open>The service\<close>

datatype rpc_val = RInt i32 | RStr bytes

record ('t, 'h) rpc_table =
  rt_new :: 't
  rt_def :: "bytes \<Rightarrow> 'h \<Rightarrow> 't \<Rightarrow> 't"
  rt_find :: "'t \<Rightarrow> bytes \<Rightarrow> ('h \<times> rpc_val list \<times> int) option"   \<comment> \<open>of the text of a call: function, arguments, request\<close>
  rt_answer :: "bytes \<Rightarrow> (int \<times> rpc_val list) option"              \<comment> \<open>of the text of a reply: request, values\<close>

text \<open>What is registered: over the arguments, the request, and the states of the service and the server.\<close>

type_synonym ('w, 'r) rpc_handler =
  "rpc_val list \<Rightarrow> int \<Rightarrow> 'w \<Rightarrow> 'r center_server \<Rightarrow> ('w \<times> 'r center_server) result option"

locale rpc_service =
  fixes R :: "(rpc_val list, 'w) rpc_lib" and T :: "('t, ('w, 'r) rpc_handler) rpc_table"
    and funs :: "'t \<Rightarrow> bytes \<rightharpoonup> ('w, 'r) rpc_handler" and request :: "bytes \<Rightarrow> int"
  assumes new_funs: "funs (rt_new T) = Map.empty"
    and def_funs: "funs t f = None \<Longrightarrow> funs (rt_def T f h t) = (funs t)(f \<mapsto> h)"
    and find_call: "rpc_call R f args w = (msg, w') \<Longrightarrow>
      rt_find T t msg = map_option (\<lambda>h. (h, args, request msg)) (funs t f)"
    and find_answer: "rpc_reply R req args w = (answer, w') \<Longrightarrow> rt_answer T answer = Some (req, args)"

section \<open>CenterServerSessionGlobalData::def\<close>

text \<open>A function over its arguments; \<open>None\<close> when they do not convert.\<close>

type_synonym 'v rpc_fun = "rpc_val list \<Rightarrow> 'v result option"

definition insertLambda_ret :: "(rpc_val list, 'w) rpc_lib \<Rightarrow> rpc_val rpc_fun \<Rightarrow> ('w, 'r) rpc_handler" where
  "insertLambda_ret R func args info w s = map_option (\<lambda>res. rbind res (\<lambda>r.
     case sCenterServerSessionRpcFromer s of
       None \<Rightarrow> Inl NullDeref
     | Some fromer \<Rightarrow> rbind (session_reply R fromer [r] info w s) (\<lambda>(info', w', s'). Inr (w', s')))) (func args)"

definition insertLambda_void :: "unit rpc_fun \<Rightarrow> ('w, 'r) rpc_handler" where
  "insertLambda_void func args info w s = map_option (\<lambda>res. rbind res (\<lambda>_. Inr (w, s))) (func args)"

text \<open>The two specialisations of \<open>_insertLambdahelp\<close>, behind \<open>regFunctor\<close>.\<close>

definition def_ret ::
  "('t, ('w, 'r) rpc_handler) rpc_table \<Rightarrow> (rpc_val list, 'w) rpc_lib \<Rightarrow> bytes \<Rightarrow> rpc_val rpc_fun \<Rightarrow> 't \<Rightarrow> 't" where
  "def_ret T R funname func t = rt_def T funname (insertLambda_ret R func) t"

definition def_void :: "('t, ('w, 'r) rpc_handler) rpc_table \<Rightarrow> bytes \<Rightarrow> unit rpc_fun \<Rightarrow> 't \<Rightarrow> 't" where
  "def_void T funname func t = rt_def T funname (insertLambda_void func) t"

text \<open>\<open>handleRpc\<close> on the text of a call; \<open>None\<close> when the service has no such function.\<close>

definition center_handleRpc ::
  "('t, ('w, 'r) rpc_handler) rpc_table \<Rightarrow> 't \<Rightarrow> bytes \<Rightarrow> 'w \<Rightarrow> 'r center_server \<Rightarrow> ('w \<times> 'r center_server) result option" where
  "center_handleRpc T t msg w s = (case rt_find T t msg of
       None \<Rightarrow> None
     | Some (h, args, info) \<Rightarrow> h args info w s)"

text \<open>What the caller gets: the reply to its request.\<close>

definition answered :: "('t, 'h) rpc_table \<Rightarrow> saddr \<Rightarrow> int \<Rightarrow> rpc_val list \<Rightarrow> 'r center_server \<Rightarrow> 'r center_server \<Rightarrow> bool" where
  "answered T l req vals s s' \<longleftrightarrow> (\<exists>answer. rt_answer T answer = Some (req, vals) \<and>
     s' = cact (CenterSend l (Packet BigPacket CENTERSERVER_SEND_OP_RPC [FBin answer])) s)"

context rpc_service
begin

lemma handle_void:
  assumes "funs t f = Some (insertLambda_void func)" and "rpc_call R f args w0 = (msg, w1)" and "func args = Some (Inr ())"
  shows "center_handleRpc T t msg w s = Some (Inr (w, s))"
  using find_call [OF assms(2), of t] assms(1,3)
  by (simp add: center_handleRpc_def insertLambda_void_def)

lemma handle_none:
  assumes "funs t f = None" and "rpc_call R f args w0 = (msg, w1)"
  shows "center_handleRpc T t msg w s = None"
  using find_call [OF assms(2), of t] assms(1) by (simp add: center_handleRpc_def)

lemma handle_ret:
  assumes "funs t f = Some (insertLambda_ret R func)" and "rpc_call R f args w0 = (msg, w1)"
    and "func args = Some (Inr v)" and "sCenterServerSessionRpcFromer s = Some l" and "sCenterServerSessionRpc s"
  shows "\<exists>w' s'. center_handleRpc T t msg w s = Some (Inr (w', s')) \<and>
    (if request msg = - 1 then w' = w \<and> s' = s else answered T l (request msg) [v] s s')"
proof -
  obtain answer w' where a: "rpc_reply R (request msg) [v] w = (answer, w')" by fastforce
  show ?thesis
    using find_call [OF assms(2), of t] assms(1,3-5) a find_answer [OF a]
    by (auto simp: center_handleRpc_def insertLambda_ret_def session_reply_def session_sendv_def answered_def)
qed

lemma handle_fault:
  assumes "funs t f = Some (insertLambda_ret R func)" and "rpc_call R f args w0 = (msg, w1)"
    and "func args = Some (Inl e)"
  shows "center_handleRpc T t msg w s = Some (Inl e)"
  using find_call [OF assms(2), of t] assms(1,3) by (simp add: center_handleRpc_def insertLambda_ret_def)

end

section \<open>The functions of the example\<close>

text \<open>test/CenterServerExt.cpp. \<open>int\<close> addition that overflows is undefined.\<close>

definition ext_add :: "i32 \<Rightarrow> i32 \<Rightarrow> i32 result" where
  "ext_add a b = (if sint a + sint b = sint (a + b) then Inr (a + b) else Inl SignedOverflow)"

fun two_ints :: "(i32 \<Rightarrow> i32 \<Rightarrow> 'v result) \<Rightarrow> 'v rpc_fun" where
  "two_ints f [RInt a, RInt b] = Some (f a b)"
| "two_ints f _ = None"

fun ext_testrpc :: "unit rpc_fun" where
  "ext_testrpc [RStr a, RInt b] = Some (Inr ())"
| "ext_testrpc _ = None"

text \<open>
  The functions \<open>initCenterServerExt\<close> defines, in order. \<open>addNoneRet\<close> takes a request besides its numbers; \<open>conv\<close>
  is what the service makes of the arguments.
\<close>

definition initCenterServerExt_funs ::
  "('t, ('w, 'r) rpc_handler) rpc_table \<Rightarrow> (rpc_val list, 'w) rpc_lib \<Rightarrow> unit rpc_fun \<Rightarrow> 't \<Rightarrow> 't" where
  "initCenterServerExt_funs T R conv t =
     (let add = two_ints (\<lambda>a b. rbind (ext_add a b) (\<lambda>v. Inr (RInt v)));
          t1 = def_ret T R (string_bytes ''test'') add t;
          t2 = def_void T (string_bytes ''testNoneRet'') (two_ints (\<lambda>a b. Inr ())) t1;
          t3 = def_ret T R (string_bytes ''add'') add t2;
          t4 = def_void T (string_bytes ''addNoneRet'') conv t3
      in rt_def T (string_bytes ''testrpc'') (insertLambda_void ext_testrpc) t4)"

context rpc_service
begin

lemma ext_funs:
  "funs (initCenterServerExt_funs T R conv (rt_new T)) =
    [string_bytes ''test'' \<mapsto> insertLambda_ret R (two_ints (\<lambda>a b. rbind (ext_add a b) (\<lambda>v. Inr (RInt v)))),
     string_bytes ''testNoneRet'' \<mapsto> insertLambda_void (two_ints (\<lambda>a b. Inr ())),
     string_bytes ''add'' \<mapsto> insertLambda_ret R (two_ints (\<lambda>a b. rbind (ext_add a b) (\<lambda>v. Inr (RInt v)))),
     string_bytes ''addNoneRet'' \<mapsto> insertLambda_void conv,
     string_bytes ''testrpc'' \<mapsto> insertLambda_void ext_testrpc]"
  by (simp add: initCenterServerExt_funs_def def_ret_def def_void_def Let_def def_funs new_funs string_bytes_def)

lemma ext_test:
  assumes "t = initCenterServerExt_funs T R conv (rt_new T)"
    and "f = string_bytes ''test'' \<or> f = string_bytes ''add''" and "rpc_call R f [RInt a, RInt b] w0 = (msg, w1)"
    and "sCenterServerSessionRpcFromer s = Some l" and "sCenterServerSessionRpc s"
  shows "if sint a + sint b = sint (a + b)
    then \<exists>w' s'. center_handleRpc T t msg w s = Some (Inr (w', s')) \<and>
      (if request msg = - 1 then w' = w \<and> s' = s else answered T l (request msg) [RInt (a + b)] s s')
    else center_handleRpc T t msg w s = Some (Inl SignedOverflow)"
proof -
  have f: "funs t f = Some (insertLambda_ret R (two_ints (\<lambda>a b. rbind (ext_add a b) (\<lambda>v. Inr (RInt v)))))"
    using assms(2) by (auto simp: assms(1) ext_funs string_bytes_def)
  show ?thesis
    using handle_ret [OF f assms(3) _ assms(4,5), of "RInt (a + b)" w] handle_fault [OF f assms(3), of SignedOverflow w s]
    by (auto simp: ext_add_def)
qed

end

section \<open>A service that satisfies the contract\<close>

fun esc :: "bytes \<Rightarrow> bytes" where
  "esc [] = [0]"
| "esc (c # cs) = 1 # c # esc cs"

fun unesc :: "bytes \<Rightarrow> bytes \<times> bytes" where
  "unesc [] = ([], [])"
| "unesc [m] = ([], [])"
| "unesc (m # c # r) = (if m = 0 then ([], c # r) else apfst (Cons c) (unesc r))"

lemma unesc_esc [simp]: "unesc (esc s @ r) = (s, r)"
proof (induction s)
  case Nil
  show ?case by (cases r) simp_all
qed simp

fun enc_vals :: "rpc_val list \<Rightarrow> bytes" where
  "enc_vals [] = [0]"
| "enc_vals (RInt i # vs) = 1 # le_bytes 4 (unat i) @ enc_vals vs"
| "enc_vals (RStr s # vs) = 2 # esc s @ enc_vals vs"

fun dec_vals :: "nat \<Rightarrow> bytes \<Rightarrow> rpc_val list" where
  "dec_vals (Suc n) (m # r) =
     (if m = 0 then [] else if m = 1 then RInt (of_nat (le_nat (take 4 r))) # dec_vals n (drop 4 r)
      else RStr (fst (unesc r)) # dec_vals n (snd (unesc r)))"
| "dec_vals n r = []"

lemma dec_enc_vals: "length vs < n \<Longrightarrow> dec_vals n (enc_vals vs) = vs"
proof (induction vs arbitrary: n rule: enc_vals.induct)
  case 1
  then show ?case by (cases n) simp_all
next
  case (2 i vs)
  then show ?case by (cases n) (simp_all add: le_nat_le_bytes)
next
  case (3 s vs)
  then show ?case by (cases n) simp_all
qed

lemma length_enc_vals: "length vs < length (enc_vals vs)"
  by (induction vs rule: enc_vals.induct) simp_all

definition enc_req :: "int \<Rightarrow> bytes" where
  "enc_req i = (if i < 0 then 1 else 0) # esc (replicate (nat \<bar>i\<bar>) 0)"

definition dec_req :: "bytes \<Rightarrow> int \<times> bytes" where
  "dec_req b = (let (s, r) = unesc (tl b) in ((if hd b = 1 then - int (length s) else int (length s)), r))"

lemma dec_enc_req [simp]: "dec_req (enc_req i @ r) = (i, r)"
  by (simp add: dec_req_def enc_req_def)

definition std_rpc :: "(rpc_val list, nat) rpc_lib" where
  "std_rpc = \<lparr>rpc_call = (\<lambda>f args w. (enc_req (int w) @ esc f @ enc_vals args, w + 1)),
     rpc_reply = (\<lambda>req args w. (enc_req req @ enc_vals args, w))\<rparr>"

definition std_table :: "((bytes, 'h) umap, 'h) rpc_table" where
  "std_table = \<lparr>rt_new = [], rt_def = um_set,
     rt_find = (\<lambda>t msg. let (req, r) = dec_req msg; (f, vals) = unesc r
        in map_option (\<lambda>h. (h, dec_vals (length vals) vals, req)) (um_find t f)),
     rt_answer = (\<lambda>msg. let (req, vals) = dec_req msg in Some (req, dec_vals (length vals) vals))\<rparr>"

interpretation std_service: rpc_service std_rpc std_table um_find "\<lambda>msg. fst (dec_req msg)"
  by unfold_locales
    (auto simp: std_rpc_def std_table_def dec_enc_vals length_enc_vals Let_def fun_eq_iff)

section \<open>Properties\<close>

text \<open>
  Calling the example's functions. After \<open>initCenterServerExt\<close>, a call of \<open>test\<close> or \<open>add\<close> with two numbers,
  handled on the center server with its caller remembered, sends that caller exactly one packet, the
  reply to its request with their sum; it sends nothing when the call carries no request, and is undefined
  when the sum overflows \<open>int\<close>. \<open>testNoneRet\<close> never replies, so a caller that waits for its value waits for ever,
  and a name not registered is not found.
\<close>

theorem remote_functions:
  assumes "rpc_service R T funs request" and "t = initCenterServerExt_funs T R conv (rt_new T)"
    and "rpc_call R f [RInt a, RInt b] w0 = (msg, w1)"
    and "sCenterServerSessionRpcFromer s = Some l" and "sCenterServerSessionRpc s"
  shows "(f = string_bytes ''test'' \<or> f = string_bytes ''add'' \<longrightarrow>
      (if sint a + sint b = sint (a + b)
       then \<exists>w' s'. center_handleRpc T t msg w s = Some (Inr (w', s')) \<and>
         (if request msg = - 1 then w' = w \<and> s' = s else answered T l (request msg) [RInt (a + b)] s s')
       else center_handleRpc T t msg w s = Some (Inl SignedOverflow))) \<and>
    (f = string_bytes ''testNoneRet'' \<longrightarrow> center_handleRpc T t msg w s = Some (Inr (w, s))) \<and>
    (f \<notin> string_bytes ` {''test'', ''testNoneRet'', ''add'', ''addNoneRet'', ''testrpc''} \<longrightarrow>
      center_handleRpc T t msg w s = None)"
proof -
  note svc = assms(1)
  have "center_handleRpc T t msg w s = Some (Inr (w, s))" if f: "f = string_bytes ''testNoneRet''"
  proof (rule rpc_service.handle_void [OF svc _ assms(3)])
    show "funs t f = Some (insertLambda_void (two_ints (\<lambda>a b. Inr ())))"
      by (simp add: f assms(2) rpc_service.ext_funs [OF svc] string_bytes_def)
  qed simp
  moreover have "center_handleRpc T t msg w s = None"
    if "f \<notin> string_bytes ` {''test'', ''testNoneRet'', ''add'', ''addNoneRet'', ''testrpc''}"
    using that by (intro rpc_service.handle_none [OF svc _ assms(3)]) (simp add: assms(2) rpc_service.ext_funs [OF svc])
  ultimately show ?thesis using rpc_service.ext_test [OF svc assms(2) _ assms(3-5)] by blast
qed

text \<open>The call 7 of \<open>add\<close> with 2 and 3 is answered with 5.\<close>

theorem remote_functions_witness:
  "\<exists>w s. center_handleRpc std_table (initCenterServerExt_funs std_table std_rpc (\<lambda>_. None) (rt_new std_table))
      (enc_req 7 @ esc (string_bytes ''add'') @ enc_vals [RInt 2, RInt 3]) 0
      ((csv center_init :: std_reader center_server)\<lparr>sCenterServerSessionRpcFromer := Some 4\<rparr>) = Some (Inr (w, s)) \<and>
    answered (std_table :: (_, (nat, std_reader) rpc_handler) rpc_table) 4 7 [RInt 5] ((csv center_init)\<lparr>sCenterServerSessionRpcFromer := Some 4\<rparr>) s"
proof -
  let ?s = "(csv center_init :: std_reader center_server)\<lparr>sCenterServerSessionRpcFromer := Some 4\<rparr>"
  let ?msg = "enc_req 7 @ esc (string_bytes ''add'') @ enc_vals [RInt 2, RInt 3]"
  have call: "rpc_call std_rpc (string_bytes ''add'') [RInt 2, RInt 3] 7 = (?msg, 8)"
    "sCenterServerSessionRpcFromer ?s = Some 4" "sCenterServerSessionRpc ?s"
    by (simp_all add: std_rpc_def center_init_def global_init_def)
  from remote_functions [OF std_service.rpc_service_axioms refl call, of "\<lambda>_. None" 0] show ?thesis by auto
qed

end
