(* ===== verification/Example.thy ===== *)
theory Example
  imports RpcService Framing
begin

text \<open>
  The example that comes with the servers: the handlers of test/LogicServerExt.cpp and
  test/CenterServerExt.cpp, those of CenterServer/AirCenterServerSession.cpp, and the simulated player
  (SimulatePlayer/SimulateClient.cpp). The functions that can be called remotely are in RpcService.

  \<^item> Handlers are registered by number; what they print is what they return.
  \<^item> The player's own clock is \<open>sim_ticks\<close>, the values \<open>GetTickCount()\<close> returns one after the other.
\<close>

definition CLIENT_OP_TEST :: nat where "CLIENT_OP_TEST = 0"
definition CENTER_SERVER_EXT_RECV_OP_TEST :: nat where "CENTER_SERVER_EXT_RECV_OP_TEST = 0"
definition AIR_CENTERSERVER_SESSION_SUB_RECV_TEST :: nat where "AIR_CENTERSERVER_SESSION_SUB_RECV_TEST = 0"

lemmas ext_ops = CLIENT_OP_TEST_def CENTER_SERVER_EXT_RECV_OP_TEST_def AIR_CENTERSERVER_SESSION_SUB_RECV_TEST_def

section \<open>The center server's handlers\<close>

text \<open>What the handler of \<open>CENTER_SERVER_EXT_RECV_OP_TEST\<close> reads and logs.\<close>

definition ext_center_test :: "'r packet_lib \<Rightarrow> 'r \<Rightarrow> bytes \<times> i32" where
  "ext_center_test P rp = (let (a, rp1) = rp_str P rp; (b, rp2) = rp_i32 P rp1 in (a, b))"

definition initCenterServerExt ::
  "bool \<Rightarrow> ('t, ('w, 'r) rpc_handler) rpc_table \<Rightarrow> (rpc_val list, 'w) rpc_lib \<Rightarrow> unit rpc_fun \<Rightarrow> nat \<Rightarrow>
   't \<Rightarrow> 'r center_server \<Rightarrow> ('t \<times> 'r center_server) result" where
  "initCenterServerExt ndebug T R conv handle t s =
     (let t1 = initCenterServerExt_funs T R conv t
      in rbind (global_registerUserMsgHandle ndebug CENTER_SERVER_EXT_RECV_OP_TEST handle s) (\<lambda>s1. Inr (t1, s1)))"

definition InitAirCenterServerSessionMsgHandle :: "bool \<Rightarrow> nat \<Rightarrow> 'r center_server \<Rightarrow> 'r center_server result" where
  "InitAirCenterServerSessionMsgHandle ndebug handle s =
     global_registerUserMsgHandle ndebug AIR_CENTERSERVER_SESSION_SUB_RECV_TEST handle s"

section \<open>The logic server's handler\<close>

definition ext_client_test ::
  "'r packet_lib \<Rightarrow> (rpc_val list, 'w) rpc_lib \<Rightarrow> maddr \<Rightarrow> 'r \<Rightarrow> 'w \<Rightarrow> 'r logic_server \<Rightarrow> 'w \<times> 'r logic_server" where
  "ext_client_test P R client rp w s =
     (let s1 = mirror_sendv P client CLIENT_OP_TEST [FI32 1] s in
      if gLogicCenterServerClient s1 then
        (let (a, rp1) = rp_str P rp;
             s2 = center_sendUserV P CENTER_SERVER_EXT_RECV_OP_TEST [FBin (string_bytes ''haha''), FI32 2] s1
         in center_call R (string_bytes ''testrpc'') [RStr (string_bytes ''heihei''), RInt 3] w s2)
      else (w, s1))"

definition initLogicServerExt :: "bool \<Rightarrow> nat \<Rightarrow> 'r logic_server \<Rightarrow> 'r logic_server result" where
  "initLogicServerExt ndebug handle s = registerUserMsgHandle ndebug CLIENT_OP_TEST handle s"

section \<open>The simulated player\<close>

record simulate_client =
  sim_sent :: "packet list"
  sim_num :: nat
  sim_starttime :: "i32 option"   \<comment> \<open>set when \<open>procPacket\<close> first runs\<close>
  sim_count :: nat                \<comment> \<open>the statics of \<open>onPingReply\<close>\<close>
  sim_pingtime :: "i32 option"
  sim_ticks :: "nat \<Rightarrow> i32"
  sim_read :: nat                 \<comment> \<open>how often \<open>GetTickCount()\<close> was called\<close>

definition GetTickCount :: "simulate_client \<Rightarrow> i32 \<times> simulate_client" where
  "GetTickCount s = (sim_ticks s (sim_read s), s\<lparr>sim_read := sim_read s + 1\<rparr>)"

definition sim_send :: "packet \<Rightarrow> simulate_client \<Rightarrow> simulate_client" where
  "sim_send p s = s\<lparr>sim_sent := sim_sent s @ [p]\<rparr>"

definition sim_packet :: "nat \<Rightarrow> bytes \<Rightarrow> packet" where
  "sim_packet op value = Packet (FixedPacket 16384) op [FBin value]"

definition sim_onEnter :: "simulate_client \<Rightarrow> simulate_client" where
  "sim_onEnter s = sim_send (sim_packet CLIENT_OP_TEST (string_bytes ''test'')) s"

definition sendLogicRpcString :: "bytes \<Rightarrow> simulate_client \<Rightarrow> simulate_client" where
  "sendLogicRpcString value s = sim_send (sim_packet 1 value) s"

definition sendGameServerRpcString :: "bytes \<Rightarrow> simulate_client \<Rightarrow> simulate_client" where
  "sendGameServerRpcString value s = sim_send (sim_packet 1 value) s"

definition sim_call :: "('a, 'w) rpc_lib \<Rightarrow> bytes \<Rightarrow> 'a \<Rightarrow> 'w \<Rightarrow> simulate_client \<Rightarrow> 'w \<times> simulate_client" where
  "sim_call R funname args w s = (let (text, w1) = rpc_call R funname args w in (w1, sendLogicRpcString text s))"

definition sim_callGameServer :: "('a, 'w) rpc_lib \<Rightarrow> bytes \<Rightarrow> 'a \<Rightarrow> 'w \<Rightarrow> simulate_client \<Rightarrow> 'w \<times> simulate_client" where
  "sim_callGameServer R funname args w s = (let (text, w1) = rpc_call R funname args w in (w1, sendGameServerRpcString text s))"

definition sim_procPacket :: "nat \<Rightarrow> bytes \<Rightarrow> simulate_client \<Rightarrow> simulate_client result" where
  "sim_procPacket op body s =
     (let (start, s1) = (case sim_starttime s of Some t \<Rightarrow> (t, s) | None \<Rightarrow> GetTickCount s);
          s2 = s1\<lparr>sim_starttime := Some start, sim_num := sim_num s1 + 1\<rparr>;
          s3 = (if op = CLIENT_OP_TEST then sim_send (sim_packet CLIENT_OP_TEST (string_bytes ''test'')) s2 else s2);
          (now, s4) = GetTickCount s3
      in if 1000 \<le> now - start then
           (let (again, s5) = GetTickCount s4 in Inr (s5\<lparr>sim_num := 0, sim_starttime := Some again\<rparr>))
         else Inr s4)"

text \<open>The difference of the two times is of type \<open>int\<close>.\<close>

definition sim_onPingReply ::
  "(rpc_val list, 'w) rpc_lib \<Rightarrow> bytes \<Rightarrow> 'w \<Rightarrow> simulate_client \<Rightarrow> ('w \<times> simulate_client) result" where
  "sim_onPingReply R value w s =
     (let (start, s1) = (case sim_pingtime s of Some t \<Rightarrow> (t, s) | None \<Rightarrow> GetTickCount s);
          (nowtime, s2) = GetTickCount s1;
          s3 = s2\<lparr>sim_pingtime := Some start, sim_count := sim_count s2 + 1\<rparr>;
          diff = sint nowtime - sint start
      in if diff < - (2 ^ 31) \<or> 2 ^ 31 \<le> diff then Inl SignedOverflow
         else Inr (sim_call R (string_bytes ''ping'') [RStr (string_bytes ''hello'')] w
           (if 1000 \<le> diff then s3\<lparr>sim_count := 0, sim_pingtime := Some nowtime\<rparr> else s3)))"

section \<open>Properties\<close>

lemma sim_procPacket_sends:
  "\<exists>s'. sim_procPacket op body s = Inr s' \<and> sim_sent s' = sim_sent s @
     (if op = CLIENT_OP_TEST then [sim_packet CLIENT_OP_TEST (string_bytes ''test'')] else [])"
  by (simp add: sim_procPacket_def GetTickCount_def sim_send_def Let_def split: option.split)

lemma sim_deliver:
  "\<exists>s'. deliver P sim_procPacket ps s = Inr s' \<and> sim_sent s' = sim_sent s @
     replicate (length (filter (\<lambda>p. pk_op p = CLIENT_OP_TEST) ps)) (sim_packet CLIENT_OP_TEST (string_bytes ''test''))"
proof (induction ps arbitrary: s)
  case (Cons p ps)
  obtain s1 where s1: "sim_procPacket (pk_op p) (drop (head_len P) (pk_bytes P p)) s = Inr s1"
    "sim_sent s1 = sim_sent s @
       (if pk_op p = CLIENT_OP_TEST then [sim_packet CLIENT_OP_TEST (string_bytes ''test'')] else [])"
    using sim_procPacket_sends by blast
  show ?case using Cons.IH [of s1] s1 by auto
qed simp

text \<open>
  C39: The simulated player answers. However TCP cuts the stream of the server's packets, the player
  sends one test packet when it enters and one for each \<open>CLIENT_OP_TEST\<close> it receives, and nothing for
  any other packet.
\<close>

theorem simulated_player_answers:
  assumes "packet_codec P fits rem" and "\<forall>p\<in>set ps. fits p" and "concat cs = concat (map (pk_bytes P) ps)"
    and "length (concat cs) < 2 ^ len_bits P"
  shows "\<exists>s'. feed (single_onMsg P sim_procPacket) [] (sim_onEnter s) cs = Some (Inr (s', [])) \<and>
    sim_sent s' = sim_sent s @ replicate (Suc (length (filter (\<lambda>p. pk_op p = CLIENT_OP_TEST) ps)))
      (sim_packet CLIENT_OP_TEST (string_bytes ''test''))"
proof -
  note wire = packet_codec.axioms(1) [OF assms(1)]
  obtain s' where s': "deliver P sim_procPacket ps (sim_onEnter s) = Inr s'" "sim_sent s' = sim_sent (sim_onEnter s) @
     replicate (length (filter (\<lambda>p. pk_op p = CLIENT_OP_TEST) ps)) (sim_packet CLIENT_OP_TEST (string_bytes ''test''))"
    using sim_deliver by blast
  have "single_onMsg P sim_procPacket (concat cs) (sim_onEnter s) = Some (Inr (s', length (concat cs)))"
    using packet_codec.single_run_packets [OF assms(1,2), of sim_procPacket 0 "sim_onEnter s"] s'(1) assms(3,4)
    by (simp add: packet_wire.single_onMsg_small [OF wire])
  then show ?thesis
    using packet_wire.single_feed [OF wire assms(4), of sim_procPacket "sim_onEnter s"] s'(2)
    by (simp add: at_once_def sim_onEnter_def sim_send_def)
qed

theorem simulated_player_answers_witness:
  "\<exists>s'. feed (single_onMsg std_lib sim_procPacket) [] (sim_onEnter \<lparr>sim_sent = [], sim_num = 0, sim_starttime = None, sim_count = 0, sim_pingtime = None,
      sim_ticks = (\<lambda>n. of_nat (700 * n)), sim_read = 0\<rparr>) [[10, 0, 0, 0, 0], [0, 1, 0, 0, 0, 6, 0, 0], [0, 9, 0]] = Some (Inr (s', [])) \<and>
     length (sim_sent s') = 2"
proof -
  let ?ps = "[Packet TinyPacket CLIENT_OP_TEST [FI32 1], Packet TinyPacket 9 []]"
  have "\<forall>p\<in>set ?ps. std_fits p" "concat [[10, 0, 0, 0, 0], [0, 1, 0, 0, 0, 6, 0, 0], [0, 9, 0]] = concat (map (pk_bytes std_lib) ?ps)"
    "length (concat [[10, 0, 0, 0, 0], [0, 1, 0, 0, 0, 6, 0, 0], [0, 9, 0 :: byte]]) < 2 ^ len_bits std_lib"
    by (simp_all add: std_eval ext_ops)
  from simulated_player_answers [OF std.packet_codec_axioms this, of "\<lparr>sim_sent = [], sim_num = 0, sim_starttime = None, sim_count = 0, sim_pingtime = None,
      sim_ticks = (\<lambda>n. of_nat (700 * n)), sim_read = 0\<rparr>"] show ?thesis
    by (auto simp: ext_ops)
qed

text \<open>
  A client's test message and what it sets off. The logic server's handler sends the client one
  answer through its connection server and, when the center server is connected, a user message and a
  remote call; the center server gives that user message to the handler \<open>initCenterServerExt\<close> registered,
  which reads exactly what was sent.
\<close>

theorem client_test_message:
  assumes "packet_codec P fits rem" and "cm_mConnectionServer (mirrors s m) = Some k" and "alive s k"
    and "q = Packet BigPacket CENTER_SERVER_EXT_RECV_OP_TEST [FBin (string_bytes ''haha''), FI32 2]" and "fits q"
    and "up = Packet BigPacket CENTERSERVER_RECV_OP_USER [FBin (pk_bytes P q)]" and "fits up"
    and "fits (Packet BigPacket CENTERSERVER_SEND_OP_USER [FBin (pk_bytes P q)])"
    and "initCenterServerExt ndebug T S conv h t c0 = Inr (t1, c)"
    and "rpc_call R (string_bytes ''testrpc'') [RStr (string_bytes ''heihei''), RInt 3] w = (msg, w1)"
  shows "acts (snd (ext_client_test P R m rp w s)) =
      acts s @ SendCS k (mirror_packet (mirrors s m) (pk_bytes P (Packet BigPacket CLIENT_OP_TEST [FI32 1]))) #
        (if gLogicCenterServerClient s
         then [SendCenter up, SendCenter (Packet BigPacket CENTERSERVER_RECV_OP_RPC [FBin msg])] else []) \<and>
    (\<exists>r. session_onMsg P pw l (pk_bytes P up) c = Inr (cact (CenterUser h l r) c) \<and>
       ext_center_test P r = (string_bytes ''haha'', 2))"
proof -
  have "findUserMsgHandle c CENTER_SERVER_EXT_RECV_OP_TEST = Some h"
    using assms(9) by (auto simp: initCenterServerExt_def global_registerUserMsgHandle_def findUserMsgHandle_def
        results Let_def)
  moreover obtain r where "rem r (pk_fields q)" "session_onMsg P pw l (pk_bytes P up) c =
      Inr (case findUserMsgHandle c (pk_op q) of None \<Rightarrow> c | Some h \<Rightarrow> cact (CenterUser h l r) c)"
    using packet_codec.user_arrives [OF assms(1,5) refl assms(8,6,7)] by metis
  moreover from this have "rem r [FBin (string_bytes ''haha''), FI32 2]" using assms(4) by simp
  then obtain r1 r2 where "rp_str P r = (string_bytes ''haha'', r1)" "rp_i32 P r1 = (2, r2)"
    using packet_codec.take_str [OF assms(1)] packet_codec.take_i32 [OF assms(1)] by metis
  ultimately have "\<exists>r. session_onMsg P pw l (pk_bytes P up) c = Inr (cact (CenterUser h l r) c) \<and>
       ext_center_test P r = (string_bytes ''haha'', 2)"
    using assms(4) by (auto simp: ext_center_test_def)
  moreover have "acts (snd (ext_client_test P R m rp w s)) =
      acts s @ SendCS k (mirror_packet (mirrors s m) (pk_bytes P (Packet BigPacket CLIENT_OP_TEST [FI32 1]))) #
        (if gLogicCenterServerClient s
         then [SendCenter up, SendCenter (Packet BigPacket CENTERSERVER_RECV_OP_RPC [FBin msg])] else [])"
    using assms(2-4,6,10)
    by (auto simp: ext_client_test_def mirror_sendv_def mirror_sendPacket_def sendToConnectionServer_def
        center_sendUserV_def center_sendUserPacket_def center_call_def center_sendv_def split: prod.splits)
  ultimately show ?thesis by blast
qed

theorem client_test_message_witness:
  "\<exists>c r. initCenterServerExt False std_table std_rpc (\<lambda>_. None) 5 (rt_new std_table) (csv center_init) =
       Inr (initCenterServerExt_funs std_table std_rpc (\<lambda>_. None) (rt_new std_table), c :: std_reader center_server) \<and>
     session_onMsg std_lib [112] 3 (std_bytes (Packet BigPacket CENTERSERVER_RECV_OP_USER
       [FBin (std_bytes (Packet BigPacket 0 [FBin (string_bytes ''haha''), FI32 2]))])) c =
       Inr (cact (CenterUser 5 3 r) c) \<and> ext_center_test std_lib r = (string_bytes ''haha'', 2)"
proof -
  let ?q = "Packet BigPacket CENTER_SERVER_EXT_RECV_OP_TEST [FBin (string_bytes ''haha''), FI32 2]"
  let ?T = "std_table :: (_, (nat, std_reader) rpc_handler) rpc_table"
  let ?c = "(csv center_init :: std_reader center_server)\<lparr>sUserMsgHandles := um_set 0 5 []\<rparr>"
  let ?s = "demo_ls_in\<lparr>mirrors := (\<lambda>_. demo_mirror), gLogicCenterServerClient := True\<rparr> :: std_reader logic_server"
  have q: "?q = Packet BigPacket 0 [FBin (string_bytes ''haha''), FI32 2]" by (simp add: ext_ops)
  have m: "cm_mConnectionServer (mirrors ?s 0) = Some 0" "alive ?s 0"
    by (simp_all add: demo_mirror_def demo_ls_in_sel)
  have fits: "std_fits ?q" "std_fits (Packet BigPacket CENTERSERVER_RECV_OP_USER [FBin (pk_bytes std_lib ?q)])"
    "std_fits (Packet BigPacket CENTERSERVER_SEND_OP_USER [FBin (pk_bytes std_lib ?q)])"
    by (simp_all add: std_eval ext_ops center_ops string_bytes_def)
  have init: "initCenterServerExt False ?T std_rpc (\<lambda>_. None) 5 (rt_new ?T) (csv center_init) =
      Inr (initCenterServerExt_funs ?T std_rpc (\<lambda>_. None) (rt_new ?T), ?c)"
    by (simp add: initCenterServerExt_def global_registerUserMsgHandle_def ext_ops center_init_def global_init_def)
  have "\<exists>r. session_onMsg std_lib [112] 3 (pk_bytes std_lib (Packet BigPacket CENTERSERVER_RECV_OP_USER [FBin (pk_bytes std_lib ?q)])) ?c =
      Inr (cact (CenterUser 5 3 r) ?c) \<and> ext_center_test std_lib r = (string_bytes ''haha'', 2)"
    using client_test_message [OF std.packet_codec_axioms m refl fits(1) refl fits(2,3) init, of std_rpc 0 _ _ undefined "[112]" 3]
    by (simp add: std_rpc_def)
  then show ?thesis using init unfolding q by auto
qed

text \<open>The handler of AirCenterServerSession has the opcode of the one \<open>initCenterServerExt\<close> registers.\<close>

lemma air_opcode_taken:
  assumes "initCenterServerExt ndebug T R conv h t c0 = Inr (t1, c)"
  shows "InitAirCenterServerSessionMsgHandle False h' c = Inl AssertFailed"
  using assms by (auto simp: initCenterServerExt_def InitAirCenterServerSessionMsgHandle_def
      global_registerUserMsgHandle_def cassert_def ext_ops results Let_def split: if_splits)

end
