(* ===== verification/Startup.thy ===== *)
theory Startup
  imports NetThread
begin

text \<open>
  What runs around the components: the heartbeats with which a connection server keeps itself listed in
  etcd (\<open>main\<close> of ConnectionServer/ConnectionServer.cpp and WSConnectionServer/ConnectionServer.cpp), the
  main loops of the logic and the center server, connecting again and again
  (Common/AutoConnectionServer.h), and Common/HelpFunction.h.

  \<^item> Time is in milliseconds. A call of etcd is a parameter: at a time, to a server, the body of the answer
    and how long it took. Reading a console line takes as long as the user needs.
  \<^item> The timers (\<open>dodo::TimerMgr\<close>) and the event loop are the library's.
\<close>

section \<open>Heartbeats\<close>

type_synonym 'e etcd_call = "nat \<Rightarrow> 'e \<Rightarrow> bytes \<times> nat"

text \<open>One pass over the configured servers: when it ends, and the time at which a set was answered.\<close>

fun heartbeat_round :: "'e etcd_call \<Rightarrow> 'e list \<Rightarrow> nat \<Rightarrow> nat \<times> nat list" where
  "heartbeat_round etcdSet [] now = (now, [])"
| "heartbeat_round etcdSet (etcd # etcds) now =
     (let (body, ms) = etcdSet now etcd in
      if body \<noteq> [] then (now + ms, [now + ms]) else heartbeat_round etcdSet etcds (now + ms))"

text \<open>The loop of \<open>main\<close>; per turn the console line, if a key was hit, and how long reading it took.\<close>

fun heartbeat_loop :: "'e etcd_call \<Rightarrow> 'e list \<Rightarrow> (bytes \<times> nat) option list \<Rightarrow> nat \<Rightarrow> nat list" where
  "heartbeat_loop etcdSet etcds [] now = []"
| "heartbeat_loop etcdSet etcds (turn # turns) now =
     (if map_option fst turn = Some (string_bytes ''quit'') then []
      else (let (after, sets) = heartbeat_round etcdSet etcds (now + (case turn of None \<Rightarrow> 0 | Some (input, ms) \<Rightarrow> ms))
            in sets @ heartbeat_loop etcdSet etcds turns (after + 5000)))"

text \<open>The web server's \<open>main\<close> has the same loop.\<close>

definition ws_heartbeat_loop :: "'e etcd_call \<Rightarrow> 'e list \<Rightarrow> (bytes \<times> nat) option list \<Rightarrow> nat \<Rightarrow> nat list" where
  "ws_heartbeat_loop etcdSet etcds turns now = heartbeat_loop etcdSet etcds turns now"

definition etcd_ttl :: nat where "etcd_ttl = 15000"

section \<open>Listeners\<close>

datatype session_class = ConnectionClientSession_class | LogicServerSession_class | CenterServerSession_class

text \<open>What an accepted or connected socket becomes: its session, how long it may be silent (-1: for ever), its largest packet.\<close>

record net_add =
  na_class :: session_class
  na_pingpong :: int
  na_maxpacket :: nat

definition accept_client :: net_add where
  "accept_client = \<lparr>na_class = ConnectionClientSession_class, na_pingpong = - 1, na_maxpacket = 32 * 1024\<rparr>"

definition accept_logic :: net_add where
  "accept_logic = \<lparr>na_class = LogicServerSession_class, na_pingpong = 10000, na_maxpacket = 32 * 1024 * 1024\<rparr>"

definition ws_accept_logic :: net_add where
  "ws_accept_logic = \<lparr>na_class = LogicServerSession_class, na_pingpong = 90 * 1000, na_maxpacket = 32 * 1024 * 1024\<rparr>"

definition center_accept :: net_add where
  "center_accept = \<lparr>na_class = CenterServerSession_class, na_pingpong = 10000, na_maxpacket = 32 * 1024 * 1024\<rparr>"

record listen_config =
  lc_enableipv6 :: bool
  lc_bindip :: bytes
  lc_portforclient :: i32
  lc_portforlogicserver :: i32

definition startServer :: "listen_config \<Rightarrow> (bool \<times> bytes \<times> i32 \<times> net_add) list" where
  "startServer cfg =
     [(lc_enableipv6 cfg, lc_bindip cfg, lc_portforclient cfg, accept_client),
      (lc_enableipv6 cfg, lc_bindip cfg, lc_portforlogicserver cfg, accept_logic)]"

definition ws_startServer :: "listen_config \<Rightarrow> (bool \<times> bytes \<times> i32 \<times> net_add) list" where
  "ws_startServer cfg =
     [(lc_enableipv6 cfg, lc_bindip cfg, lc_portforclient cfg, accept_client),
      (lc_enableipv6 cfg, lc_bindip cfg, lc_portforlogicserver cfg, ws_accept_logic)]"

section \<open>Connecting again and again\<close>

definition AUTO_CONNECT_DELAY :: nat where "AUTO_CONNECT_DELAY = 5000"

datatype connect_event = TryConnect | SleepFor nat | AddNetSession nat

text \<open>
  The connecting threads, one after the other: a failed attempt sleeps and starts the next thread.
  \<open>socks\<close> are the results of \<open>ox_socket_connect\<close>, \<open>None\<close> for \<open>SOCKET_ERROR\<close>.
\<close>

fun autoConnectServer :: "nat option list \<Rightarrow> connect_event list" where
  "autoConnectServer [] = []"
| "autoConnectServer (Some fd # socks) = [TryConnect, AddNetSession fd]"
| "autoConnectServer (None # socks) = TryConnect # SleepFor AUTO_CONNECT_DELAY # autoConnectServer socks"

text \<open>It goes on until the first success, adds one session then, and never another.\<close>

lemma autoConnectServer_until:
  "autoConnectServer (replicate n None @ Some fd # socks) =
     concat (replicate n [TryConnect, SleepFor AUTO_CONNECT_DELAY]) @ [TryConnect, AddNetSession fd]"
  by (induction n) simp_all

section \<open>The main loop of a server with a logic thread\<close>

record 's timer_lib =
  tm_isEmpty :: "'s \<Rightarrow> bool"
  tm_nearEndMs :: "'s \<Rightarrow> nat"
  tm_schedule :: "'s \<Rightarrow> 's result"

text \<open>Per turn: the console line, if a key was hit, and what the network threads do to the queue while the loop waits.\<close>

type_synonym 'q turn = "bytes option \<times> ('q \<Rightarrow> 'q)"

definition main_wait :: "'s timer_lib \<Rightarrow> 's \<Rightarrow> nat" where
  "main_wait T s = (if tm_isEmpty T s then 1 else tm_nearEndMs T s)"

text \<open>The result says whether the user quit; \<open>False\<close> means the turns given are used up.\<close>

fun main_loop ::
  "bool \<Rightarrow> ('q, net2logic_msg) queue_lib \<Rightarrow> 's logic_handlers \<Rightarrow> 's timer_lib \<Rightarrow> 'q turn list \<Rightarrow> 'q \<Rightarrow> 's \<Rightarrow>
   ('q \<times> 's \<times> bool) result option" where
  "main_loop ndebug Q H T [] q s = Some (Inr (q, s, False))"
| "main_loop ndebug Q H T ((input, network) # turns) q s =
     (if input = Some (string_bytes ''quit'') then Some (Inr (q, s, True))
      else (case tm_schedule T s of
          Inl f \<Rightarrow> Some (Inl f)
        | Inr s1 \<Rightarrow> (case procNet2LogicMsgList ndebug Q H (network q) s1 of
              None \<Rightarrow> None
            | Some (Inl f) \<Rightarrow> Some (Inl f)
            | Some (Inr (q2, s2)) \<Rightarrow> main_loop ndebug Q H T turns q2 s2)))"

text \<open>The center server's \<open>main\<close> has the same loop, with its own timers.\<close>

definition center_main_loop ::
  "bool \<Rightarrow> ('q, net2logic_msg) queue_lib \<Rightarrow> 's logic_handlers \<Rightarrow> 's timer_lib \<Rightarrow> 'q turn list \<Rightarrow> 'q \<Rightarrow> 's \<Rightarrow>
   ('q \<times> 's \<times> bool) result option" where
  "center_main_loop ndebug Q H T turns q s = main_loop ndebug Q H T turns q s"

text \<open>Every turn returns, and without a fault the consumer's list is empty after it.\<close>

context logic_queue
begin

lemma main_loop_returns:
  "\<exists>r. main_loop ndebug Q H T turns q s = Some r"
proof (induction turns arbitrary: q s)
  case (Cons turn turns)
  obtain input network where turn: "turn = (input, network)" by fastforce
  show ?case
  proof (cases "tm_schedule T s")
    case (Inr s1)
    obtain q' where "procNet2LogicMsgList ndebug Q H (network q) s1 = Some (rbind
        (proc_all ndebug H (rlist (mq_syncRead Q 0 (network q))) s1) (\<lambda>s'. Inr (q', s')))"
      using proc_loop_all [of ndebug H "mq_syncRead Q 0 (network q)" s1] unfolding procNet2LogicMsgList_def by blast
    then show ?thesis using Inr Cons.IH
      by (cases "proc_all ndebug H (rlist (mq_syncRead Q 0 (network q))) s1") (auto simp: turn)
  qed (simp add: turn)
qed simp

lemma main_loop_turn:
  assumes "rlist q = []" and "rlist (network q) = []" and "tm_schedule T s = Inr s1"
    and "input \<noteq> Some (string_bytes ''quit'')" and "proc_all ndebug H (slist (network q)) s1 = Inr s2"
  shows "\<exists>q2. main_loop ndebug Q H T ((input, network) # turns) q s = main_loop ndebug Q H T turns q2 s2 \<and> rlist q2 = []"
proof -
  let ?q = "mq_syncRead Q 0 (network q)"
  obtain q2 where "proc_loop ndebug Q H ?q s1 = Some (rbind (proc_all ndebug H (rlist ?q) s1) (\<lambda>s'. Inr (q2, s')))"
    "rlist q2 = []"
    using proc_loop_all [of ndebug H ?q s1] by blast
  then show ?thesis using assms(3-5) read_all [OF assms(2)] by (auto simp: procNet2LogicMsgList_def)
qed

end

section \<open>Helper functions\<close>

definition map_at :: "(bytes \<rightharpoonup> 'v) \<Rightarrow> bytes \<Rightarrow> 'v result" where
  "map_at m k = (case m k of None \<Rightarrow> Inl RuntimeError | Some v \<Rightarrow> Inr v)"

text \<open>
  The same template over a map with \<open>int\<close> keys: the text of the error is the literal of 15 characters
  \<open>"not found key :"\<close> from its character \<open>k\<close> on.
\<close>

definition map_at_int :: "(i32 \<rightharpoonup> 'v) \<Rightarrow> i32 \<Rightarrow> 'v result" where
  "map_at_int m k = (case m k of
       None \<Rightarrow> Inl (if 0 \<le> sint k \<and> sint k \<le> int (length (string_bytes ''not found key :'')) then RuntimeError else OutOfBounds)
     | Some v \<Rightarrow> Inr v)"

text \<open>What \<open>atoi\<close> and \<open>sscanf("%lld")\<close> read: white space, a sign, digits. \<open>None\<close> without digits.\<close>

definition is_digit :: "byte \<Rightarrow> bool" where "is_digit c \<longleftrightarrow> 48 \<le> c \<and> c \<le> 57"

definition is_space :: "byte \<Rightarrow> bool" where "is_space c \<longleftrightarrow> c = 32 \<or> 9 \<le> c \<and> c \<le> 13"

definition digits_val :: "bytes \<Rightarrow> int" where
  "digits_val ds = foldl (\<lambda>n c. 10 * n + (int (unat c) - 48)) 0 ds"

definition scan_int :: "bytes \<Rightarrow> int option" where
  "scan_int str =
     (let s = dropWhile is_space str;
          (neg, t) = (case s of c # r \<Rightarrow> if c = 45 then (True, r) else if c = 43 then (False, r) else (False, s) | [] \<Rightarrow> (False, s));
          ds = takeWhile is_digit t
      in if ds = [] then None else Some (if neg then - digits_val ds else digits_val ds))"

text \<open>Numbers that do not fit are undefined.\<close>

definition StrToInt :: "bytes \<Rightarrow> i32 result" where
  "StrToInt str = (case scan_int (c_str str) of
       None \<Rightarrow> Inr 0
     | Some n \<Rightarrow> if - (2 ^ 31) \<le> n \<and> n < 2 ^ 31 then Inr (word_of_int n) else Inl SignedOverflow)"

text \<open>\<open>junk\<close> is what \<open>v\<close> holds before \<open>sscanf\<close> writes it.\<close>

definition StrToInt64 :: "i64 \<Rightarrow> bytes \<Rightarrow> i64 result" where
  "StrToInt64 junk str = (case scan_int (c_str str) of
       None \<Rightarrow> Inr junk
     | Some n \<Rightarrow> if - (2 ^ 63) \<le> n \<and> n < 2 ^ 63 then Inr (word_of_int n) else Inl SignedOverflow)"

text \<open>A decimal numeral is read back, and text without one gives what happened to be in memory.\<close>

fun decimal :: "nat \<Rightarrow> bytes" where
  "decimal n = (if n < 10 then [of_nat (48 + n)] else decimal (n div 10) @ [of_nat (48 + n mod 10)])"

declare decimal.simps [simp del]

lemma decimal_digits:
  "list_all is_digit (decimal n) \<and> decimal n \<noteq> [] \<and> digits_val (decimal n) = int n"
proof (induction n rule: decimal.induct)
  case (1 n)
  have u: "uint (of_nat (48 + m) :: byte) = 48 + int m" if "m < 10" for m
  proof -
    have "unat (of_nat (48 + m) :: byte) = 48 + m" using that by (simp del: of_nat_add)
    then show ?thesis by (metis of_nat_add of_nat_numeral uint_nat)
  qed
  then have d: "is_digit (of_nat (48 + m))" if "m < 10" for m
    using that u [OF that] by (simp add: is_digit_def word_le_def del: of_nat_add)
  have "10 * int (n div 10) + int (n mod 10) = int n" by (simp add: zdiv_int zmod_int)
  with 1 u d show ?case
    by (subst (1 2 3) decimal.simps) (simp add: digits_val_def del: of_nat_add)
qed

lemma takeWhile_all: "list_all P xs \<Longrightarrow> takeWhile P xs = xs"
  by (induction xs) auto

lemma scan_decimal: "scan_int (c_str (decimal n)) = Some (int n)"
proof -
  have "c_str (decimal n) = decimal n" using decimal_digits [of n]
    unfolding c_str_def by (intro takeWhile_all) (auto simp: list_all_iff is_digit_def)
  moreover obtain d ds where d: "decimal n = d # ds" "is_digit d" using decimal_digits [of n] by (cases "decimal n") auto
  moreover have "\<not> is_space d" "d \<noteq> 45" "d \<noteq> 43"
    using d(2) by (auto simp: is_digit_def is_space_def word_le_nat_alt)
  ultimately show ?thesis
    using decimal_digits [of n] takeWhile_all [of is_digit ds]
    by (simp add: scan_int_def Let_def del: takeWhile_eq_all_conv)
qed

lemma StrToInt_decimal: "n < 2 ^ 31 \<Longrightarrow> StrToInt (decimal n) = Inr (of_nat n)"
  by (simp add: StrToInt_def scan_decimal)

lemma StrToInt64_decimal: "n < 2 ^ 63 \<Longrightarrow> StrToInt64 junk (decimal n) = Inr (of_nat n)"
  by (simp add: StrToInt64_def scan_decimal)

lemma StrToInt64_junk: "StrToInt64 junk (string_bytes ''abc'') = Inr junk"
  by (simp add: StrToInt64_def scan_int_def c_str_def string_bytes_def is_space_def is_digit_def word_le_nat_alt Let_def)

section \<open>How long a heartbeat takes\<close>

lemma heartbeat_round_bound:
  assumes "i < length etcds" and "\<And>t. fst (etcdSet t (etcds ! i)) \<noteq> []" and "\<And>t e. snd (etcdSet t e) \<le> m"
  shows "\<exists>t. heartbeat_round etcdSet etcds now = (t, [t]) \<and> now \<le> t \<and> t \<le> now + Suc i * m"
  using assms(1,2)
proof (induction etcds arbitrary: i now)
  case (Cons e es)
  obtain body ms where c: "etcdSet now e = (body, ms)" by fastforce
  then have ms: "ms \<le> m" using assms(3) [of now e] by simp
  show ?case
  proof (cases "body = []")
    case True
    then obtain j where j: "i = Suc j" using Cons.prems(2) [of now] c by (cases i) auto
    then obtain t where "heartbeat_round etcdSet es (now + ms) = (t, [t])" "now + ms \<le> t" "t \<le> now + ms + Suc j * m"
      using Cons.IH [of j "now + ms"] Cons.prems by auto
    then show ?thesis using True c ms j by (intro exI [of _ t]) (simp add: Let_def)
  next
    case False
    then show ?thesis using c ms by (simp add: Let_def)
  qed
qed simp

lemma heartbeat_gaps_bound:
  assumes "i < length etcds" and "\<And>t. fst (etcdSet t (etcds ! i)) \<noteq> []" and "\<And>t e. snd (etcdSet t e) \<le> m"
  shows "successively (\<lambda>a b. b \<le> a + 5000 + Suc i * m) (heartbeat_loop etcdSet etcds (replicate n None) now) \<and>
    length (heartbeat_loop etcdSet etcds (replicate n None) now) = n \<and>
    (\<forall>t ts. heartbeat_loop etcdSet etcds (replicate n None) now = t # ts \<longrightarrow> t \<le> now + Suc i * m)"
proof (induction n arbitrary: now)
  case (Suc n)
  obtain t where t: "heartbeat_round etcdSet etcds now = (t, [t])" "t \<le> now + Suc i * m"
    using heartbeat_round_bound [of i etcds etcdSet m now] assms by blast
  then have loop: "heartbeat_loop etcdSet etcds (replicate (Suc n) None) now =
      t # heartbeat_loop etcdSet etcds (replicate n None) (t + 5000)"
    by (simp add: Let_def)
  show ?case
    using Suc.IH [of "t + 5000"] t(2) unfolding loop
    by (cases "heartbeat_loop etcdSet etcds (replicate n None) (t + 5000)") auto
qed simp

lemma heartbeat_round_late:
  assumes "i < length etcds" and "\<And>t j. j < i \<Longrightarrow> etcdSet t (etcds ! j) = ([], m)"
    and "\<And>t. etcdSet t (etcds ! i) = (b # body, d)"
  shows "heartbeat_round etcdSet etcds now = (now + i * m + d, [now + i * m + d])"
  using assms
proof (induction etcds arbitrary: i now)
  case (Cons e es)
  show ?case
  proof (cases i)
    case 0
    then show ?thesis using Cons.prems(3) by simp
  next
    case (Suc j)
    have "etcdSet now e = ([], m)" using Cons.prems(2) [of 0] Suc by simp
    moreover have "heartbeat_round etcdSet es (now + m) = (now + m + j * m + d, [now + m + j * m + d])"
    proof (rule Cons.IH)
      show "etcdSet t (es ! k) = ([], m)" if "k < j" for t k using Cons.prems(2) [of "Suc k"] that Suc by simp
    qed (use Cons.prems(1,3) Suc in simp_all)
    ultimately show ?thesis using Suc by (simp add: algebra_simps)
  qed
qed simp

text \<open>
  Two servers that do not answer, each waited for 5 seconds, and a third that does: the listing is gone
  before every renewal.
\<close>

theorem heartbeat_expires:
  assumes "2 < length etcds" and "\<And>t. etcdSet t (etcds ! 0) = ([], 5000)" and "\<And>t. etcdSet t (etcds ! 1) = ([], 5000)"
    and "\<And>t. etcdSet t (etcds ! 2) = (b # body, d)" and "0 < d"
  shows "successively (\<lambda>x y. x + etcd_ttl < y) (heartbeat_loop etcdSet etcds (replicate n None) now) \<and>
    length (heartbeat_loop etcdSet etcds (replicate n None) now) = n \<and>
    (\<forall>t ts. heartbeat_loop etcdSet etcds (replicate n None) now = t # ts \<longrightarrow> t = now + 10000 + d)"
proof (induction n arbitrary: now)
  case (Suc n)
  have "etcdSet t (etcds ! j) = ([], 5000)" if "j < 2" for t j
    using that assms(2,3) by (cases j) (auto simp: less_Suc_eq numeral_2_eq_2)
  then have round: "heartbeat_round etcdSet etcds now = (now + 10000 + d, [now + 10000 + d])"
    using heartbeat_round_late [of 2 etcds etcdSet 5000 b body d now] assms(1,4) by simp
  then have loop: "heartbeat_loop etcdSet etcds (replicate (Suc n) None) now =
      (now + 10000 + d) # heartbeat_loop etcdSet etcds (replicate n None) (now + 15000 + d)"
    by (simp add: Let_def ac_simps)
  show ?case
    using Suc.IH [of "now + 15000 + d"] assms(5) unfolding loop
    by (cases "heartbeat_loop etcdSet etcds (replicate n None) (now + 15000 + d)") (auto simp: etcd_ttl_def)
qed simp

text \<open>
  C34: A connection server stays listed. When the first or the second configured etcd server always answers
  and no call lasts longer than its 5 seconds, then, as long as nobody types at the console, every turn of
  the loop renews the listing, the first one within 10 seconds, and each within 15 seconds of the one
  before, the time to live it is set with.
\<close>

theorem heartbeat_keeps_listed:
  assumes "i < length etcds" and "i \<le> 1" and "\<And>t. fst (etcdSet t (etcds ! i)) \<noteq> []" and "\<And>t e. snd (etcdSet t e) \<le> 5000"
  shows "successively (\<lambda>a b. b \<le> a + etcd_ttl) (heartbeat_loop etcdSet etcds (replicate n None) now) \<and>
    length (heartbeat_loop etcdSet etcds (replicate n None) now) = n \<and>
    (\<forall>t ts. heartbeat_loop etcdSet etcds (replicate n None) now = t # ts \<longrightarrow> t \<le> now + 10000)"
proof -
  note bound = heartbeat_gaps_bound [where i = i and etcds = etcds and etcdSet = etcdSet and m = 5000 and n = n and now = now, OF assms(1,3,4)]
  have i: "Suc i * 5000 \<le> 10000" using assms(2) by simp
  have "successively (\<lambda>a b. b \<le> a + etcd_ttl) (heartbeat_loop etcdSet etcds (replicate n None) now)"
    using bound i by (intro successively_mono [OF bound [THEN conjunct1]]) (simp add: etcd_ttl_def)
  moreover have "t \<le> now + 10000" if "t \<le> now + Suc i * 5000" for t using that i by simp
  ultimately show ?thesis using bound by blast
qed

theorem heartbeat_keeps_listed_witness:
  "heartbeat_loop (\<lambda>t e. if e then ([123], 20) else ([], 5000)) [False, True] (replicate 3 None) 0 = [5020, 15040, 25060] \<and>
   successively (\<lambda>a b. b \<le> a + etcd_ttl) [5020, 15040, 25060 :: nat]"
proof -
  let ?E = "\<lambda>t e. if e then ([123], 20) else ([] :: bytes, 5000 :: nat)"
  have "heartbeat_loop ?E [False, True] (replicate 3 None) 0 = [5020, 15040, 25060]"
    by (simp add: numeral_3_eq_3)
  moreover have "successively (\<lambda>a b. b \<le> a + etcd_ttl) (heartbeat_loop ?E [False, True] (replicate 3 None) 0)"
    using heartbeat_keeps_listed [of 1 "[False, True]" ?E 3 0] by simp
  ultimately show ?thesis by simp
qed

end
