(* ===== verification/Json.thy ===== *)
theory Json
  imports Prelude
begin

text \<open>
  JSON values, and what Common/WrapJsonValue.h builds of them.

  \<^item> \<open>json\<close> has the types of 3rdparty/rapidjson. Its accessors assert the type of the value; without
    \<open>assert\<close> they read the wrong member of a union, and \<open>->value\<close> at \<open>MemberEnd()\<close> reads behind the members:
    both are \<open>OutOfBounds\<close>, except where all that is read is a size field that is 0 (\<open>zero_sized\<close>).
  \<^item> Adding a value moves it: what it is moved from is null afterwards. Two values may be combined only
    when they share an allocator, which is an address. The writer behind \<open>toString\<close> is a parameter.
  \<^item> The functions that take a second value are modelled for two distinct objects.
\<close>

section \<open>JSON values\<close>

datatype json = JNull | JFalse | JTrue | JObject "(bytes \<times> json) list" | JArray "json list" | JString bytes
  | JNumber int      \<comment> \<open>of any integer type\<close>
  | JDouble i64      \<comment> \<open>the bits of a \<open>double\<close>\<close>

definition json_assert :: "bool \<Rightarrow> 'a result" where
  "json_assert ndebug = Inl (if ndebug then OutOfBounds else AssertFailed)"

text \<open>
  Objects and arrays have their size in the same four bytes (8 to 11) of the union \<open>Data\<close>, which a constructor sets to zeros
  (64-bit layout, little endian): a value has 0 there when it is null or a boolean, a number (8 bytes), an empty object or array, or a copied string
  that is stored in place and has zeros there. Without \<open>assert\<close> such a value passes for an object or an array without
  elements. (A null value whose contents were moved elsewhere keeps the old bytes; the code asks none for members.)
\<close>

definition zero_sized :: "json \<Rightarrow> bool" where
  "zero_sized v = (case v of
       JObject ms \<Rightarrow> ms = []
     | JArray vs \<Rightarrow> vs = []
     | JString s \<Rightarrow> length s \<le> 15 \<and> (\<forall>c\<in>set (take 4 (drop 8 s)). c = 0)
     | _ \<Rightarrow> True)"

text \<open>\<open>FindMember\<close>: the first member of that name, or \<open>MemberEnd()\<close>.\<close>

definition FindMember :: "bool \<Rightarrow> json \<Rightarrow> bytes \<Rightarrow> json option result" where
  "FindMember ndebug v name = (case v of
       JObject ms \<Rightarrow> Inr (map_of ms name)
     | _ \<Rightarrow> if ndebug \<and> zero_sized v then Inr None else json_assert ndebug)"

definition member_value :: "json option \<Rightarrow> json result" where
  "member_value it = (case it of Some v \<Rightarrow> Inr v | None \<Rightarrow> Inl OutOfBounds)"

text \<open>\<open>GetString()\<close> is a C string: what uses it as a \<open>std::string\<close> sees it up to the first zero.\<close>

definition json_GetString :: "bool \<Rightarrow> json \<Rightarrow> bytes result" where
  "json_GetString ndebug v = (case v of JString s \<Rightarrow> Inr (takeWhile (\<lambda>c. c \<noteq> 0) s) | _ \<Rightarrow> json_assert ndebug)"

section \<open>WrapJsonValue\<close>

record wrap_json =
  mValue :: json
  mAllocator :: nat

definition json_of_type :: "json \<Rightarrow> nat \<Rightarrow> wrap_json" where
  "json_of_type type allocator = \<lparr>mValue = type, mAllocator = allocator\<rparr>"

definition getAllocator :: "wrap_json \<Rightarrow> nat" where
  "getAllocator w = mAllocator w"

text \<open>\<open>AddMember\<close> and \<open>PushBack\<close> of rapidjson append; they do not look for the name.\<close>

definition rj_AddMember :: "bool \<Rightarrow> bytes \<Rightarrow> json \<Rightarrow> json \<Rightarrow> json result" where
  "rj_AddMember ndebug name value v = (case v of JObject ms \<Rightarrow> Inr (JObject (ms @ [(name, value)])) | _ \<Rightarrow> json_assert ndebug)"

definition rj_PushBack :: "bool \<Rightarrow> json \<Rightarrow> json \<Rightarrow> json result" where
  "rj_PushBack ndebug value v = (case v of JArray vs \<Rightarrow> Inr (JArray (vs @ [value])) | _ \<Rightarrow> json_assert ndebug)"

text \<open>\<open>EraseMember\<close> of an iterator: the first member of that name; \<open>MemberEnd()\<close> fails an assertion, or moves memory behind the members.\<close>

fun erase_first :: "bytes \<Rightarrow> (bytes \<times> json) list \<Rightarrow> (bytes \<times> json) list" where
  "erase_first name [] = []"
| "erase_first name ((k, v) # ms) = (if k = name then ms else (k, v) # erase_first name ms)"

definition rj_EraseMember :: "bool \<Rightarrow> bytes \<Rightarrow> json \<Rightarrow> json result" where
  "rj_EraseMember ndebug name v = (case v of
       JObject ms \<Rightarrow> (if map_of ms name = None then json_assert ndebug else Inr (JObject (erase_first name ms)))
     | _ \<Rightarrow> json_assert ndebug)"

definition set_value :: "wrap_json \<Rightarrow> json \<Rightarrow> wrap_json" where
  "set_value w v = w\<lparr>mValue := v\<rparr>"

definition eraseMember :: "bool \<Rightarrow> bytes \<Rightarrow> wrap_json \<Rightarrow> wrap_json result" where
  "eraseMember ndebug key w = rbind (FindMember ndebug (mValue w) (c_str key)) (\<lambda>it.
     rbind (rj_EraseMember ndebug (c_str key) (mValue w)) (\<lambda>v. Inr (set_value w v)))"

definition wj_add :: "bool \<Rightarrow> bytes \<Rightarrow> json \<Rightarrow> wrap_json \<Rightarrow> wrap_json result" where
  "wj_add ndebug key value w = rbind (rj_AddMember ndebug (c_str key) value (mValue w)) (\<lambda>v. Inr (set_value w v))"

definition AddMember_double :: "bool \<Rightarrow> bytes \<Rightarrow> i64 \<Rightarrow> wrap_json \<Rightarrow> wrap_json result" where
  "AddMember_double ndebug key value w = wj_add ndebug key (JDouble value) w"

definition AddMember_bool :: "bool \<Rightarrow> bytes \<Rightarrow> bool \<Rightarrow> wrap_json \<Rightarrow> wrap_json result" where
  "AddMember_bool ndebug key value w = wj_add ndebug key (if value then JTrue else JFalse) w"

definition AddMember_int :: "bool \<Rightarrow> bytes \<Rightarrow> i32 \<Rightarrow> wrap_json \<Rightarrow> wrap_json result" where
  "AddMember_int ndebug key value w = wj_add ndebug key (JNumber (sint value)) w"

definition AddMember_int64 :: "bool \<Rightarrow> bytes \<Rightarrow> i64 \<Rightarrow> wrap_json \<Rightarrow> wrap_json result" where
  "AddMember_int64 ndebug key value w = wj_add ndebug key (JNumber (sint value)) w"

definition AddMember_uint64 :: "bool \<Rightarrow> bytes \<Rightarrow> i64 \<Rightarrow> wrap_json \<Rightarrow> wrap_json result" where
  "AddMember_uint64 ndebug key value w = wj_add ndebug key (JNumber (uint value)) w"

definition AddMember_string :: "bool \<Rightarrow> bytes \<Rightarrow> bytes \<Rightarrow> wrap_json \<Rightarrow> wrap_json result" where
  "AddMember_string ndebug key value w = wj_add ndebug key (JString (c_str value)) w"

text \<open>The overload for \<open>const char*\<close>; \<open>value\<close> is what the pointer points to.\<close>

definition AddMember_chars :: "bool \<Rightarrow> bytes \<Rightarrow> bytes \<Rightarrow> wrap_json \<Rightarrow> wrap_json result" where
  "AddMember_chars ndebug key value w = wj_add ndebug key (JString (c_str value)) w"

text \<open>The overloads for another \<open>WrapJsonValue\<close> return both.\<close>

definition AddMember_json :: "bool \<Rightarrow> bytes \<Rightarrow> wrap_json \<Rightarrow> wrap_json \<Rightarrow> (wrap_json \<times> wrap_json) result" where
  "AddMember_json ndebug key value w = cassert ndebug (mAllocator w = mAllocator value)
     (if mAllocator w = mAllocator value
      then rbind (wj_add ndebug key (mValue value) w) (\<lambda>w1. Inr (w1, set_value value JNull))
      else Inr (w, value))"

definition PushBack_value :: "bool \<Rightarrow> json \<Rightarrow> wrap_json \<Rightarrow> wrap_json result" where
  "PushBack_value ndebug value w = rbind (rj_PushBack ndebug value (mValue w)) (\<lambda>v. Inr (set_value w v))"

definition PushBack_size :: "bool \<Rightarrow> i64 \<Rightarrow> wrap_json \<Rightarrow> wrap_json result" where
  "PushBack_size ndebug value w = PushBack_value ndebug (JNumber (uint value)) w"

definition PushBack_int :: "bool \<Rightarrow> i32 \<Rightarrow> wrap_json \<Rightarrow> wrap_json result" where
  "PushBack_int ndebug value w = PushBack_value ndebug (JNumber (sint value)) w"

definition PushBack_int64 :: "bool \<Rightarrow> i64 \<Rightarrow> wrap_json \<Rightarrow> wrap_json result" where
  "PushBack_int64 ndebug value w = PushBack_value ndebug (JNumber (sint value)) w"

definition PushBack_json :: "bool \<Rightarrow> wrap_json \<Rightarrow> wrap_json \<Rightarrow> (wrap_json \<times> wrap_json) result" where
  "PushBack_json ndebug value w = cassert ndebug (mAllocator w = mAllocator value)
     (if mAllocator w = mAllocator value
      then rbind (PushBack_value ndebug (mValue value) w) (\<lambda>w1. Inr (w1, set_value value JNull))
      else Inr (w, value))"

definition json_toString :: "(json \<Rightarrow> bytes) \<Rightarrow> wrap_json \<Rightarrow> bytes" where
  "json_toString write w = c_str (write (mValue w))"

definition getValue :: "wrap_json \<Rightarrow> json" where
  "getValue w = mValue w"

section \<open>Members\<close>

lemma erase_first_absent: "map_of ms k = None \<Longrightarrow> erase_first k (ms @ [(k, v)]) = ms"
  by (induction ms) (auto split: if_splits)

lemma erase_first_other: "k \<noteq> name \<Longrightarrow> map_of (erase_first name ms) k = map_of ms k"
  by (induction name ms rule: erase_first.induct) auto

text \<open>
  The members of a JSON object. \<open>AddMember\<close> appends: a name that is new is found with the value
  added, and \<open>eraseMember\<close> of it gives the old object back; a name that is there already keeps its old value
  for every reader, and the added one comes to light only when the old is erased. Erasing leaves the other
  names alone, and erasing a name that is not there fails an assertion or, without assertions, moves
  memory behind the members.
\<close>

theorem json_members:
  assumes "mValue w = JObject ms" and "k = c_str key"
  shows "\<exists>w1. wj_add ndebug key v w = Inr w1 \<and> mAllocator w1 = mAllocator w \<and>
    (\<forall>name. FindMember ndebug (mValue w1) name =
       Inr (if name = k \<and> map_of ms k = None then Some v else map_of ms name)) \<and>
    (if map_of ms k = None
     then eraseMember ndebug key w1 = Inr w \<and> eraseMember ndebug key w = Inl (if ndebug then OutOfBounds else AssertFailed)
     else \<exists>w2. eraseMember ndebug key w1 = Inr w2 \<and>
       (\<forall>name. name \<noteq> k \<longrightarrow> FindMember ndebug (mValue w2) name = Inr (map_of ms name)) \<and>
       (map_of (erase_first k ms) k = None \<longrightarrow> FindMember ndebug (mValue w2) k = Inr (Some v)))"
proof -
  let ?w1 = "set_value w (JObject (ms @ [(k, v)]))"
  have add: "wj_add ndebug key v w = Inr ?w1" by (simp add: wj_add_def rj_AddMember_def assms)
  have find: "FindMember ndebug (mValue ?w1) name =
      Inr (if name = k \<and> map_of ms k = None then Some v else map_of ms name)" for name
    by (auto simp: FindMember_def set_value_def map_add_def split: option.splits)
  show ?thesis
  proof (cases "map_of ms k = None")
    case True
    have "eraseMember ndebug key ?w1 = Inr w"
      using True erase_first_absent [OF True, of v] assms
      by (simp add: eraseMember_def FindMember_def rj_EraseMember_def set_value_def map_add_def)
    moreover have "eraseMember ndebug key w = Inl (if ndebug then OutOfBounds else AssertFailed)"
      using True assms by (simp add: eraseMember_def FindMember_def rj_EraseMember_def json_assert_def)
    ultimately show ?thesis using add find True by (simp add: set_value_def)
  next
    case False
    have split: "erase_first k (ms @ [(k, v)]) = erase_first k ms @ [(k, v)]"
      using False by (induction ms) auto
    have er: "eraseMember ndebug key ?w1 = Inr (set_value w (JObject (erase_first k ms @ [(k, v)])))"
      using False assms split
      by (auto simp: eraseMember_def FindMember_def rj_EraseMember_def set_value_def map_add_def split: option.splits)
    have "FindMember ndebug (mValue (set_value w (JObject (erase_first k ms @ [(k, v)])))) name = Inr (map_of ms name)"
      if "name \<noteq> k" for name
      using that erase_first_other [OF that, of ms] by (simp add: FindMember_def set_value_def map_add_def split: option.split)
    moreover have "FindMember ndebug (mValue (set_value w (JObject (erase_first k ms @ [(k, v)])))) k = Inr (Some v)"
      if "map_of (erase_first k ms) k = None"
      using that by (simp add: FindMember_def set_value_def map_add_def)
    ultimately show ?thesis using add find er False by (auto simp: set_value_def)
  qed
qed

theorem json_members_witness:
  "FindMember True (mValue (set_value (json_of_type (JObject [([97], JTrue)]) 0) (JObject [([97], JTrue), ([97], JNull)]))) [97] =
     Inr (Some JTrue)"
proof -
  let ?w = "json_of_type (JObject [([97], JTrue)]) 0"
  have w: "mValue ?w = JObject [([97], JTrue)]" "[97] = c_str [97, 0, 98]" by (simp_all add: json_of_type_def c_str_def)
  have "wj_add True [97, 0, 98] JNull ?w = Inr (set_value ?w (JObject [([97], JTrue), ([97], JNull)]))"
    by (simp add: wj_add_def rj_AddMember_def w(1) c_str_def)
  then show ?thesis using json_members [OF w, of True JNull] by auto
qed

end
