(* ===== verification/Discovery.thy ===== *)
theory Discovery
  imports LogicProps Json "HOL-Library.Multiset"
begin

text \<open>
  How a logic server finds the connection servers (the etcd thread of LogicServer/LogicServer.cpp): the
  answer of etcd is a JSON document whose \<open>node.nodes[i].value\<close> are the configurations the connection
  servers registered; \<open>tryCompareConnect\<close> gets those that parse.

  \<^item> Parsing text (\<open>Document::Parse\<close>, which leaves a null value on bad input, and protobuf's
    \<open>JsonStringToMessage\<close>), the HTTP call and the order in which an \<open>unordered_map\<close> is visited are parameters.
\<close>

section \<open>The etcd thread\<close>

record connection_config =
  cc_id :: i32
  cc_bindip :: bytes
  cc_portforlogicserver :: i32
  cc_logicserverloginpassword :: bytes

type_synonym listed = "(i32, bytes \<times> i32 \<times> bytes) umap"

definition key_node :: bytes where "key_node = [110, 111, 100, 101]"
definition key_nodes :: bytes where "key_nodes = [110, 111, 100, 101, 115]"
definition key_value :: bytes where "key_value = [118, 97, 108, 117, 101]"

fun collect_servers :: "bool \<Rightarrow> (bytes \<Rightarrow> connection_config option) \<Rightarrow> json list \<Rightarrow> listed \<Rightarrow> listed result" where
  "collect_servers ndebug parse [] currentServer = Inr currentServer"
| "collect_servers ndebug parse (v # vs) currentServer =
     rbind (FindMember ndebug v key_value) (\<lambda>it.
     rbind (member_value it) (\<lambda>oneServer.
     rbind (json_GetString ndebug oneServer) (\<lambda>s.
       collect_servers ndebug parse vs (case parse s of
           None \<Rightarrow> currentServer
         | Some c \<Rightarrow> um_set (cc_id c) (cc_bindip c, cc_portforlogicserver c, cc_logicserverloginpassword c) currentServer))))"

definition list_servers :: "bool \<Rightarrow> (bytes \<Rightarrow> connection_config option) \<Rightarrow> json \<Rightarrow> listed result" where
  "list_servers ndebug parse doc =
     rbind (FindMember ndebug doc key_node) (\<lambda>it. case it of
         None \<Rightarrow> Inr []
       | Some node \<Rightarrow> rbind (FindMember ndebug node key_nodes) (\<lambda>it2. case it2 of
             None \<Rightarrow> Inr []
           | Some nodes \<Rightarrow> (case nodes of
                 JArray vs \<Rightarrow> collect_servers ndebug parse vs []
               | _ \<Rightarrow> if ndebug \<and> zero_sized nodes then Inr [] else json_assert ndebug)))"

text \<open>One round over the configured etcd servers: \<open>bodies\<close> are their answers, empty where there was none.\<close>

fun pull_etcd :: "bool \<Rightarrow> (bytes \<Rightarrow> json) \<Rightarrow> (bytes \<Rightarrow> connection_config option) \<Rightarrow> (listed \<Rightarrow> listed) \<Rightarrow>
    bytes list \<Rightarrow> 'r logic_server \<Rightarrow> 'r logic_server result" where
  "pull_etcd ndebug Parse parse order [] s = Inr s"
| "pull_etcd ndebug Parse parse order (body # bodies) s =
     (if body \<noteq> [] then
        rbind (list_servers ndebug parse (Parse body)) (\<lambda>currentServer. Inr (tryCompareConnect (order currentServer) s))
      else pull_etcd ndebug Parse parse order bodies s)"

section \<open>What is listed\<close>

text \<open>The configuration a later entry of the same id replaces an earlier one's.\<close>

definition listed_configs :: "(bytes \<Rightarrow> connection_config option) \<Rightarrow> bytes list \<Rightarrow> connection_config list" where
  "listed_configs parse values = List.map_filter parse values"

definition config_of :: "connection_config list \<Rightarrow> i32 \<Rightarrow> (bytes \<times> i32 \<times> bytes) option" where
  "config_of cs k = map_of (rev (map (\<lambda>c. (cc_id c, (cc_bindip c, cc_portforlogicserver c, cc_logicserverloginpassword c))) cs)) k"

definition node_entry :: "json \<Rightarrow> bytes \<Rightarrow> bool" where
  "node_entry v s \<longleftrightarrow> (\<exists>ms t. v = JObject ms \<and> map_of ms key_value = Some (JString t) \<and> s = takeWhile (\<lambda>c. c \<noteq> 0) t)"

lemma collect_servers_listed:
  assumes "list_all2 node_entry vs ss" and "um_ok m"
  shows "\<exists>m'. collect_servers ndebug parse vs m = Inr m' \<and> um_ok m' \<and>
    (\<forall>k. um_find m' k = (case config_of (listed_configs parse ss) k of None \<Rightarrow> um_find m k | Some v \<Rightarrow> Some v))"
  using assms
proof (induction vs ss arbitrary: m rule: list_all2_induct)
  case Nil
  then show ?case by (simp add: listed_configs_def config_of_def List.map_filter_def)
next
  case (Cons v vs s ss)
  let ?m = "case parse s of None \<Rightarrow> m
    | Some c \<Rightarrow> um_set (cc_id c) (cc_bindip c, cc_portforlogicserver c, cc_logicserverloginpassword c) m"
  have "collect_servers ndebug parse (v # vs) m = collect_servers ndebug parse vs ?m"
    using Cons.hyps(1) by (auto simp: node_entry_def FindMember_def member_value_def json_GetString_def)
  moreover have "um_ok ?m" using Cons.prems by (simp split: option.split)
  ultimately show ?case
    using Cons.IH [of ?m]
    by (fastforce simp: listed_configs_def config_of_def List.map_filter_def map_add_def split: option.splits)
qed

lemma pull_etcd_skips:
  "body \<noteq> [] \<Longrightarrow> pull_etcd ndebug Parse parse order (replicate k [] @ body # rest) s =
     rbind (list_servers ndebug parse (Parse body)) (\<lambda>m. Inr (tryCompareConnect (order m) s))"
  by (induction k) auto

lemma connect_acts:
  assumes "um_ok m" and "mset vs = mset m"
  shows "distinct (map (\<lambda>(k, ip, port, pw). Connect k ip port pw) (filter (\<lambda>v. T (fst v)) vs)) \<and>
    (a \<in> set (map (\<lambda>(k, ip, port, pw). Connect k ip port pw) (filter (\<lambda>v. T (fst v)) vs)) \<longleftrightarrow>
     (\<exists>i ip port pw. a = Connect i ip port pw \<and> T i \<and> um_find m i = Some (ip, port, pw)))"
proof
  have "distinct m" using assms(1) by (simp add: um_ok_def distinct_map)
  then have "distinct vs" using assms(2) by (metis mset_eq_imp_distinct_iff)
  then show "distinct (map (\<lambda>(k, ip, port, pw). Connect k ip port pw) (filter (\<lambda>v. T (fst v)) vs))"
    by (auto simp: distinct_map inj_on_def)
  have "set vs = set m" using assms(2) by (rule mset_eq_setD)
  then have "(i, ip, port, pw) \<in> set vs \<longleftrightarrow> um_find m i = Some (ip, port, pw)" for i ip port pw
    using um_in_find [OF assms(1)] by simp
  then show "a \<in> set (map (\<lambda>(k, ip, port, pw). Connect k ip port pw) (filter (\<lambda>v. T (fst v)) vs)) \<longleftrightarrow>
     (\<exists>i ip port pw. a = Connect i ip port pw \<and> T i \<and> um_find m i = Some (ip, port, pw))"
    by (auto simp: image_iff Bex_def split: prod.splits)
qed

section \<open>Property\<close>

text \<open>
  C33: One round of the etcd thread: the first etcd server that answers decides. If its answer lists
  nodes with string values, connecting threads are started for exactly the servers whose value parses
  and that are not connected yet, each once, with the last configuration listed under the id. If the
  answer is not JSON at all, a build with assertions stops; without them the null document passes for an empty list: the
  round ends with nothing changed, and the other etcd servers are not asked.
\<close>

theorem etcd_round:
  fixes s :: "'r logic_server"
  assumes "body \<noteq> []" and "Parse body = JObject ms" and "map_of ms key_node = Some (JObject ns)"
    and "map_of ns key_nodes = Some (JArray vs)" and "list_all2 node_entry vs ss"
    and "\<And>m. mset (order m) = mset m"
    and "bad \<noteq> []" and "Parse bad = JNull"
  shows "(\<exists>s' new. pull_etcd ndebug Parse parse order (replicate k [] @ body # rest) s = Inr s' \<and>
      acts s' = acts s @ new \<and> distinct new \<and>
      (\<forall>a. a \<in> set new \<longleftrightarrow> (\<exists>i ip port pw. a = Connect i ip port pw \<and>
         um_find (alreadyConnectingServers s) i = None \<and> config_of (listed_configs parse ss) i = Some (ip, port, pw)))) \<and>
    pull_etcd ndebug Parse parse order (replicate k [] @ bad # rest) s = (if ndebug then Inr s else Inl AssertFailed)"
proof -
  have same: "(case x of None \<Rightarrow> um_find [] i | Some v \<Rightarrow> Some v) = x"
    for x :: "(bytes \<times> i32 \<times> bytes) option" and i :: i32
    by (cases x) auto
  obtain m where m: "collect_servers ndebug parse vs [] = Inr m" "um_ok m"
    "\<forall>k. um_find m k = config_of (listed_configs parse ss) k"
    using collect_servers_listed [OF assms(5), of "[]" ndebug parse] by (auto simp: same)
  then have "list_servers ndebug parse (Parse body) = Inr m"
    using assms(2-4) by (simp add: list_servers_def FindMember_def)
  then have run: "pull_etcd ndebug Parse parse order (replicate k [] @ body # rest) s = Inr (tryCompareConnect (order m) s)"
    using assms(1) by (simp add: pull_etcd_skips)
  note new = connect_acts [OF m(2) assms(6), where T = "\<lambda>i. um_find (alreadyConnectingServers s) i = None"]
  have "order [] = []" using assms(6) [of "[]"] by simp
  then have "pull_etcd ndebug Parse parse order (replicate k [] @ bad # rest) s = (if ndebug then Inr s else Inl AssertFailed)"
    using assms(7,8)
    by (simp add: pull_etcd_skips list_servers_def FindMember_def zero_sized_def json_assert_def)
  moreover let ?new = "map (\<lambda>(k, ip, port, pw). Connect k ip port pw)
    (filter (\<lambda>v. um_find (alreadyConnectingServers s) (fst v) = None) (order m)) :: 'r ls_action list"
  have "acts (tryCompareConnect (order m) s) = acts s @ ?new" by (rule tryCompareConnect_acts)
  moreover have "distinct ?new" using new by blast
  moreover have "a \<in> set ?new \<longleftrightarrow> (\<exists>i ip port pw. a = Connect i ip port pw \<and>
      um_find (alreadyConnectingServers s) i = None \<and> config_of (listed_configs parse ss) i = Some (ip, port, pw))" for a :: "'r ls_action"
    by (rule conjunct2 [OF new [of a], unfolded m(3) [rule_format]])
  ultimately show ?thesis using run by blast
qed

text \<open>Two entries of one id and one that does not parse; the first etcd server did not answer.\<close>

definition demo_config :: "bytes \<Rightarrow> connection_config option" where
  "demo_config s = (case s of [i, p] \<Rightarrow> Some \<lparr>cc_id = ucast i, cc_bindip = [49], cc_portforlogicserver = ucast p,
      cc_logicserverloginpassword = []\<rparr> | _ \<Rightarrow> None)"

definition demo_etcd :: "bytes \<Rightarrow> json" where
  "demo_etcd b = (if b = [1] then JObject [(key_node, JObject [(key_nodes, JArray
     (map (\<lambda>v. JObject [(key_value, JString v)]) [[4, 80], [7], [4, 81, 0, 9]]))])] else JNull)"

theorem etcd_round_witness:
  "\<exists>s'. pull_etcd False demo_etcd demo_config (\<lambda>m. m) [[], [1]] (ls_empty :: std_reader logic_server) = Inr s' \<and>
     Connect 4 [49] 81 [] \<in> set (acts s')"
proof -
  have doc: "demo_etcd [1] = JObject [(key_node, JObject [(key_nodes, JArray
      (map (\<lambda>v. JObject [(key_value, JString v)]) [[4, 80], [7], [4, 81, 0, 9]]))])]" "demo_etcd [2] = JNull"
    by (simp_all add: demo_etcd_def)
  have entries: "list_all2 node_entry (map (\<lambda>v. JObject [(key_value, JString v)]) [[4, 80], [7], [4, 81, 0, 9]])
      [[4, 80], [7], [4, 81]]"
    by (auto simp: node_entry_def)
  have conf: "config_of (listed_configs demo_config [[4, 80], [7], [4, 81]]) 4 = Some ([49], 81, [])"
    by (simp add: config_of_def listed_configs_def demo_config_def List.map_filter_def)
  show ?thesis
    using etcd_round [of "[1]" demo_etcd _ _ _ "[[4, 80], [7], [4, 81]]" "\<lambda>m. m" "[2]" False demo_config 1 "[]"
        "ls_empty :: std_reader logic_server"] doc entries conf
    by (force simp: ls_empty_def)
qed

end
