(* ===== verification/ServerMain.thy ===== *)
theory ServerMain
  imports Startup Discovery
begin

text \<open>
  The \<open>main\<close> functions of the four servers, from reading the configuration to the return: what each of
  them starts, what its loop does (Startup), and what it stops, in order. The thread that asks etcd (LogicServer/LogicServer.cpp)
  until it is told to end.

  \<^item> A run is the list of what \<open>main\<close> did to its environment (\<open>main_event\<close>) and how it ended. \<open>parse\<close> is protobuf's
    \<open>JsonStringToMessage\<close> on the text of the configuration file; the value it fills is a parameter's result.
  \<^item> \<open>initCenterServerExt\<close> and \<open>initLogicServerExt\<close> are external functions of \<open>main\<close>; Example has those of test/.
\<close>

section \<open>What a \<open>main\<close> does\<close>

datatype main_event =
    LoadConfigError                             \<comment> \<open>on the standard error output\<close>
  | MakeDir bytes
  | SetFile bytes                               \<comment> \<open>the log thread starts\<close>
  | StartWorkThread
  | StartListen bool bytes i32 net_add
  | StartConnectThread bool bytes i32
  | InitGlobalData
  | InitExt
  | StartEtcdThread
  | EtcdSet nat bytes bytes nat                 \<comment> \<open>a set that was answered: time, key, value, time to live in seconds\<close>
  | CloseListenThread session_class
  | CloseServiceListen
  | StopWorkerThread
  | StopLog
  | SetEtcdPullIsClose
  | JoinEtcdThread
  | DestroyGlobalData

datatype main_end =
    Exited int
  | Faulted fault
  | Running                                     \<comment> \<open>the turns given are used up\<close>

record 'e server_config = connection_config +
  sc_enableipv6 :: bool
  sc_portforclient :: i32
  sc_etcdservers :: "'e list"

definition server_listen :: "'e server_config \<Rightarrow> listen_config" where
  "server_listen cfg = \<lparr>lc_enableipv6 = sc_enableipv6 cfg, lc_bindip = cc_bindip cfg,
     lc_portforclient = sc_portforclient cfg, lc_portforlogicserver = cc_portforlogicserver cfg\<rparr>"

definition listen_event :: "bool \<times> bytes \<times> i32 \<times> net_add \<Rightarrow> main_event" where
  "listen_event p = (case p of (ipv6, ip, port, add) \<Rightarrow> StartListen ipv6 ip port add)"

text \<open>\<open>std::to_string\<close> of an \<open>int32\<close>.\<close>

definition to_string :: "i32 \<Rightarrow> bytes" where
  "to_string n = (if sint n < 0 then 45 # decimal (nat (- sint n)) else decimal (nat (sint n)))"

text \<open>Whether the console says \<open>quit\<close> in one of the turns.\<close>

definition quits :: "(bytes \<times> nat) option list \<Rightarrow> bool" where
  "quits turns \<longleftrightarrow> Some (string_bytes ''quit'') \<in> set (map (map_option fst) turns)"

section \<open>The connection servers\<close>

definition etcd_key :: "i32 \<Rightarrow> bytes" where
  "etcd_key sid = string_bytes ''ConnectionServerList/'' @ to_string sid"

definition conn_startup :: "'e server_config \<Rightarrow> main_event list" where
  "conn_startup cfg =
     [MakeDir (string_bytes ''logs''), MakeDir (string_bytes ''logs/ConnectionServer''),
      SetFile (string_bytes ''logs/ConnectionServer/daily''), StartWorkThread] @
     map listen_event (startServer (server_listen cfg))"

definition conn_shutdown :: "main_event list" where
  "conn_shutdown = [CloseListenThread ConnectionClientSession_class, CloseListenThread LogicServerSession_class,
     CloseServiceListen, StopWorkerThread, StopLog]"

definition conn_main :: "(bytes \<Rightarrow> 'e server_config option) \<Rightarrow> 'e etcd_call \<Rightarrow> (bytes \<times> nat) option list \<Rightarrow> nat \<Rightarrow>
    bytes \<Rightarrow> main_event list \<times> main_end" where
  "conn_main parse etcdSet turns now buffer =
     (case parse buffer of
        None \<Rightarrow> ([LoadConfigError], Exited (- 1))
      | Some cfg \<Rightarrow>
          (let sets = map (\<lambda>t. EtcdSet t (etcd_key (cc_id cfg)) buffer (etcd_ttl div 1000))
                 (heartbeat_loop etcdSet (sc_etcdservers cfg) turns now);
               run = conn_startup cfg @ sets
           in if quits turns then (run @ conn_shutdown, Exited 0) else (run, Running)))"

definition ws_startup :: "'e server_config \<Rightarrow> main_event list" where
  "ws_startup cfg =
     [MakeDir (string_bytes ''logs''), MakeDir (string_bytes ''logs/ConnectionServer''),
      SetFile (string_bytes ''logs/ConnectionServer/daily''), StartWorkThread] @
     map listen_event (ws_startServer (server_listen cfg))"

definition ws_shutdown :: "main_event list" where
  "ws_shutdown = [CloseListenThread ConnectionClientSession_class, CloseListenThread LogicServerSession_class,
     CloseServiceListen, StopWorkerThread, StopLog]"

definition ws_main :: "(bytes \<Rightarrow> 'e server_config option) \<Rightarrow> 'e etcd_call \<Rightarrow> (bytes \<times> nat) option list \<Rightarrow> nat \<Rightarrow>
    bytes \<Rightarrow> main_event list \<times> main_end" where
  "ws_main parse etcdSet turns now buffer =
     (case parse buffer of
        None \<Rightarrow> ([LoadConfigError], Exited (- 1))
      | Some cfg \<Rightarrow>
          (let sets = map (\<lambda>t. EtcdSet t (etcd_key (cc_id cfg)) buffer (etcd_ttl div 1000))
                 (ws_heartbeat_loop etcdSet (sc_etcdservers cfg) turns now);
               run = ws_startup cfg @ sets
           in if quits turns then (run @ ws_shutdown, Exited 0) else (run, Running)))"

section \<open>The center server\<close>

record center_config =
  ce_enableipv6 :: bool
  ce_bindip :: bytes
  ce_listenport :: i32

definition center_startup :: "center_config \<Rightarrow> main_event list" where
  "center_startup cfg =
     [InitGlobalData, MakeDir (string_bytes ''logs''), MakeDir (string_bytes ''logs/CenterServer''),
      SetFile (string_bytes ''logs/CenterServer/daily''),
      StartListen (ce_enableipv6 cfg) (ce_bindip cfg) (ce_listenport cfg) center_accept, StartWorkThread]"

definition center_shutdown :: "main_event list" where
  "center_shutdown = [CloseListenThread CenterServerSession_class, StopWorkerThread, StopLog, DestroyGlobalData]"

text \<open>How the loop of a server with a logic thread ends, with what was done before it and what the end does.\<close>

definition finish_main :: "main_event list \<Rightarrow> main_event list \<Rightarrow> ('q \<times> 's \<times> bool) result \<Rightarrow> main_event list \<times> main_end" where
  "finish_main run shutdown r = (case r of
       Inl f \<Rightarrow> (run, Faulted f)
     | Inr (q, s, quit) \<Rightarrow> if quit then (run @ shutdown, Exited 0) else (run, Running))"

definition center_main :: "bool \<Rightarrow> ('q, net2logic_msg) queue_lib \<Rightarrow> 's logic_handlers \<Rightarrow> 's timer_lib \<Rightarrow>
    ('s \<Rightarrow> 's result) \<Rightarrow> (bytes \<Rightarrow> center_config option) \<Rightarrow> 'q turn list \<Rightarrow> bytes \<Rightarrow> 'q \<Rightarrow> 's \<Rightarrow>
    (main_event list \<times> main_end) option" where
  "center_main ndebug Q H T initCenterServerExt parse turns buffer q s =
     (case parse buffer of
        None \<Rightarrow> Some ([LoadConfigError], Exited (- 1))
      | Some cfg \<Rightarrow>
          (case initCenterServerExt s of
             Inl f \<Rightarrow> Some (center_startup cfg, Faulted f)
           | Inr s1 \<Rightarrow> map_option (finish_main (center_startup cfg @ [InitExt]) center_shutdown)
               (center_main_loop ndebug Q H T turns q s1)))"

section \<open>The logic server\<close>

record 'e logicserver_config =
  ls_id :: i32
  ls_etcdservers :: "'e list"

definition logic_startup :: "'e logicserver_config \<Rightarrow> center_config \<Rightarrow> main_event list" where
  "logic_startup cfg center =
     (let logDir = string_bytes ''logs/LogicServer/'' @ to_string (ls_id cfg) in
      [MakeDir (string_bytes ''logs''), MakeDir (string_bytes ''logs/LogicServer''), MakeDir (c_str logDir),
       SetFile (c_str (logDir @ string_bytes ''/daily'')), StartWorkThread,
       StartConnectThread (ce_enableipv6 center) (ce_bindip center) (ce_listenport center)])"

definition logic_shutdown :: "main_event list" where
  "logic_shutdown = [StopLog, StopWorkerThread, SetEtcdPullIsClose, JoinEtcdThread]"

definition logic_main :: "bool \<Rightarrow> ('q, net2logic_msg) queue_lib \<Rightarrow> 's logic_handlers \<Rightarrow> 's timer_lib \<Rightarrow>
    ('s \<Rightarrow> 's result) \<Rightarrow> (bytes \<Rightarrow> 'e logicserver_config option) \<Rightarrow> (bytes \<Rightarrow> center_config option) \<Rightarrow> 'q turn list \<Rightarrow>
    bytes \<Rightarrow> bytes \<Rightarrow> 'q \<Rightarrow> 's \<Rightarrow> (main_event list \<times> main_end) option" where
  "logic_main ndebug Q H T initLogicServerExt parse parse_center turns buffer center_buffer q s =
     (case parse buffer of
        None \<Rightarrow> Some ([LoadConfigError], Exited (- 1))
      | Some cfg \<Rightarrow>
          (case parse_center center_buffer of
             None \<Rightarrow> Some ([LoadConfigError], Exited (- 1))
           | Some center \<Rightarrow>
               (case initLogicServerExt s of
                  Inl f \<Rightarrow> Some (logic_startup cfg center, Faulted f)
                | Inr s1 \<Rightarrow> map_option (finish_main (logic_startup cfg center @ [InitExt, StartEtcdThread]) logic_shutdown)
                    (main_loop ndebug Q H T turns q s1))))"

section \<open>The thread that asks etcd\<close>

text \<open>One pass: the servers are asked until one answers. The answer, and when the pass ends.\<close>

fun ask_etcd :: "'e etcd_call \<Rightarrow> 'e list \<Rightarrow> nat \<Rightarrow> bytes \<times> nat" where
  "ask_etcd etcdGet [] now = ([], now)"
| "ask_etcd etcdGet (etcd # etcds) now =
     (let (body, ms) = etcdGet now etcd in if body \<noteq> [] then (body, now + ms) else ask_etcd etcdGet etcds (now + ms))"

lemma ask_etcd_later: "now \<le> snd (ask_etcd etcdGet etcds now)"
proof (induction etcds arbitrary: now)
  case (Cons e es)
  obtain body ms where "etcdGet now e = (body, ms)" by fastforce
  then show ?case using Cons.IH [of "now + ms"] by simp
qed simp

text \<open>
  The thread's loop; \<open>close\<close> is the time at which it sees \<open>etcdPullIsClose\<close> set. The maps it calls \<open>tryCompareConnect\<close>
  with, the fault that ends the process, if any, and when it ends. (Discovery has what a pass does to the logic server.)
\<close>

function etcd_thread :: "bool \<Rightarrow> (bytes \<Rightarrow> json) \<Rightarrow> (bytes \<Rightarrow> connection_config option) \<Rightarrow> 'e etcd_call \<Rightarrow> 'e list \<Rightarrow> nat \<Rightarrow> nat \<Rightarrow>
    listed list \<times> fault option \<times> nat" where
  "etcd_thread ndebug Parse parse etcdGet etcds close now =
     (if close \<le> now then ([], None, now)
      else (let (body, after) = ask_etcd etcdGet etcds (now + 2500) in
        if body \<noteq> [] then
          (case list_servers ndebug parse (Parse body) of
             Inl f \<Rightarrow> ([], Some f, after)
           | Inr currentServer \<Rightarrow>
               (let (calls, fault, over) = etcd_thread ndebug Parse parse etcdGet etcds close (after + 2500)
                in (currentServer # calls, fault, over)))
        else etcd_thread ndebug Parse parse etcdGet etcds close (after + 2500)))"
  by pat_completeness auto
termination
proof (relation "measure (\<lambda>(ndebug, Parse, parse, etcdGet, etcds, close, now). close - now)", goal_cases)
  case (2 ndebug Parse parse etcdGet etcds close now p body after)
  have "after = snd (ask_etcd etcdGet etcds (now + 2500))" using 2(2,3) by (metis snd_conv)
  then have "now + 2500 \<le> after" using ask_etcd_later by metis
  then show ?case using 2(1) by (simp only: in_measure prod.case)
next
  case (3 ndebug Parse parse etcdGet etcds close now p body after)
  have "after = snd (ask_etcd etcdGet etcds (now + 2500))" using 3(2,3) by (metis snd_conv)
  then have "now + 2500 \<le> after" using ask_etcd_later by metis
  then show ?case using 3(1) by (simp only: in_measure prod.case)
qed (rule wf_measure)

declare etcd_thread.simps [simp del]

section \<open>How a \<open>main\<close> ends\<close>

text \<open>A configuration that does not parse ends a server before anything is started; after \<open>quit\<close> what it stops comes last.\<close>

lemma conn_main_exit:
  "conn_main parse etcdSet turns now buffer = (evs, Exited n) \<Longrightarrow>
   n = - 1 \<and> parse buffer = None \<and> evs = [LoadConfigError] \<or>
   n = 0 \<and> quits turns \<and> (\<exists>cfg sets. parse buffer = Some cfg \<and> evs = conn_startup cfg @ sets @ conn_shutdown)"
  by (auto simp: conn_main_def Let_def split: option.splits if_splits)

lemma finish_main_exit:
  "finish_main run shutdown r = (evs, Exited n) \<Longrightarrow> n = 0 \<and> evs = run @ shutdown"
  by (auto simp: finish_main_def split: sum.splits prod.splits if_splits)

lemma center_main_exit:
  "center_main ndebug Q H T init parse turns buffer q s = Some (evs, Exited n) \<Longrightarrow>
   n = - 1 \<and> parse buffer = None \<and> evs = [LoadConfigError] \<or>
   n = 0 \<and> (\<exists>cfg. parse buffer = Some cfg \<and> evs = (center_startup cfg @ [InitExt]) @ center_shutdown)"
  by (auto simp: center_main_def dest!: finish_main_exit split: option.splits sum.splits)

lemma logic_main_exit:
  fixes q :: 'q and s :: 's
  assumes "logic_main ndebug Q H T init parse parse_center turns buffer cbuffer q s = Some (evs, Exited n)"
  shows "n = - 1 \<and> evs = [LoadConfigError] \<or> n = 0 \<and>
    (\<exists>cfg center. parse buffer = Some cfg \<and> evs = (logic_startup cfg center @ [InitExt, StartEtcdThread]) @ logic_shutdown)"
proof (cases "parse buffer")
  case (Some cfg)
  show ?thesis
  proof (cases "parse_center cbuffer")
    case (Some center)
    from assms \<open>parse buffer = Some cfg\<close> Some obtain r :: "('q \<times> 's \<times> bool) result" where
      "finish_main (logic_startup cfg center @ [InitExt, StartEtcdThread]) logic_shutdown r = (evs, Exited n)"
      by (auto simp: logic_main_def split: sum.splits)
    from finish_main_exit [OF this] \<open>parse buffer = Some cfg\<close> show ?thesis by metis
  qed (use assms Some in \<open>simp add: logic_main_def\<close>)
qed (use assms in \<open>simp add: logic_main_def\<close>)

context logic_queue
begin

lemma logic_main_returns: "\<exists>r. logic_main ndebug Q H T init parse parse_center turns buffer cbuffer q s = Some r"
  using main_loop_returns [of ndebug H T turns q]
  by (auto simp: logic_main_def split: option.splits sum.splits) (metis surj_pair)

lemma center_main_returns: "\<exists>r. center_main ndebug Q H T init parse turns buffer q s = Some r"
  using main_loop_returns [of ndebug H T turns q]
  by (auto simp: center_main_def center_main_loop_def split: option.splits sum.splits) (metis surj_pair)

end

text \<open>A connection server with one etcd server.\<close>

definition demo_server :: "bytes \<Rightarrow> unit server_config option" where
  "demo_server s = (case s of [i, p] \<Rightarrow> Some \<lparr>cc_id = ucast i, cc_bindip = [49], cc_portforlogicserver = ucast p,
      cc_logicserverloginpassword = [112], sc_enableipv6 = False, sc_portforclient = 8080, sc_etcdservers = [()]\<rparr> | _ \<Rightarrow> None)"

text \<open>How long \<open>quit\<close> takes at most: the rest of a pass and its two pauses.\<close>

lemma ask_etcd_bound:
  "(\<And>t e. snd (etcdGet t e) \<le> m) \<Longrightarrow> snd (ask_etcd etcdGet etcds now) \<le> now + length etcds * m"
proof (induction etcds arbitrary: now)
  case (Cons e es)
  obtain body ms where c: "etcdGet now e = (body, ms)" by fastforce
  have "ms \<le> m" using Cons.prems [of now e] c by simp
  moreover have "snd (ask_etcd etcdGet es (now + ms)) \<le> now + ms + length es * m"
    by (rule Cons.IH) (rule Cons.prems)
  ultimately show ?case using c by simp
qed simp

text \<open>
  C36: The etcd thread ends: however its calls are answered, once it sees \<open>etcdPullIsClose\<close> set it runs at most two more pauses of
  2.5 seconds and one call of each configured server, and the process that joins it waits no longer. It ends earlier
  only where an answer ends the process.
\<close>

theorem etcd_thread_ends:
  assumes "\<And>t e. snd (etcdGet t e) \<le> m" and "etcd_thread ndebug Parse parse etcdGet etcds close now = (calls, fault, over)"
  shows "(fault = None \<longrightarrow> close \<le> over) \<and> over \<le> max now (close + 5000 + length etcds * m)"
  using assms(2)
proof (induction "close - now" arbitrary: now calls rule: less_induct)
  case less
  show ?case
  proof (cases "close \<le> now")
    case True
    then show ?thesis using less.prems by (subst (asm) etcd_thread.simps) simp
  next
    case False
    obtain body after where a: "ask_etcd etcdGet etcds (now + 2500) = (body, after)" by fastforce
    have b: "now + 2500 \<le> after" "after \<le> now + 2500 + length etcds * m"
      using ask_etcd_later [of "now + 2500" etcdGet etcds] ask_etcd_bound [of etcdGet m etcds "now + 2500"] assms(1) a
      by simp_all
    have "fault \<noteq> None \<and> over = after \<or>
        (\<exists>calls. etcd_thread ndebug Parse parse etcdGet etcds close (after + 2500) = (calls, fault, over))"
      using less.prems False a
      by (subst (asm) etcd_thread.simps) (auto split: prod.splits sum.splits if_splits)
    moreover have "close - (after + 2500) < close - now" using False b(1) by simp
    ultimately show ?thesis using less.hyps [of "after + 2500"] False b by fastforce
  qed
qed

theorem etcd_thread_ends_witness:
  "\<exists>calls. etcd_thread False (\<lambda>b. JObject []) (\<lambda>b. None) (\<lambda>t e. if e then ([123], 20) else ([], 5000)) [False, True] 12000 0 =
     (calls, None, 20040) \<and> length calls = 2 \<and> 20040 \<le> (12000 + 5000 + 2 * 5000 :: nat)"
proof -
  let ?E = "\<lambda>t e. if e then ([123], 20) else ([] :: bytes, 5000 :: nat)"
  let ?run = "etcd_thread False (\<lambda>b. JObject []) (\<lambda>b. None) ?E [False, True] 12000 0"
  have l: "list_servers False (\<lambda>b. None) (JObject []) = Inr []"
    by (simp add: list_servers_def FindMember_def)
  have run: "?run = ([[], []], None, 20040)"
    by (subst etcd_thread.simps, simp add: l, subst etcd_thread.simps, simp add: l, subst etcd_thread.simps, simp)
  have "20040 \<le> max 0 (12000 + 5000 + length [False, True] * 5000)"
    by (rule etcd_thread_ends [OF _ run, THEN conjunct2]) simp
  then show ?thesis using run by simp
qed

section \<open>From a registration to a connection\<close>

text \<open>The logic server reads of a configuration what it needs.\<close>

definition as_listed :: "(bytes \<Rightarrow> 'e server_config option) \<Rightarrow> bytes \<Rightarrow> connection_config option" where
  "as_listed parse b = map_option connection_config.truncate (parse b)"

lemma truncate_sel [simp]:
  "cc_id (connection_config.truncate c) = cc_id c" "cc_bindip (connection_config.truncate c) = cc_bindip c"
  "cc_portforlogicserver (connection_config.truncate c) = cc_portforlogicserver c"
  "cc_logicserverloginpassword (connection_config.truncate c) = cc_logicserverloginpassword c"
  by (simp_all add: connection_config.truncate_def)

lemma config_of_only:
  assumes "c \<in> set cs" and "\<forall>d\<in>set cs. cc_id d = cc_id c \<longrightarrow> d = c"
  shows "config_of cs (cc_id c) = Some (cc_bindip c, cc_portforlogicserver c, cc_logicserverloginpassword c)"
proof -
  let ?f = "\<lambda>c. (cc_id c, (cc_bindip c, cc_portforlogicserver c, cc_logicserverloginpassword c))"
  have "(cc_id c, (cc_bindip c, cc_portforlogicserver c, cc_logicserverloginpassword c)) \<in> set (rev (map ?f cs))"
    using assms(1) by auto
  then obtain v where "map_of (rev (map ?f cs)) (cc_id c) = Some v"
    by (metis (no_types, lifting) domIff fst_conv imageI dom_map_of_conv_image_fst option.exhaust)
  moreover have "v = (cc_bindip c, cc_portforlogicserver c, cc_logicserverloginpassword c)"
    if "map_of (rev (map ?f cs)) (cc_id c) = Some v" for v
    using map_of_SomeD [OF that] assms(2) by auto
  ultimately show ?thesis by (simp add: config_of_def)
qed

lemma connect_reaches:
  "um_find (alreadyConnectingServers s) i = None \<Longrightarrow> (i, ip, port, pw) \<in> set vs \<Longrightarrow>
   Connect i ip port pw \<in> set (acts (tryCompareConnect vs s))"
proof -
  have keep: "a \<in> set (acts s) \<Longrightarrow> a \<in> set (acts (tryCompareConnect vs s))" for a vs and s :: "'b logic_server"
    by (induction vs s rule: tryCompareConnect.induct) (auto simp: act_def)
  show "um_find (alreadyConnectingServers s) i = None \<Longrightarrow> (i, ip, port, pw) \<in> set vs \<Longrightarrow>
   Connect i ip port pw \<in> set (acts (tryCompareConnect vs s))"
    by (induction vs s rule: tryCompareConnect.induct) (auto simp: act_def intro: keep)
qed

text \<open>
  C35: From a heartbeat to a connection. What a connection server sets in etcd is the text of its own configuration; a logic
  server that finds the text listed, under an id no other listed server has, starts a thread that connects to the address and port on which
  that connection server accepts logic servers, with its password, unless it is connecting to it already. (The
  connection is always IPv4, also when the listener is not.)
\<close>

theorem heartbeat_to_connection:
  fixes s :: "'r logic_server" and parse :: "bytes \<Rightarrow> 'e server_config option"
  assumes "conn_main parse etcdSet turns now buffer = (evs, ending)" and "EtcdSet t key value ttl \<in> set evs"
    and "body \<noteq> []" and "Parse body = JObject ms" and "map_of ms key_node = Some (JObject ns)"
    and "map_of ns key_nodes = Some (JArray vs)" and "list_all2 node_entry vs ss" and "value \<in> set ss"
    and "\<forall>b\<in>set ss. \<forall>c d. parse b = Some c \<longrightarrow> parse value = Some d \<longrightarrow> cc_id c = cc_id d \<longrightarrow> c = d"
    and "\<And>m. set (order m) = set m"
  shows "\<exists>cfg s'. parse buffer = Some cfg \<and> value = buffer \<and> key = etcd_key (cc_id cfg) \<and> ttl = 15 \<and>
    StartListen (sc_enableipv6 cfg) (cc_bindip cfg) (cc_portforlogicserver cfg) accept_logic \<in> set evs \<and>
    pull_etcd ndebug Parse (as_listed parse) order (replicate k [] @ body # rest) s = Inr s' \<and>
    (um_find (alreadyConnectingServers s) (cc_id cfg) = None \<longrightarrow>
      Connect (cc_id cfg) (cc_bindip cfg) (cc_portforlogicserver cfg) (cc_logicserverloginpassword cfg) \<in> set (acts s'))"
proof -
  obtain cfg where cfg: "parse buffer = Some cfg" using assms(1,2) by (auto simp: conn_main_def split: option.splits)
  have "EtcdSet t key value ttl \<notin> set (conn_startup cfg)"
    by (simp add: conn_startup_def startServer_def listen_event_def)
  then have v: "value = buffer" "key = etcd_key (cc_id cfg)" "ttl = 15"
    using assms(1,2) cfg by (auto simp: conn_main_def conn_shutdown_def etcd_ttl_def Let_def split: if_splits)
  have l: "StartListen (sc_enableipv6 cfg) (cc_bindip cfg) (cc_portforlogicserver cfg) accept_logic \<in> set evs"
    using assms(1) cfg by (auto simp: conn_main_def conn_startup_def startServer_def server_listen_def listen_event_def Let_def
        split: if_splits)
  let ?c = "connection_config.truncate cfg" and ?cs = "listed_configs (as_listed parse) ss"
  have in_cs: "d \<in> set ?cs \<longleftrightarrow> (\<exists>b\<in>set ss. \<exists>e. parse b = Some e \<and> d = connection_config.truncate e)" for d
    by (simp add: listed_configs_def as_listed_def List.map_filter_def image_iff) (metis option.map_sel option.sel option.distinct(1))
  have "config_of ?cs (cc_id ?c) =
      Some (cc_bindip ?c, cc_portforlogicserver ?c, cc_logicserverloginpassword ?c)"
  proof (rule config_of_only)
    show "?c \<in> set ?cs" using in_cs assms(8) v(1) cfg by blast
    show "\<forall>d\<in>set ?cs. cc_id d = cc_id ?c \<longrightarrow> d = ?c" using in_cs assms(9) v(1) cfg by auto metis
  qed
  moreover obtain m where m: "collect_servers ndebug (as_listed parse) vs [] = Inr m" "um_ok m"
    "\<forall>k. um_find m k = (case config_of ?cs k of None \<Rightarrow> um_find [] k | Some v \<Rightarrow> Some v)"
    using collect_servers_listed [OF assms(7), of "[]" ndebug "as_listed parse"] by auto
  ultimately have "um_find m (cc_id cfg) = Some (cc_bindip cfg, cc_portforlogicserver cfg, cc_logicserverloginpassword cfg)"
    by simp
  then have "(cc_id cfg, cc_bindip cfg, cc_portforlogicserver cfg, cc_logicserverloginpassword cfg) \<in> set (order m)"
    using um_in_find [OF m(2)] assms(10) by simp
  moreover have "pull_etcd ndebug Parse (as_listed parse) order (replicate k [] @ body # rest) s =
      Inr (tryCompareConnect (order m) s)"
    using assms(3-6) m(1) by (simp add: pull_etcd_skips list_servers_def FindMember_def)
  ultimately show ?thesis using cfg v l connect_reaches by blast
qed

text \<open>The two texts etcd lists: a connection server's and one that does not parse.\<close>

definition demo_listing :: "bytes \<Rightarrow> json" where
  "demo_listing b = (if b = [1] then JObject [(key_node, JObject [(key_nodes, JArray
     (map (\<lambda>v. JObject [(key_value, JString v)]) [[4, 80], [7]]))])] else JNull)"

theorem heartbeat_to_connection_witness:
  "\<exists>s'. pull_etcd False demo_listing (as_listed demo_server) (\<lambda>m. m) [[], [1]] (ls_empty :: std_reader logic_server) = Inr s' \<and>
     Connect 4 [49] 80 [112] \<in> set (acts s')"
proof -
  have one: "replicate 1 [] @ [1] # [] = [[], [1 :: byte]]" by simp
  obtain evs ending where run: "conn_main demo_server (\<lambda>t e. ([1], 5)) [None] 0 [4, 80] = (evs, ending)" by fastforce
  have set: "EtcdSet 5 (etcd_key 4) [4, 80] 15 \<in> set evs"
    using run by (auto simp: conn_main_def demo_server_def quits_def etcd_ttl_def Let_def)
  have doc: "demo_listing [1] = JObject [(key_node, JObject [(key_nodes, JArray
      (map (\<lambda>v. JObject [(key_value, JString v)]) [[4, 80], [7]]))])]"
    by (simp add: demo_listing_def)
  have entries: "list_all2 node_entry (map (\<lambda>v. JObject [(key_value, JString v)]) [[4, 80], [7]]) [[4, 80], [7]]"
    by (auto simp: node_entry_def)
  have cfg: "demo_server [4, 80] = Some \<lparr>cc_id = 4, cc_bindip = [49], cc_portforlogicserver = 80,
      cc_logicserverloginpassword = [112], sc_enableipv6 = False, sc_portforclient = 8080, sc_etcdservers = [()]\<rparr>"
    "demo_server [7] = None"
    by (simp_all add: demo_server_def)
  have "um_find (alreadyConnectingServers (ls_empty :: std_reader logic_server)) 4 = None" by (simp add: ls_empty_def um_find_def)
  moreover have "\<exists>cfg s'. demo_server [4, 80] = Some cfg \<and> [4, 80] = [4, 80 :: byte] \<and> etcd_key 4 = etcd_key (cc_id cfg) \<and>
      15 = (15 :: nat) \<and>
      StartListen (sc_enableipv6 cfg) (cc_bindip cfg) (cc_portforlogicserver cfg) accept_logic \<in> set evs \<and>
      pull_etcd False demo_listing (as_listed demo_server) (\<lambda>m. m) (replicate 1 [] @ [1] # []) (ls_empty :: std_reader logic_server) = Inr s' \<and>
      (um_find (alreadyConnectingServers (ls_empty :: std_reader logic_server)) (cc_id cfg) = None \<longrightarrow>
        Connect (cc_id cfg) (cc_bindip cfg) (cc_portforlogicserver cfg) (cc_logicserverloginpassword cfg) \<in> set (acts s'))"
    by (rule heartbeat_to_connection [where Parse = demo_listing, OF run set _ doc _ _ entries])
      (auto simp: cfg)
  ultimately show ?thesis unfolding one using cfg by auto
qed

end
