(* ===== verification/BaseLib.thy ===== *)
theory BaseLib
  imports Prelude
begin

text \<open>
  What the web-facing connection server (WSConnectionServer/) uses of the network library: the
  classes \<open>BasePacketReader\<close> and \<open>BasePacketWriter\<close> of \<open>packet.h\<close> and \<open>WebSocketFormat\<close>. Both belong to
  the git submodule \<open>accumulation-dev\<close>, which is not under src/, so they are a parameter of the
  model: the record \<open>base_lib\<close> of their operations.

  \<^item> The locale \<open>base_io\<close> states what readers and writers promise: a reader stands at a position of
    its buffer and reads integers of its byte order, and a writer whose buffer is large enough
    holds what was written. \<open>ws_frames\<close> states what the frame codec promises: an extracted frame lies in
    the buffer, bytes behind a frame do not change it, and a built frame is extracted again.
  \<^item> \<open>std_base\<close> is one concrete library that satisfies both; witnesses evaluate on it.
\<close>

section \<open>The library\<close>

datatype wfield = WI8 byte | WU16 i16 | WU32 i32 | WBuf bytes

datatype frame_type = TEXT_FRAME | BINARY_FRAME | CONTINUATION_FRAME | PING_FRAME | PONG_FRAME
  | OTHER_FRAME  \<comment> \<open>every other enumerator\<close>

record 'r base_lib =
  size_bits :: nat                          \<comment> \<open>the width of \<open>PACKET_LEN_TYPE\<close>\<close>
  br_new :: "bytes \<Rightarrow> 'r"                   \<comment> \<open>\<open>BasePacketReader(buffer, len)\<close>\<close>
  br_open :: "bool \<Rightarrow> bytes \<Rightarrow> 'r"          \<comment> \<open>\<open>BasePacketReader(buffer, len, useBigEndian)\<close>\<close>
  br_i8 :: "'r \<Rightarrow> byte \<times> 'r"                \<comment> \<open>\<open>readINT8()\<close>\<close>
  br_u16 :: "'r \<Rightarrow> i16 \<times> 'r"                \<comment> \<open>\<open>readUINT16()\<close>\<close>
  br_u32 :: "'r \<Rightarrow> i32 \<times> 'r"                \<comment> \<open>\<open>readUINT32()\<close>\<close>
  br_i32 :: "'r \<Rightarrow> i32 \<times> 'r"                \<comment> \<open>\<open>readINT32()\<close>\<close>
  br_pos :: "'r \<Rightarrow> nat"                     \<comment> \<open>\<open>getPos()\<close>\<close>
  br_max :: "'r \<Rightarrow> nat"                     \<comment> \<open>\<open>getMaxPos()\<close>\<close>
  br_buffer :: "'r \<Rightarrow> bytes"                \<comment> \<open>the memory at \<open>getBuffer()\<close>\<close>
  bw_data :: "bool \<Rightarrow> bool \<Rightarrow> nat \<Rightarrow> wfield list \<Rightarrow> bytes"
    \<comment> \<open>\<open>BasePacketWriter(b, size, useBigEndian, isAutoMalloc)\<close> after these writes: \<open>getPos()\<close> bytes of \<open>getData()\<close>\<close>
  ws_handshake :: "bytes \<Rightarrow> bytes"          \<comment> \<open>\<open>wsHandshake(key)\<close>\<close>
  ws_extract :: "bytes \<Rightarrow> (bytes \<times> frame_type \<times> nat \<times> bool) option"
    \<comment> \<open>\<open>wsFrameExtractBuffer\<close>: payload, opcode, frame size, fin flag\<close>
  ws_build :: "bytes \<Rightarrow> frame_type \<Rightarrow> bytes option"   \<comment> \<open>\<open>wsFrameBuild\<close>\<close>
  async_inline :: bool  \<comment> \<open>whether \<open>pushAsyncProc\<close> on the calling thread's own loop runs the proc at once\<close>

definition num_bytes :: "bool \<Rightarrow> nat \<Rightarrow> nat \<Rightarrow> bytes" where
  "num_bytes big n v = (if big then rev (le_bytes n v) else le_bytes n v)"

definition bytes_num :: "bool \<Rightarrow> bytes \<Rightarrow> nat" where
  "bytes_num big bs = le_nat (if big then rev bs else bs)"

fun wfield_bytes :: "bool \<Rightarrow> wfield \<Rightarrow> bytes" where
  "wfield_bytes big (WI8 x) = [x]"
| "wfield_bytes big (WU16 x) = num_bytes big 2 (unat x)"
| "wfield_bytes big (WU32 x) = num_bytes big 4 (unat x)"
| "wfield_bytes big (WBuf b) = b"

definition wfields_bytes :: "bool \<Rightarrow> wfield list \<Rightarrow> bytes" where
  "wfields_bytes big fs = concat (map (wfield_bytes big) fs)"

lemma wfields_bytes_simps [simp]:
  "wfields_bytes big [] = []"
  "wfields_bytes big (f # fs) = wfield_bytes big f @ wfields_bytes big fs"
  by (simp_all add: wfields_bytes_def)

lemma length_num_bytes [simp]: "length (num_bytes big n v) = n"
  by (simp add: num_bytes_def)

lemma bytes_num_bytes: "bytes_num big (num_bytes big n v) = v mod 256 ^ n"
  by (simp add: bytes_num_def num_bytes_def le_nat_le_bytes)

section \<open>Its contract\<close>

text \<open>\<open>view r\<close> is the reader's byte order, position and buffer.\<close>

locale base_io =
  fixes B :: "('r, 'z) base_lib_scheme" and view :: "'r \<Rightarrow> bool \<times> nat \<times> bytes"
  assumes view_new: "view (br_new B b) = (True, 0, b)"
    and view_open: "view (br_open B big b) = (big, 0, b)"
    and view_pos: "br_pos B r = fst (snd (view r))"
    and view_buffer: "br_buffer B r = snd (snd (view r))"
    and view_max: "br_max B r = length (snd (snd (view r)))"
    and read_i8: "view r = (big, p, b) \<Longrightarrow> p + 1 \<le> length b \<Longrightarrow>
      fst (br_i8 B r) = b ! p \<and> view (snd (br_i8 B r)) = (big, p + 1, b)"
    and read_u16: "view r = (big, p, b) \<Longrightarrow> p + 2 \<le> length b \<Longrightarrow>
      fst (br_u16 B r) = of_nat (bytes_num big (take 2 (drop p b))) \<and> view (snd (br_u16 B r)) = (big, p + 2, b)"
    and read_u32: "view r = (big, p, b) \<Longrightarrow> p + 4 \<le> length b \<Longrightarrow>
      fst (br_u32 B r) = of_nat (bytes_num big (take 4 (drop p b))) \<and> view (snd (br_u32 B r)) = (big, p + 4, b)"
    and read_i32: "view r = (big, p, b) \<Longrightarrow> p + 4 \<le> length b \<Longrightarrow>
      fst (br_i32 B r) = of_nat (bytes_num big (take 4 (drop p b))) \<and> view (snd (br_i32 B r)) = (big, p + 4, b)"
    and write_fits: "auto \<or> length (wfields_bytes big fs) \<le> n \<Longrightarrow> bw_data B big auto n fs = wfields_bytes big fs"

locale ws_frames =
  fixes B :: "('r, 'z) base_lib_scheme"
  assumes extract_bound: "ws_extract B b = Some (pay, op, n, fin) \<Longrightarrow> 0 < n \<and> n \<le> length b"
    and extract_prefix: "ws_extract B b = Some f \<Longrightarrow> ws_extract B (b @ c) = Some f"
    and build_extract: "ws_build B pay TEXT_FRAME = Some fr \<Longrightarrow>
      ws_extract B fr = Some (pay, TEXT_FRAME, length fr, True) \<and> length pay \<le> length fr"

locale ws_lib = base_io B view + ws_frames B
  for B :: "('r, 'z) base_lib_scheme" and view :: "'r \<Rightarrow> bool \<times> nat \<times> bytes"

text \<open>Reading with the result and the reader that is left in one equation.\<close>

context base_io
begin

lemma take_i8:
  assumes "view r = (big, p, b)" "p + 1 \<le> length b"
  obtains r' where "br_i8 B r = (b ! p, r')" "view r' = (big, p + 1, b)"
  using read_i8 [OF assms] by (cases "br_i8 B r") auto

lemma take_u16:
  assumes "view r = (big, p, b)" "p + 2 \<le> length b"
  obtains r' where "br_u16 B r = (of_nat (bytes_num big (take 2 (drop p b))), r')" "view r' = (big, p + 2, b)"
  using read_u16 [OF assms] by (cases "br_u16 B r") auto

lemma take_u32:
  assumes "view r = (big, p, b)" "p + 4 \<le> length b"
  obtains r' where "br_u32 B r = (of_nat (bytes_num big (take 4 (drop p b))), r')" "view r' = (big, p + 4, b)"
  using read_u32 [OF assms] by (cases "br_u32 B r") auto

lemma take_i32:
  assumes "view r = (big, p, b)" "p + 4 \<le> length b"
  obtains r' where "br_i32 B r = (of_nat (bytes_num big (take 4 (drop p b))), r')" "view r' = (big, p + 4, b)"
  using read_i32 [OF assms] by (cases "br_i32 B r") auto

end

section \<open>One library that satisfies the contract\<close>

text \<open>The reader is its view. A frame is built unmasked, with the 64-bit length form.\<close>

type_synonym std_view = "bool \<times> nat \<times> bytes"

definition std_read :: "nat \<Rightarrow> std_view \<Rightarrow> nat \<times> std_view" where
  "std_read n r = (case r of (big, p, b) \<Rightarrow> (bytes_num big (take n (drop p b)), (big, p + n, b)))"

definition frame_code :: "frame_type \<Rightarrow> nat" where
  "frame_code op = (case op of CONTINUATION_FRAME \<Rightarrow> 0 | TEXT_FRAME \<Rightarrow> 1 | BINARY_FRAME \<Rightarrow> 2
     | PING_FRAME \<Rightarrow> 9 | PONG_FRAME \<Rightarrow> 10 | OTHER_FRAME \<Rightarrow> 8)"

definition code_frame :: "nat \<Rightarrow> frame_type" where
  "code_frame k = (if k = 0 then CONTINUATION_FRAME else if k = 1 then TEXT_FRAME else if k = 2 then BINARY_FRAME
     else if k = 9 then PING_FRAME else if k = 10 then PONG_FRAME else OTHER_FRAME)"

definition std_frame :: "bool \<Rightarrow> frame_type \<Rightarrow> bytes \<Rightarrow> bytes" where
  "std_frame fin op pay = of_nat ((if fin then 128 else 0) + frame_code op) # 127 # num_bytes True 8 (length pay) @ pay"

definition std_extract :: "bytes \<Rightarrow> (bytes \<times> frame_type \<times> nat \<times> bool) option" where
  "std_extract b = (let n = bytes_num True (take 8 (drop 2 b)) in
     if 10 \<le> length b \<and> n + 10 \<le> length b
     then Some (take n (drop 10 b), code_frame (unat (b ! 0) mod 128), n + 10, 128 \<le> unat (b ! 0)) else None)"

definition std_base :: "std_view base_lib" where
  "std_base = \<lparr>size_bits = 32, br_new = (\<lambda>b. (True, 0, b)), br_open = (\<lambda>big b. (big, 0, b)),
     br_i8 = (\<lambda>r. apfst of_nat (std_read 1 r)), br_u16 = (\<lambda>r. apfst of_nat (std_read 2 r)),
     br_u32 = (\<lambda>r. apfst of_nat (std_read 4 r)), br_i32 = (\<lambda>r. apfst of_nat (std_read 4 r)),
     br_pos = (\<lambda>r. fst (snd r)), br_max = (\<lambda>r. length (snd (snd r))), br_buffer = (\<lambda>r. snd (snd r)),
     bw_data = (\<lambda>big auto n fs. if auto then wfields_bytes big fs else take n (wfields_bytes big fs)),
     ws_handshake = (\<lambda>key. key), ws_extract = std_extract,
     ws_build = (\<lambda>pay op. if length pay < 2 ^ 64 then Some (std_frame True op pay) else None),
     async_inline = False\<rparr>"

lemma std_base_sel [simp]:
  "size_bits std_base = 32" "br_new std_base b = (True, 0, b)" "br_open std_base big b = (big, 0, b)"
  "br_i8 std_base r = apfst of_nat (std_read 1 r)" "br_u16 std_base r = apfst of_nat (std_read 2 r)"
  "br_u32 std_base r = apfst of_nat (std_read 4 r)" "br_i32 std_base r = apfst of_nat (std_read 4 r)"
  "br_pos std_base r = fst (snd r)" "br_max std_base r = length (snd (snd r))"
  "br_buffer std_base r = snd (snd r)"
  "bw_data std_base big auto n fs = (if auto then wfields_bytes big fs else take n (wfields_bytes big fs))"
  "ws_handshake std_base key = key" "ws_extract std_base = std_extract"
  "ws_build std_base pay op = (if length pay < 2 ^ 64 then Some (std_frame True op pay) else None)"
  "async_inline std_base = False"
  by (simp_all add: std_base_def)

lemma std_extract_prefix: "std_extract b = Some f \<Longrightarrow> std_extract (b @ c) = Some f"
  by (auto simp: std_extract_def Let_def nth_append split: if_splits)

lemma std_extract_frame:
  assumes "length pay < 2 ^ 64"
  shows "std_extract (std_frame True TEXT_FRAME pay) = Some (pay, TEXT_FRAME, length (std_frame True TEXT_FRAME pay), True)"
  using assms bytes_num_bytes [of True 8 "length pay"]
  by (simp add: std_extract_def std_frame_def Let_def frame_code_def code_frame_def drop_Cons')

lemma length_std_frame: "length pay \<le> length (std_frame fin op pay)"
  by (simp add: std_frame_def)

interpretation stdb: ws_lib std_base "\<lambda>r. r"
proof (unfold_locales, goal_cases)
  case (6 r big p b)
  then show ?case
    by (cases "drop p b") (auto simp: std_read_def bytes_num_def take_Suc nth_via_drop)
next
  case (11 b pay op n fin)
  then show ?case by (auto simp: std_extract_def Let_def split: if_splits)
next
  case (12 b f c)
  then show ?case by (simp add: std_extract_prefix)
next
  case (13 pay fr)
  then have "length pay < 2 ^ 64" "fr = std_frame True TEXT_FRAME pay" by (auto split: if_splits)
  then show ?case using std_extract_frame length_std_frame by simp
qed (auto simp: std_read_def)

lemmas std_base_eval = std_read_def std_extract_def std_frame_def frame_code_def code_frame_def bytes_num_def
  num_bytes_def le_bytes_numeral

end
