(* ===== verification/WSFraming.thy ===== *)
theory WSFraming
  imports Framing BaseLib
begin

text \<open>
  The two framers of WSConnectionServer/.

  \<^item> \<open>UseCellnetPacketSingleNetSession::onMsg\<close> (logic servers): an 8-byte little-endian header with a
    command, a serial number and the packet's length. The expected serial number is incremented
    inside an \<open>assert\<close>, so only in a build without \<open>NDEBUG\<close>.
  \<^item> \<open>UseWebPacketSingleNetSession::onMsg\<close> (clients): the WebSocket handshake, then frames. The payload of
    a text or binary frame is a packet of its own: \<open>{\<close>, length, command, serial, body, \<open>}\<close>.

  The members of the session an \<open>onMsg\<close> uses are a record of functions over the state of the program
  (\<open>cell_ops\<close>, \<open>web_ops\<close>), so the server's model supplies its own. Both loops are instances of
  \<open>stream_framer\<close>.
\<close>

section \<open>UseCellnetPacketSingleNetSession\<close>

record 's cell_ops =
  recv_serial :: "'s \<Rightarrow> i16"       \<comment> \<open>\<open>mRecvSerialID\<close>\<close>
  bump_serial :: "'s \<Rightarrow> 's"        \<comment> \<open>\<open>mRecvSerialID++\<close>\<close>
  cell_proc :: "i32 \<Rightarrow> bytes \<Rightarrow> 's \<Rightarrow> 's result"   \<comment> \<open>\<open>procPacket(op, body, bodyLen)\<close>\<close>

definition CELLNET_PACKET_HEAD_LEN :: nat where
  "CELLNET_PACKET_HEAD_LEN = 8"

definition cellnet_head :: "('r, 'z) base_lib_scheme \<Rightarrow> bytes \<Rightarrow> i32 \<times> i16 \<times> i16 \<times> nat" where
  "cellnet_head B b = (let (cmdID, bp1) = br_u32 B (br_open B False b);
       (seralID, bp2) = br_u16 B bp1; (packet_len, bp3) = br_u16 B bp2
     in (cmdID, seralID, packet_len, br_pos B bp3))"

text \<open>What one round of the loop does with a complete packet of \<open>packet_len\<close> bytes at \<open>ps\<close>.\<close>

definition cellnet_packet ::
  "bool \<Rightarrow> 's cell_ops \<Rightarrow> i32 \<Rightarrow> i16 \<Rightarrow> nat \<Rightarrow> nat \<Rightarrow> bytes \<Rightarrow> 's \<Rightarrow> 's result" where
  "cellnet_packet ndebug W cmdID seralID packet_len pos ps s =
     rbind (if ndebug then Inr s
            else if recv_serial W s = seralID then Inr (bump_serial W s) else Inl AssertFailed)
       (cell_proc W cmdID (take (packet_len - pos) (drop pos ps)))"

partial_function (option) cellnet_loop ::
  "bool \<Rightarrow> ('r, 'z) base_lib_scheme \<Rightarrow> 's cell_ops \<Rightarrow> bytes \<Rightarrow> nat \<Rightarrow> nat \<Rightarrow> 's \<Rightarrow> ('s \<times> nat) result option"
where
  "cellnet_loop ndebug B W ps left tot s =
     (if CELLNET_PACKET_HEAD_LEN \<le> left then
        (let (cmdID, seralID, packet_len, pos) = cellnet_head B (take left ps) in
         if \<not> ndebug \<and> pos \<noteq> CELLNET_PACKET_HEAD_LEN then Some (Inl AssertFailed)
         else if unat packet_len \<le> left \<and> CELLNET_PACKET_HEAD_LEN \<le> unat packet_len then
           (case cellnet_packet ndebug W cmdID seralID (unat packet_len) pos ps s of
              Inl f \<Rightarrow> Some (Inl f)
            | Inr s' \<Rightarrow> cellnet_loop ndebug B W (drop (unat packet_len) ps) (left - unat packet_len)
                (tot + unat packet_len) s')
         else Some (Inr (s, tot)))
      else Some (Inr (s, tot)))"

definition cellnet_onMsg ::
  "bool \<Rightarrow> ('r, 'z) base_lib_scheme \<Rightarrow> 's cell_ops \<Rightarrow> bytes \<Rightarrow> 's \<Rightarrow> ('s \<times> nat) result option" where
  "cellnet_onMsg ndebug B W buf s = cellnet_loop ndebug B W buf (length buf) 0 s"

definition cellnet_step ::
  "bool \<Rightarrow> ('r, 'z) base_lib_scheme \<Rightarrow> 's cell_ops \<Rightarrow> bytes \<Rightarrow> 's \<Rightarrow> (nat \<times> 's result) option" where
  "cellnet_step ndebug B W buf s =
     (if CELLNET_PACKET_HEAD_LEN \<le> length buf then
        (let (cmdID, seralID, packet_len, pos) = cellnet_head B buf in
         if \<not> ndebug \<and> pos \<noteq> CELLNET_PACKET_HEAD_LEN then Some (CELLNET_PACKET_HEAD_LEN, Inl AssertFailed)
         else if unat packet_len \<le> length buf \<and> CELLNET_PACKET_HEAD_LEN \<le> unat packet_len
         then Some (unat packet_len, cellnet_packet ndebug W cmdID seralID (unat packet_len) pos buf s)
         else None)
      else None)"

definition cellnet_run :: "bool \<Rightarrow> ('r, 'z) base_lib_scheme \<Rightarrow> 's cell_ops \<Rightarrow> 's framing_run" where
  "cellnet_run ndebug B W buf t s = cellnet_loop ndebug B W buf (length buf) t s"

text \<open>The header is read from the first eight bytes.\<close>

context base_io
begin

lemma cellnet_head_eq:
  assumes "8 \<le> length b"
  shows "cellnet_head B b = (of_nat (le_nat (take 4 b)), of_nat (le_nat (take 2 (drop 4 b))),
    of_nat (le_nat (take 2 (drop 6 b))), 8)"
proof -
  have v: "view (br_open B False b) = (False, 0, b)" by (rule view_open)
  obtain r1 where r1: "br_u32 B (br_open B False b) = (of_nat (bytes_num False (take 4 (drop 0 b))), r1)"
    "view r1 = (False, 0 + 4, b)" using take_u32 [OF v] assms by auto
  obtain r2 where r2: "br_u16 B r1 = (of_nat (bytes_num False (take 2 (drop 4 b))), r2)"
    "view r2 = (False, 6, b)" using take_u16 [of r1 False 4 b] r1(2) assms by auto
  obtain r3 where r3: "br_u16 B r2 = (of_nat (bytes_num False (take 2 (drop 6 b))), r3)"
    "view r3 = (False, 8, b)" using take_u16 [of r2 False 6 b] r2(2) assms by auto
  show ?thesis using r1 r2 r3 by (simp add: cellnet_head_def bytes_num_def view_pos)
qed

lemma cellnet_step_eq:
  "cellnet_step ndebug B W buf s =
     (let n = le_nat (take 2 (drop 6 buf)) in
      if 8 \<le> n \<and> n \<le> length buf
      then Some (n, cellnet_packet ndebug W (of_nat (le_nat (take 4 buf)))
        (of_nat (le_nat (take 2 (drop 4 buf)))) n 8 buf s)
      else None)"
proof (cases "8 \<le> length buf")
  case True
  have "le_nat (take 2 (drop 6 buf)) < 256 ^ length (take 2 (drop 6 buf))" by (rule le_nat_bound)
  also have "\<dots> = 65536" using True by simp
  finally have "unat (of_nat (le_nat (take 2 (drop 6 buf))) :: i16) = le_nat (take 2 (drop 6 buf))"
    by (simp add: unat_of_nat)
  then show ?thesis using True by (auto simp: cellnet_step_def cellnet_head_eq CELLNET_PACKET_HEAD_LEN_def Let_def)
next
  case False
  then show ?thesis by (auto simp: cellnet_step_def CELLNET_PACKET_HEAD_LEN_def Let_def)
qed

lemma cellnet_packet_prefix:
  "n \<le> length ps \<Longrightarrow> cellnet_packet ndebug W c k n 8 (ps @ tail) s = cellnet_packet ndebug W c k n 8 ps s"
  by (cases "8 \<le> length ps") (simp_all add: cellnet_packet_def)

end

sublocale base_io \<subseteq> cell: stream_framer "cellnet_step ndebug B W" "cellnet_run ndebug B W" for ndebug W
proof (unfold_locales, goal_cases)
  case (1 buf s n r)
  then show ?case by (auto simp: cellnet_step_eq Let_def split: if_splits)
next
  case (2 buf s x tail)
  then show ?case by (auto simp: cellnet_step_eq Let_def cellnet_packet_prefix split: if_splits)
next
  case (3 buf t s)
  show ?case
    unfolding cellnet_run_def
    by (subst cellnet_loop.simps) (auto simp: cellnet_step_def Let_def split: if_splits prod.splits sum.splits)
qed


section \<open>UseWebPacketSingleNetSession: the handshake\<close>

record 's web_ops =
  shakehanded :: "'s \<Rightarrow> bool"                    \<comment> \<open>\<open>mShakehanded\<close>\<close>
  set_shakehanded :: "'s \<Rightarrow> 's"                   \<comment> \<open>\<open>mShakehanded = true\<close>\<close>
  cache_frame :: "'s \<Rightarrow> bytes"                   \<comment> \<open>\<open>mCacheFrame\<close>\<close>
  set_cache :: "bytes \<Rightarrow> 's \<Rightarrow> 's"
  send_packet :: "bytes \<Rightarrow> 's \<Rightarrow> 's"             \<comment> \<open>\<open>sendPacket\<close> of the base session\<close>
  web_proc :: "i32 \<Rightarrow> bytes \<Rightarrow> 's \<Rightarrow> 's result"   \<comment> \<open>\<open>procPacket(op, body, bodyLen)\<close>\<close>

definition SEC_FLAG :: bytes where
  "SEC_FLAG = string_bytes ''Sec-WebSocket-Key: ''"

definition CRLF :: bytes where
  "CRLF = [13, 10]"

text \<open>
  \<open>strstr\<close> over the memory from a pointer on: it stops at the match or at a zero byte, and runs out
  of the memory when there is neither. The result is the memory from the match on.
\<close>

fun c_strstr :: "bytes \<Rightarrow> bytes \<Rightarrow> bytes option result" where
  "c_strstr needle [] = Inl OutOfBounds"
| "c_strstr needle (b # mem) = (if take (length needle) (b # mem) = needle then Inr (Some (b # mem))
     else if b = 0 then Inr None else c_strstr needle mem)"

text \<open>\<open>beyond\<close> is the memory behind the \<open>len\<close> received bytes; \<open>strstr\<close> does not know where they end.\<close>

definition web_shakehand ::
  "('r, 'z) base_lib_scheme \<Rightarrow> 's web_ops \<Rightarrow> bytes \<Rightarrow> bytes \<Rightarrow> 's \<Rightarrow> ('s \<times> nat) result" where
  "web_shakehand B W beyond buf s =
     rbind (c_strstr SEC_FLAG (buf @ beyond)) (\<lambda>f. case f of
         None \<Rightarrow> Inr (s, 0)
       | Some found \<Rightarrow>
           (let keyStart = drop (length SEC_FLAG) found in
            rbind (c_strstr CRLF keyStart) (\<lambda>fend. case fend of
                None \<Rightarrow> Inr (s, 0)
              | Some rest \<Rightarrow>
                  (let key = take (length keyStart - length rest) keyStart in
                   Inr (send_packet W (ws_handshake B key) (set_shakehanded W s), length buf)))))"

section \<open>UseWebPacketSingleNetSession: frames\<close>

definition WEB_PACKET_HEAD_LEN :: nat where
  "WEB_PACKET_HEAD_LEN = 14"

text \<open>The packet inside a complete text or binary payload.\<close>

definition web_payload ::
  "bool \<Rightarrow> ('r, 'z) base_lib_scheme \<Rightarrow> 's web_ops \<Rightarrow> bytes \<Rightarrow> 's \<Rightarrow> 's result" where
  "web_payload ndebug B W payload s =
     (let rp1 = snd (br_i8 B (br_new B payload));
          (packetLen, rp2) = br_u32 B rp1;
          fits = WEB_PACKET_HEAD_LEN \<le> unat packetLen \<and> unat packetLen = length payload
      in cassert ndebug fits
          (if fits then
             (let (cmd, rp3) = br_i32 B rp2; rp4 = snd (br_i32 B rp3) in
              web_proc W cmd (take (unat packetLen - WEB_PACKET_HEAD_LEN) (drop (br_pos B rp4) payload)) s)
           else Inr s))"

definition web_frame ::
  "bool \<Rightarrow> ('r, 'z) base_lib_scheme \<Rightarrow> 's web_ops \<Rightarrow> bytes \<Rightarrow> frame_type \<Rightarrow> bool \<Rightarrow> 's \<Rightarrow> 's result" where
  "web_frame ndebug B W parsePayload opcode isFin s =
     (if isFin \<and> (opcode = TEXT_FRAME \<or> opcode = BINARY_FRAME) then
        (if cache_frame W s \<noteq> []
         then web_payload ndebug B W (cache_frame W s @ parsePayload) (set_cache W [] s)
         else web_payload ndebug B W parsePayload s)
      else if opcode = CONTINUATION_FRAME then Inr (set_cache W (cache_frame W s @ parsePayload) s)
      else if opcode = PING_FRAME then Inr s
      else if opcode = PONG_FRAME then Inr s
      else cassert ndebug False (Inr s))"

partial_function (option) web_loop ::
  "bool \<Rightarrow> ('r, 'z) base_lib_scheme \<Rightarrow> 's web_ops \<Rightarrow> bytes \<Rightarrow> nat \<Rightarrow> nat \<Rightarrow> 's \<Rightarrow> ('s \<times> nat) result option"
where
  "web_loop ndebug B W ps left tot s =
     (if WEB_PACKET_HEAD_LEN \<le> left then
        (case ws_extract B (take left ps) of
           None \<Rightarrow> Some (Inr (s, tot))
         | Some (parsePayload, opcode, frameSize, isFin) \<Rightarrow>
             (case web_frame ndebug B W parsePayload opcode isFin s of
                Inl f \<Rightarrow> Some (Inl f)
              | Inr s' \<Rightarrow> web_loop ndebug B W (drop frameSize ps) (left - frameSize) (tot + frameSize) s'))
      else Some (Inr (s, tot)))"

definition web_onMsg ::
  "bool \<Rightarrow> ('r, 'z) base_lib_scheme \<Rightarrow> 's web_ops \<Rightarrow> bytes \<Rightarrow> bytes \<Rightarrow> 's \<Rightarrow> ('s \<times> nat) result option" where
  "web_onMsg ndebug B W beyond buf s =
     (if shakehanded W s then web_loop ndebug B W buf (length buf mod 2 ^ size_bits B) 0 s
      else Some (web_shakehand B W beyond buf s))"

definition web_step ::
  "bool \<Rightarrow> ('r, 'z) base_lib_scheme \<Rightarrow> 's web_ops \<Rightarrow> bytes \<Rightarrow> 's \<Rightarrow> (nat \<times> 's result) option" where
  "web_step ndebug B W buf s =
     (if WEB_PACKET_HEAD_LEN \<le> length buf then
        (case ws_extract B buf of
           None \<Rightarrow> None
         | Some (pay, opcode, n, isFin) \<Rightarrow> Some (n, web_frame ndebug B W pay opcode isFin s))
      else None)"

definition web_run :: "bool \<Rightarrow> ('r, 'z) base_lib_scheme \<Rightarrow> 's web_ops \<Rightarrow> 's framing_run" where
  "web_run ndebug B W buf t s = web_loop ndebug B W buf (length buf) t s"

sublocale ws_frames \<subseteq> web: stream_framer "web_step ndebug B W" "web_run ndebug B W" for ndebug W
proof (unfold_locales, goal_cases)
  case (1 buf s n r)
  then show ?case using extract_bound [of buf] by (auto simp: web_step_def split: if_splits option.splits)
next
  case (2 buf s x tail)
  then show ?case
    using extract_prefix [of buf _ tail] by (auto simp: web_step_def split: if_splits option.splits)
next
  case (3 buf t s)
  show ?case
    unfolding web_run_def
    by (subst web_loop.simps) (auto simp: web_step_def split: option.splits prod.splits sum.splits)
qed

section \<open>Facts about the framers\<close>

text \<open>A Cellnet packet, and a client's packet inside its frame.\<close>

definition cellnet_bytes :: "i32 \<Rightarrow> i16 \<Rightarrow> bytes \<Rightarrow> bytes" where
  "cellnet_bytes cmd ser body =
     le_bytes 4 (unat cmd) @ le_bytes 2 (unat ser) @ le_bytes 2 (8 + length body) @ body"

definition web_bytes :: "i32 \<Rightarrow> i32 \<Rightarrow> bytes \<Rightarrow> bytes" where
  "web_bytes op ser body = 123 # num_bytes True 4 (14 + length body) @ num_bytes True 4 (unat op)
     @ num_bytes True 4 (unat ser) @ body @ [125]"

context base_io
begin

lemma cellnet_step_packet:
  assumes "length body + 8 < 2 ^ 16"
  shows "cellnet_step ndebug B W (cellnet_bytes cmd ser body @ tail) s =
    Some (8 + length body,
      rbind (if ndebug then Inr s else if recv_serial W s = ser then Inr (bump_serial W s) else Inl AssertFailed)
        (cell_proc W cmd body))"
proof -
  have n: "(8 + length body) mod 65536 = 8 + length body" using assms by simp
  have "cellnet_step ndebug B W (cellnet_bytes cmd ser body) s = Some (8 + length body,
      rbind (if ndebug then Inr s else if recv_serial W s = ser then Inr (bump_serial W s) else Inl AssertFailed)
        (cell_proc W cmd body))"
    by (simp add: cellnet_step_eq Let_def cellnet_bytes_def le_nat_le_bytes n cellnet_packet_def)
  then show ?thesis by (rule cell.step_stable)
qed

lemma web_payload_packet:
  assumes "length body + 14 < 2 ^ 32"
  shows "web_payload ndebug B W (web_bytes op ser body) s = web_proc W op body s"
proof -
  let ?b = "web_bytes op ser body"
  have b: "length ?b = 14 + length body" by (simp add: web_bytes_def)
  have v: "view (br_new B ?b) = (True, 0, ?b)" by (rule view_new)
  obtain r1 where r1: "br_i8 B (br_new B ?b) = (?b ! 0, r1)" "view r1 = (True, 1, ?b)"
    using take_i8 [OF v] b by auto
  obtain r2 where r2: "br_u32 B r1 = (of_nat (bytes_num True (take 4 (drop 1 ?b))), r2)" "view r2 = (True, 5, ?b)"
    using take_u32 [of r1 True 1 ?b] r1(2) b by auto
  obtain r3 where r3: "br_i32 B r2 = (of_nat (bytes_num True (take 4 (drop 5 ?b))), r3)" "view r3 = (True, 9, ?b)"
    using take_i32 [of r2 True 5 ?b] r2(2) b by auto
  obtain r4 where r4: "br_i32 B r3 = (of_nat (bytes_num True (take 4 (drop 9 ?b))), r4)" "view r4 = (True, 13, ?b)"
    using take_i32 [of r3 True 9 ?b] r3(2) b by auto
  have fields: "take 4 (drop 1 ?b) = num_bytes True 4 (14 + length body)"
    "take 4 (drop 5 ?b) = num_bytes True 4 (unat op)" "drop 13 ?b = body @ [125]"
    by (simp_all add: web_bytes_def drop_Cons')
  have len: "unat (of_nat (14 + length body) :: 32 word) = 14 + length body"
    using assms by (simp only: unat_of_nat) simp
  show ?thesis
    using r1 r2 r3 r4 b fields len assms
    by (simp add: web_payload_def Let_def bytes_num_bytes view_pos WEB_PACKET_HEAD_LEN_def)
qed

lemma cellnet_onMsg_fault:
  "cellnet_step ndebug B W data s = Some (n, Inl f) \<Longrightarrow> cellnet_onMsg ndebug B W data s = Some (Inl f)"
  using cell.run_fault by (simp add: cellnet_onMsg_def cellnet_run_def)

lemma web_payload_misfit:
  assumes "5 \<le> length pay" and "bytes_num True (take 4 (drop 1 pay)) \<noteq> length pay"
  shows "web_payload True B W pay s = Inr s"
proof -
  obtain r1 where r1: "br_i8 B (br_new B pay) = (pay ! 0, r1)" "view r1 = (True, 1, pay)"
    using take_i8 [OF view_new [of pay]] assms(1) by auto
  obtain r2 where r2: "br_u32 B r1 = (of_nat (bytes_num True (take 4 (drop 1 pay))), r2)"
    using take_u32 [of r1 True 1 pay] r1(2) assms(1) by auto
  have "bytes_num True (take 4 (drop 1 pay)) < 256 ^ 4"
    using le_nat_bound [of "rev (take 4 (drop 1 pay))"] assms(1) by (simp add: bytes_num_def)
  then have "unat (of_nat (bytes_num True (take 4 (drop 1 pay))) :: 32 word) = bytes_num True (take 4 (drop 1 pay))"
    by (simp add: unat_of_nat)
  then show ?thesis using r1 r2 assms(2) by (simp add: web_payload_def Let_def)
qed

end

text \<open>The packets of a connection, numbered from \<open>ser\<close> on, and their delivery.\<close>

fun cellnet_stream :: "i16 \<Rightarrow> (i32 \<times> bytes) list \<Rightarrow> bytes" where
  "cellnet_stream ser [] = []"
| "cellnet_stream ser ((cmd, body) # ps) = cellnet_bytes cmd ser body @ cellnet_stream (ser + 1) ps"

fun deliver_cells :: "bool \<Rightarrow> 's cell_ops \<Rightarrow> (i32 \<times> bytes) list \<Rightarrow> 's \<Rightarrow> 's result" where
  "deliver_cells ndebug W [] s = Inr s"
| "deliver_cells ndebug W ((cmd, body) # ps) s =
     rbind (cell_proc W cmd body (if ndebug then s else bump_serial W s)) (deliver_cells ndebug W ps)"

text \<open>The laws of a session's members that a framer relies on.\<close>

locale cell_session =
  fixes W :: "'s cell_ops"
  assumes bump: "recv_serial W (bump_serial W s) = recv_serial W s + 1"
    and proc_keeps: "cell_proc W cmd body s = Inr s' \<Longrightarrow> recv_serial W s' = recv_serial W s"

locale web_session =
  fixes W :: "'s web_ops"
  assumes cache_set: "cache_frame W (set_cache W b s) = b"
    and cache_same: "set_cache W (cache_frame W s) s = s"
    and set_set: "set_cache W b (set_cache W b' s) = set_cache W b s"
    and set_keeps: "shakehanded W (set_cache W b s) = shakehanded W s"

locale numbered_cells = base_io B view + cell_session W
  for B :: "('r, 'z) base_lib_scheme" and view :: "'r \<Rightarrow> bool \<times> nat \<times> bytes" and W :: "'s cell_ops"
begin

lemma cellnet_run_stream:
  assumes "\<forall>p\<in>set ps. length (snd p) + 8 < 2 ^ 16" and "ndebug \<or> recv_serial W s = ser"
  shows "cellnet_run ndebug B W (cellnet_stream ser ps) t s =
    Some (rbind (deliver_cells ndebug W ps s) (\<lambda>s'. Inr (s', t + length (cellnet_stream ser ps))))"
  using assms
proof (induction ps arbitrary: ser t s)
  case Nil
  then show ?case by (simp add: cell.run_stuck cell.step_empty)
next
  case (Cons p ps)
  obtain cmd body where p: "p = (cmd, body)" by (cases p)
  let ?s = "if ndebug then s else bump_serial W s" and ?r = "cellnet_stream (ser + 1) ps"
  have step: "cellnet_step ndebug B W (cellnet_bytes cmd ser body @ ?r) s =
      Some (8 + length body, cell_proc W cmd body ?s)"
    using Cons.prems p by (auto simp: cellnet_step_packet)
  have len: "length (cellnet_bytes cmd ser body) = 8 + length body" by (simp add: cellnet_bytes_def)
  show ?case
  proof (cases "cell_proc W cmd body ?s")
    case (Inl f)
    then show ?thesis using step p by (simp add: cell.run_fault)
  next
    case (Inr s')
    then have "ndebug \<or> recv_serial W s' = ser + 1"
      using proc_keeps [OF Inr] bump [of s] Cons.prems by auto
    moreover have "cellnet_run ndebug B W (cellnet_bytes cmd ser body @ ?r) t s =
        cellnet_run ndebug B W ?r (t + (8 + length body)) s'"
      using step Inr len by (simp add: cell.run_more)
    ultimately show ?thesis using Cons Inr p len by (simp add: ac_simps)
  qed
qed

lemma cellnet_feed_stream:
  assumes "\<forall>p\<in>set ps. length (snd p) + 8 < 2 ^ 16" and "ndebug \<or> recv_serial W s = ser"
    and "concat cs = cellnet_stream ser ps"
  shows "feed (cellnet_onMsg ndebug B W) [] s cs = Some (rbind (deliver_cells ndebug W ps s) (\<lambda>s'. Inr (s', [])))"
proof -
  have "feed (cellnet_onMsg ndebug B W) [] s cs = at_once (cellnet_onMsg ndebug B W) s (concat cs)"
    by (rule cell.feed_chunks) (simp add: cellnet_onMsg_def cellnet_run_def)
  then show ?thesis
    using cellnet_run_stream [OF assms(1,2), of 0] assms(3)
    by (cases "deliver_cells ndebug W ps s") (simp_all add: at_once_def cellnet_onMsg_def cellnet_run_def)
qed

end

text \<open>The web loop over \<open>left_len\<close> bytes is the loop over the buffer cut to them.\<close>

context ws_frames
begin

lemma web_loop_take:
  "left \<le> length ps \<Longrightarrow> web_loop ndebug B W ps left t s = web_run ndebug B W (take left ps) t s"
proof (rule web.loop_take)
  fix ps :: bytes and left t s assume left: "left \<le> length ps"
  then show "web_loop ndebug B W ps left t s = (case web_step ndebug B W (take left ps) s of
        None \<Rightarrow> Some (Inr (s, t))
      | Some (n, Inl f) \<Rightarrow> Some (Inl f)
      | Some (n, Inr s') \<Rightarrow> web_loop ndebug B W (drop n ps) (left - n) (t + n) s')"
    by (subst web_loop.simps) (auto simp: web_step_def split: option.splits prod.splits sum.splits)
qed

lemma web_onMsg_small:
  "shakehanded W s \<Longrightarrow> length data < 2 ^ size_bits B \<Longrightarrow> web_onMsg ndebug B W behind data s = web_run ndebug B W data 0 s"
  by (simp add: web_onMsg_def web_run_def)

lemma web_step_frame:
  assumes "ws_extract B fr = Some (pay, op, length fr, fin)" and "14 \<le> length fr"
  shows "web_step ndebug B W (fr @ tail) s = Some (length fr, web_frame ndebug B W pay op fin s)"
proof -
  have "web_step ndebug B W fr s = Some (length fr, web_frame ndebug B W pay op fin s)"
    using assms by (simp add: web_step_def WEB_PACKET_HEAD_LEN_def)
  then show ?thesis by (rule web.step_stable)
qed

lemma web_run_frame:
  assumes "ws_extract B fr = Some (pay, op, length fr, fin)" and "14 \<le> length fr"
  shows "web_run ndebug B W (fr @ tail) t s = (case web_frame ndebug B W pay op fin s of
      Inl f \<Rightarrow> Some (Inl f) | Inr s' \<Rightarrow> web_run ndebug B W tail (t + length fr) s')"
  using web_step_frame [OF assms, of ndebug W tail s]
  by (cases "web_frame ndebug B W pay op fin s") (simp_all add: web.run_fault web.run_more)

end

section \<open>The handshake\<close>

lemma c_strstr_found:
  assumes "0 \<notin> set pre" and "\<forall>i<length pre. take (length needle) (drop i (pre @ needle @ rest)) \<noteq> needle"
    and "needle \<noteq> []"
  shows "c_strstr needle (pre @ needle @ rest) = Inr (Some (needle @ rest))"
  using assms(1,2)
proof (induction pre)
  case Nil
  then show ?case using assms(3) by (cases needle) simp_all
next
  case (Cons b pre)
  have "take (length needle) (b # pre @ needle @ rest) \<noteq> needle" using Cons.prems(2) by auto
  moreover have "\<forall>i<length pre. take (length needle) (drop i (pre @ needle @ rest)) \<noteq> needle"
    using Cons.prems(2) by auto
  ultimately show ?case using Cons by simp
qed

lemma c_strstr_overread:
  "0 \<notin> set mem \<Longrightarrow> (\<forall>i<length mem. take (length needle) (drop i mem) \<noteq> needle) \<Longrightarrow>
   c_strstr needle mem = Inl OutOfBounds"
proof (induction mem)
  case (Cons b mem)
  have "take (length needle) (b # mem) \<noteq> needle" using Cons.prems(2) by auto
  moreover have "\<forall>i<length mem. take (length needle) (drop i mem) \<noteq> needle" using Cons.prems(2) by auto
  ultimately show ?case using Cons by simp
qed simp

lemma CRLF_found: "0 \<notin> set key \<Longrightarrow> 13 \<notin> set key \<Longrightarrow> c_strstr CRLF (key @ CRLF @ rest) = Inr (Some (CRLF @ rest))"
proof (rule c_strstr_found)
  assume "13 \<notin> set key"
  then show "\<forall>i<length key. take (length CRLF) (drop i (key @ CRLF @ rest)) \<noteq> CRLF"
    by (auto simp: CRLF_def Cons_nth_drop_Suc [symmetric] dest: nth_mem)
qed (simp_all add: CRLF_def)

lemma length_SEC_FLAG [simp]: "length SEC_FLAG = 19"
  by (simp add: SEC_FLAG_def string_bytes_def)

lemma web_shakehand_found:
  assumes "data @ behind = pre @ SEC_FLAG @ key @ CRLF @ rest"
    and "0 \<notin> set pre" and "\<forall>i<length pre. take 19 (drop i (data @ behind)) \<noteq> SEC_FLAG"
    and "0 \<notin> set key" and "13 \<notin> set key"
  shows "web_shakehand B W behind data s = Inr (send_packet W (ws_handshake B key) (set_shakehanded W s), length data)"
proof -
  have "SEC_FLAG \<noteq> []" by (metis length_SEC_FLAG list.size(3) zero_neq_numeral)
  then have "c_strstr SEC_FLAG (data @ behind) = Inr (Some (SEC_FLAG @ key @ CRLF @ rest))"
    unfolding assms(1) by (intro c_strstr_found) (use assms in auto)
  then show ?thesis using CRLF_found [OF assms(4,5), of rest]
    by (simp add: web_shakehand_def Let_def)
qed

section \<open>Fragmented messages\<close>

text \<open>
  The first fragment of a message is a text frame without the fin flag, which no branch takes; the
  later fragments are cached, the last one too, until the next complete message takes them.
\<close>

locale web_client = ws_lib B view + web_session W
  for B :: "('r, 'z) base_lib_scheme" and view :: "'r \<Rightarrow> bool \<times> nat \<times> bytes" and W :: "'s web_ops"
begin

lemma first_fragment_asserts:
  assumes "shakehanded W s" and "length (fr @ tail) < 2 ^ size_bits B"
    and "ws_extract B fr = Some (pay, TEXT_FRAME, length fr, False)" and "14 \<le> length fr"
  shows "web_onMsg False B W behind (fr @ tail) s = Some (Inl AssertFailed)"
  using assms web_run_frame [OF assms(3,4), of False W tail 0 s] by (simp add: web_onMsg_small web_frame_def)

lemma fragments_then_message:
  assumes "shakehanded W s" and "cache_frame W s = []"
    and "length (f1 @ f2 @ f3) < 2 ^ size_bits B"
    and "ws_extract B f1 = Some (p1, TEXT_FRAME, length f1, False)" and "14 \<le> length f1"
    and "ws_extract B f2 = Some (p2, CONTINUATION_FRAME, length f2, True)" and "14 \<le> length f2"
    and "ws_extract B f3 = Some (p3, TEXT_FRAME, length f3, True)" and "14 \<le> length f3"
    and "p2 \<noteq> []"
  shows "web_onMsg True B W behind (f1 @ f2 @ f3) s =
    Some (rbind (web_payload True B W (p2 @ p3) s) (\<lambda>s'. Inr (s', length (f1 @ f2 @ f3))))"
proof -
  let ?s = "set_cache W p2 s"
  have again: "set_cache W [] ?s = s" using cache_same [of s] assms(2) by (simp add: set_set)
  have last: "web_run True B W f3 t ?s = Some (rbind (web_payload True B W (p2 @ p3) s) (\<lambda>s'. Inr (s', t + length f3)))" for t
    using web_run_frame [OF assms(8,9), of True W "[]" t ?s] assms(10) again
    by (cases "web_payload True B W (p2 @ p3) s")
      (simp_all add: web_frame_def cache_set web.run_stuck web.step_empty)
  have "web_run True B W (f2 @ f3) t s = web_run True B W f3 (t + length f2) ?s" for t
    using web_run_frame [OF assms(6,7), of True W f3 t s] assms(2) by (simp add: web_frame_def)
  moreover have "web_run True B W (f1 @ f2 @ f3) 0 s = web_run True B W (f2 @ f3) (length f1) s"
    using web_run_frame [OF assms(4,5), of True W "f2 @ f3" 0 s] by (simp add: web_frame_def)
  ultimately show ?thesis
    using assms(1,3) last [of "length f1 + length f2"] by (simp add: web_onMsg_small add.assoc)
qed

end

end
