(* ===== verification/CodedStream.thy ===== *)
theory CodedStream
  imports Prelude
begin

text \<open>
  The part of the vendored protobuf runtime that the messages of the WebSocket connection server
  go through: \<open>io/coded_stream.{h,cc}\<close>, \<open>wire_format_lite.{h,cc}\<close>, \<open>wire_format_lite_inl.h\<close>.

  \<^item> \<open>istream\<close> is a \<open>CodedInputStream\<close> over a flat array, which is what \<open>ParseFromArray\<close> makes:
    \<open>input_\<close> is null, so \<open>Refresh\<close> always fails. \<open>buf\<close> is the bytes from \<open>buffer_\<close> to
    \<open>buffer_end_\<close>, \<open>beyond\<close> the \<open>buffer_size_after_limit_\<close> bytes after the current limit. The
    model is for arrays of at most \<open>kDefaultTotalBytesLimit\<close> (64 MB) bytes, where the total limit
    is never the nearer one.
  \<^item> A reader returns the value, a failure (\<open>false\<close>), or a fault: the unrolled decoders
    dereference their pointer without a check, and a read past the end is \<open>OutOfBounds\<close>. The
    lemmas show that the conditions the callers test exclude it.
  \<^item> The writers fill an array the caller sized with \<open>ByteSize\<close>; they return the bytes written.
\<close>

section \<open>Varints as numbers\<close>

text \<open>
  What the decoders compute: the number of at most \<open>n\<close> bytes, seven bits each, least significant
  first, with the bytes that follow. \<open>venc\<close> is the shortest encoding.
\<close>

fun vdec :: "nat \<Rightarrow> bytes \<Rightarrow> (nat \<times> bytes) option" where
  "vdec 0 bs = None"
| "vdec (Suc n) [] = None"
| "vdec (Suc n) (b # bs) = (if unat b < 128 then Some (unat b, bs)
     else map_option (\<lambda>(v, r). (unat b mod 128 + 128 * v, r)) (vdec n bs))"

fun venc :: "nat \<Rightarrow> bytes" where
  "venc v = (if v < 128 then [of_nat v] else of_nat (v mod 128 + 128) # venc (v div 128))"

declare venc.simps [simp del]

lemma venc_small: "v < 128 \<Longrightarrow> venc v = [of_nat v]"
  by (simp add: venc.simps)

lemma venc_big: "128 \<le> v \<Longrightarrow> venc v = of_nat (v mod 128 + 128) # venc (v div 128)"
  by (subst venc.simps) simp

lemma vdec_venc: "v < 128 ^ n \<Longrightarrow> 0 < n \<Longrightarrow> vdec n (venc v @ r) = Some (v, r)"
proof (induction n arbitrary: v)
  case (Suc n)
  show ?case
  proof (cases "v < 128")
    case False
    then have n: "0 < n" using Suc.prems by (cases n) auto
    have v: "v div 128 < 128 ^ n" "(v mod 128 + 128) mod 256 = v mod 128 + 128"
      using Suc.prems False by (auto simp: less_mult_imp_div_less mult.commute intro: mod_less)
    have "unat (of_nat (v mod 128 + 128) :: byte) = v mod 128 + 128"
      using v(2) by (simp only: unat_of_nat_byte)
    then show ?thesis using False Suc.IH [OF v(1) n]
      by (simp add: venc_big not_less del: of_nat_add)
  qed (simp add: venc_small)
qed simp

lemma vdec_shorter: "vdec n bs = Some (v, r) \<Longrightarrow> length r < length bs"
proof (induction n bs arbitrary: v rule: vdec.induct)
  case (3 n b bs)
  then show ?case by (fastforce split: if_splits simp: less_Suc_eq)
qed simp_all

lemma length_venc_pos [simp]: "0 < length (venc v)"
  by (subst venc.simps) simp

lemma venc_not_Nil [simp]: "venc v \<noteq> []"
  by (subst venc.simps) simp

text \<open>The test of the callers: ten bytes left, or the last byte ends a varint.\<close>

definition vsafe :: "nat \<Rightarrow> bytes \<Rightarrow> bool" where
  "vsafe n bs \<longleftrightarrow> n \<le> length bs \<or> bs \<noteq> [] \<and> last bs < 0x80"

lemma vsafe_Suc:
  assumes "vsafe (Suc n) bs"
  obtains b bs' where "bs = b # bs'" "unat b < 128 \<or> vsafe n bs'"
proof (cases bs)
  case Nil
  then show ?thesis using assms by (simp add: vsafe_def)
next
  case (Cons b bs')
  then show ?thesis using assms that [of b bs']
    by (auto simp: vsafe_def word_less_nat_alt split: if_splits)
qed

section \<open>Words\<close>

lemma or_push_bit_nat: "r < 2 ^ k \<Longrightarrow> (r :: nat) OR push_bit k x = r + 2 ^ k * x"
proof -
  assume r: "r < 2 ^ k"
  have "r OR push_bit k x = r + push_bit k x"
  proof (rule disjunctive_add [symmetric])
    fix n
    show "\<not> bit r n \<or> \<not> bit (push_bit k x) n"
    proof (cases "n < k")
      case False
      then have "r < 2 ^ n"
        using r by (metis le_less_trans not_less order_less_le_trans power_increasing one_le_numeral nat_le_linear order_less_imp_le)
      then show ?thesis by (simp add: bit_iff_odd)
    qed (simp add: bit_push_bit_iff)
  qed
  then show ?thesis by (simp add: push_bit_eq_mult mult.commute)
qed

lemma or_push_bit_word:
  assumes "r < 2 ^ k"
  shows "(of_nat r :: 'a::len word) OR push_bit k (of_nat x) = of_nat (r + 2 ^ k * x)"
proof -
  have "push_bit k (of_nat x :: 'a word) = of_nat (push_bit k x)"
    by (simp add: push_bit_of_nat)
  then show ?thesis
    using or_push_bit_nat [OF assms, of x] by (simp add: of_nat_or_eq [symmetric])
qed

lemma ucast_byte: "(ucast (b :: byte) :: 'a::len word) = of_nat (unat b)"
  by simp

lemma unat_byte_less: "unat (b :: byte) < 256"
  using unsigned_less [of b] by simp

lemma byte_high: "(b :: byte) AND 0x80 = 0 \<longleftrightarrow> unat b < 128"
proof -
  have "b AND 0x80 = 0 \<longleftrightarrow> \<not> bit b 7"
    using and_exp_eq_0_iff_not_bit [of b 7] by simp
  also have "\<dots> \<longleftrightarrow> \<not> bit (unat b) 7"
    by (simp add: bit_unsigned_iff)
  also have "\<dots> \<longleftrightarrow> \<not> odd (unat b div 128)"
    by (simp add: bit_iff_odd)
  also have "\<dots> \<longleftrightarrow> unat b < 128"
  proof -
    have "unat b div 128 < 2" using unat_byte_less [of b] by simp
    then have "odd (unat b div 128) \<longleftrightarrow> unat b div 128 = 1"
      by (cases "unat b div 128") auto
    then show ?thesis using unat_byte_less [of b] by auto
  qed
  finally show ?thesis .
qed

lemma byte_cont: "(ucast (b :: byte) :: 32 word) AND 0x80 = 0 \<longleftrightarrow> unat b < 128"
proof -
  have "(ucast b :: 32 word) AND 0x80 = 0 \<longleftrightarrow> \<not> bit (ucast b :: 32 word) 7"
    using and_exp_eq_0_iff_not_bit [of "ucast b :: 32 word" 7] by simp
  also have "\<dots> \<longleftrightarrow> b AND 0x80 = 0"
    using and_exp_eq_0_iff_not_bit [of b 7] by (simp add: bit_unsigned_iff)
  finally show ?thesis by (simp add: byte_high)
qed

lemma byte_low: "unat ((b :: byte) AND 0x7F) = unat b mod 128"
proof -
  have "b AND 0x7F = take_bit 7 b" by (simp add: take_bit_eq_mask mask_eq_exp_minus_1)
  then have "unat (b AND 0x7F) = take_bit 7 (unat b)" by (simp only: unsigned_take_bit_eq)
  then show ?thesis by (simp add: take_bit_eq_mod)
qed

section \<open>The decoders\<close>

datatype 'a out = Val 'a | Failed | Fault fault

text \<open>
  \<open>b = *(ptr++); part += b << sh; if (!(b & 0x80)) goto done; part -= 0x80 << sh;\<close>
  the line the unrolled decoders repeat.
\<close>

definition varint_line ::
  "32 word \<Rightarrow> nat \<Rightarrow> bytes \<Rightarrow> (32 word \<Rightarrow> bytes \<Rightarrow> 'a out) \<Rightarrow> (32 word \<Rightarrow> bytes \<Rightarrow> 'a out) \<Rightarrow> 'a out" where
  "varint_line part sh ptr finish next = (case ptr of
       [] \<Rightarrow> Fault OutOfBounds
     | c # ptr' \<Rightarrow> (let b = ucast c; part' = part + push_bit sh b in
         if b AND 0x80 = 0 then finish part' ptr' else next (part' - push_bit sh 0x80) ptr'))"

text \<open>The loop that discards the bytes of an over-long 32-bit varint.\<close>

fun varint32_discard :: "nat \<Rightarrow> 32 word \<Rightarrow> bytes \<Rightarrow> (32 word \<times> bytes) out" where
  "varint32_discard 0 result ptr = Failed"
| "varint32_discard (Suc n) result [] = Fault OutOfBounds"
| "varint32_discard (Suc n) result (c # ptr) =
     (if (ucast c :: 32 word) AND 0x80 = 0 then Val (result, ptr) else varint32_discard n result ptr)"

definition ReadVarint32FromArray :: "32 word \<Rightarrow> bytes \<Rightarrow> (32 word \<times> bytes) out" where
  "ReadVarint32FromArray first_byte buffer = (let done = (\<lambda>result ptr. Val (result, ptr)) in
     varint_line (first_byte - 0x80) 7 (tl buffer) done (\<lambda>result ptr.
     varint_line result 14 ptr done (\<lambda>result ptr.
     varint_line result 21 ptr done (\<lambda>result ptr.
     varint_line result 28 ptr done (\<lambda>result ptr.
     varint32_discard 5 result ptr)))))"

definition varint64_done :: "32 word \<Rightarrow> 32 word \<Rightarrow> 32 word \<Rightarrow> bytes \<Rightarrow> (64 word \<times> bytes) out" where
  "varint64_done part0 part1 part2 ptr =
     Val ((ucast part0 OR push_bit 28 (ucast part1)) OR push_bit 56 (ucast part2), ptr)"

definition varint64_part2 :: "32 word \<Rightarrow> 32 word \<Rightarrow> bytes \<Rightarrow> (64 word \<times> bytes) out" where
  "varint64_part2 part0 part1 ptr = (let done = varint64_done part0 part1 in
     varint_line 0 0 ptr done (\<lambda>part2 ptr.
     varint_line part2 7 ptr done (\<lambda>part2 ptr. Failed)))"

definition varint64_part1 :: "32 word \<Rightarrow> bytes \<Rightarrow> (64 word \<times> bytes) out" where
  "varint64_part1 part0 ptr = (let done = (\<lambda>part1. varint64_done part0 part1 0) in
     varint_line 0 0 ptr done (\<lambda>part1 ptr.
     varint_line part1 7 ptr done (\<lambda>part1 ptr.
     varint_line part1 14 ptr done (\<lambda>part1 ptr.
     varint_line part1 21 ptr done (\<lambda>part1 ptr. varint64_part2 part0 part1 ptr)))))"

definition ReadVarint64FromArray :: "bytes \<Rightarrow> (64 word \<times> bytes) out" where
  "ReadVarint64FromArray buffer = (let done = (\<lambda>part0. varint64_done part0 0 0) in
     varint_line 0 0 buffer done (\<lambda>part0 ptr.
     varint_line part0 7 ptr done (\<lambda>part0 ptr.
     varint_line part0 14 ptr done (\<lambda>part0 ptr.
     varint_line part0 21 ptr done (\<lambda>part0 ptr. varint64_part1 part0 ptr)))))"

text \<open>
  \<open>ReadVarint64Slow\<close> on a flat array: every byte is tested for, and what was read stays read when
  the array ends. Second component: the bytes left.
\<close>

fun varint64_slow :: "nat \<Rightarrow> 64 word \<Rightarrow> bytes \<Rightarrow> 64 word out \<times> bytes" where
  "varint64_slow count result [] = (Failed, [])"
| "varint64_slow count result (c # bs) = (if count = 10 then (Failed, c # bs) else
     let result = result OR push_bit (7 * count) (ucast (c AND 0x7F)) in
     if c AND 0x80 = 0 then (Val result, bs) else varint64_slow (Suc count) result bs)"

section \<open>What the decoders compute\<close>

lemma varint_line_nat:
  "varint_line (of_nat p) sh (b # bs) finish next =
     (if unat b < 128 then finish (of_nat (p + 2 ^ sh * unat b)) bs
      else next (of_nat (p + 2 ^ sh * (unat b mod 128))) bs)"
proof -
  have add: "of_nat p + push_bit sh (ucast b) = (of_nat (p + 2 ^ sh * unat b) :: 32 word)"
    by (simp add: push_bit_eq_mult)
  have cont: "(of_nat (p + 2 ^ sh * unat b) :: 32 word) - push_bit sh 0x80 = of_nat (p + 2 ^ sh * (unat b mod 128))"
    if "\<not> unat b < 128"
  proof -
    have "unat b = unat b mod 128 + 128"
      using that unat_byte_less [of b] by (simp add: le_mod_geq)
    then have "(of_nat (unat b) :: 32 word) = of_nat (unat b mod 128) + 128"
      by (metis of_nat_add of_nat_numeral)
    then show ?thesis by (simp add: push_bit_eq_mult algebra_simps)
  qed
  show ?thesis
    unfolding varint_line_def Let_def list.case byte_cont add
    by (cases "unat b < 128") (simp_all only: cont if_True if_False not_False_eq_True)
qed

lemma varint_line_nat0:
  "varint_line 0 sh (b # bs) finish next =
     (if unat b < 128 then finish (of_nat (2 ^ sh * unat b)) bs
      else next (of_nat (2 ^ sh * (unat b mod 128))) bs)"
  using varint_line_nat [of 0 sh b bs finish "next"]
  by (simp del: of_nat_unat of_nat_mult)

lemma ucast_of_nat_small: "n < 2 ^ 28 \<Longrightarrow> (ucast (of_nat n :: 32 word) :: 64 word) = of_nat n"
  by (simp add: unsigned_of_nat take_bit_nat_eq_self)

lemma varint64_done_nat:
  assumes "p0 < 2 ^ 28" "p1 < 2 ^ 28" "p2 < 2 ^ 28"
  shows "varint64_done (of_nat p0) (of_nat p1) (of_nat p2) r = Val (of_nat (p0 + 2 ^ 28 * p1 + 2 ^ 56 * p2), r)"
proof -
  have "p0 + 2 ^ 28 * p1 < 2 ^ 56" using assms by simp
  then show ?thesis
    using assms or_push_bit_word [of p0 28 p1, where ?'a = 64]
      or_push_bit_word [of "p0 + 2 ^ 28 * p1" 56 p2, where ?'a = 64]
    by (simp add: varint64_done_def ucast_of_nat_small del: of_nat_add of_nat_mult of_nat_unat)
qed

lemma vdec_numeral [simp]:
  "vdec (numeral n) [] = None"
  "vdec (numeral n) (b # bs) = (if unat b < 128 then Some (unat b, bs)
     else map_option (\<lambda>(v, r). (unat b mod 128 + 128 * v, r)) (vdec (pred_numeral n) bs))"
  by (simp_all add: numeral_eq_Suc)

lemma varint64_done_nat0:
  "p0 < 2 ^ 28 \<Longrightarrow> varint64_done (of_nat p0) 0 0 r = Val (of_nat p0, r)"
  "p0 < 2 ^ 28 \<Longrightarrow> p1 < 2 ^ 28 \<Longrightarrow>
     varint64_done (of_nat p0) (of_nat p1) 0 r = Val (of_nat (p0 + 2 ^ 28 * p1), r)"
  using varint64_done_nat [of p0 0 0 r] varint64_done_nat [of p0 p1 0 r] by simp_all

definition varint_val :: "nat \<Rightarrow> nat \<Rightarrow> (nat \<times> bytes) option \<Rightarrow> ('a::len word \<times> bytes) out" where
  "varint_val p k x = (case x of None \<Rightarrow> Failed | Some (v, r) \<Rightarrow> Val (of_nat (p + k * v), r))"

lemma varint_val_simps:
  "varint_val p k None = Failed" "varint_val p k (Some (v, r)) = Val (of_nat (p + k * v), r)"
  "varint_val p k (map_option (\<lambda>(v, r). (a + b * v, r)) x) = varint_val (p + k * a) (k * b) x"
  by (auto simp: varint_val_def algebra_simps split: option.splits prod.splits)

text \<open>One line read as one step of \<open>vdec\<close>; \<open>k\<close> is the weight of the byte in the value.\<close>

lemma varint_line_val:
  assumes safe: "vsafe (Suc n) ptr"
    and finish: "\<And>x r. x < 128 \<Longrightarrow> finish (of_nat (p + 2 ^ sh * x)) r = Val (of_nat (q + k * x), r)"
    and step: "\<And>x r. x < 128 \<Longrightarrow> vsafe n r \<Longrightarrow>
      next (of_nat (p + 2 ^ sh * x)) r = varint_val (q + k * x) (k * 128) (vdec n r)"
  shows "varint_line (of_nat p) sh ptr finish next = varint_val q k (vdec (Suc n) ptr)"
proof -
  obtain b bs where b: "ptr = b # bs" "unat b < 128 \<or> vsafe n bs" using safe by (rule vsafe_Suc)
  show ?thesis
  proof (cases "unat b < 128")
    case True
    then show ?thesis using b finish [of "unat b" bs] by (simp add: varint_line_nat varint_val_simps del: of_nat_unat of_nat_add of_nat_mult)
  next
    case False
    then show ?thesis using b step [of "unat b mod 128" bs]
      by (simp add: varint_line_nat varint_val_simps del: of_nat_unat of_nat_add of_nat_mult)
  qed
qed

lemma varint_line_val0:
  assumes "vsafe (Suc n) ptr"
    and "\<And>x r. x < 128 \<Longrightarrow> finish (of_nat x) r = Val (of_nat (q + k * x), r)"
    and "\<And>x r. x < 128 \<Longrightarrow> vsafe n r \<Longrightarrow> next (of_nat x) r = varint_val (q + k * x) (k * 128) (vdec n r)"
  shows "varint_line 0 0 ptr finish next = varint_val q k (vdec (Suc n) ptr)"
  using varint_line_val [of n ptr finish 0 0 q k "next"] assms by simp

lemmas varint_sums = distrib_left mult.assoc [symmetric] add.assoc [symmetric]

lemma varint64_part2_nat:
  assumes "vsafe (Suc (Suc 0)) ptr" "p0 < 2 ^ 28" "p1 < 2 ^ 28"
  shows "varint64_part2 (of_nat p0) (of_nat p1) ptr =
    varint_val (p0 + 2 ^ 28 * p1) (2 ^ 56) (vdec (Suc (Suc 0)) ptr)"
  using assms(1) unfolding varint64_part2_def Let_def
  by (intro varint_line_val0 varint_line_val)
    (use assms(2,3) in \<open>simp_all add: varint64_done_nat varint_val_simps varint_sums
       del: of_nat_add of_nat_mult of_nat_unat\<close>)

lemma varint64_part1_nat:
  assumes "vsafe (Suc (Suc (Suc (Suc (Suc (Suc 0)))))) ptr" "p0 < 2 ^ 28"
  shows "varint64_part1 (of_nat p0) ptr =
    varint_val p0 (2 ^ 28) (vdec (Suc (Suc (Suc (Suc (Suc (Suc 0)))))) ptr)"
  using assms(1) unfolding varint64_part1_def Let_def
  by (intro varint_line_val0 varint_line_val)
    (use assms(2) in \<open>simp_all add: varint64_done_nat0 varint64_part2_nat varint_sums
       del: of_nat_add of_nat_mult of_nat_unat vdec.simps\<close>)

lemma ReadVarint64FromArray_val:
  assumes "vsafe 10 ptr"
  shows "ReadVarint64FromArray ptr = varint_val 0 1 (vdec 10 ptr)"
  using assms unfolding ReadVarint64FromArray_def Let_def numeral_eq_Suc pred_numeral_simps BitM.simps
  by (intro varint_line_val0 varint_line_val)
    (simp_all add: varint64_done_nat0 varint64_part1_nat varint_sums
       del: of_nat_add of_nat_mult of_nat_unat vdec.simps)

lemma varint32_discard_val:
  "vsafe n ptr \<Longrightarrow> 2 ^ 32 dvd k \<Longrightarrow> varint32_discard n (of_nat p) ptr = varint_val p k (vdec n ptr)"
proof (induction n arbitrary: ptr k)
  case (Suc n)
  obtain b bs where b: "ptr = b # bs" "unat b < 128 \<or> vsafe n bs" using Suc.prems(1) by (rule vsafe_Suc)
  have "(of_nat (k * x) :: 32 word) = 0" for x
    using Suc.prems(2) by (simp add: word_of_nat_eq_0_iff del: of_nat_mult)
  then have "(of_nat (p + k * x) :: 32 word) = of_nat p" for x
    by (simp del: of_nat_mult)
  then show ?case
    using b Suc.IH [of bs "k * 128"] Suc.prems(2)
    by (cases "unat b < 128"; cases "vdec n bs")
      (auto simp: byte_cont varint_val_simps varint_val_def distrib_left mult.assoc simp del: of_nat_add of_nat_mult)
qed (simp add: varint_val_simps)

lemma ReadVarint32FromArray_val:
  assumes "vsafe 10 (b # bs)" "\<not> unat b < 128"
  shows "ReadVarint32FromArray (ucast b) (b # bs) = varint_val 0 1 (vdec 10 (b # bs))"
proof -
  have "unat b = unat b mod 128 + 128"
    using assms(2) unat_byte_less [of b] by (simp add: le_mod_geq)
  then have first: "(ucast b :: 32 word) - 0x80 = of_nat (unat b mod 128)"
    by (metis of_nat_unat of_nat_add of_nat_numeral add_diff_cancel_right')
  have nine: "9 = Suc (Suc (Suc (Suc 5)))" by simp
  have "vsafe 9 bs"
    using assms vsafe_Suc [of 9 "b # bs"] by auto
  then have "ReadVarint32FromArray (ucast b) (b # bs) = varint_val (unat b mod 128) 128 (vdec 9 bs)"
    unfolding ReadVarint32FromArray_def Let_def first list.sel nine
    by (intro varint_line_val0 varint_line_val)
      (simp_all add: varint32_discard_val varint_sums del: of_nat_add of_nat_mult of_nat_unat vdec.simps)
  then show ?thesis using assms(2) by (simp add: varint_val_simps)
qed

lemma varint64_slow_val:
  assumes "r < 128 ^ count" "count \<le> 10"
  shows "vdec (10 - count) bs = Some (v, bs') \<Longrightarrow>
      varint64_slow count (of_nat r) bs = (Val (of_nat (r + 128 ^ count * v)), bs')"
    and "vdec (10 - count) bs = None \<Longrightarrow>
      \<exists>bs''. length bs'' \<le> length bs \<and> varint64_slow count (of_nat r) bs = (Failed, bs'')"
  using assms
proof (induction bs arbitrary: count r v)
  case Nil
  case 1 then show ?case by (cases "10 - count") auto
next
  case Nil
  case 2 then show ?case by simp
next
  case (Cons b bs)
  have or: "(of_nat r OR push_bit (7 * count) (ucast (b AND 0x7F)) :: 64 word) = of_nat (r + 128 ^ count * (unat b mod 128))"
    if "r < 128 ^ count" for r count :: nat
    using or_push_bit_word [of r "7 * count" "unat b mod 128", where ?'a = 64] that
    by (simp add: power_mult ucast_byte byte_low del: of_nat_unat of_nat_add of_nat_mult)
  have next_less: "r + 128 ^ count * (unat b mod 128) < 128 ^ Suc count" if "r < 128 ^ count" for r count :: nat
  proof -
    have "Suc (unat b mod 128) \<le> 128" by (simp add: Suc_le_eq)
    then have "128 ^ count * Suc (unat b mod 128) \<le> (128 :: nat) ^ count * 128" by (rule mult_le_mono2)
    then have "128 ^ count + 128 ^ count * (unat b mod 128) \<le> 128 ^ Suc count"
      by (simp only: mult_Suc_right power_Suc2)
    then show ?thesis using that by linarith
  qed
  { case 1
    then obtain n where n: "10 - count = Suc n" "count \<noteq> 10" "10 - Suc count = n" by (cases "10 - count") auto
    show ?case
    proof (cases "unat b < 128")
      case True
      then show ?thesis using 1 n or [OF 1(2)] by (simp add: byte_high del: of_nat_add of_nat_mult)
    next
      case False
      then obtain w where w: "vdec n bs = Some (w, bs')" "v = unat b mod 128 + 128 * w"
        using 1 n by (auto split: if_splits)
      have "Suc count \<le> 10" using n by simp
      then show ?thesis using Cons.IH(1) [of "Suc count" w "r + 128 ^ count * (unat b mod 128)"] next_less [OF 1(2)] 1 n w False or [OF 1(2)]
        by (simp add: byte_high distrib_left mult.assoc [symmetric] mult.commute add.assoc [symmetric] del: of_nat_add of_nat_mult)
    qed
  next
    case 2
    show ?case
    proof (cases "count = 10")
      case False
      then obtain n where n: "10 - count = Suc n" "10 - Suc count = n" using 2 by (cases "10 - count") auto
      then have "\<not> unat b < 128" "vdec n bs = None" using 2 by (auto split: if_splits)
      moreover have "Suc count \<le> 10" using n by simp
      ultimately show ?thesis
        using Cons.IH(2) [of "Suc count" "r + 128 ^ count * (unat b mod 128)"] next_less [OF 2(2)] 2 n False or [OF 2(2)]
        by (auto simp: byte_high simp del: of_nat_add of_nat_mult intro: le_SucI)
    qed simp }
qed

section \<open>The input stream\<close>

record istream =
  buf :: bytes            \<comment> \<open>\<open>buffer_\<close> .. \<open>buffer_end_\<close>\<close>
  beyond :: bytes         \<comment> \<open>the \<open>buffer_size_after_limit_\<close> bytes after the limit\<close>
  last_tag :: "32 word"
  legit_end :: bool       \<comment> \<open>\<open>legitimate_message_end_\<close>\<close>
  budget :: int           \<comment> \<open>\<open>recursion_budget_\<close>\<close>

type_synonym 'a reader = "istream \<Rightarrow> 'a out \<times> istream"

definition CodedInputStream :: "bytes \<Rightarrow> istream" where
  "CodedInputStream b = \<lparr>buf = b, beyond = [], last_tag = 0, legit_end = False, budget = 100\<rparr>"

definition rd_bind :: "'a reader \<Rightarrow> ('a \<Rightarrow> 'b reader) \<Rightarrow> 'b reader" where
  "rd_bind m f s = (case m s of
       (Val x, s') \<Rightarrow> f x s'
     | (Failed, s') \<Rightarrow> (Failed, s')
     | (Fault e, s') \<Rightarrow> (Fault e, s'))"

text \<open>A decoder over the array; \<open>buffer_\<close> moves only when it succeeds.\<close>

definition from_array :: "(bytes \<Rightarrow> ('a \<times> bytes) out) \<Rightarrow> 'a reader" where
  "from_array d s = (case d (buf s) of
       Val (v, r) \<Rightarrow> (Val v, s\<lparr>buf := r\<rparr>)
     | Failed \<Rightarrow> (Failed, s)
     | Fault e \<Rightarrow> (Fault e, s))"

text \<open>\<open>BufferSize() >= kMaxVarintBytes || (buffer_end_ > buffer_ && !(buffer_end_[-1] & 0x80))\<close>\<close>

definition fast_varint :: "istream \<Rightarrow> bool" where
  "fast_varint s \<longleftrightarrow> 10 \<le> length (buf s) \<or> buf s \<noteq> [] \<and> last (buf s) AND 0x80 = 0"

definition ReadVarint64Slow :: "64 word reader" where
  "ReadVarint64Slow s = (let (v, r) = varint64_slow 0 0 (buf s) in (v, s\<lparr>buf := r\<rparr>))"

definition ReadVarint64Fallback :: "64 word reader" where
  "ReadVarint64Fallback s =
     (if fast_varint s then from_array ReadVarint64FromArray s else ReadVarint64Slow s)"

definition ReadVarint64 :: "64 word reader" where
  "ReadVarint64 s = (if buf s \<noteq> [] \<and> hd (buf s) < 0x80
     then (Val (ucast (hd (buf s))), s\<lparr>buf := tl (buf s)\<rparr>) else ReadVarint64Fallback s)"

definition ReadVarint32Slow :: "32 word reader" where
  "ReadVarint32Slow = rd_bind ReadVarint64Fallback (\<lambda>v s. (Val (ucast v), s))"

definition ReadVarint32Fallback :: "32 word \<Rightarrow> 32 word reader" where
  "ReadVarint32Fallback first_byte_or_zero s =
     (if fast_varint s then from_array (ReadVarint32FromArray first_byte_or_zero) s
      else ReadVarint32Slow s)"

definition ReadVarint32 :: "32 word reader" where
  "ReadVarint32 s = (case buf s of
       [] \<Rightarrow> ReadVarint32Fallback 0 s
     | v # bs \<Rightarrow> if v < 0x80 then (Val (ucast v), s\<lparr>buf := bs\<rparr>)
                 else ReadVarint32Fallback (ucast v) s)"

text \<open>A size is an \<open>int\<close>: values over \<open>INT_MAX\<close> fail, in \<open>FromArray\<close> without moving.\<close>

definition ReadVarintSizeAsIntSlow :: "nat reader" where
  "ReadVarintSizeAsIntSlow = rd_bind ReadVarint64Fallback
     (\<lambda>v s. if unat v > 2 ^ 31 - 1 then (Failed, s) else (Val (unat v), s))"

definition ReadVarintSizeAsIntFallback :: "nat reader" where
  "ReadVarintSizeAsIntFallback s = (if fast_varint s
     then from_array (\<lambda>b. case ReadVarint64FromArray b of
              Val (v, r) \<Rightarrow> if unat v > 2 ^ 31 - 1 then Failed else Val (unat v, r)
            | Failed \<Rightarrow> Failed
            | Fault e \<Rightarrow> Fault e) s
     else ReadVarintSizeAsIntSlow s)"

definition ReadVarintSizeAsInt :: "nat reader" where
  "ReadVarintSizeAsInt s = (case buf s of
       [] \<Rightarrow> ReadVarintSizeAsIntFallback s
     | v # bs \<Rightarrow> if v < 0x80 then (Val (unat v), s\<lparr>buf := bs\<rparr>) else ReadVarintSizeAsIntFallback s)"

lemma fast_vsafe: "fast_varint s \<longleftrightarrow> vsafe 10 (buf s)"
  by (auto simp: fast_varint_def vsafe_def byte_high word_less_nat_alt)

lemma ReadVarint64Slow_val:
  "vdec 10 (buf s) = Some (v, r) \<Longrightarrow> ReadVarint64Slow s = (Val (of_nat v), s\<lparr>buf := r\<rparr>)"
  "vdec 10 (buf s) = None \<Longrightarrow>
     \<exists>r. length r \<le> length (buf s) \<and> ReadVarint64Slow s = (Failed, s\<lparr>buf := r\<rparr>)"
  using varint64_slow_val [of 0 0 "buf s"] by (auto simp: ReadVarint64Slow_def)

lemma ReadVarint64Fallback_val:
  "vdec 10 (buf s) = Some (v, r) \<Longrightarrow> ReadVarint64Fallback s = (Val (of_nat v), s\<lparr>buf := r\<rparr>)"
  "vdec 10 (buf s) = None \<Longrightarrow>
     \<exists>r. length r \<le> length (buf s) \<and> ReadVarint64Fallback s = (Failed, s\<lparr>buf := r\<rparr>)"
  using ReadVarint64Slow_val [of s]
  by (auto simp: ReadVarint64Fallback_def fast_vsafe from_array_def ReadVarint64FromArray_val
      varint_val_simps intro: exI [of _ "buf s"])

lemma vdec_10_Cons: "unat b < 128 \<Longrightarrow> vdec 10 (b # bs) = Some (unat b, bs)"
  by simp

lemma ReadVarint64_val:
  "vdec 10 (buf s) = Some (v, r) \<Longrightarrow> ReadVarint64 s = (Val (of_nat v), s\<lparr>buf := r\<rparr>)"
  "vdec 10 (buf s) = None \<Longrightarrow>
     \<exists>r. length r \<le> length (buf s) \<and> ReadVarint64 s = (Failed, s\<lparr>buf := r\<rparr>)"
  using ReadVarint64Fallback_val [of s]
  by (cases "buf s"; auto simp: ReadVarint64_def word_less_nat_alt)+

lemma ucast_of_nat_32: "(ucast (of_nat v :: 64 word) :: 32 word) = of_nat v"
  by (simp add: unsigned_of_nat word_of_nat_eq_iff)

lemma ReadVarint32_val:
  "vdec 10 (buf s) = Some (v, r) \<Longrightarrow> ReadVarint32 s = (Val (of_nat v), s\<lparr>buf := r\<rparr>)"
  "vdec 10 (buf s) = None \<Longrightarrow>
     \<exists>r. length r \<le> length (buf s) \<and> ReadVarint32 s = (Failed, s\<lparr>buf := r\<rparr>)"
proof -
  have slow: "vdec 10 (buf s) = Some (v, r) \<Longrightarrow> ReadVarint32Slow s = (Val (of_nat v), s\<lparr>buf := r\<rparr>)"
    "vdec 10 (buf s) = None \<Longrightarrow> \<exists>r. length r \<le> length (buf s) \<and> ReadVarint32Slow s = (Failed, s\<lparr>buf := r\<rparr>)"
    using ReadVarint64Fallback_val [of s] by (auto simp: ReadVarint32Slow_def rd_bind_def ucast_of_nat_32)
  { fix b bs assume b: "buf s = b # bs" "\<not> unat b < 128"
    have "vdec 10 (buf s) = Some (v, r) \<Longrightarrow> ReadVarint32Fallback (ucast b) s = (Val (of_nat v), s\<lparr>buf := r\<rparr>)"
      "vdec 10 (buf s) = None \<Longrightarrow>
        \<exists>r. length r \<le> length (buf s) \<and> ReadVarint32Fallback (ucast b) s = (Failed, s\<lparr>buf := r\<rparr>)"
      using slow b ReadVarint32FromArray_val [of b bs]
      by (auto simp: ReadVarint32Fallback_def fast_vsafe from_array_def varint_val_simps
          intro: exI [of _ "buf s"] simp del: vdec_numeral) }
  note full = this
  have empty: "buf s = [] \<Longrightarrow> ReadVarint32Fallback 0 s = ReadVarint32Slow s"
    by (simp add: ReadVarint32Fallback_def fast_varint_def)
  show "vdec 10 (buf s) = Some (v, r) \<Longrightarrow> ReadVarint32 s = (Val (of_nat v), s\<lparr>buf := r\<rparr>)"
    using full(1) slow(1) empty by (cases "buf s") (auto simp: ReadVarint32_def word_less_nat_alt)
  show "vdec 10 (buf s) = None \<Longrightarrow> \<exists>r. length r \<le> length (buf s) \<and> ReadVarint32 s = (Failed, s\<lparr>buf := r\<rparr>)"
    using full(2) slow(2) empty by (cases "buf s") (auto simp: ReadVarint32_def word_less_nat_alt)
qed

text \<open>What every field reader does to the stream: it moves \<open>buffer_\<close> forward and nothing else.\<close>

definition advances :: "'a reader \<Rightarrow> bool" where
  "advances m \<longleftrightarrow> (\<forall>s v s'. m s = (v, s') \<longrightarrow>
     (\<exists>b. s' = s\<lparr>buf := b\<rparr> \<and> length b \<le> length (buf s) \<and>
       (\<forall>x. v = Val x \<longrightarrow> length b < length (buf s)) \<and> (\<forall>e. v \<noteq> Fault e)))"

lemma advancesI:
  assumes "\<And>s v r. vdec 10 (buf s) = Some (v, r) \<Longrightarrow> m s = (f v, s\<lparr>buf := r\<rparr>)"
    and "\<And>v e. f v \<noteq> Fault e"
    and "\<And>s. vdec 10 (buf s) = None \<Longrightarrow>
      \<exists>r. length r \<le> length (buf s) \<and> m s = (Failed, s\<lparr>buf := r\<rparr>)"
  shows "advances m"
  unfolding advances_def
proof (intro allI impI)
  fix s v s' assume m: "m s = (v, s')"
  show "\<exists>b. s' = s\<lparr>buf := b\<rparr> \<and> length b \<le> length (buf s) \<and>
       (\<forall>x. v = Val x \<longrightarrow> length b < length (buf s)) \<and> (\<forall>e. v \<noteq> Fault e)"
  proof (cases "vdec 10 (buf s)")
    case None
    then show ?thesis using assms(3) [of s] m by auto
  next
    case (Some p)
    then show ?thesis using assms(1) [of s "fst p" "snd p"] assms(2) m vdec_shorter [of 10 "buf s" "fst p" "snd p"]
      by (cases p) (auto intro!: exI [of _ "snd p"])
  qed
qed

lemma advances_varints: "advances ReadVarint64" "advances ReadVarint32"
  using ReadVarint64_val ReadVarint32_val
  by (auto intro!: advancesI [where f = "\<lambda>v. Val (of_nat v)"])

section \<open>Tags\<close>

datatype wire_type = WIRETYPE_VARINT | WIRETYPE_FIXED64 | WIRETYPE_LENGTH_DELIMITED
  | WIRETYPE_START_GROUP | WIRETYPE_END_GROUP | WIRETYPE_FIXED32
  | WIRETYPE_unknown   \<comment> \<open>6 and 7, no enumerator\<close>

definition wire_number :: "wire_type \<Rightarrow> 32 word" where
  "wire_number w = (case w of WIRETYPE_VARINT \<Rightarrow> 0 | WIRETYPE_FIXED64 \<Rightarrow> 1
     | WIRETYPE_LENGTH_DELIMITED \<Rightarrow> 2 | WIRETYPE_START_GROUP \<Rightarrow> 3 | WIRETYPE_END_GROUP \<Rightarrow> 4
     | WIRETYPE_FIXED32 \<Rightarrow> 5 | WIRETYPE_unknown \<Rightarrow> 6)"

definition MakeTag :: "nat \<Rightarrow> wire_type \<Rightarrow> 32 word" where
  "MakeTag field_number w = push_bit 3 (of_nat field_number) OR wire_number w"

definition GetTagWireType :: "32 word \<Rightarrow> wire_type" where
  "GetTagWireType tag = (let t = tag AND 7 in
     if t = 0 then WIRETYPE_VARINT else if t = 1 then WIRETYPE_FIXED64
     else if t = 2 then WIRETYPE_LENGTH_DELIMITED else if t = 3 then WIRETYPE_START_GROUP
     else if t = 4 then WIRETYPE_END_GROUP else if t = 5 then WIRETYPE_FIXED32
     else WIRETYPE_unknown)"

definition GetTagFieldNumber :: "32 word \<Rightarrow> nat" where
  "GetTagFieldNumber tag = unat (drop_bit 3 tag)"

text \<open>At the end of the array or of the limit \<open>Refresh\<close> fails and the end is a legitimate one.\<close>

definition ReadTagSlow :: "32 word reader" where
  "ReadTagSlow s = (if buf s = [] then (Val 0, s\<lparr>legit_end := True\<rparr>)
     else (case ReadVarint64 s of
         (Val v, s') \<Rightarrow> (Val (ucast v), s')
       | (Failed, s') \<Rightarrow> (Val 0, s')
       | (Fault e, s') \<Rightarrow> (Fault e, s')))"

definition ReadTagFallback :: "32 word \<Rightarrow> 32 word reader" where
  "ReadTagFallback first_byte_or_zero s =
     (if fast_varint s
      then if first_byte_or_zero = 0 then (Val 0, s\<lparr>buf := tl (buf s)\<rparr>)
           else (case ReadVarint32FromArray first_byte_or_zero (buf s) of
               Val (tag, r) \<Rightarrow> (Val tag, s\<lparr>buf := r\<rparr>)
             | Failed \<Rightarrow> (Val 0, s)
             | Fault e \<Rightarrow> (Fault e, s))
      else if buf s = [] then (Val 0, s\<lparr>legit_end := True\<rparr>)
      else ReadTagSlow s)"

definition set_last_tag :: "32 word out \<times> istream \<Rightarrow> 32 word out \<times> istream" where
  "set_last_tag r = (case r of
       (Val tag, s) \<Rightarrow> (Val tag, s\<lparr>last_tag := tag\<rparr>)
     | (Failed, s) \<Rightarrow> (Failed, s)
     | (Fault e, s) \<Rightarrow> (Fault e, s))"

definition ReadTag :: "32 word reader" where
  "ReadTag s = (case buf s of
       [] \<Rightarrow> set_last_tag (ReadTagFallback 0 s)
     | v # bs \<Rightarrow> if v < 0x80 then (Val (ucast v), s\<lparr>last_tag := ucast v, buf := bs\<rparr>)
                 else set_last_tag (ReadTagFallback (ucast v) s))"

definition cutoff_slow :: "32 word \<Rightarrow> 32 word \<Rightarrow> (32 word \<times> bool) reader" where
  "cutoff_slow cutoff first_byte_or_zero =
     rd_bind (\<lambda>s. set_last_tag (ReadTagFallback first_byte_or_zero s))
       (\<lambda>tag s. (Val (tag, tag - 1 < cutoff), s))"

definition ReadTagWithCutoff :: "32 word \<Rightarrow> (32 word \<times> bool) reader" where
  "ReadTagWithCutoff cutoff s = (case buf s of
       [] \<Rightarrow> cutoff_slow cutoff 0 s
     | b # bs \<Rightarrow>
        if 0 < b \<and> b < 0x80
        then (Val (ucast b, cutoff \<ge> 0x7f \<or> ucast b \<le> cutoff), s\<lparr>last_tag := ucast b, buf := bs\<rparr>)
        else if cutoff \<ge> 0x80 \<and> bs \<noteq> [] \<and> b AND NOT (hd bs) \<ge> 0x80
        then (let tag = 128 * ucast (hd bs) + (ucast b - 0x80) in
          (Val (tag, cutoff \<ge> 0x3fff \<or> tag \<le> cutoff), s\<lparr>last_tag := tag, buf := tl bs\<rparr>))
        else cutoff_slow cutoff (ucast b) s)"

definition ExpectTag :: "32 word \<Rightarrow> istream \<Rightarrow> bool \<times> istream" where
  "ExpectTag expected s =
     (if expected < 0x80
      then if buf s \<noteq> [] \<and> ucast (hd (buf s)) = expected then (True, s\<lparr>buf := tl (buf s)\<rparr>) else (False, s)
      else if expected < 0x4000
      then if 2 \<le> length (buf s) \<and> buf s ! 0 = ucast (expected OR 0x80) \<and> buf s ! 1 = ucast (drop_bit 7 expected)
           then (True, s\<lparr>buf := drop 2 (buf s)\<rparr>) else (False, s)
      else (False, s))"

definition ExpectAtEnd :: "istream \<Rightarrow> bool \<times> istream" where
  "ExpectAtEnd s = (if buf s = [] then (True, s\<lparr>last_tag := 0, legit_end := True\<rparr>) else (False, s))"

section \<open>Raw bytes and limits\<close>

text \<open>A count is an \<open>int\<close>; a length read as \<open>uint32\<close> is converted to it.\<close>

definition Skip :: "int \<Rightarrow> unit reader" where
  "Skip count s = (if count < 0 then (Failed, s)
     else if nat count \<le> length (buf s) then (Val (), s\<lparr>buf := drop (nat count) (buf s)\<rparr>)
     else (Failed, s\<lparr>buf := []\<rparr>))"

definition ReadRaw :: "nat \<Rightarrow> bytes reader" where
  "ReadRaw n s = (if length (buf s) < n then (Failed, s\<lparr>buf := []\<rparr>)
     else (Val (take n (buf s)), s\<lparr>buf := drop n (buf s)\<rparr>))"

definition ReadStringInline :: "int \<Rightarrow> bytes reader" where
  "ReadStringInline n s = (if n < 0 then (Failed, s) else ReadRaw (nat n) s)"

definition ReadLittleEndian32 :: "32 word reader" where
  "ReadLittleEndian32 = rd_bind (ReadRaw 4) (\<lambda>b s. (Val (of_nat (le_nat b)), s))"

definition ReadLittleEndian64 :: "64 word reader" where
  "ReadLittleEndian64 = rd_bind (ReadRaw 8) (\<lambda>b s. (Val (of_nat (le_nat b)), s))"

text \<open>The old limit is what \<open>PushLimit\<close> returns: here, how many bytes lay beyond it.\<close>

definition PushLimit :: "nat \<Rightarrow> istream \<Rightarrow> nat \<times> istream" where
  "PushLimit byte_limit s = (length (beyond s),
     s\<lparr>buf := take byte_limit (buf s), beyond := drop byte_limit (buf s) @ beyond s\<rparr>)"

definition PopLimit :: "nat \<Rightarrow> istream \<Rightarrow> istream" where
  "PopLimit old s = (let b = buf s @ beyond s; k = length b - old in
     s\<lparr>buf := take k b, beyond := drop k b, legit_end := False\<rparr>)"

section \<open>Skipping unknown fields\<close>

text \<open>\<open>IncrementRecursionDepth\<close> and \<open>DecrementRecursionDepth\<close> (the limit is 100).\<close>

definition IncrementRecursionDepth :: "istream \<Rightarrow> bool \<times> istream" where
  "IncrementRecursionDepth s = (budget s - 1 \<ge> 0, s\<lparr>budget := budget s - 1\<rparr>)"

definition DecrementRecursionDepth :: "istream \<Rightarrow> istream" where
  "DecrementRecursionDepth s = (if budget s < 100 then s\<lparr>budget := budget s + 1\<rparr> else s)"

definition drop_value :: "'a reader \<Rightarrow> unit reader" where
  "drop_value m = rd_bind m (\<lambda>_ s. (Val (), s))"

function (sequential) SkipField :: "32 word \<Rightarrow> istream \<Rightarrow> unit out \<times> istream"
  and SkipMessage :: "istream \<Rightarrow> unit out \<times> istream" where
  "SkipField tag s = (case GetTagWireType tag of
       WIRETYPE_VARINT \<Rightarrow> drop_value ReadVarint64 s
     | WIRETYPE_FIXED64 \<Rightarrow> drop_value ReadLittleEndian64 s
     | WIRETYPE_LENGTH_DELIMITED \<Rightarrow> rd_bind ReadVarint32 (\<lambda>len. Skip (sint len)) s
     | WIRETYPE_START_GROUP \<Rightarrow>
        (case IncrementRecursionDepth s of
           (False, s1) \<Rightarrow> (Failed, s1)
         | (True, s1) \<Rightarrow>
            (case SkipMessage s1 of
               (Val _, s2) \<Rightarrow> (let s3 = DecrementRecursionDepth s2 in
                 if last_tag s3 = MakeTag (GetTagFieldNumber tag) WIRETYPE_END_GROUP
                 then (Val (), s3) else (Failed, s3))
             | (r, s2) \<Rightarrow> (r, s2)))
     | WIRETYPE_END_GROUP \<Rightarrow> (Failed, s)
     | WIRETYPE_FIXED32 \<Rightarrow> drop_value ReadLittleEndian32 s
     | WIRETYPE_unknown \<Rightarrow> (Failed, s))"
| "SkipMessage s = (case ReadTag s of
       (Val tag, s1) \<Rightarrow>
         if tag = 0 then (Val (), s1)
         else if GetTagWireType tag = WIRETYPE_END_GROUP then (Val (), s1)
         else (case SkipField tag s1 of
             (Val _, s2) \<Rightarrow> SkipMessage s2
           | (r, s2) \<Rightarrow> (r, s2))
     | (Failed, s1) \<Rightarrow> (Failed, s1)
     | (Fault e, s1) \<Rightarrow> (Fault e, s1))"
  by pat_completeness auto

text \<open>What a reader does at most: it shortens \<open>buf\<close> and leaves \<open>beyond\<close>; it never faults.\<close>

definition keeps :: "'a reader \<Rightarrow> istream \<Rightarrow> bool" where
  "keeps m s \<longleftrightarrow> (\<forall>v s'. m s = (v, s') \<longrightarrow> length (buf s') \<le> length (buf s) \<and> beyond s' = beyond s \<and>
     (\<forall>e. v \<noteq> Fault e))"

lemma advances_keeps: "advances m \<Longrightarrow> keeps m s"
  by (fastforce simp: advances_def keeps_def)

lemma keeps_bind: "keeps m s \<Longrightarrow> (\<And>x s'. keeps (f x) s') \<Longrightarrow> keeps (rd_bind m f) s"
  by (fastforce simp: keeps_def rd_bind_def split: prod.splits out.splits)

lemma keeps_Val: "keeps (\<lambda>s. (Val x, s)) s"
  by (simp add: keeps_def)

lemma keeps_raw: "keeps (Skip n) s" "keeps (ReadRaw k) s" "keeps (ReadStringInline n) s"
  by (auto simp: keeps_def Skip_def ReadRaw_def ReadStringInline_def)

lemma keeps_values:
  "keeps ReadVarint64 s" "keeps ReadVarint32 s" "keeps ReadLittleEndian32 s" "keeps ReadLittleEndian64 s"
  using advances_varints
  by (auto intro: advances_keeps keeps_bind keeps_raw keeps_Val
      simp: ReadLittleEndian32_def ReadLittleEndian64_def)

lemma keeps_drop_value: "keeps m s \<Longrightarrow> keeps (drop_value m) s"
  by (simp add: drop_value_def keeps_bind keeps_Val)

lemma ReadTagFallback_val:
  assumes "buf s = b # bs" "b = 0 \<or> \<not> unat b < 128"
  shows "\<exists>t s'. ReadTagFallback (ucast b) s = (Val t, s') \<and> length (buf s') \<le> length (buf s) \<and>
    beyond s' = beyond s \<and> (t \<noteq> 0 \<longrightarrow> length (buf s') < length (buf s))"
proof (cases "fast_varint s")
  case True
  show ?thesis
  proof (cases "b = 0")
    case False
    then have "ReadVarint32FromArray (ucast b) (buf s) = varint_val 0 1 (vdec 10 (buf s))"
      using True assms ReadVarint32FromArray_val [of b bs] by (simp add: fast_vsafe)
    then show ?thesis using True False vdec_shorter [of 10 "buf s"]
      by (cases "vdec 10 (buf s)") (auto simp: ReadTagFallback_def varint_val_def)
  qed (use True assms in \<open>simp add: ReadTagFallback_def\<close>)
next
  case False
  have "\<exists>t s'. ReadTagSlow s = (Val t, s') \<and> length (buf s') \<le> length (buf s) \<and>
    beyond s' = beyond s \<and> (t \<noteq> 0 \<longrightarrow> length (buf s') < length (buf s))"
    using ReadVarint64_val [of s] vdec_shorter [of 10 "buf s"] assms
    by (cases "vdec 10 (buf s)") (auto simp: ReadTagSlow_def simp del: vdec_numeral)
  then show ?thesis using False assms by (simp add: ReadTagFallback_def)
qed

text \<open>What reading a tag gives: never a failure, and some byte is consumed unless the tag is 0.\<close>

definition tag_read :: "istream \<Rightarrow> 32 word \<Rightarrow> istream \<Rightarrow> bool" where
  "tag_read s t s' \<longleftrightarrow> length (buf s') \<le> length (buf s) \<and> beyond s' = beyond s \<and> last_tag s' = t \<and>
     (t \<noteq> 0 \<longrightarrow> length (buf s') < length (buf s))"

lemma ReadTagFallback_empty: "buf s = [] \<Longrightarrow> ReadTagFallback 0 s = (Val 0, s\<lparr>legit_end := True\<rparr>)"
  by (simp add: ReadTagFallback_def fast_varint_def)

lemma byte_less_128: "(b :: byte) < 0x80 \<longleftrightarrow> unat b < 128"
  by (simp add: word_less_nat_alt)

lemma fallback_tag_read:
  assumes "buf s = b # bs" "b = 0 \<or> \<not> unat b < 128"
  shows "\<exists>t s'. set_last_tag (ReadTagFallback (ucast b) s) = (Val t, s') \<and> tag_read s t s'"
proof -
  obtain t s' where "ReadTagFallback (ucast b) s = (Val t, s')" "length (buf s') \<le> length (buf s)"
      "beyond s' = beyond s" "t \<noteq> 0 \<longrightarrow> length (buf s') < length (buf s)"
    using ReadTagFallback_val [OF assms] by blast
  then show ?thesis by (simp add: set_last_tag_def tag_read_def)
qed

lemma ReadTag_val: "\<exists>t s'. ReadTag s = (Val t, s') \<and> tag_read s t s'"
proof (cases "buf s")
  case Nil
  then show ?thesis by (simp add: ReadTag_def ReadTagFallback_empty set_last_tag_def tag_read_def)
next
  case (Cons b bs)
  then show ?thesis using fallback_tag_read [of s b bs]
    by (cases "unat b < 128") (simp_all add: ReadTag_def byte_less_128 tag_read_def)
qed

lemma ReadTagWithCutoff_val: "\<exists>t c s'. ReadTagWithCutoff cutoff s = (Val (t, c), s') \<and> tag_read s t s'"
proof (cases "buf s")
  case Nil
  then show ?thesis
    by (simp add: ReadTagWithCutoff_def cutoff_slow_def ReadTagFallback_empty set_last_tag_def tag_read_def rd_bind_def)
      blast
next
  case (Cons b bs)
  show ?thesis
  proof (cases "0 < b \<and> b < 0x80")
    case True
    then show ?thesis using Cons by (simp add: ReadTagWithCutoff_def tag_read_def)
  next
    case False
    then have "b = 0 \<or> \<not> unat b < 128" by (auto simp: byte_less_128 word_neq_0_conv)
    then obtain t s' where "set_last_tag (ReadTagFallback (ucast b) s) = (Val t, s')" "tag_read s t s'"
      using fallback_tag_read [OF Cons] by blast
    then show ?thesis using Cons False
      by (auto simp: ReadTagWithCutoff_def Let_def tag_read_def cutoff_slow_def rd_bind_def)
  qed
qed

lemma keeps_flat:
  "keeps (drop_value ReadVarint64) s" "keeps (drop_value ReadLittleEndian32) s"
  "keeps (drop_value ReadLittleEndian64) s" "keeps (rd_bind ReadVarint32 (\<lambda>len. Skip (sint len))) s"
  by (auto intro: keeps_drop_value keeps_bind keeps_values keeps_raw)

lemma Skip_dom_keeps:
  "SkipField_SkipMessage_dom (Inl (tag, s)) \<Longrightarrow> keeps (SkipField tag) s"
  "SkipField_SkipMessage_dom (Inr s) \<Longrightarrow> keeps SkipMessage s"
proof (induction rule: SkipField_SkipMessage.pinduct)
  case (1 tag s)
  show ?case
  proof (cases "GetTagWireType tag")
    case WIRETYPE_START_GROUP
    show ?thesis
    proof (cases "budget s - 1 \<ge> 0")
      case True
      let ?s1 = "s\<lparr>budget := budget s - 1\<rparr>"
      have "keeps SkipMessage ?s1"
        using 1(2) [of True ?s1] WIRETYPE_START_GROUP True by (simp add: IncrementRecursionDepth_def)
      moreover obtain r s2 where r: "SkipMessage ?s1 = (r, s2)" by (cases "SkipMessage ?s1")
      ultimately have s2: "length (buf s2) \<le> length (buf s)" "beyond s2 = beyond s" "\<forall>e. r \<noteq> Fault e"
        by (auto simp: keeps_def)
      have "SkipField tag s = (case r of
          Val u \<Rightarrow> (if last_tag s2 = MakeTag (GetTagFieldNumber tag) WIRETYPE_END_GROUP then Val () else Failed,
                    DecrementRecursionDepth s2)
        | _ \<Rightarrow> (r, s2))"
        using 1(1) WIRETYPE_START_GROUP True r
        by (simp add: SkipField.psimps IncrementRecursionDepth_def DecrementRecursionDepth_def Let_def split: out.splits)
      then show ?thesis using s2
        by (cases r) (simp_all add: keeps_def DecrementRecursionDepth_def)
    qed (use 1(1) WIRETYPE_START_GROUP in \<open>simp add: keeps_def SkipField.psimps IncrementRecursionDepth_def\<close>)
  qed (use 1(1) keeps_flat [of s, unfolded keeps_def] in \<open>auto simp: keeps_def SkipField.psimps\<close>)
next
  case (2 s)
  obtain t s1 where t: "ReadTag s = (Val t, s1)" "tag_read s t s1" using ReadTag_val by blast
  show ?case
  proof (cases "t = 0 \<or> GetTagWireType t = WIRETYPE_END_GROUP")
    case True
    then show ?thesis using 2(1) t by (auto simp: keeps_def SkipMessage.psimps tag_read_def)
  next
    case False
    have f: "keeps (SkipField t) s1" using 2(2) [of "Val t" s1 t] t False by simp
    obtain r s2 where r: "SkipField t s1 = (r, s2)" by (cases "SkipField t s1")
    then have s2: "length (buf s2) \<le> length (buf s1)" "beyond s2 = beyond s1" "\<forall>e. r \<noteq> Fault e"
      using f by (auto simp: keeps_def)
    show ?thesis
    proof (cases r)
      case (Val u)
      then have "keeps SkipMessage s2" using 2(3) [of "Val t" s1 t r s2 u] t False r by simp
      moreover have "SkipMessage s = SkipMessage s2"
        using 2(1) t(1) False r Val by (simp add: SkipMessage.psimps)
      ultimately show ?thesis using t(2) s2(1,2)
        by (simp add: keeps_def tag_read_def) (meson le_trans)
    qed (use 2(1) t False r s2 in \<open>auto simp: keeps_def SkipMessage.psimps tag_read_def\<close>)
  qed
qed

lemma skip_terminates: "All SkipField_SkipMessage_dom"
proof (relation "measure (\<lambda>x. case x of Inl (tag, s) \<Rightarrow> 2 * length (buf s) + 1 | Inr s \<Rightarrow> 2 * length (buf s))",
    goal_cases)
  case (2 tag s x s1)
  then show ?case by (auto simp: IncrementRecursionDepth_def)
next
  case (3 s r s1 t)
  then show ?case using ReadTag_val [of s] by (auto simp: tag_read_def)
next
  case (4 s r s1 t v s2 u)
  have "keeps (SkipField t) s1" "SkipField t s1 = (Val (), s2)" using 4 Skip_dom_keeps(1) [of t s1] by simp_all
  then have "length (buf s2) \<le> length (buf s1)" by (simp add: keeps_def)
  then show ?case using 4 ReadTag_val [of s] by (auto simp: tag_read_def)
qed simp

termination SkipField
  by (rule skip_terminates)

declare SkipField.simps [simp del] SkipMessage.simps [simp del]

lemma keeps_SkipField: "keeps (SkipField tag) s" and keeps_SkipMessage: "keeps SkipMessage s"
  using Skip_dom_keeps skip_terminates by auto

end
