(* ===== verification/WireFormat.thy ===== *)
theory WireFormat
  imports CodedStream
begin

text \<open>
  Field values on the wire: \<open>WireFormatLite::ReadPrimitive\<close> and its packed and repeated forms
  (\<open>wire_format_lite_inl.h\<close>), \<open>RepeatedField\<close> (\<open>repeated_field.h\<close>), the writers of
  \<open>CodedOutputStream\<close> that fill an array, and \<open>MessageLite\<close>'s parse and serialize entry points
  (\<open>message_lite.cc\<close>). A \<open>ByteSize\<close> is a natural number; the negative sizes that an overflowing
  \<open>int\<close> would show are those of 2 GB and more, and are tested for as such.
\<close>

section \<open>Reading values\<close>

definition ReadPrimitive_uint32 :: "32 word reader" where
  "ReadPrimitive_uint32 = ReadVarint32"

definition ReadPrimitive_int32 :: "32 word reader" where
  "ReadPrimitive_int32 = rd_bind ReadVarint32 (\<lambda>temp s. (Val temp, s))"

definition ReadPrimitive_int64 :: "64 word reader" where
  "ReadPrimitive_int64 = rd_bind ReadVarint64 (\<lambda>temp s. (Val temp, s))"

definition ReadPrimitive_bool :: "bool reader" where
  "ReadPrimitive_bool = rd_bind ReadVarint64 (\<lambda>temp s. (Val (temp \<noteq> 0), s))"

definition ReadBytes :: "bytes reader" where
  "ReadBytes = rd_bind ReadVarint32 (\<lambda>len. ReadStringInline (sint len))"

section \<open>\<open>RepeatedField<int64>\<close>\<close>

record repeated =
  elems :: "64 word list"      \<comment> \<open>the first \<open>current_size_\<close> elements\<close>
  total_size :: nat            \<comment> \<open>\<open>Capacity()\<close>\<close>

definition Reserve :: "nat \<Rightarrow> repeated \<Rightarrow> repeated" where
  "Reserve new_size r = (if total_size r \<ge> new_size then r
     else r\<lparr>total_size := max 4 (max (total_size r * 2) new_size)\<rparr>)"

definition Add :: "64 word \<Rightarrow> repeated \<Rightarrow> repeated" where
  "Add v r = (let r' = if length (elems r) = total_size r then Reserve (total_size r + 1) r else r
     in r'\<lparr>elems := elems r' @ [v]\<rparr>)"

definition AddAlreadyReserved :: "64 word \<Rightarrow> repeated \<Rightarrow> repeated" where
  "AddAlreadyReserved v r = r\<lparr>elems := elems r @ [v]\<rparr>"

definition Clear_repeated :: "repeated \<Rightarrow> repeated" where
  "Clear_repeated r = r\<lparr>elems := []\<rparr>"

definition MergeFrom_repeated :: "repeated \<Rightarrow> repeated \<Rightarrow> repeated" where
  "MergeFrom_repeated other r = (if elems other = [] then r
     else (let r' = Reserve (length (elems r) + length (elems other)) r
           in r'\<lparr>elems := elems r' @ elems other\<rparr>))"

text \<open>Capacity never falls below the size.\<close>

definition repeated_ok :: "repeated \<Rightarrow> bool" where
  "repeated_ok r \<longleftrightarrow> length (elems r) \<le> total_size r"

lemma repeated_ok_ops:
  "repeated_ok r \<Longrightarrow> repeated_ok (Add v r)"
  "repeated_ok r \<Longrightarrow> repeated_ok (MergeFrom_repeated other r)"
  "repeated_ok (Clear_repeated r)"
  "length (elems r) < total_size r \<Longrightarrow> repeated_ok (AddAlreadyReserved v r)"
  by (auto simp: repeated_ok_def Add_def MergeFrom_repeated_def Reserve_def Clear_repeated_def
      AddAlreadyReserved_def Let_def)

lemma elems_ops [simp]:
  "elems (Add v r) = elems r @ [v]" "elems (AddAlreadyReserved v r) = elems r @ [v]"
  "elems (Clear_repeated r) = []" "elems (MergeFrom_repeated other r) = elems r @ elems other"
  by (auto simp: Add_def MergeFrom_repeated_def Reserve_def Clear_repeated_def AddAlreadyReserved_def Let_def)

text \<open>\<open>while (input->BytesUntilLimit() > 0)\<close>: every round reads at least a byte.\<close>

lemma int64_shorter:
  "ReadPrimitive_int64 s = (Val v, s') \<Longrightarrow> length (buf s') < length (buf s)"
  using advances_varints(1)
  by (fastforce simp: ReadPrimitive_int64_def rd_bind_def advances_def split: out.splits prod.splits)

function packed_loop :: "repeated \<Rightarrow> istream \<Rightarrow> repeated out \<times> istream" where
  "packed_loop values s = (if length (buf s) > 0
     then (case ReadPrimitive_int64 s of
         (Val value, s1) \<Rightarrow> packed_loop (Add value values) s1
       | (Failed, s1) \<Rightarrow> (Failed, s1)
       | (Fault e, s1) \<Rightarrow> (Fault e, s1))
     else (Val values, s))"
  by pat_completeness auto
termination
  by (relation "measure (\<lambda>(v, s). length (buf s))") (auto dest: sym dest!: int64_shorter)

declare packed_loop.simps [simp del]

definition ReadPackedPrimitive :: "repeated \<Rightarrow> repeated reader" where
  "ReadPackedPrimitive values = rd_bind ReadVarintSizeAsInt (\<lambda>len s.
     let (limit, s1) = PushLimit len s in
     case packed_loop values s1 of
       (Val values', s2) \<Rightarrow> (Val values', PopLimit limit s2)
     | (Failed, s2) \<Rightarrow> (Failed, s2)
     | (Fault e, s2) \<Rightarrow> (Fault e, s2))"

fun repeated_loop :: "32 word \<Rightarrow> nat \<Rightarrow> repeated \<Rightarrow> istream \<Rightarrow> repeated out \<times> istream" where
  "repeated_loop tag 0 values s = (Val values, s)"
| "repeated_loop tag (Suc elements_already_reserved) values s = (case ExpectTag tag s of
       (False, s1) \<Rightarrow> (Val values, s1)
     | (True, s1) \<Rightarrow> (case ReadPrimitive_int64 s1 of
           (Val value, s2) \<Rightarrow>
             repeated_loop tag elements_already_reserved (AddAlreadyReserved value values) s2
         | (Failed, s2) \<Rightarrow> (Failed, s2)
         | (Fault e, s2) \<Rightarrow> (Fault e, s2)))"

definition ReadRepeatedPrimitive :: "32 word \<Rightarrow> repeated \<Rightarrow> repeated reader" where
  "ReadRepeatedPrimitive tag values = rd_bind ReadPrimitive_int64 (\<lambda>value s.
     let values' = Add value values in
     repeated_loop tag (total_size values' - length (elems values')) values' s)"

section \<open>Writing values\<close>

function WriteVarint32ToArray :: "32 word \<Rightarrow> bytes" where
  "WriteVarint32ToArray value = (if value \<ge> 0x80
     then ucast (value OR 0x80) # WriteVarint32ToArray (drop_bit 7 value)
     else [ucast value])"
  by pat_completeness auto
termination
  by (relation "measure unat") (auto simp: word_le_nat_alt unat_drop_bit_eq, auto simp: drop_bit_eq_div)

declare WriteVarint32ToArray.simps [simp del]

text \<open>The search tree over the three parts, and the bytes of the fall-through \<open>size10\<close> .. \<open>size1\<close>.\<close>

definition varint64_size :: "32 word \<Rightarrow> 32 word \<Rightarrow> 32 word \<Rightarrow> nat" where
  "varint64_size part0 part1 part2 =
     (if part2 = 0
      then if part1 = 0
           then if part0 < push_bit 14 1 then if part0 < push_bit 7 1 then 1 else 2
                else if part0 < push_bit 21 1 then 3 else 4
           else if part1 < push_bit 14 1 then if part1 < push_bit 7 1 then 5 else 6
                else if part1 < push_bit 21 1 then 7 else 8
      else if part2 < push_bit 7 1 then 9 else 10)"

definition WriteVarint64ToArrayInline :: "64 word \<Rightarrow> bytes" where
  "WriteVarint64ToArrayInline value =
     (let part0 = ucast value :: 32 word;
          part1 = ucast (drop_bit 28 value) :: 32 word;
          part2 = ucast (drop_bit 56 value) :: 32 word;
          n = varint64_size part0 part1 part2;
          target = take n
            [ucast (part0 OR 0x80), ucast (drop_bit 7 part0 OR 0x80),
             ucast (drop_bit 14 part0 OR 0x80), ucast (drop_bit 21 part0 OR 0x80),
             ucast (part1 OR 0x80), ucast (drop_bit 7 part1 OR 0x80),
             ucast (drop_bit 14 part1 OR 0x80), ucast (drop_bit 21 part1 OR 0x80),
             ucast (part2 OR 0x80), ucast (drop_bit 7 part2 OR 0x80)]
      in target[n - 1 := target ! (n - 1) AND 0x7F])"

text \<open>The slow path of \<open>WriteVarint64\<close>.\<close>

function WriteVarint64Slow :: "64 word \<Rightarrow> bytes" where
  "WriteVarint64Slow value = (if value > 0x7F
     then ((ucast value AND 0x7F) OR 0x80) # WriteVarint64Slow (drop_bit 7 value)
     else [ucast value AND 0x7F])"
  by pat_completeness auto
termination
  by (relation "measure unat") (auto simp: word_less_nat_alt unat_drop_bit_eq, auto simp: drop_bit_eq_div)

declare WriteVarint64Slow.simps [simp del]

definition VarintSize32 :: "32 word \<Rightarrow> nat" where
  "VarintSize32 value = (if value < push_bit 7 1 then 1 else if value < push_bit 14 1 then 2
     else if value < push_bit 21 1 then 3 else if value < push_bit 28 1 then 4 else 5)"

definition VarintSize64 :: "64 word \<Rightarrow> nat" where
  "VarintSize64 value = (if value < push_bit 35 1
     then if value < push_bit 7 1 then 1 else if value < push_bit 14 1 then 2
          else if value < push_bit 21 1 then 3 else if value < push_bit 28 1 then 4 else 5
     else if value < push_bit 42 1 then 6 else if value < push_bit 49 1 then 7
          else if value < push_bit 56 1 then 8 else if value < push_bit 63 1 then 9 else 10)"

definition VarintSize32SignExtended :: "32 word \<Rightarrow> nat" where
  "VarintSize32SignExtended value = (if sint value < 0 then 10 else VarintSize32 value)"

definition WriteVarint32SignExtendedToArray :: "32 word \<Rightarrow> bytes" where
  "WriteVarint32SignExtendedToArray value =
     (if sint value < 0 then WriteVarint64ToArrayInline (scast value) else WriteVarint32ToArray value)"

definition WriteTagToArray :: "nat \<Rightarrow> wire_type \<Rightarrow> bytes" where
  "WriteTagToArray field_number w = WriteVarint32ToArray (MakeTag field_number w)"

definition WriteInt32ToArray :: "nat \<Rightarrow> 32 word \<Rightarrow> bytes" where
  "WriteInt32ToArray field_number value =
     WriteTagToArray field_number WIRETYPE_VARINT @ WriteVarint32SignExtendedToArray value"

definition WriteInt64ToArray :: "nat \<Rightarrow> 64 word \<Rightarrow> bytes" where
  "WriteInt64ToArray field_number value =
     WriteTagToArray field_number WIRETYPE_VARINT @ WriteVarint64ToArrayInline value"

definition WriteUInt32ToArray :: "nat \<Rightarrow> 32 word \<Rightarrow> bytes" where
  "WriteUInt32ToArray field_number value =
     WriteTagToArray field_number WIRETYPE_VARINT @ WriteVarint32ToArray value"

definition WriteBoolToArray :: "nat \<Rightarrow> bool \<Rightarrow> bytes" where
  "WriteBoolToArray field_number value =
     WriteTagToArray field_number WIRETYPE_VARINT @ WriteVarint32ToArray (if value then 1 else 0)"

definition WriteStringWithSizeToArray :: "bytes \<Rightarrow> bytes" where
  "WriteStringWithSizeToArray str = WriteVarint32ToArray (of_nat (length str)) @ str"

definition WriteBytesToArray :: "nat \<Rightarrow> bytes \<Rightarrow> bytes" where
  "WriteBytesToArray field_number value =
     WriteTagToArray field_number WIRETYPE_LENGTH_DELIMITED @ WriteStringWithSizeToArray value"

definition BytesSize :: "bytes \<Rightarrow> nat" where
  "BytesSize value = VarintSize32 (of_nat (length value)) + length value"

section \<open>What the writers write\<close>

lemma or_80: "(b :: byte) OR 0x80 = of_nat (unat b mod 128 + 128)"
proof -
  have "b OR 0x80 = (b AND 0x7F) OR 0x80"
    by (rule bit_word_eqI) (auto simp: bit_or_iff bit_and_iff bit_numeral_rec less_Suc_eq numeral_eq_Suc bit_Suc bit_0)
  also have "b AND 0x7F = of_nat (unat b mod 128)"
    by (simp only: byte_low [symmetric] of_nat_unat ucast_id)
  also have "of_nat (unat b mod 128) OR (0x80 :: byte) = of_nat (unat b mod 128 + 128)"
    using or_push_bit_word [of "unat b mod 128" 7 1, where ?'a = 8] by simp
  finally show ?thesis .
qed

lemma unat_ucast_byte: "unat (ucast (w :: 'a::len word) :: byte) = take_bit 8 (unat w)"
  by (simp add: unsigned_ucast_eq)

lemma high_byte: "(ucast (w OR 0x80 :: 32 word) :: byte) = of_nat (unat w mod 128 + 128)"
proof -
  have "(ucast (w OR 0x80) :: byte) = ucast w OR 0x80"
    by (simp add: unsigned_or_eq)
  then show ?thesis
    by (simp add: or_80 unat_ucast_byte take_bit_eq_mod mod_mod_cancel del: of_nat_add)
qed

lemma low_byte: "(ucast (w :: 'a::len word) AND 0x7F :: byte) = of_nat (unat w mod 128)"
proof -
  have "unat (ucast w AND 0x7F :: byte) = unat w mod 128"
    by (simp add: byte_low unat_ucast_byte take_bit_eq_mod mod_mod_cancel)
  then show ?thesis by (metis of_nat_unat ucast_id)
qed

lemma unat_shift7: "unat (drop_bit 7 (w :: 'a::len word)) = unat w div 128"
  by (simp add: unat_drop_bit_eq) (simp add: drop_bit_eq_div)

lemma WriteVarint32ToArray_venc: "WriteVarint32ToArray w = venc (unat w)"
proof (induction w rule: WriteVarint32ToArray.induct)
  case (1 w)
  show ?case
  proof (cases "w \<ge> 0x80")
    case True
    then have "128 \<le> unat w" by (simp add: word_le_nat_alt)
    then show ?thesis using True 1
      by (subst WriteVarint32ToArray.simps) (simp add: high_byte venc_big unat_shift7 del: of_nat_add)
  next
    case False
    then have "unat w < 128" by (simp add: word_le_nat_alt)
    then show ?thesis using False
      by (subst WriteVarint32ToArray.simps) (simp add: venc_small)
  qed
qed

lemma WriteVarint64Slow_venc: "WriteVarint64Slow w = venc (unat w)"
proof (induction w rule: WriteVarint64Slow.induct)
  case (1 w)
  show ?case
  proof (cases "w > 0x7F")
    case True
    then have "128 \<le> unat w" by (simp add: word_less_nat_alt)
    moreover have "of_nat (unat w mod 128) OR (0x80 :: byte) = of_nat (unat w mod 128 + 128)"
      using or_push_bit_word [of "unat w mod 128" 7 1, where ?'a = 8] by simp
    ultimately show ?thesis using True 1
      by (subst WriteVarint64Slow.simps) (simp add: low_byte venc_big unat_shift7 del: of_nat_add)
  next
    case False
    then have "unat w < 128" by (simp add: word_less_nat_alt)
    then show ?thesis using False
      by (subst WriteVarint64Slow.simps) (simp add: low_byte venc_small del: of_nat_unat)
  qed
qed

text \<open>The encoding spelled out for a number of exactly \<open>n\<close> seven-bit digits.\<close>

fun venc_bytes :: "nat \<Rightarrow> nat \<Rightarrow> bytes" where
  "venc_bytes 0 u = []"
| "venc_bytes (Suc 0) u = [of_nat u]"
| "venc_bytes (Suc (Suc n)) u = of_nat (u mod 128 + 128) # venc_bytes (Suc n) (u div 128)"

lemma length_venc_bytes [simp]: "length (venc_bytes n u) = n"
  by (induction n u rule: venc_bytes.induct) auto

lemma venc_digits:
  assumes "u < 128 ^ n" "0 < n" "n = 1 \<or> 128 ^ (n - 1) \<le> u"
  shows "venc u = venc_bytes n u"
  using assms
proof (induction n u rule: venc_bytes.induct)
  case (3 n u)
  have big: "128 \<le> u"
  proof -
    have "128 * 1 \<le> 128 * (128 :: nat) ^ n" by (intro mult_le_mono) auto
    also have "\<dots> \<le> u" using 3(4) by simp
    finally show ?thesis by simp
  qed
  have "u div 128 < 128 ^ Suc n" using 3(2) by (simp add: less_mult_imp_div_less mult.commute)
  moreover have "Suc n = 1 \<or> 128 ^ (Suc n - 1) \<le> u div 128"
    using 3(4) by (auto simp: less_eq_div_iff_mult_less_eq mult.commute)
  ultimately show ?case using 3(1) big by (simp add: venc_big)
qed (simp_all add: venc_small)

lemma length_venc:
  assumes "u < 128 ^ n" "0 < n" "n = 1 \<or> 128 ^ (n - 1) \<le> u"
  shows "length (venc u) = n"
  using venc_digits [OF assms] by simp

lemma VarintSize32_venc: "VarintSize32 w = length (venc (unat w))"
proof -
  have "unat w < 2 ^ 32" using unsigned_less [of w] by simp
  then show ?thesis
    by (simp add: VarintSize32_def word_less_nat_alt length_venc venc_small)
qed

lemma VarintSize64_venc: "VarintSize64 w = length (venc (unat w))"
proof -
  have "unat w < 2 ^ 64" using unsigned_less [of w] by simp
  then show ?thesis
    by (simp add: VarintSize64_def word_less_nat_alt length_venc venc_small)
qed

text \<open>Digit \<open>k\<close> of a part is a digit of the whole.\<close>

lemma part_digit:
  assumes "k + 7 \<le> 32"
  shows "unat (drop_bit k (ucast (drop_bit j (w :: 64 word)) :: 32 word)) mod 128 = unat w div 2 ^ (j + k) mod 128"
proof -
  have "unat (drop_bit k (ucast (drop_bit j w) :: 32 word)) = drop_bit k (take_bit 32 (drop_bit j (unat w)))"
    by (simp add: unat_drop_bit_eq unsigned_ucast_eq)
  also have "take_bit 7 \<dots> = take_bit 7 (drop_bit (j + k) (unat w))"
    using assms by (simp add: drop_bit_take_bit add.commute)
  finally show ?thesis by (simp add: take_bit_eq_mod drop_bit_eq_div)
qed

lemma part_byte:
  assumes "k + 7 \<le> 32"
  shows "(ucast (drop_bit k (ucast (drop_bit j (w :: 64 word)) :: 32 word) OR 0x80) :: byte) =
    of_nat (unat w div 2 ^ (j + k) mod 128 + 128)"
  using part_digit [OF assms, of j w] by (simp add: high_byte del: of_nat_add)

lemma part_bytes:
  "k + 7 \<le> 32 \<Longrightarrow> (ucast (drop_bit k (ucast (w :: 64 word) :: 32 word) OR 0x80) :: byte) =
    of_nat (unat w div 2 ^ k mod 128 + 128)"
  "(ucast ((ucast (drop_bit j w) :: 32 word) OR 0x80) :: byte) = of_nat (unat w div 2 ^ j mod 128 + 128)"
  "(ucast ((ucast w :: 32 word) OR 0x80) :: byte) = of_nat (unat w mod 128 + 128)"
  using part_byte [of k 0 w] part_byte [of 0 j w] part_byte [of 0 0 w] by simp_all

lemma last_byte: "of_nat (u mod 128 + 128) AND (0x7F :: byte) = of_nat (u mod 128)"
proof -
  have "unat (of_nat (u mod 128 + 128) AND (0x7F :: byte)) = u mod 128"
    by (simp add: byte_low mod_add_self2 mod_mod_cancel del: of_nat_add)
  then show ?thesis by (metis of_nat_unat ucast_id)
qed

lemma varint64_size_range:
  fixes w :: "64 word"
  defines "n \<equiv> varint64_size (ucast w) (ucast (drop_bit 28 w)) (ucast (drop_bit 56 w))"
  shows "0 < n" "n \<le> 10" "unat w < 128 ^ n" "n = 1 \<or> 128 ^ (n - 1) \<le> unat w"
proof -
  define u where "u = unat w"
  have u: "u < 2 ^ 64" unfolding u_def using unsigned_less [of w] by simp
  have part: "unat (ucast (drop_bit j w) :: 32 word) = u div 2 ^ j mod 2 ^ 32" for j
    by (simp add: u_def unsigned_ucast_eq unat_drop_bit_eq) (simp add: drop_bit_eq_div take_bit_eq_mod)
  have zero: "v = 0 \<longleftrightarrow> unat v = 0" for v :: "32 word" by (simp add: unat_eq_0)
  have p2: "unat (ucast (drop_bit 56 w) :: 32 word) = u div 2 ^ 56"
    using part [of 56] u by simp
  have p1: "u < 2 ^ 56 \<Longrightarrow> unat (ucast (drop_bit 28 w) :: 32 word) = u div 2 ^ 28"
    using part [of 28] by simp
  have p0: "u < 2 ^ 28 \<Longrightarrow> unat (ucast w :: 32 word) = u"
    using part [of 0] by simp
  have "0 < n \<and> n \<le> 10 \<and> u < 128 ^ n \<and> (n = 1 \<or> 128 ^ (n - 1) \<le> u)"
  proof (cases "u < 2 ^ 56")
    case False
    then show ?thesis using u
      by (auto simp: n_def varint64_size_def zero word_less_nat_alt p2 div_less_iff_less_mult div_eq_0_iff)
  next
    case small: True
    show ?thesis
    proof (cases "u < 2 ^ 28")
      case False
      then show ?thesis using small
        by (auto simp: n_def varint64_size_def zero word_less_nat_alt p2 p1 div_less_iff_less_mult div_eq_0_iff)
    next
      case True
      then show ?thesis using small
        by (auto simp: n_def varint64_size_def zero word_less_nat_alt p2 p1 p0 div_eq_0_iff)
    qed
  qed
  then show "0 < n" "n \<le> 10" "unat w < 128 ^ n" "n = 1 \<or> 128 ^ (n - 1) \<le> unat w"
    by (auto simp: u_def)
qed

lemma venc_bytes_nth:
  "i < n \<Longrightarrow> venc_bytes n u ! i =
     (if Suc i = n then of_nat (u div 128 ^ i) else of_nat (u div 128 ^ i mod 128 + 128))"
proof (induction n u arbitrary: i rule: venc_bytes.induct)
  case (3 n u)
  then show ?case by (cases i) (auto simp: div_mult2_eq)
qed auto

lemma unat_shift: "unat (drop_bit j (w :: 'a::len word)) = unat w div 2 ^ j"
  by (simp add: unat_drop_bit_eq) (simp add: drop_bit_eq_div)

lemma WriteVarint64ToArrayInline_venc: "WriteVarint64ToArrayInline w = venc (unat w)"
proof -
  let ?n = "varint64_size (ucast w) (ucast (drop_bit 28 w)) (ucast (drop_bit 56 w))"
  note n = varint64_size_range [of w]
  let ?f = "\<lambda>i. of_nat (unat w div 128 ^ i mod 128 + 128) :: byte"
  have "WriteVarint64ToArrayInline w =
    (let t = take ?n (map ?f [0..<10]) in t[?n - 1 := t ! (?n - 1) AND 0x7F])"
    by (simp add: WriteVarint64ToArrayInline_def Let_def part_byte part_bytes unat_shift div_mult2_eq [symmetric] upt_rec del: of_nat_add)
  also have "\<dots> = venc_bytes ?n (unat w)"
  proof (rule nth_equalityI)
    fix i
    assume "i < length (let t = take ?n (map ?f [0..<10]) in t[?n - 1 := t ! (?n - 1) AND 0x7F])"
    then have i: "i < ?n" using n(2) by (simp add: Let_def)
    have "unat w div 128 ^ (?n - 1) < 128"
      using n(1,3) by (metis One_nat_def Suc_pred less_mult_imp_div_less mult.commute power_Suc)
    then show "(let t = take ?n (map ?f [0..<10]) in t[?n - 1 := t ! (?n - 1) AND 0x7F]) ! i =
        venc_bytes ?n (unat w) ! i"
      using n i by (auto simp: Let_def venc_bytes_nth nth_list_update last_byte simp del: of_nat_add)
  qed (use n in \<open>simp add: Let_def\<close>)
  also have "\<dots> = venc (unat w)" using venc_digits [OF n(3,1,4)] by simp
  finally show ?thesis .
qed

section \<open>Every reader stays in the array and never lengthens it\<close>

definition left_bytes :: "istream \<Rightarrow> nat" where
  "left_bytes s = length (buf s) + length (beyond s)"

definition tame :: "'a reader \<Rightarrow> bool" where
  "tame m \<longleftrightarrow> (\<forall>s v s'. m s = (v, s') \<longrightarrow> left_bytes s' \<le> left_bytes s \<and> (\<forall>e. v \<noteq> Fault e))"

named_theorems tame_intros \<open>readers that are tame\<close>

lemma tame_keeps: "(\<And>s. keeps m s) \<Longrightarrow> tame m"
  by (auto simp: tame_def keeps_def left_bytes_def)

lemma tame_bind [tame_intros]: "tame m \<Longrightarrow> (\<And>x. tame (f x)) \<Longrightarrow> tame (rd_bind m f)"
  unfolding tame_def rd_bind_def
  by (auto split: prod.splits out.splits) (meson le_trans)

lemma tame_Val [tame_intros]: "tame (\<lambda>s. (Val x, s))"
  by (simp add: tame_def)

lemma tame_if [tame_intros]: "tame m \<Longrightarrow> tame m' \<Longrightarrow> tame (\<lambda>s. if c then m s else m' s)"
  by (simp add: tame_def)

lemma tame_readers [tame_intros]:
  "tame (Skip n)" "tame (ReadRaw k)" "tame (ReadStringInline n)" "tame ReadVarint32" "tame ReadVarint64"
  "tame (SkipField tag)"
  by (auto intro: tame_keeps keeps_raw keeps_values keeps_SkipField)

lemma tame_primitives [tame_intros]:
  "tame ReadPrimitive_uint32" "tame ReadPrimitive_int32" "tame ReadPrimitive_int64"
  "tame ReadPrimitive_bool" "tame ReadBytes"
  unfolding ReadPrimitive_uint32_def ReadPrimitive_int32_def ReadPrimitive_int64_def
    ReadPrimitive_bool_def ReadBytes_def
  by (intro tame_intros)+

lemma ReadVarintSizeAsInt_tame [tame_intros]: "tame ReadVarintSizeAsInt"
proof (rule tame_keeps)
  fix s
  have slow: "keeps ReadVarintSizeAsIntSlow s"
  proof -
    have "keeps ReadVarint64Fallback s"
      using ReadVarint64Fallback_val [of s] vdec_shorter [of 10 "buf s"]
      by (cases "vdec 10 (buf s)") (auto simp: keeps_def dest: less_imp_le)
    then show ?thesis
      unfolding ReadVarintSizeAsIntSlow_def
      by (intro keeps_bind) (auto simp: keeps_def split: if_splits)
  qed
  have fallback: "keeps ReadVarintSizeAsIntFallback s"
  proof (cases "fast_varint s")
    case True
    then show ?thesis
      using vdec_shorter [of 10 "buf s"]
      by (cases "vdec 10 (buf s)")
        (auto simp: ReadVarintSizeAsIntFallback_def fast_vsafe ReadVarint64FromArray_val varint_val_simps
          from_array_def keeps_def split: if_splits dest: less_imp_le)
  qed (use slow in \<open>simp add: ReadVarintSizeAsIntFallback_def keeps_def\<close>)
  show "keeps ReadVarintSizeAsInt s"
  proof (cases "buf s")
    case (Cons b bs)
    show ?thesis
    proof (cases "b < 0x80")
      case True
      then show ?thesis using Cons by (simp add: ReadVarintSizeAsInt_def keeps_def)
    next
      case False
      then have "ReadVarintSizeAsInt s = ReadVarintSizeAsIntFallback s" using Cons by (simp add: ReadVarintSizeAsInt_def)
      then show ?thesis using fallback by (simp add: keeps_def)
    qed
  next
    case Nil
    then have "ReadVarintSizeAsInt s = ReadVarintSizeAsIntFallback s" by (simp add: ReadVarintSizeAsInt_def)
    then show ?thesis using fallback by (simp add: keeps_def)
  qed
qed

lemma packed_loop_keeps:
  "packed_loop vs s = (v, s') \<Longrightarrow>
     length (buf s') \<le> length (buf s) \<and> beyond s' = beyond s \<and> (\<forall>e. v \<noteq> Fault e)"
proof (induction vs s rule: packed_loop.induct)
  case (1 vs s)
  have k: "keeps ReadPrimitive_int64 s"
    unfolding ReadPrimitive_int64_def by (intro keeps_bind keeps_values keeps_Val)
  show ?case
  proof (cases "ReadPrimitive_int64 s")
    case (Pair r s1)
    have eq: "packed_loop vs s = (if buf s = [] then (Val vs, s) else (case r of
        Val value \<Rightarrow> packed_loop (Add value vs) s1 | Failed \<Rightarrow> (Failed, s1) | Fault e \<Rightarrow> (Fault e, s1)))"
      by (subst packed_loop.simps) (simp add: Pair)
    have s1: "length (buf s1) \<le> length (buf s)" "beyond s1 = beyond s" "\<forall>e. r \<noteq> Fault e"
      using k Pair by (auto simp: keeps_def)
    show ?thesis
    proof (cases "buf s = []")
      case False
      show ?thesis
      proof (cases r)
        case (Val x)
        then have "packed_loop (Add x vs) s1 = (v, s')" using 1(2) eq False by simp
        then have "length (buf s') \<le> length (buf s1) \<and> beyond s' = beyond s1 \<and> (\<forall>e. v \<noteq> Fault e)"
          using 1(1) [of r s1 x] Pair Val False by simp
        then show ?thesis using s1 by auto
      qed (use 1(2) eq False s1 in auto)
    qed (use 1(2) eq in auto)
  qed
qed

lemma packed_tame [tame_intros]: "tame (ReadPackedPrimitive vs)"
  unfolding ReadPackedPrimitive_def
proof (intro tame_bind ReadVarintSizeAsInt_tame, unfold tame_def, intro allI impI)
  fix len s v s'
  assume a: "(let (limit, s1) = PushLimit len s in
     case packed_loop vs s1 of (Val vs', s2) \<Rightarrow> (Val vs', PopLimit limit s2)
     | (Failed, s2) \<Rightarrow> (Failed, s2) | (Fault e, s2) \<Rightarrow> (Fault e, s2)) = (v, s')"
  obtain limit s1 where p: "PushLimit len s = (limit, s1)" by (cases "PushLimit len s")
  obtain r s2 where l: "packed_loop vs s1 = (r, s2)" by (cases "packed_loop vs s1")
  show "left_bytes s' \<le> left_bytes s \<and> (\<forall>e. v \<noteq> Fault e)"
    using a p l packed_loop_keeps [OF l]
    by (cases r) (auto simp: PushLimit_def PopLimit_def left_bytes_def Let_def)
qed

lemma ExpectTag_left: "ExpectTag tag s = (b, s') \<Longrightarrow> left_bytes s' \<le> left_bytes s"
  by (auto simp: ExpectTag_def left_bytes_def split: if_splits)

lemma repeated_tame [tame_intros]: "tame (ReadRepeatedPrimitive tag vs)"
proof -
  have loop: "tame (repeated_loop tag n vs)" for n vs
  proof (induction n arbitrary: vs)
    case (Suc n)
    have p: "tame ReadPrimitive_int64" by (rule tame_intros)
    show ?case unfolding tame_def
    proof (intro allI impI)
      fix s v s' assume a: "repeated_loop tag (Suc n) vs s = (v, s')"
      obtain b s1 where e: "ExpectTag tag s = (b, s1)" by (cases "ExpectTag tag s")
      obtain r s2 where r: "ReadPrimitive_int64 s1 = (r, s2)" by (cases "ReadPrimitive_int64 s1")
      have "left_bytes s1 \<le> left_bytes s" "left_bytes s2 \<le> left_bytes s1" "\<forall>e. r \<noteq> Fault e"
        using ExpectTag_left [OF e] p r by (auto simp: tame_def)
      then show "left_bytes s' \<le> left_bytes s \<and> (\<forall>e. v \<noteq> Fault e)"
        using a e r Suc by (cases b; cases r) (fastforce simp: tame_def)+
    qed
  qed (simp add: tame_def)
  then show ?thesis unfolding ReadRepeatedPrimitive_def Let_def by (intro tame_intros)
qed

end
