(* ===== verification/MessageLite.thy ===== *)
theory MessageLite
  imports WireFormat
begin

text \<open>
  What the generated messages share. The parse and serialize entry points of \<open>message_lite.cc\<close> take
  the message's own methods as arguments; one pass of a generated parse loop is \<open>parse_round\<close> over
  the message's \<open>switch\<close>. The locales hold what the entry points need of a message:
  \<open>wire_value\<close> that a reader takes back what its writer wrote, \<open>wire_parser\<close> that a
  parse loop stops at tag 0 and stays in the array, \<open>wire_message\<close> that \<open>ByteSize\<close> is the
  length written and that the parse loop takes back what was written.
\<close>

section \<open>One pass of a parse loop\<close>

datatype 'm step = Loop 'm   \<comment> \<open>\<open>break\<close> out of the switch, back to \<open>for (;;)\<close>\<close>
  | Stop 'm                  \<comment> \<open>\<open>goto success\<close>\<close>

definition then_at_end :: "'m \<Rightarrow> 'm step reader" where
  "then_at_end m s = (case ExpectAtEnd s of (True, s1) \<Rightarrow> (Val (Stop m), s1) | (False, s1) \<Rightarrow> (Val (Loop m), s1))"

definition then_expect :: "32 word \<Rightarrow> ('m \<Rightarrow> 'm step reader) \<Rightarrow> 'm \<Rightarrow> 'm step reader" where
  "then_expect tag parse_next m s =
     (case ExpectTag tag s of (True, s1) \<Rightarrow> parse_next m s1 | (False, s1) \<Rightarrow> (Val (Loop m), s1))"

definition handle_unusual :: "32 word \<Rightarrow> 'm \<Rightarrow> 'm step reader" where
  "handle_unusual tag m = (if tag = 0 \<or> GetTagWireType tag = WIRETYPE_END_GROUP
     then (\<lambda>s. (Val (Stop m), s)) else rd_bind (SkipField tag) (\<lambda>_ s. (Val (Loop m), s)))"

definition parse_round :: "(32 word \<Rightarrow> 'm \<Rightarrow> 'm step reader) \<Rightarrow> 'm \<Rightarrow> 'm step reader" where
  "parse_round switch m = rd_bind (ReadTagWithCutoff 127)
     (\<lambda>(tag, known). if known then switch tag m else handle_unusual tag m)"

definition resume :: "('m \<Rightarrow> 'm reader) \<Rightarrow> 'm step out \<times> istream \<Rightarrow> 'm out \<times> istream" where
  "resume merge r = (case r of
       (Val (Loop m), s) \<Rightarrow> merge m s
     | (Val (Stop m), s) \<Rightarrow> (Val m, s)
     | (Failed, s) \<Rightarrow> (Failed, s)
     | (Fault e, s) \<Rightarrow> (Fault e, s))"

section \<open>\<open>message_lite.cc\<close>\<close>

definition ParseFromArray :: "('m \<Rightarrow> 'm) \<Rightarrow> ('m \<Rightarrow> 'm reader) \<Rightarrow> bytes \<Rightarrow> 'm \<Rightarrow> 'm out" where
  "ParseFromArray clear merge data m = (case merge (clear m) (CodedInputStream data) of
       (Val m', s) \<Rightarrow> if legit_end s then Val m' else Failed
     | (Failed, s) \<Rightarrow> Failed
     | (Fault e, s) \<Rightarrow> Fault e)"

text \<open>A size other than the one announced is a fatal error (\<open>ByteSizeConsistencyError\<close>).\<close>

definition SerializePartialToArray :: "('m \<Rightarrow> nat) \<Rightarrow> ('m \<Rightarrow> bytes) \<Rightarrow> 'm \<Rightarrow> nat \<Rightarrow> bytes option result" where
  "SerializePartialToArray byte_size write m n = (if n < byte_size m then Inr None
     else if length (write m) = byte_size m then Inr (Some (write m)) else Inl AssertFailed)"

definition AppendPartialToString :: "('m \<Rightarrow> nat) \<Rightarrow> ('m \<Rightarrow> bytes) \<Rightarrow> 'm \<Rightarrow> bytes \<Rightarrow> bytes option result" where
  "AppendPartialToString byte_size write m output = (if byte_size m \<ge> 2 ^ 31 then Inr None
     else if length (write m) = byte_size m then Inr (Some (output @ write m)) else Inl AssertFailed)"

definition SerializePartialAsString :: "('m \<Rightarrow> nat) \<Rightarrow> ('m \<Rightarrow> bytes) \<Rightarrow> 'm \<Rightarrow> bytes result" where
  "SerializePartialAsString byte_size write m = rbind (AppendPartialToString byte_size write m [])
     (\<lambda>r. Inr (case r of Some output \<Rightarrow> output | None \<Rightarrow> []))"

section \<open>A parse loop that stops\<close>

lemma tame_round_parts [tame_intros]:
  "tame (then_at_end m)" "(\<And>m. tame (nxt m)) \<Longrightarrow> tame (then_expect tag nxt m)" "tame (handle_unusual tag m)"
proof -
  show "tame (then_at_end m)"
    by (auto simp: tame_def then_at_end_def ExpectAtEnd_def left_bytes_def)
  show "(\<And>m. tame (nxt m)) \<Longrightarrow> tame (then_expect tag nxt m)"
    unfolding tame_def then_expect_def
    using ExpectTag_left [of tag] by (auto split: prod.splits bool.splits) (meson le_trans)
  show "tame (handle_unusual tag m)"
    unfolding handle_unusual_def by (auto intro!: tame_intros)
qed

lemma tame_tag [tame_intros]: "tame (ReadTagWithCutoff cutoff)"
  unfolding tame_def
proof (intro allI impI)
  fix s v s' assume "ReadTagWithCutoff cutoff s = (v, s')"
  then show "left_bytes s' \<le> left_bytes s \<and> (\<forall>e. v \<noteq> Fault e)"
    using ReadTagWithCutoff_val [of cutoff s] by (auto simp: tag_read_def left_bytes_def)
qed

locale wire_parser =
  fixes switch :: "32 word \<Rightarrow> 'm \<Rightarrow> 'm step reader"
  assumes switch_tame: "tame (switch tag m)"
    and switch_0: "switch 0 m s = (Val (Stop m), s)"
begin

lemma round_tame: "tame (parse_round switch m)"
  unfolding parse_round_def
  by (intro tame_bind tame_tag) (auto split: prod.splits intro: tame_intros switch_tame)

lemma round_shrinks:
  assumes "parse_round switch m s = (Val (Loop m'), s')"
  shows "left_bytes s' < left_bytes s"
proof -
  obtain t c s1 where t: "ReadTagWithCutoff 127 s = (Val (t, c), s1)" "tag_read s t s1"
    using ReadTagWithCutoff_val by blast
  let ?m = "if c then switch t m else handle_unusual t m"
  have r: "?m s1 = (Val (Loop m'), s')"
    using assms t by (simp add: parse_round_def rd_bind_def split: if_splits)
  then have "t \<noteq> 0" by (auto simp: switch_0 handle_unusual_def split: if_splits)
  then have "left_bytes s1 < left_bytes s" using t(2) by (simp add: tag_read_def left_bytes_def)
  moreover have "tame ?m" by (auto intro: switch_tame tame_intros)
  ultimately show ?thesis using r unfolding tame_def by fastforce
qed

lemma merge_tame:
  assumes merge: "\<And>m s. merge m s = resume merge (parse_round switch m s)"
  shows "tame (merge m)"
proof -
  have "merge m s = (v, s') \<Longrightarrow> left_bytes s' \<le> left_bytes s \<and> (\<forall>e. v \<noteq> Fault e)" for m s v s'
  proof (induction "left_bytes s" arbitrary: m s rule: less_induct)
    case less
    obtain r s1 where r: "parse_round switch m s = (r, s1)" by (cases "parse_round switch m s")
    have s1: "left_bytes s1 \<le> left_bytes s" "\<forall>e. r \<noteq> Fault e"
      using round_tame r by (auto simp: tame_def)
    have eq: "resume merge (r, s1) = (v, s')" using less.prems merge [of m s] r by simp
    show ?case
    proof (cases r)
      case (Val st)
      show ?thesis
      proof (cases st)
        case (Loop m')
        then have "left_bytes s1 < left_bytes s" using round_shrinks r Val by blast
        then show ?thesis using less.hyps [of s1 m'] eq Val Loop by (simp add: resume_def)
      qed (use eq Val s1 in \<open>auto simp: resume_def\<close>)
    qed (use eq s1 in \<open>auto simp: resume_def\<close>)
  qed
  then show ?thesis by (simp add: tame_def)
qed

end

text \<open>Whatever the bytes are, a parse gives a message or \<open>false\<close>.\<close>

lemma ParseFromArray_no_fault:
  "(\<And>m. tame (merge m)) \<Longrightarrow> ParseFromArray clear merge data m \<noteq> Fault e"
  unfolding ParseFromArray_def tame_def
  by (cases "merge (clear m) (CodedInputStream data)") (auto split: out.splits)

section \<open>Values come back as they were written\<close>

locale wire_value =
  fixes rd :: "'a reader" and wr :: "'a \<Rightarrow> bytes" and fits :: "'a \<Rightarrow> bool"
  assumes rd_wr: "fits v \<Longrightarrow> buf s = wr v @ r \<Longrightarrow> rd s = (Val v, s\<lparr>buf := r\<rparr>)"
begin

lemma rd_then: "fits v \<Longrightarrow> buf s = wr v @ r \<Longrightarrow> rd_bind rd f s = f v (s\<lparr>buf := r\<rparr>)"
  by (simp add: rd_bind_def rd_wr)

end

lemma vdec_word: "buf s = venc (unat (w :: 'a::len word)) @ r \<Longrightarrow> LENGTH('a) \<le> 64 \<Longrightarrow>
   vdec 10 (buf s) = Some (unat w, r)"
proof -
  assume a: "buf s = venc (unat w) @ r" "LENGTH('a) \<le> 64"
  have "unat w < 2 ^ LENGTH('a)" by (rule unsigned_less)
  also have "\<dots> \<le> 2 ^ 64" using a(2) by (intro power_increasing) auto
  finally have "unat w < 128 ^ 10" by simp
  then show ?thesis using a vdec_venc [of "unat w" 10 r] by simp
qed

lemma sign_extended_back: "(of_nat (unat (scast (w :: 32 word) :: 64 word)) :: 32 word) = w"
proof -
  have "(ucast (scast w :: 64 word) :: 32 word) = w"
  proof (rule bit_word_eqI)
    fix n assume "n < LENGTH(32)"
    then have "n < 31 \<or> n = 31" by auto
    then show "bit (ucast (scast w :: 64 word) :: 32 word) n = bit w n"
      by (auto simp: bit_unsigned_iff bit_signed_iff min_def)
  qed
  then show ?thesis by simp
qed

interpretation uint32: wire_value ReadPrimitive_uint32 WriteVarint32ToArray "\<lambda>_. True"
proof
  fix v r and s :: istream assume "buf s = WriteVarint32ToArray v @ r"
  then show "ReadPrimitive_uint32 s = (Val v, s\<lparr>buf := r\<rparr>)"
    using vdec_word [of s v r] ReadVarint32_val(1) [of s "unat v" r]
    by (simp add: ReadPrimitive_uint32_def WriteVarint32ToArray_venc)
qed

interpretation int64: wire_value ReadPrimitive_int64 WriteVarint64ToArrayInline "\<lambda>_. True"
proof
  fix v r and s :: istream assume "buf s = WriteVarint64ToArrayInline v @ r"
  then show "ReadPrimitive_int64 s = (Val v, s\<lparr>buf := r\<rparr>)"
    using vdec_word [of s v r] ReadVarint64_val(1) [of s "unat v" r]
    by (simp add: ReadPrimitive_int64_def WriteVarint64ToArrayInline_venc rd_bind_def)
qed

interpretation int32: wire_value ReadPrimitive_int32 WriteVarint32SignExtendedToArray "\<lambda>_. True"
proof
  fix v r and s :: istream assume b: "buf s = WriteVarint32SignExtendedToArray v @ r"
  show "ReadPrimitive_int32 s = (Val v, s\<lparr>buf := r\<rparr>)"
  proof (cases "sint v < 0")
    case True
    then show ?thesis
      using b vdec_word [of s "scast v :: 64 word" r] ReadVarint32_val(1) [of s "unat (scast v :: 64 word)" r]
        sign_extended_back [of v]
      by (simp add: ReadPrimitive_int32_def WriteVarint32SignExtendedToArray_def
          WriteVarint64ToArrayInline_venc rd_bind_def del: of_nat_unat)
  next
    case False
    then show ?thesis
      using b uint32.rd_wr [of s v r]
      by (simp add: ReadPrimitive_int32_def ReadPrimitive_uint32_def WriteVarint32SignExtendedToArray_def rd_bind_def)
  qed
qed

interpretation bool: wire_value ReadPrimitive_bool "\<lambda>v. WriteVarint32ToArray (if v then 1 else 0)" "\<lambda>_. True"
proof
  fix v r and s :: istream assume "buf s = WriteVarint32ToArray (if v then 1 else 0) @ r"
  then show "ReadPrimitive_bool s = (Val v, s\<lparr>buf := r\<rparr>)"
    using vdec_word [of s "if v then 1 else 0 :: 32 word" r] ReadVarint64_val(1) [of s "if v then 1 else 0" r]
    by (cases v) (simp_all add: ReadPrimitive_bool_def WriteVarint32ToArray_venc rd_bind_def)
qed

interpretation bytes: wire_value ReadBytes WriteStringWithSizeToArray "\<lambda>v. length v < 2 ^ 31"
proof
  fix v :: bytes and r and s :: istream assume v: "length v < 2 ^ 31" "buf s = WriteStringWithSizeToArray v @ r"
  have len: "sint (of_nat (length v) :: 32 word) = int (length v)"
    using v(1) by (simp add: signed_of_nat signed_take_bit_int_eq_self)
  have "ReadVarint32 s = (Val (of_nat (length v)), s\<lparr>buf := v @ r\<rparr>)"
    using uint32.rd_wr [of s "of_nat (length v)" "v @ r"] v(2)
    by (simp add: ReadPrimitive_uint32_def WriteStringWithSizeToArray_def)
  then show "ReadBytes s = (Val v, s\<lparr>buf := r\<rparr>)"
    by (simp add: ReadBytes_def rd_bind_def ReadStringInline_def ReadRaw_def len)
qed

text \<open>A packed list.\<close>

definition WritePacked :: "64 word list \<Rightarrow> bytes" where
  "WritePacked xs = concat (map WriteVarint64ToArrayInline xs)"

lemma packed_loop_back:
  "buf s = WritePacked xs \<Longrightarrow>
     \<exists>vs'. packed_loop vs s = (Val vs', s\<lparr>buf := []\<rparr>) \<and> elems vs' = elems vs @ xs"
proof (induction xs arbitrary: s vs)
  case Nil
  then show ?case by (subst packed_loop.simps) (simp add: WritePacked_def)
next
  case (Cons x xs)
  have b: "buf s = WriteVarint64ToArrayInline x @ WritePacked xs" using Cons.prems by (simp add: WritePacked_def)
  then have "packed_loop vs s = packed_loop (Add x vs) (s\<lparr>buf := WritePacked xs\<rparr>)"
    using int64.rd_wr [OF _ b] by (subst packed_loop.simps) (simp add: WriteVarint64ToArrayInline_venc)
  then show ?case using Cons.IH [of "s\<lparr>buf := WritePacked xs\<rparr>" "Add x vs"] by auto
qed

lemma ReadVarintSizeAsInt_val:
  assumes "vdec 10 (buf s) = Some (v, r)" "v < 2 ^ 31"
  shows "ReadVarintSizeAsInt s = (Val v, s\<lparr>buf := r\<rparr>)"
proof -
  have v: "unat (of_nat v :: 64 word) = v" using assms(2) by (simp add: unat_of_nat)
  have "ReadVarintSizeAsIntFallback s = (Val v, s\<lparr>buf := r\<rparr>)"
    using assms ReadVarint64Fallback_val(1) [OF assms(1)] v
    by (simp add: ReadVarintSizeAsIntFallback_def ReadVarintSizeAsIntSlow_def fast_vsafe from_array_def
        ReadVarint64FromArray_val varint_val_simps rd_bind_def)
  then show ?thesis using assms(1)
    by (cases "buf s") (auto simp: ReadVarintSizeAsInt_def byte_less_128 split: if_splits)
qed

lemma packed_back:
  assumes "buf s = WriteVarint32ToArray (of_nat (length (WritePacked xs))) @ WritePacked xs @ r"
    and "length (WritePacked xs) < 2 ^ 31"
  shows "\<exists>vs'. ReadPackedPrimitive vs s = (Val vs', s\<lparr>buf := r, legit_end := False\<rparr>) \<and> elems vs' = elems vs @ xs"
proof -
  let ?n = "length (WritePacked xs)"
  have n: "unat (of_nat ?n :: 32 word) = ?n" using assms(2) by (simp add: unat_of_nat)
  have "vdec 10 (buf s) = Some (?n, WritePacked xs @ r)"
    using vdec_word [of s "of_nat ?n :: 32 word" "WritePacked xs @ r"] assms(1) n
    by (simp add: WriteVarint32ToArray_venc)
  then have len: "ReadVarintSizeAsInt s = (Val ?n, s\<lparr>buf := WritePacked xs @ r\<rparr>)"
    using assms(2) by (rule ReadVarintSizeAsInt_val)
  obtain vs' where "packed_loop vs (s\<lparr>buf := WritePacked xs, beyond := r @ beyond s\<rparr>) =
      (Val vs', s\<lparr>buf := [], beyond := r @ beyond s\<rparr>)" "elems vs' = elems vs @ xs"
    using packed_loop_back [of "s\<lparr>buf := WritePacked xs, beyond := r @ beyond s\<rparr>" xs vs] by auto
  then show ?thesis
    by (simp add: ReadPackedPrimitive_def rd_bind_def len PushLimit_def PopLimit_def Let_def)
qed

section \<open>Messages\<close>

definition parses :: "('m \<Rightarrow> 'm reader) \<Rightarrow> 'm step out \<times> istream \<Rightarrow> 'm \<Rightarrow> bool" where
  "parses merge r m \<longleftrightarrow> (\<exists>s. resume merge r = (Val m, s) \<and> legit_end s)"

lemma parses_at_end: "buf s = [] \<Longrightarrow> parses merge (then_at_end m s) m"
  by (simp add: parses_def then_at_end_def ExpectAtEnd_def resume_def)

lemma then_expect_hit:
  "buf s = b # r \<Longrightarrow> ucast b = tag \<Longrightarrow> tag < 0x80 \<Longrightarrow> then_expect tag nxt m s = nxt m (s\<lparr>buf := r\<rparr>)"
  by (simp add: then_expect_def ExpectTag_def)

lemma then_expect_miss:
  "buf s = [] \<or> ucast (hd (buf s)) \<noteq> tag \<Longrightarrow> tag < 0x80 \<Longrightarrow> then_expect tag nxt m s = (Val (Loop m), s)"
  by (auto simp: then_expect_def ExpectTag_def)

lemma parse_round_tag:
  "buf s = b # r \<Longrightarrow> 0 < b \<Longrightarrow> b < 0x80 \<Longrightarrow>
     parse_round switch m s = switch (ucast b) m (s\<lparr>last_tag := ucast b, buf := r\<rparr>)"
  by (simp add: parse_round_def rd_bind_def ReadTagWithCutoff_def)

lemma parses_round_end: "buf s = [] \<Longrightarrow> parses merge (parse_round switch m s) m"
  by (simp add: parse_round_def rd_bind_def ReadTagWithCutoff_def cutoff_slow_def ReadTagFallback_empty
      set_last_tag_def handle_unusual_def parses_def resume_def)

lemma parses_Loop:
  "(\<And>m s. merge m s = resume merge (parse_round switch m s)) \<Longrightarrow>
     parses merge (Val (Loop m), s) m' \<longleftrightarrow> parses merge (parse_round switch m s) m'"
  by (simp add: parses_def resume_def)

lemma tag_bytes:
  "WriteTagToArray (Suc 0) WIRETYPE_VARINT = [8]" "WriteTagToArray 2 WIRETYPE_VARINT = [16]"
  "WriteTagToArray 3 WIRETYPE_VARINT = [24]" "WriteTagToArray 2 WIRETYPE_LENGTH_DELIMITED = [18]"
  "WriteTagToArray 3 WIRETYPE_LENGTH_DELIMITED = [26]"
  by (simp_all add: WriteTagToArray_def MakeTag_def wire_number_def WriteVarint32ToArray.simps)

lemma tag_fields:
  "GetTagFieldNumber 0 = 0" "GetTagFieldNumber 8 = 1" "GetTagFieldNumber 16 = 2" "GetTagFieldNumber 18 = 2"
  "GetTagFieldNumber 24 = 3" "GetTagFieldNumber 26 = 3"
  by (simp_all add: GetTagFieldNumber_def)

locale wire_message =
  fixes clear :: "'m \<Rightarrow> 'm" and merge :: "'m \<Rightarrow> 'm reader" and byte_size :: "'m \<Rightarrow> nat"
    and wr :: "'m \<Rightarrow> bytes" and fits :: "'m \<Rightarrow> bool" and same :: "'m \<Rightarrow> 'm \<Rightarrow> bool"
  assumes size_write: "fits m \<Longrightarrow> byte_size m = length (wr m)"
    and merge_write: "fits m \<Longrightarrow>
      \<exists>m' s'. merge (clear m0) (CodedInputStream (wr m)) = (Val m', s') \<and> legit_end s' \<and> same m' m"
begin

lemma parse_write: "fits m \<Longrightarrow> \<exists>m'. ParseFromArray clear merge (wr m) m0 = Val m' \<and> same m' m"
  using merge_write [of m m0] by (auto simp: ParseFromArray_def)

lemma serialize_array: "fits m \<Longrightarrow>
   SerializePartialToArray byte_size wr m n = Inr (if n < length (wr m) then None else Some (wr m))"
  by (simp add: SerializePartialToArray_def size_write)

lemma serialize_string: "fits m \<Longrightarrow> length (wr m) < 2 ^ 31 \<Longrightarrow>
   SerializePartialAsString byte_size wr m = Inr (wr m)"
  by (simp add: SerializePartialAsString_def AppendPartialToString_def size_write)

end

end
