(* ===== verification/ProtoMsgs.thy ===== *)
theory ProtoMsgs
  imports MessageLite
begin

text \<open>
  The messages between logic servers and the WebSocket connection server, from the generated
  \<open>WSConnectionServer/proto/LogicServerWithConnectionServer.pb.cc\<close>. Per message: the fields,
  \<open>Clear\<close>, one definition per \<open>parse_\<close> label of the parse loop (the value read and the tag
  expected next), the switch, the loop, \<open>ByteSize\<close> and the bytes written by
  \<open>InternalSerializeWithCachedSizesToArray\<close>. Each parse loop interprets \<open>wire_parser\<close> and each message
  \<open>wire_message\<close>.
\<close>

section \<open>\<open>UpstreamACK\<close>\<close>

record UpstreamACK =
  up_msgid :: "32 word"
  up_data :: "bytes"
  up_clientid :: "64 word"

definition UpstreamACK_Clear :: "UpstreamACK \<Rightarrow> UpstreamACK" where
  "UpstreamACK_Clear m = m\<lparr>up_msgid := 0, up_data := [], up_clientid := 0\<rparr>"

definition UpstreamACK_parse_clientid :: "UpstreamACK \<Rightarrow> UpstreamACK step reader" where
  "UpstreamACK_parse_clientid m = rd_bind ReadPrimitive_int64
     (\<lambda>v. then_at_end (m\<lparr>up_clientid := v\<rparr>))"

definition UpstreamACK_parse_data :: "UpstreamACK \<Rightarrow> UpstreamACK step reader" where
  "UpstreamACK_parse_data m = rd_bind ReadBytes
     (\<lambda>v. then_expect 24 UpstreamACK_parse_clientid (m\<lparr>up_data := v\<rparr>))"

definition UpstreamACK_parse_msgid :: "UpstreamACK \<Rightarrow> UpstreamACK step reader" where
  "UpstreamACK_parse_msgid m = rd_bind ReadPrimitive_uint32
     (\<lambda>v. then_expect 18 UpstreamACK_parse_data (m\<lparr>up_msgid := v\<rparr>))"

definition UpstreamACK_switch :: "32 word \<Rightarrow> UpstreamACK \<Rightarrow> UpstreamACK step reader" where
  "UpstreamACK_switch tag m = (let field = GetTagFieldNumber tag in
     if field = 1 then (if tag = 8 then UpstreamACK_parse_msgid m else handle_unusual tag m)
     else if field = 2 then (if tag = 18 then UpstreamACK_parse_data m else handle_unusual tag m)
     else if field = 3 then (if tag = 24 then UpstreamACK_parse_clientid m else handle_unusual tag m)
     else handle_unusual tag m)"

interpretation up_parser: wire_parser UpstreamACK_switch
proof
  show "tame (UpstreamACK_switch tag m)" for tag m
    unfolding UpstreamACK_switch_def Let_def UpstreamACK_parse_msgid_def UpstreamACK_parse_data_def UpstreamACK_parse_clientid_def
    by (auto intro!: tame_intros)
  show "UpstreamACK_switch 0 m s = (Val (Stop m), s)" for m s
    by (simp add: UpstreamACK_switch_def tag_fields handle_unusual_def)
qed

function UpstreamACK_MergePartial :: "UpstreamACK \<Rightarrow> istream \<Rightarrow> UpstreamACK out \<times> istream" where
  "UpstreamACK_MergePartial m s = (case parse_round UpstreamACK_switch m s of
       (Val (Loop m'), s1) \<Rightarrow> UpstreamACK_MergePartial m' s1
     | (Val (Stop m'), s1) \<Rightarrow> (Val m', s1)
     | (Failed, s1) \<Rightarrow> (Failed, s1)
     | (Fault e, s1) \<Rightarrow> (Fault e, s1))"
  by pat_completeness auto
termination
  by (relation "measure (\<lambda>(m, s). left_bytes s)") (auto dest: sym dest!: up_parser.round_shrinks)

declare UpstreamACK_MergePartial.simps [simp del]

lemma UpstreamACK_merge: "UpstreamACK_MergePartial m s = resume UpstreamACK_MergePartial (parse_round UpstreamACK_switch m s)"
  by (subst UpstreamACK_MergePartial.simps) (simp add: resume_def)

definition UpstreamACK_ByteSize :: "UpstreamACK \<Rightarrow> nat" where
  "UpstreamACK_ByteSize m =
     (if up_msgid m \<noteq> 0 then 1 + VarintSize32 (up_msgid m) else 0)
     + (if up_data m \<noteq> [] then 1 + BytesSize (up_data m) else 0)
     + (if up_clientid m \<noteq> 0 then 1 + VarintSize64 (up_clientid m) else 0)"

definition UpstreamACK_Write :: "UpstreamACK \<Rightarrow> bytes" where
  "UpstreamACK_Write m =
     (if up_msgid m \<noteq> 0 then WriteUInt32ToArray 1 (up_msgid m) else [])
     @ (if up_data m \<noteq> [] then WriteBytesToArray 2 (up_data m) else [])
     @ (if up_clientid m \<noteq> 0 then WriteInt64ToArray 3 (up_clientid m) else [])"

section \<open>\<open>CloseClientACK\<close>\<close>

record CloseClientACK =
  close_clientid :: "64 word"

definition CloseClientACK_Clear :: "CloseClientACK \<Rightarrow> CloseClientACK" where
  "CloseClientACK_Clear m = m\<lparr>close_clientid := 0\<rparr>"

definition CloseClientACK_parse_clientid :: "CloseClientACK \<Rightarrow> CloseClientACK step reader" where
  "CloseClientACK_parse_clientid m = rd_bind ReadPrimitive_int64
     (\<lambda>v. then_at_end (m\<lparr>close_clientid := v\<rparr>))"

definition CloseClientACK_switch :: "32 word \<Rightarrow> CloseClientACK \<Rightarrow> CloseClientACK step reader" where
  "CloseClientACK_switch tag m = (let field = GetTagFieldNumber tag in
     if field = 1 then (if tag = 8 then CloseClientACK_parse_clientid m else handle_unusual tag m)
     else handle_unusual tag m)"

interpretation close_parser: wire_parser CloseClientACK_switch
proof
  show "tame (CloseClientACK_switch tag m)" for tag m
    unfolding CloseClientACK_switch_def Let_def CloseClientACK_parse_clientid_def
    by (auto intro!: tame_intros)
  show "CloseClientACK_switch 0 m s = (Val (Stop m), s)" for m s
    by (simp add: CloseClientACK_switch_def tag_fields handle_unusual_def)
qed

function CloseClientACK_MergePartial :: "CloseClientACK \<Rightarrow> istream \<Rightarrow> CloseClientACK out \<times> istream" where
  "CloseClientACK_MergePartial m s = (case parse_round CloseClientACK_switch m s of
       (Val (Loop m'), s1) \<Rightarrow> CloseClientACK_MergePartial m' s1
     | (Val (Stop m'), s1) \<Rightarrow> (Val m', s1)
     | (Failed, s1) \<Rightarrow> (Failed, s1)
     | (Fault e, s1) \<Rightarrow> (Fault e, s1))"
  by pat_completeness auto
termination
  by (relation "measure (\<lambda>(m, s). left_bytes s)") (auto dest: sym dest!: close_parser.round_shrinks)

declare CloseClientACK_MergePartial.simps [simp del]

lemma CloseClientACK_merge: "CloseClientACK_MergePartial m s = resume CloseClientACK_MergePartial (parse_round CloseClientACK_switch m s)"
  by (subst CloseClientACK_MergePartial.simps) (simp add: resume_def)

definition CloseClientACK_ByteSize :: "CloseClientACK \<Rightarrow> nat" where
  "CloseClientACK_ByteSize m =
     (if close_clientid m \<noteq> 0 then 1 + VarintSize64 (close_clientid m) else 0)"

definition CloseClientACK_Write :: "CloseClientACK \<Rightarrow> bytes" where
  "CloseClientACK_Write m =
     (if close_clientid m \<noteq> 0 then WriteInt64ToArray 1 (close_clientid m) else [])"

section \<open>\<open>DownstreamACK\<close>\<close>

record DownstreamACK =
  down_msgid :: "32 word"
  down_data :: "bytes"
  down_clientid :: "repeated"

definition DownstreamACK_Clear :: "DownstreamACK \<Rightarrow> DownstreamACK" where
  "DownstreamACK_Clear m = m\<lparr>down_msgid := 0, down_data := [], down_clientid := Clear_repeated (down_clientid m)\<rparr>"

definition DownstreamACK_parse_clientid :: "DownstreamACK \<Rightarrow> DownstreamACK step reader" where
  "DownstreamACK_parse_clientid m = rd_bind (ReadPackedPrimitive (down_clientid m))
     (\<lambda>v. then_at_end (m\<lparr>down_clientid := v\<rparr>))"

definition DownstreamACK_parse_clientid_unpacked :: "DownstreamACK \<Rightarrow> DownstreamACK step reader" where
  "DownstreamACK_parse_clientid_unpacked m = rd_bind (ReadRepeatedPrimitive 26 (down_clientid m))
     (\<lambda>v. then_at_end (m\<lparr>down_clientid := v\<rparr>))"

definition DownstreamACK_parse_data :: "DownstreamACK \<Rightarrow> DownstreamACK step reader" where
  "DownstreamACK_parse_data m = rd_bind ReadBytes
     (\<lambda>v. then_expect 26 DownstreamACK_parse_clientid (m\<lparr>down_data := v\<rparr>))"

definition DownstreamACK_parse_msgid :: "DownstreamACK \<Rightarrow> DownstreamACK step reader" where
  "DownstreamACK_parse_msgid m = rd_bind ReadPrimitive_uint32
     (\<lambda>v. then_expect 18 DownstreamACK_parse_data (m\<lparr>down_msgid := v\<rparr>))"

definition DownstreamACK_switch :: "32 word \<Rightarrow> DownstreamACK \<Rightarrow> DownstreamACK step reader" where
  "DownstreamACK_switch tag m = (let field = GetTagFieldNumber tag in
     if field = 1 then (if tag = 8 then DownstreamACK_parse_msgid m else handle_unusual tag m)
     else if field = 2 then (if tag = 18 then DownstreamACK_parse_data m else handle_unusual tag m)
     else if field = 3 then (if tag = 26 then DownstreamACK_parse_clientid m
       else if tag = 24 then DownstreamACK_parse_clientid_unpacked m else handle_unusual tag m)
     else handle_unusual tag m)"

interpretation down_parser: wire_parser DownstreamACK_switch
proof
  show "tame (DownstreamACK_switch tag m)" for tag m
    unfolding DownstreamACK_switch_def Let_def DownstreamACK_parse_msgid_def DownstreamACK_parse_data_def DownstreamACK_parse_clientid_def DownstreamACK_parse_clientid_unpacked_def
    by (auto intro!: tame_intros)
  show "DownstreamACK_switch 0 m s = (Val (Stop m), s)" for m s
    by (simp add: DownstreamACK_switch_def tag_fields handle_unusual_def)
qed

function DownstreamACK_MergePartial :: "DownstreamACK \<Rightarrow> istream \<Rightarrow> DownstreamACK out \<times> istream" where
  "DownstreamACK_MergePartial m s = (case parse_round DownstreamACK_switch m s of
       (Val (Loop m'), s1) \<Rightarrow> DownstreamACK_MergePartial m' s1
     | (Val (Stop m'), s1) \<Rightarrow> (Val m', s1)
     | (Failed, s1) \<Rightarrow> (Failed, s1)
     | (Fault e, s1) \<Rightarrow> (Fault e, s1))"
  by pat_completeness auto
termination
  by (relation "measure (\<lambda>(m, s). left_bytes s)") (auto dest: sym dest!: down_parser.round_shrinks)

declare DownstreamACK_MergePartial.simps [simp del]

lemma DownstreamACK_merge: "DownstreamACK_MergePartial m s = resume DownstreamACK_MergePartial (parse_round DownstreamACK_switch m s)"
  by (subst DownstreamACK_MergePartial.simps) (simp add: resume_def)

text \<open>\<open>_clientid_cached_byte_size_\<close>, set by \<open>ByteSize\<close> just before the bytes are written.\<close>

definition clientid_bytes :: "DownstreamACK \<Rightarrow> nat" where
  "clientid_bytes m = sum_list (map VarintSize64 (elems (down_clientid m)))"

definition DownstreamACK_ByteSize :: "DownstreamACK \<Rightarrow> nat" where
  "DownstreamACK_ByteSize m =
     (if down_msgid m \<noteq> 0 then 1 + VarintSize32 (down_msgid m) else 0)
     + (if down_data m \<noteq> [] then 1 + BytesSize (down_data m) else 0)
     + (if clientid_bytes m > 0 then 1 + VarintSize32SignExtended (of_nat (clientid_bytes m)) else 0)
     + clientid_bytes m"

definition DownstreamACK_Write :: "DownstreamACK \<Rightarrow> bytes" where
  "DownstreamACK_Write m =
     (if down_msgid m \<noteq> 0 then WriteUInt32ToArray 1 (down_msgid m) else [])
     @ (if down_data m \<noteq> [] then WriteBytesToArray 2 (down_data m) else [])
     @ (if elems (down_clientid m) \<noteq> [] then WriteTagToArray 3 WIRETYPE_LENGTH_DELIMITED @ WriteVarint32ToArray (of_nat (clientid_bytes m)) else [])
     @ concat (map WriteVarint64ToArrayInline (elems (down_clientid m)))"

section \<open>\<open>LogicServerLogin\<close>\<close>

record LogicServerLogin =
  login_id :: "32 word"
  login_isprimary :: "bool"

definition LogicServerLogin_Clear :: "LogicServerLogin \<Rightarrow> LogicServerLogin" where
  "LogicServerLogin_Clear m = m\<lparr>login_id := 0, login_isprimary := False\<rparr>"

definition LogicServerLogin_parse_isprimary :: "LogicServerLogin \<Rightarrow> LogicServerLogin step reader" where
  "LogicServerLogin_parse_isprimary m = rd_bind ReadPrimitive_bool
     (\<lambda>v. then_at_end (m\<lparr>login_isprimary := v\<rparr>))"

definition LogicServerLogin_parse_id :: "LogicServerLogin \<Rightarrow> LogicServerLogin step reader" where
  "LogicServerLogin_parse_id m = rd_bind ReadPrimitive_int32
     (\<lambda>v. then_expect 16 LogicServerLogin_parse_isprimary (m\<lparr>login_id := v\<rparr>))"

definition LogicServerLogin_switch :: "32 word \<Rightarrow> LogicServerLogin \<Rightarrow> LogicServerLogin step reader" where
  "LogicServerLogin_switch tag m = (let field = GetTagFieldNumber tag in
     if field = 1 then (if tag = 8 then LogicServerLogin_parse_id m else handle_unusual tag m)
     else if field = 2 then (if tag = 16 then LogicServerLogin_parse_isprimary m else handle_unusual tag m)
     else handle_unusual tag m)"

interpretation login_parser: wire_parser LogicServerLogin_switch
proof
  show "tame (LogicServerLogin_switch tag m)" for tag m
    unfolding LogicServerLogin_switch_def Let_def LogicServerLogin_parse_id_def LogicServerLogin_parse_isprimary_def
    by (auto intro!: tame_intros)
  show "LogicServerLogin_switch 0 m s = (Val (Stop m), s)" for m s
    by (simp add: LogicServerLogin_switch_def tag_fields handle_unusual_def)
qed

function LogicServerLogin_MergePartial :: "LogicServerLogin \<Rightarrow> istream \<Rightarrow> LogicServerLogin out \<times> istream" where
  "LogicServerLogin_MergePartial m s = (case parse_round LogicServerLogin_switch m s of
       (Val (Loop m'), s1) \<Rightarrow> LogicServerLogin_MergePartial m' s1
     | (Val (Stop m'), s1) \<Rightarrow> (Val m', s1)
     | (Failed, s1) \<Rightarrow> (Failed, s1)
     | (Fault e, s1) \<Rightarrow> (Fault e, s1))"
  by pat_completeness auto
termination
  by (relation "measure (\<lambda>(m, s). left_bytes s)") (auto dest: sym dest!: login_parser.round_shrinks)

declare LogicServerLogin_MergePartial.simps [simp del]

lemma LogicServerLogin_merge: "LogicServerLogin_MergePartial m s = resume LogicServerLogin_MergePartial (parse_round LogicServerLogin_switch m s)"
  by (subst LogicServerLogin_MergePartial.simps) (simp add: resume_def)

definition LogicServerLogin_ByteSize :: "LogicServerLogin \<Rightarrow> nat" where
  "LogicServerLogin_ByteSize m =
     (if login_id m \<noteq> 0 then 1 + VarintSize32SignExtended (login_id m) else 0)
     + (if login_isprimary m then 1 + 1 else 0)"

definition LogicServerLogin_Write :: "LogicServerLogin \<Rightarrow> bytes" where
  "LogicServerLogin_Write m =
     (if login_id m \<noteq> 0 then WriteInt32ToArray 1 (login_id m) else [])
     @ (if login_isprimary m then WriteBoolToArray 2 (login_isprimary m) else [])"

section \<open>\<open>LogicServerLoginReply\<close>\<close>

record LogicServerLoginReply =
  reply_issuccess :: "bool"
  reply_id :: "32 word"

definition LogicServerLoginReply_Clear :: "LogicServerLoginReply \<Rightarrow> LogicServerLoginReply" where
  "LogicServerLoginReply_Clear m = m\<lparr>reply_issuccess := False, reply_id := 0\<rparr>"

definition LogicServerLoginReply_parse_id :: "LogicServerLoginReply \<Rightarrow> LogicServerLoginReply step reader" where
  "LogicServerLoginReply_parse_id m = rd_bind ReadPrimitive_int32
     (\<lambda>v. then_at_end (m\<lparr>reply_id := v\<rparr>))"

definition LogicServerLoginReply_parse_issuccess :: "LogicServerLoginReply \<Rightarrow> LogicServerLoginReply step reader" where
  "LogicServerLoginReply_parse_issuccess m = rd_bind ReadPrimitive_bool
     (\<lambda>v. then_expect 16 LogicServerLoginReply_parse_id (m\<lparr>reply_issuccess := v\<rparr>))"

definition LogicServerLoginReply_switch :: "32 word \<Rightarrow> LogicServerLoginReply \<Rightarrow> LogicServerLoginReply step reader" where
  "LogicServerLoginReply_switch tag m = (let field = GetTagFieldNumber tag in
     if field = 1 then (if tag = 8 then LogicServerLoginReply_parse_issuccess m else handle_unusual tag m)
     else if field = 2 then (if tag = 16 then LogicServerLoginReply_parse_id m else handle_unusual tag m)
     else handle_unusual tag m)"

interpretation reply_parser: wire_parser LogicServerLoginReply_switch
proof
  show "tame (LogicServerLoginReply_switch tag m)" for tag m
    unfolding LogicServerLoginReply_switch_def Let_def LogicServerLoginReply_parse_issuccess_def LogicServerLoginReply_parse_id_def
    by (auto intro!: tame_intros)
  show "LogicServerLoginReply_switch 0 m s = (Val (Stop m), s)" for m s
    by (simp add: LogicServerLoginReply_switch_def tag_fields handle_unusual_def)
qed

function LogicServerLoginReply_MergePartial :: "LogicServerLoginReply \<Rightarrow> istream \<Rightarrow> LogicServerLoginReply out \<times> istream" where
  "LogicServerLoginReply_MergePartial m s = (case parse_round LogicServerLoginReply_switch m s of
       (Val (Loop m'), s1) \<Rightarrow> LogicServerLoginReply_MergePartial m' s1
     | (Val (Stop m'), s1) \<Rightarrow> (Val m', s1)
     | (Failed, s1) \<Rightarrow> (Failed, s1)
     | (Fault e, s1) \<Rightarrow> (Fault e, s1))"
  by pat_completeness auto
termination
  by (relation "measure (\<lambda>(m, s). left_bytes s)") (auto dest: sym dest!: reply_parser.round_shrinks)

declare LogicServerLoginReply_MergePartial.simps [simp del]

lemma LogicServerLoginReply_merge: "LogicServerLoginReply_MergePartial m s = resume LogicServerLoginReply_MergePartial (parse_round LogicServerLoginReply_switch m s)"
  by (subst LogicServerLoginReply_MergePartial.simps) (simp add: resume_def)

definition LogicServerLoginReply_ByteSize :: "LogicServerLoginReply \<Rightarrow> nat" where
  "LogicServerLoginReply_ByteSize m =
     (if reply_issuccess m then 1 + 1 else 0)
     + (if reply_id m \<noteq> 0 then 1 + VarintSize32SignExtended (reply_id m) else 0)"

definition LogicServerLoginReply_Write :: "LogicServerLoginReply \<Rightarrow> bytes" where
  "LogicServerLoginReply_Write m =
     (if reply_issuccess m then WriteBoolToArray 1 (reply_issuccess m) else [])
     @ (if reply_id m \<noteq> 0 then WriteInt32ToArray 2 (reply_id m) else [])"

section \<open>\<open>LogicServerKickPlayer\<close>\<close>

record LogicServerKickPlayer =
  kick_roleruntimeid :: "64 word"

definition LogicServerKickPlayer_Clear :: "LogicServerKickPlayer \<Rightarrow> LogicServerKickPlayer" where
  "LogicServerKickPlayer_Clear m = m\<lparr>kick_roleruntimeid := 0\<rparr>"

definition LogicServerKickPlayer_parse_roleruntimeid :: "LogicServerKickPlayer \<Rightarrow> LogicServerKickPlayer step reader" where
  "LogicServerKickPlayer_parse_roleruntimeid m = rd_bind ReadPrimitive_int64
     (\<lambda>v. then_at_end (m\<lparr>kick_roleruntimeid := v\<rparr>))"

definition LogicServerKickPlayer_switch :: "32 word \<Rightarrow> LogicServerKickPlayer \<Rightarrow> LogicServerKickPlayer step reader" where
  "LogicServerKickPlayer_switch tag m = (let field = GetTagFieldNumber tag in
     if field = 1 then (if tag = 8 then LogicServerKickPlayer_parse_roleruntimeid m else handle_unusual tag m)
     else handle_unusual tag m)"

interpretation kick_parser: wire_parser LogicServerKickPlayer_switch
proof
  show "tame (LogicServerKickPlayer_switch tag m)" for tag m
    unfolding LogicServerKickPlayer_switch_def Let_def LogicServerKickPlayer_parse_roleruntimeid_def
    by (auto intro!: tame_intros)
  show "LogicServerKickPlayer_switch 0 m s = (Val (Stop m), s)" for m s
    by (simp add: LogicServerKickPlayer_switch_def tag_fields handle_unusual_def)
qed

function LogicServerKickPlayer_MergePartial :: "LogicServerKickPlayer \<Rightarrow> istream \<Rightarrow> LogicServerKickPlayer out \<times> istream" where
  "LogicServerKickPlayer_MergePartial m s = (case parse_round LogicServerKickPlayer_switch m s of
       (Val (Loop m'), s1) \<Rightarrow> LogicServerKickPlayer_MergePartial m' s1
     | (Val (Stop m'), s1) \<Rightarrow> (Val m', s1)
     | (Failed, s1) \<Rightarrow> (Failed, s1)
     | (Fault e, s1) \<Rightarrow> (Fault e, s1))"
  by pat_completeness auto
termination
  by (relation "measure (\<lambda>(m, s). left_bytes s)") (auto dest: sym dest!: kick_parser.round_shrinks)

declare LogicServerKickPlayer_MergePartial.simps [simp del]

lemma LogicServerKickPlayer_merge: "LogicServerKickPlayer_MergePartial m s = resume LogicServerKickPlayer_MergePartial (parse_round LogicServerKickPlayer_switch m s)"
  by (subst LogicServerKickPlayer_MergePartial.simps) (simp add: resume_def)

definition LogicServerKickPlayer_ByteSize :: "LogicServerKickPlayer \<Rightarrow> nat" where
  "LogicServerKickPlayer_ByteSize m =
     (if kick_roleruntimeid m \<noteq> 0 then 1 + VarintSize64 (kick_roleruntimeid m) else 0)"

definition LogicServerKickPlayer_Write :: "LogicServerKickPlayer \<Rightarrow> bytes" where
  "LogicServerKickPlayer_Write m =
     (if kick_roleruntimeid m \<noteq> 0 then WriteInt64ToArray 1 (kick_roleruntimeid m) else [])"

section \<open>\<open>LogicServerSetRoleSlave\<close>\<close>

record LogicServerSetRoleSlave =
  slave_roleruntimeid :: "64 word"
  slave_willset :: "bool"

definition LogicServerSetRoleSlave_Clear :: "LogicServerSetRoleSlave \<Rightarrow> LogicServerSetRoleSlave" where
  "LogicServerSetRoleSlave_Clear m = m\<lparr>slave_roleruntimeid := 0, slave_willset := False\<rparr>"

definition LogicServerSetRoleSlave_parse_willset :: "LogicServerSetRoleSlave \<Rightarrow> LogicServerSetRoleSlave step reader" where
  "LogicServerSetRoleSlave_parse_willset m = rd_bind ReadPrimitive_bool
     (\<lambda>v. then_at_end (m\<lparr>slave_willset := v\<rparr>))"

definition LogicServerSetRoleSlave_parse_roleruntimeid :: "LogicServerSetRoleSlave \<Rightarrow> LogicServerSetRoleSlave step reader" where
  "LogicServerSetRoleSlave_parse_roleruntimeid m = rd_bind ReadPrimitive_int64
     (\<lambda>v. then_expect 16 LogicServerSetRoleSlave_parse_willset (m\<lparr>slave_roleruntimeid := v\<rparr>))"

definition LogicServerSetRoleSlave_switch :: "32 word \<Rightarrow> LogicServerSetRoleSlave \<Rightarrow> LogicServerSetRoleSlave step reader" where
  "LogicServerSetRoleSlave_switch tag m = (let field = GetTagFieldNumber tag in
     if field = 1 then (if tag = 8 then LogicServerSetRoleSlave_parse_roleruntimeid m else handle_unusual tag m)
     else if field = 2 then (if tag = 16 then LogicServerSetRoleSlave_parse_willset m else handle_unusual tag m)
     else handle_unusual tag m)"

interpretation slave_parser: wire_parser LogicServerSetRoleSlave_switch
proof
  show "tame (LogicServerSetRoleSlave_switch tag m)" for tag m
    unfolding LogicServerSetRoleSlave_switch_def Let_def LogicServerSetRoleSlave_parse_roleruntimeid_def LogicServerSetRoleSlave_parse_willset_def
    by (auto intro!: tame_intros)
  show "LogicServerSetRoleSlave_switch 0 m s = (Val (Stop m), s)" for m s
    by (simp add: LogicServerSetRoleSlave_switch_def tag_fields handle_unusual_def)
qed

function LogicServerSetRoleSlave_MergePartial :: "LogicServerSetRoleSlave \<Rightarrow> istream \<Rightarrow> LogicServerSetRoleSlave out \<times> istream" where
  "LogicServerSetRoleSlave_MergePartial m s = (case parse_round LogicServerSetRoleSlave_switch m s of
       (Val (Loop m'), s1) \<Rightarrow> LogicServerSetRoleSlave_MergePartial m' s1
     | (Val (Stop m'), s1) \<Rightarrow> (Val m', s1)
     | (Failed, s1) \<Rightarrow> (Failed, s1)
     | (Fault e, s1) \<Rightarrow> (Fault e, s1))"
  by pat_completeness auto
termination
  by (relation "measure (\<lambda>(m, s). left_bytes s)") (auto dest: sym dest!: slave_parser.round_shrinks)

declare LogicServerSetRoleSlave_MergePartial.simps [simp del]

lemma LogicServerSetRoleSlave_merge: "LogicServerSetRoleSlave_MergePartial m s = resume LogicServerSetRoleSlave_MergePartial (parse_round LogicServerSetRoleSlave_switch m s)"
  by (subst LogicServerSetRoleSlave_MergePartial.simps) (simp add: resume_def)

definition LogicServerSetRoleSlave_ByteSize :: "LogicServerSetRoleSlave \<Rightarrow> nat" where
  "LogicServerSetRoleSlave_ByteSize m =
     (if slave_roleruntimeid m \<noteq> 0 then 1 + VarintSize64 (slave_roleruntimeid m) else 0)
     + (if slave_willset m then 1 + 1 else 0)"

definition LogicServerSetRoleSlave_Write :: "LogicServerSetRoleSlave \<Rightarrow> bytes" where
  "LogicServerSetRoleSlave_Write m =
     (if slave_roleruntimeid m \<noteq> 0 then WriteInt64ToArray 1 (slave_roleruntimeid m) else [])
     @ (if slave_willset m then WriteBoolToArray 2 (slave_willset m) else [])"

section \<open>\<open>LogicServerSetRolePrimary\<close>\<close>

record LogicServerSetRolePrimary =
  prim_roleruntimeid :: "64 word"

definition LogicServerSetRolePrimary_Clear :: "LogicServerSetRolePrimary \<Rightarrow> LogicServerSetRolePrimary" where
  "LogicServerSetRolePrimary_Clear m = m\<lparr>prim_roleruntimeid := 0\<rparr>"

definition LogicServerSetRolePrimary_parse_roleruntimeid :: "LogicServerSetRolePrimary \<Rightarrow> LogicServerSetRolePrimary step reader" where
  "LogicServerSetRolePrimary_parse_roleruntimeid m = rd_bind ReadPrimitive_int64
     (\<lambda>v. then_at_end (m\<lparr>prim_roleruntimeid := v\<rparr>))"

definition LogicServerSetRolePrimary_switch :: "32 word \<Rightarrow> LogicServerSetRolePrimary \<Rightarrow> LogicServerSetRolePrimary step reader" where
  "LogicServerSetRolePrimary_switch tag m = (let field = GetTagFieldNumber tag in
     if field = 1 then (if tag = 8 then LogicServerSetRolePrimary_parse_roleruntimeid m else handle_unusual tag m)
     else handle_unusual tag m)"

interpretation prim_parser: wire_parser LogicServerSetRolePrimary_switch
proof
  show "tame (LogicServerSetRolePrimary_switch tag m)" for tag m
    unfolding LogicServerSetRolePrimary_switch_def Let_def LogicServerSetRolePrimary_parse_roleruntimeid_def
    by (auto intro!: tame_intros)
  show "LogicServerSetRolePrimary_switch 0 m s = (Val (Stop m), s)" for m s
    by (simp add: LogicServerSetRolePrimary_switch_def tag_fields handle_unusual_def)
qed

function LogicServerSetRolePrimary_MergePartial :: "LogicServerSetRolePrimary \<Rightarrow> istream \<Rightarrow> LogicServerSetRolePrimary out \<times> istream" where
  "LogicServerSetRolePrimary_MergePartial m s = (case parse_round LogicServerSetRolePrimary_switch m s of
       (Val (Loop m'), s1) \<Rightarrow> LogicServerSetRolePrimary_MergePartial m' s1
     | (Val (Stop m'), s1) \<Rightarrow> (Val m', s1)
     | (Failed, s1) \<Rightarrow> (Failed, s1)
     | (Fault e, s1) \<Rightarrow> (Fault e, s1))"
  by pat_completeness auto
termination
  by (relation "measure (\<lambda>(m, s). left_bytes s)") (auto dest: sym dest!: prim_parser.round_shrinks)

declare LogicServerSetRolePrimary_MergePartial.simps [simp del]

lemma LogicServerSetRolePrimary_merge: "LogicServerSetRolePrimary_MergePartial m s = resume LogicServerSetRolePrimary_MergePartial (parse_round LogicServerSetRolePrimary_switch m s)"
  by (subst LogicServerSetRolePrimary_MergePartial.simps) (simp add: resume_def)

definition LogicServerSetRolePrimary_ByteSize :: "LogicServerSetRolePrimary \<Rightarrow> nat" where
  "LogicServerSetRolePrimary_ByteSize m =
     (if prim_roleruntimeid m \<noteq> 0 then 1 + VarintSize64 (prim_roleruntimeid m) else 0)"

definition LogicServerSetRolePrimary_Write :: "LogicServerSetRolePrimary \<Rightarrow> bytes" where
  "LogicServerSetRolePrimary_Write m =
     (if prim_roleruntimeid m \<noteq> 0 then WriteInt64ToArray 1 (prim_roleruntimeid m) else [])"

end
