(* ===== verification/ProtoRoundTrip.thy ===== *)
theory ProtoRoundTrip
  imports ProtoMsgs
begin

text \<open>
  The messages of \<open>ProtoMsgs\<close> come back as they were written, whichever fields are set: per
  field, what its \<open>parse_\<close> label does with the bytes of this field and the later ones
  (\<open>takes\<close>) and what the loop does with the bytes from this field on (\<open>from\<close>). Then the
  interpretation of \<open>wire_message\<close>.
\<close>

section \<open>Sizes\<close>

lemma mod_negative: "- (2 ^ 31) \<le> k \<Longrightarrow> k < 0 \<Longrightarrow> (k :: int) mod 2 ^ 64 = k + 2 ^ 64"
proof -
  assume k: "- (2 ^ 31) \<le> k" "k < 0"
  have "(k + 2 ^ 64) mod 2 ^ 64 = k + 2 ^ 64"
    by (rule mod_pos_pos_trivial) (use k in simp_all)
  then show ?thesis by (simp only: mod_add_self2)
qed

lemma wide_negative: "- (2 ^ 31) \<le> k \<Longrightarrow> (2 :: int) ^ 63 \<le> k + 2 ^ 64"
  by simp

lemma scast_negative:
  assumes "sint (w :: 32 word) < 0"
  shows "2 ^ 63 \<le> unat (scast w :: 64 word)"
proof -
  have ge: "- (2 ^ 31) \<le> sint w" using sint_ge [of w] by simp
  have "uint (scast w :: 64 word) = sint w mod 2 ^ 64"
    by (simp only: scast_eq uint_word_of_int) simp
  then have "2 ^ 63 \<le> uint (scast w :: 64 word)"
    using mod_negative [OF ge assms] wide_negative [OF ge] by (simp only:)
  then have "nat (2 ^ 63) \<le> nat (uint (scast w :: 64 word))" by (rule nat_mono)
  then show ?thesis by (simp only: unat_eq_nat_uint nat_power_eq [of 2] nat_numeral)
qed

lemma length_sign_extended: "length (WriteVarint32SignExtendedToArray v) = VarintSize32SignExtended v"
proof (cases "sint v < 0")
  case True
  have "unat (scast v :: 64 word) < 2 ^ 64" by (rule order_less_le_trans [OF unsigned_less]) simp
  then show ?thesis using True scast_negative [OF True]
    by (simp add: WriteVarint32SignExtendedToArray_def VarintSize32SignExtended_def
        WriteVarint64ToArrayInline_venc length_venc [of _ 10])
qed (simp add: WriteVarint32SignExtendedToArray_def VarintSize32SignExtended_def WriteVarint32ToArray_venc VarintSize32_venc)

lemma wire_sizes:
  "length (WriteUInt32ToArray (Suc 0) v) = 1 + VarintSize32 v"
  "length (WriteInt32ToArray (Suc 0) v) = 1 + VarintSize32SignExtended v"
  "length (WriteInt32ToArray 2 v) = 1 + VarintSize32SignExtended v"
  "length (WriteInt64ToArray (Suc 0) w) = 1 + VarintSize64 w"
  "length (WriteInt64ToArray 3 w) = 1 + VarintSize64 w"
  "length (WriteBoolToArray (Suc 0) b) = 2" "length (WriteBoolToArray 2 b) = 2"
  "length (WriteBytesToArray 2 x) = 1 + BytesSize x"
  by (simp_all add: WriteUInt32ToArray_def WriteInt32ToArray_def WriteInt64ToArray_def WriteBoolToArray_def
      WriteBytesToArray_def WriteStringWithSizeToArray_def BytesSize_def tag_bytes length_sign_extended
      WriteVarint32ToArray_venc VarintSize32_venc WriteVarint64ToArrayInline_venc VarintSize64_venc venc_small)

section \<open>\<open>UpstreamACK\<close>\<close>

lemma UpstreamACK_takes_clientid:
  fixes m M :: UpstreamACK and s :: istream
  shows "buf s = WriteVarint64ToArrayInline (up_clientid M) \<Longrightarrow>
     parses UpstreamACK_MergePartial (UpstreamACK_parse_clientid m s) (m\<lparr>up_clientid := up_clientid M\<rparr>)"
  using int64.rd_then [where v = "up_clientid M" and s = s and r = "[]" and f = "\<lambda>v. then_at_end (m\<lparr>up_clientid := v\<rparr>)"]
  by (simp add: UpstreamACK_parse_clientid_def parses_at_end)

lemma UpstreamACK_from_clientid:
  fixes m M :: UpstreamACK and s :: istream
  shows "up_clientid m = 0 \<Longrightarrow> buf s = (if up_clientid M \<noteq> 0 then WriteInt64ToArray 3 (up_clientid M) else []) \<Longrightarrow>
     parses UpstreamACK_MergePartial (parse_round UpstreamACK_switch m s) (m\<lparr>up_clientid := up_clientid M\<rparr>)"
proof (cases "up_clientid M \<noteq> 0")
  case True
  assume a: "up_clientid m = 0" "buf s = (if up_clientid M \<noteq> 0 then WriteInt64ToArray 3 (up_clientid M) else [])"
  have "parse_round UpstreamACK_switch m s = UpstreamACK_parse_clientid m (s\<lparr>last_tag := 24, buf := WriteVarint64ToArrayInline (up_clientid M)\<rparr>)"
    using a True by (subst parse_round_tag) (auto simp: tag_bytes WriteInt64ToArray_def UpstreamACK_switch_def tag_fields Let_def)
  then show ?thesis using a UpstreamACK_takes_clientid [where M = M and m = m] True by simp
next
  case False
  assume a: "up_clientid m = 0" "buf s = (if up_clientid M \<noteq> 0 then WriteInt64ToArray 3 (up_clientid M) else [])"
  have eq: "m\<lparr>up_clientid := up_clientid M\<rparr> = m" using a False by (cases m) simp
  show ?thesis unfolding eq by (rule parses_round_end) (use a False in simp_all)
qed

lemma UpstreamACK_takes_data:
  fixes m M :: UpstreamACK and s :: istream
  shows "length (up_data M) < 2 ^ 31 \<Longrightarrow> up_clientid m = 0 \<Longrightarrow> buf s = WriteStringWithSizeToArray (up_data M) @ (if up_clientid M \<noteq> 0 then WriteInt64ToArray 3 (up_clientid M) else []) \<Longrightarrow>
     parses UpstreamACK_MergePartial (UpstreamACK_parse_data m s) (m\<lparr>up_data := up_data M, up_clientid := up_clientid M\<rparr>)"
  using bytes.rd_then [where v = "up_data M" and s = s and r = "(if up_clientid M \<noteq> 0 then WriteInt64ToArray 3 (up_clientid M) else [])"
      and f = "\<lambda>v. then_expect 24 UpstreamACK_parse_clientid (m\<lparr>up_data := v\<rparr>)"]
    UpstreamACK_takes_clientid [where M = M and m = "m\<lparr>up_data := up_data M\<rparr>"]
    UpstreamACK_from_clientid [where M = M and m = "m\<lparr>up_data := up_data M\<rparr>"]
  by (auto simp: UpstreamACK_parse_data_def then_expect_hit then_expect_miss parses_Loop [OF UpstreamACK_merge]
      tag_bytes WriteBytesToArray_def WriteInt64ToArray_def WriteUInt32ToArray_def split: if_splits)

lemma UpstreamACK_from_data:
  fixes m M :: UpstreamACK and s :: istream
  shows "length (up_data M) < 2 ^ 31 \<Longrightarrow> up_data m = [] \<Longrightarrow> up_clientid m = 0 \<Longrightarrow> buf s = (if up_data M \<noteq> [] then WriteBytesToArray 2 (up_data M) else []) @ (if up_clientid M \<noteq> 0 then WriteInt64ToArray 3 (up_clientid M) else []) \<Longrightarrow>
     parses UpstreamACK_MergePartial (parse_round UpstreamACK_switch m s) (m\<lparr>up_data := up_data M, up_clientid := up_clientid M\<rparr>)"
proof (cases "up_data M \<noteq> []")
  case True
  assume a: "length (up_data M) < 2 ^ 31" "up_data m = []" "up_clientid m = 0" "buf s = (if up_data M \<noteq> [] then WriteBytesToArray 2 (up_data M) else []) @ (if up_clientid M \<noteq> 0 then WriteInt64ToArray 3 (up_clientid M) else [])"
  have "parse_round UpstreamACK_switch m s = UpstreamACK_parse_data m (s\<lparr>last_tag := 18, buf := WriteStringWithSizeToArray (up_data M) @ (if up_clientid M \<noteq> 0 then WriteInt64ToArray 3 (up_clientid M) else [])\<rparr>)"
    using a True by (subst parse_round_tag) (auto simp: tag_bytes WriteBytesToArray_def UpstreamACK_switch_def tag_fields Let_def)
  then show ?thesis using a UpstreamACK_takes_data [where M = M and m = m] True by simp
next
  case False
  assume a: "length (up_data M) < 2 ^ 31" "up_data m = []" "up_clientid m = 0" "buf s = (if up_data M \<noteq> [] then WriteBytesToArray 2 (up_data M) else []) @ (if up_clientid M \<noteq> 0 then WriteInt64ToArray 3 (up_clientid M) else [])"
  have eq: "m\<lparr>up_data := up_data M, up_clientid := up_clientid M\<rparr> = m\<lparr>up_clientid := up_clientid M\<rparr>" using a False by (cases m) simp
  show ?thesis unfolding eq by (rule UpstreamACK_from_clientid) (use a False in simp_all)
qed

lemma UpstreamACK_takes_msgid:
  fixes m M :: UpstreamACK and s :: istream
  shows "length (up_data M) < 2 ^ 31 \<Longrightarrow> up_data m = [] \<Longrightarrow> up_clientid m = 0 \<Longrightarrow> buf s = WriteVarint32ToArray (up_msgid M) @ (if up_data M \<noteq> [] then WriteBytesToArray 2 (up_data M) else []) @ (if up_clientid M \<noteq> 0 then WriteInt64ToArray 3 (up_clientid M) else []) \<Longrightarrow>
     parses UpstreamACK_MergePartial (UpstreamACK_parse_msgid m s) (m\<lparr>up_msgid := up_msgid M, up_data := up_data M, up_clientid := up_clientid M\<rparr>)"
  using uint32.rd_then [where v = "up_msgid M" and s = s and r = "(if up_data M \<noteq> [] then WriteBytesToArray 2 (up_data M) else []) @ (if up_clientid M \<noteq> 0 then WriteInt64ToArray 3 (up_clientid M) else [])"
      and f = "\<lambda>v. then_expect 18 UpstreamACK_parse_data (m\<lparr>up_msgid := v\<rparr>)"]
    UpstreamACK_takes_data [where M = M and m = "m\<lparr>up_msgid := up_msgid M\<rparr>"]
    UpstreamACK_from_data [where M = M and m = "m\<lparr>up_msgid := up_msgid M\<rparr>"]
  by (auto simp: UpstreamACK_parse_msgid_def then_expect_hit then_expect_miss parses_Loop [OF UpstreamACK_merge]
      tag_bytes WriteBytesToArray_def WriteInt64ToArray_def WriteUInt32ToArray_def split: if_splits)

lemma UpstreamACK_from_msgid:
  fixes m M :: UpstreamACK and s :: istream
  shows "length (up_data M) < 2 ^ 31 \<Longrightarrow> up_msgid m = 0 \<Longrightarrow> up_data m = [] \<Longrightarrow> up_clientid m = 0 \<Longrightarrow> buf s = (if up_msgid M \<noteq> 0 then WriteUInt32ToArray 1 (up_msgid M) else []) @ (if up_data M \<noteq> [] then WriteBytesToArray 2 (up_data M) else []) @ (if up_clientid M \<noteq> 0 then WriteInt64ToArray 3 (up_clientid M) else []) \<Longrightarrow>
     parses UpstreamACK_MergePartial (parse_round UpstreamACK_switch m s) (m\<lparr>up_msgid := up_msgid M, up_data := up_data M, up_clientid := up_clientid M\<rparr>)"
proof (cases "up_msgid M \<noteq> 0")
  case True
  assume a: "length (up_data M) < 2 ^ 31" "up_msgid m = 0" "up_data m = []" "up_clientid m = 0" "buf s = (if up_msgid M \<noteq> 0 then WriteUInt32ToArray 1 (up_msgid M) else []) @ (if up_data M \<noteq> [] then WriteBytesToArray 2 (up_data M) else []) @ (if up_clientid M \<noteq> 0 then WriteInt64ToArray 3 (up_clientid M) else [])"
  have "parse_round UpstreamACK_switch m s = UpstreamACK_parse_msgid m (s\<lparr>last_tag := 8, buf := WriteVarint32ToArray (up_msgid M) @ (if up_data M \<noteq> [] then WriteBytesToArray 2 (up_data M) else []) @ (if up_clientid M \<noteq> 0 then WriteInt64ToArray 3 (up_clientid M) else [])\<rparr>)"
    using a True by (subst parse_round_tag) (auto simp: tag_bytes WriteUInt32ToArray_def UpstreamACK_switch_def tag_fields Let_def)
  then show ?thesis using a UpstreamACK_takes_msgid [where M = M and m = m] True by simp
next
  case False
  assume a: "length (up_data M) < 2 ^ 31" "up_msgid m = 0" "up_data m = []" "up_clientid m = 0" "buf s = (if up_msgid M \<noteq> 0 then WriteUInt32ToArray 1 (up_msgid M) else []) @ (if up_data M \<noteq> [] then WriteBytesToArray 2 (up_data M) else []) @ (if up_clientid M \<noteq> 0 then WriteInt64ToArray 3 (up_clientid M) else [])"
  have eq: "m\<lparr>up_msgid := up_msgid M, up_data := up_data M, up_clientid := up_clientid M\<rparr> = m\<lparr>up_data := up_data M, up_clientid := up_clientid M\<rparr>" using a False by (cases m) simp
  show ?thesis unfolding eq by (rule UpstreamACK_from_data) (use a False in simp_all)
qed

interpretation up: wire_message UpstreamACK_Clear UpstreamACK_MergePartial UpstreamACK_ByteSize UpstreamACK_Write
  "\<lambda>m. length (up_data m) < 2 ^ 31" "(=)"
proof
  fix m m0 :: UpstreamACK
  assume fits: "length (up_data m) < 2 ^ 31"
  show "UpstreamACK_ByteSize m = length (UpstreamACK_Write m)"
    by (simp add: UpstreamACK_ByteSize_def UpstreamACK_Write_def wire_sizes)
  have eq: "UpstreamACK_Clear m0\<lparr>up_msgid := up_msgid m, up_data := up_data m, up_clientid := up_clientid m\<rparr> = m"
    by (cases m; cases m0) (simp add: UpstreamACK_Clear_def)
  have "parses UpstreamACK_MergePartial (parse_round UpstreamACK_switch (UpstreamACK_Clear m0) (CodedInputStream (UpstreamACK_Write m)))
    (UpstreamACK_Clear m0\<lparr>up_msgid := up_msgid m, up_data := up_data m, up_clientid := up_clientid m\<rparr>)"
    by (rule UpstreamACK_from_msgid) (use fits in \<open>simp_all add: UpstreamACK_Clear_def UpstreamACK_Write_def CodedInputStream_def\<close>)
  then have "parses UpstreamACK_MergePartial (parse_round UpstreamACK_switch (UpstreamACK_Clear m0) (CodedInputStream (UpstreamACK_Write m))) m"
    unfolding eq .
  then show "\<exists>m' s'. UpstreamACK_MergePartial (UpstreamACK_Clear m0) (CodedInputStream (UpstreamACK_Write m)) = (Val m', s') \<and>
      legit_end s' \<and> m' = m"
    unfolding parses_def UpstreamACK_merge [symmetric] by blast
qed

section \<open>\<open>CloseClientACK\<close>\<close>

lemma CloseClientACK_takes_clientid:
  fixes m M :: CloseClientACK and s :: istream
  shows "buf s = WriteVarint64ToArrayInline (close_clientid M) \<Longrightarrow>
     parses CloseClientACK_MergePartial (CloseClientACK_parse_clientid m s) (m\<lparr>close_clientid := close_clientid M\<rparr>)"
  using int64.rd_then [where v = "close_clientid M" and s = s and r = "[]" and f = "\<lambda>v. then_at_end (m\<lparr>close_clientid := v\<rparr>)"]
  by (simp add: CloseClientACK_parse_clientid_def parses_at_end)

lemma CloseClientACK_from_clientid:
  fixes m M :: CloseClientACK and s :: istream
  shows "close_clientid m = 0 \<Longrightarrow> buf s = (if close_clientid M \<noteq> 0 then WriteInt64ToArray 1 (close_clientid M) else []) \<Longrightarrow>
     parses CloseClientACK_MergePartial (parse_round CloseClientACK_switch m s) (m\<lparr>close_clientid := close_clientid M\<rparr>)"
proof (cases "close_clientid M \<noteq> 0")
  case True
  assume a: "close_clientid m = 0" "buf s = (if close_clientid M \<noteq> 0 then WriteInt64ToArray 1 (close_clientid M) else [])"
  have "parse_round CloseClientACK_switch m s = CloseClientACK_parse_clientid m (s\<lparr>last_tag := 8, buf := WriteVarint64ToArrayInline (close_clientid M)\<rparr>)"
    using a True by (subst parse_round_tag) (auto simp: tag_bytes WriteInt64ToArray_def CloseClientACK_switch_def tag_fields Let_def)
  then show ?thesis using a CloseClientACK_takes_clientid [where M = M and m = m] True by simp
next
  case False
  assume a: "close_clientid m = 0" "buf s = (if close_clientid M \<noteq> 0 then WriteInt64ToArray 1 (close_clientid M) else [])"
  have eq: "m\<lparr>close_clientid := close_clientid M\<rparr> = m" using a False by (cases m) simp
  show ?thesis unfolding eq by (rule parses_round_end) (use a False in simp_all)
qed

interpretation close: wire_message CloseClientACK_Clear CloseClientACK_MergePartial CloseClientACK_ByteSize CloseClientACK_Write
  "\<lambda>m. True" "(=)"
proof
  fix m m0 :: CloseClientACK
  assume fits: "True"
  show "CloseClientACK_ByteSize m = length (CloseClientACK_Write m)"
    by (simp add: CloseClientACK_ByteSize_def CloseClientACK_Write_def wire_sizes)
  have eq: "CloseClientACK_Clear m0\<lparr>close_clientid := close_clientid m\<rparr> = m"
    by (cases m; cases m0) (simp add: CloseClientACK_Clear_def)
  have "parses CloseClientACK_MergePartial (parse_round CloseClientACK_switch (CloseClientACK_Clear m0) (CodedInputStream (CloseClientACK_Write m)))
    (CloseClientACK_Clear m0\<lparr>close_clientid := close_clientid m\<rparr>)"
    by (rule CloseClientACK_from_clientid) (use fits in \<open>simp_all add: CloseClientACK_Clear_def CloseClientACK_Write_def CodedInputStream_def\<close>)
  then have "parses CloseClientACK_MergePartial (parse_round CloseClientACK_switch (CloseClientACK_Clear m0) (CodedInputStream (CloseClientACK_Write m))) m"
    unfolding eq .
  then show "\<exists>m' s'. CloseClientACK_MergePartial (CloseClientACK_Clear m0) (CodedInputStream (CloseClientACK_Write m)) = (Val m', s') \<and>
      legit_end s' \<and> m' = m"
    unfolding parses_def CloseClientACK_merge [symmetric] by blast
qed

section \<open>\<open>LogicServerLogin\<close>\<close>

lemma LogicServerLogin_takes_isprimary:
  fixes m M :: LogicServerLogin and s :: istream
  shows "buf s = WriteVarint32ToArray (if login_isprimary M then 1 else 0) \<Longrightarrow>
     parses LogicServerLogin_MergePartial (LogicServerLogin_parse_isprimary m s) (m\<lparr>login_isprimary := login_isprimary M\<rparr>)"
  using bool.rd_then [where v = "login_isprimary M" and s = s and r = "[]" and f = "\<lambda>v. then_at_end (m\<lparr>login_isprimary := v\<rparr>)"]
  by (simp add: LogicServerLogin_parse_isprimary_def parses_at_end)

lemma LogicServerLogin_from_isprimary:
  fixes m M :: LogicServerLogin and s :: istream
  shows "login_isprimary m = False \<Longrightarrow> buf s = (if login_isprimary M then WriteBoolToArray 2 (login_isprimary M) else []) \<Longrightarrow>
     parses LogicServerLogin_MergePartial (parse_round LogicServerLogin_switch m s) (m\<lparr>login_isprimary := login_isprimary M\<rparr>)"
proof (cases "login_isprimary M")
  case True
  assume a: "login_isprimary m = False" "buf s = (if login_isprimary M then WriteBoolToArray 2 (login_isprimary M) else [])"
  have "parse_round LogicServerLogin_switch m s = LogicServerLogin_parse_isprimary m (s\<lparr>last_tag := 16, buf := WriteVarint32ToArray (if login_isprimary M then 1 else 0)\<rparr>)"
    using a True by (subst parse_round_tag) (auto simp: tag_bytes WriteBoolToArray_def LogicServerLogin_switch_def tag_fields Let_def)
  then show ?thesis using a LogicServerLogin_takes_isprimary [where M = M and m = m] True by simp
next
  case False
  assume a: "login_isprimary m = False" "buf s = (if login_isprimary M then WriteBoolToArray 2 (login_isprimary M) else [])"
  have eq: "m\<lparr>login_isprimary := login_isprimary M\<rparr> = m" using a False by (cases m) simp
  show ?thesis unfolding eq by (rule parses_round_end) (use a False in simp_all)
qed

lemma LogicServerLogin_takes_id:
  fixes m M :: LogicServerLogin and s :: istream
  shows "login_isprimary m = False \<Longrightarrow> buf s = WriteVarint32SignExtendedToArray (login_id M) @ (if login_isprimary M then WriteBoolToArray 2 (login_isprimary M) else []) \<Longrightarrow>
     parses LogicServerLogin_MergePartial (LogicServerLogin_parse_id m s) (m\<lparr>login_id := login_id M, login_isprimary := login_isprimary M\<rparr>)"
  using int32.rd_then [where v = "login_id M" and s = s and r = "(if login_isprimary M then WriteBoolToArray 2 (login_isprimary M) else [])"
      and f = "\<lambda>v. then_expect 16 LogicServerLogin_parse_isprimary (m\<lparr>login_id := v\<rparr>)"]
    LogicServerLogin_takes_isprimary [where M = M and m = "m\<lparr>login_id := login_id M\<rparr>"]
    LogicServerLogin_from_isprimary [where M = M and m = "m\<lparr>login_id := login_id M\<rparr>"]
  by (auto simp: LogicServerLogin_parse_id_def then_expect_hit then_expect_miss parses_Loop [OF LogicServerLogin_merge]
      tag_bytes WriteBoolToArray_def WriteInt32ToArray_def split: if_splits)

lemma LogicServerLogin_from_id:
  fixes m M :: LogicServerLogin and s :: istream
  shows "login_id m = 0 \<Longrightarrow> login_isprimary m = False \<Longrightarrow> buf s = (if login_id M \<noteq> 0 then WriteInt32ToArray 1 (login_id M) else []) @ (if login_isprimary M then WriteBoolToArray 2 (login_isprimary M) else []) \<Longrightarrow>
     parses LogicServerLogin_MergePartial (parse_round LogicServerLogin_switch m s) (m\<lparr>login_id := login_id M, login_isprimary := login_isprimary M\<rparr>)"
proof (cases "login_id M \<noteq> 0")
  case True
  assume a: "login_id m = 0" "login_isprimary m = False" "buf s = (if login_id M \<noteq> 0 then WriteInt32ToArray 1 (login_id M) else []) @ (if login_isprimary M then WriteBoolToArray 2 (login_isprimary M) else [])"
  have "parse_round LogicServerLogin_switch m s = LogicServerLogin_parse_id m (s\<lparr>last_tag := 8, buf := WriteVarint32SignExtendedToArray (login_id M) @ (if login_isprimary M then WriteBoolToArray 2 (login_isprimary M) else [])\<rparr>)"
    using a True by (subst parse_round_tag) (auto simp: tag_bytes WriteInt32ToArray_def LogicServerLogin_switch_def tag_fields Let_def)
  then show ?thesis using a LogicServerLogin_takes_id [where M = M and m = m] True by simp
next
  case False
  assume a: "login_id m = 0" "login_isprimary m = False" "buf s = (if login_id M \<noteq> 0 then WriteInt32ToArray 1 (login_id M) else []) @ (if login_isprimary M then WriteBoolToArray 2 (login_isprimary M) else [])"
  have eq: "m\<lparr>login_id := login_id M, login_isprimary := login_isprimary M\<rparr> = m\<lparr>login_isprimary := login_isprimary M\<rparr>" using a False by (cases m) simp
  show ?thesis unfolding eq by (rule LogicServerLogin_from_isprimary) (use a False in simp_all)
qed

interpretation login: wire_message LogicServerLogin_Clear LogicServerLogin_MergePartial LogicServerLogin_ByteSize LogicServerLogin_Write
  "\<lambda>m. True" "(=)"
proof
  fix m m0 :: LogicServerLogin
  assume fits: "True"
  show "LogicServerLogin_ByteSize m = length (LogicServerLogin_Write m)"
    by (simp add: LogicServerLogin_ByteSize_def LogicServerLogin_Write_def wire_sizes)
  have eq: "LogicServerLogin_Clear m0\<lparr>login_id := login_id m, login_isprimary := login_isprimary m\<rparr> = m"
    by (cases m; cases m0) (simp add: LogicServerLogin_Clear_def)
  have "parses LogicServerLogin_MergePartial (parse_round LogicServerLogin_switch (LogicServerLogin_Clear m0) (CodedInputStream (LogicServerLogin_Write m)))
    (LogicServerLogin_Clear m0\<lparr>login_id := login_id m, login_isprimary := login_isprimary m\<rparr>)"
    by (rule LogicServerLogin_from_id) (use fits in \<open>simp_all add: LogicServerLogin_Clear_def LogicServerLogin_Write_def CodedInputStream_def\<close>)
  then have "parses LogicServerLogin_MergePartial (parse_round LogicServerLogin_switch (LogicServerLogin_Clear m0) (CodedInputStream (LogicServerLogin_Write m))) m"
    unfolding eq .
  then show "\<exists>m' s'. LogicServerLogin_MergePartial (LogicServerLogin_Clear m0) (CodedInputStream (LogicServerLogin_Write m)) = (Val m', s') \<and>
      legit_end s' \<and> m' = m"
    unfolding parses_def LogicServerLogin_merge [symmetric] by blast
qed

section \<open>\<open>LogicServerLoginReply\<close>\<close>

lemma LogicServerLoginReply_takes_id:
  fixes m M :: LogicServerLoginReply and s :: istream
  shows "buf s = WriteVarint32SignExtendedToArray (reply_id M) \<Longrightarrow>
     parses LogicServerLoginReply_MergePartial (LogicServerLoginReply_parse_id m s) (m\<lparr>reply_id := reply_id M\<rparr>)"
  using int32.rd_then [where v = "reply_id M" and s = s and r = "[]" and f = "\<lambda>v. then_at_end (m\<lparr>reply_id := v\<rparr>)"]
  by (simp add: LogicServerLoginReply_parse_id_def parses_at_end)

lemma LogicServerLoginReply_from_id:
  fixes m M :: LogicServerLoginReply and s :: istream
  shows "reply_id m = 0 \<Longrightarrow> buf s = (if reply_id M \<noteq> 0 then WriteInt32ToArray 2 (reply_id M) else []) \<Longrightarrow>
     parses LogicServerLoginReply_MergePartial (parse_round LogicServerLoginReply_switch m s) (m\<lparr>reply_id := reply_id M\<rparr>)"
proof (cases "reply_id M \<noteq> 0")
  case True
  assume a: "reply_id m = 0" "buf s = (if reply_id M \<noteq> 0 then WriteInt32ToArray 2 (reply_id M) else [])"
  have "parse_round LogicServerLoginReply_switch m s = LogicServerLoginReply_parse_id m (s\<lparr>last_tag := 16, buf := WriteVarint32SignExtendedToArray (reply_id M)\<rparr>)"
    using a True by (subst parse_round_tag) (auto simp: tag_bytes WriteInt32ToArray_def LogicServerLoginReply_switch_def tag_fields Let_def)
  then show ?thesis using a LogicServerLoginReply_takes_id [where M = M and m = m] True by simp
next
  case False
  assume a: "reply_id m = 0" "buf s = (if reply_id M \<noteq> 0 then WriteInt32ToArray 2 (reply_id M) else [])"
  have eq: "m\<lparr>reply_id := reply_id M\<rparr> = m" using a False by (cases m) simp
  show ?thesis unfolding eq by (rule parses_round_end) (use a False in simp_all)
qed

lemma LogicServerLoginReply_takes_issuccess:
  fixes m M :: LogicServerLoginReply and s :: istream
  shows "reply_id m = 0 \<Longrightarrow> buf s = WriteVarint32ToArray (if reply_issuccess M then 1 else 0) @ (if reply_id M \<noteq> 0 then WriteInt32ToArray 2 (reply_id M) else []) \<Longrightarrow>
     parses LogicServerLoginReply_MergePartial (LogicServerLoginReply_parse_issuccess m s) (m\<lparr>reply_issuccess := reply_issuccess M, reply_id := reply_id M\<rparr>)"
  using bool.rd_then [where v = "reply_issuccess M" and s = s and r = "(if reply_id M \<noteq> 0 then WriteInt32ToArray 2 (reply_id M) else [])"
      and f = "\<lambda>v. then_expect 16 LogicServerLoginReply_parse_id (m\<lparr>reply_issuccess := v\<rparr>)"]
    LogicServerLoginReply_takes_id [where M = M and m = "m\<lparr>reply_issuccess := reply_issuccess M\<rparr>"]
    LogicServerLoginReply_from_id [where M = M and m = "m\<lparr>reply_issuccess := reply_issuccess M\<rparr>"]
  by (auto simp: LogicServerLoginReply_parse_issuccess_def then_expect_hit then_expect_miss parses_Loop [OF LogicServerLoginReply_merge]
      tag_bytes WriteBoolToArray_def WriteInt32ToArray_def split: if_splits)

lemma LogicServerLoginReply_from_issuccess:
  fixes m M :: LogicServerLoginReply and s :: istream
  shows "reply_issuccess m = False \<Longrightarrow> reply_id m = 0 \<Longrightarrow> buf s = (if reply_issuccess M then WriteBoolToArray 1 (reply_issuccess M) else []) @ (if reply_id M \<noteq> 0 then WriteInt32ToArray 2 (reply_id M) else []) \<Longrightarrow>
     parses LogicServerLoginReply_MergePartial (parse_round LogicServerLoginReply_switch m s) (m\<lparr>reply_issuccess := reply_issuccess M, reply_id := reply_id M\<rparr>)"
proof (cases "reply_issuccess M")
  case True
  assume a: "reply_issuccess m = False" "reply_id m = 0" "buf s = (if reply_issuccess M then WriteBoolToArray 1 (reply_issuccess M) else []) @ (if reply_id M \<noteq> 0 then WriteInt32ToArray 2 (reply_id M) else [])"
  have "parse_round LogicServerLoginReply_switch m s = LogicServerLoginReply_parse_issuccess m (s\<lparr>last_tag := 8, buf := WriteVarint32ToArray (if reply_issuccess M then 1 else 0) @ (if reply_id M \<noteq> 0 then WriteInt32ToArray 2 (reply_id M) else [])\<rparr>)"
    using a True by (subst parse_round_tag) (auto simp: tag_bytes WriteBoolToArray_def LogicServerLoginReply_switch_def tag_fields Let_def)
  then show ?thesis using a LogicServerLoginReply_takes_issuccess [where M = M and m = m] True by simp
next
  case False
  assume a: "reply_issuccess m = False" "reply_id m = 0" "buf s = (if reply_issuccess M then WriteBoolToArray 1 (reply_issuccess M) else []) @ (if reply_id M \<noteq> 0 then WriteInt32ToArray 2 (reply_id M) else [])"
  have eq: "m\<lparr>reply_issuccess := reply_issuccess M, reply_id := reply_id M\<rparr> = m\<lparr>reply_id := reply_id M\<rparr>" using a False by (cases m) simp
  show ?thesis unfolding eq by (rule LogicServerLoginReply_from_id) (use a False in simp_all)
qed

interpretation reply: wire_message LogicServerLoginReply_Clear LogicServerLoginReply_MergePartial LogicServerLoginReply_ByteSize LogicServerLoginReply_Write
  "\<lambda>m. True" "(=)"
proof
  fix m m0 :: LogicServerLoginReply
  assume fits: "True"
  show "LogicServerLoginReply_ByteSize m = length (LogicServerLoginReply_Write m)"
    by (simp add: LogicServerLoginReply_ByteSize_def LogicServerLoginReply_Write_def wire_sizes)
  have eq: "LogicServerLoginReply_Clear m0\<lparr>reply_issuccess := reply_issuccess m, reply_id := reply_id m\<rparr> = m"
    by (cases m; cases m0) (simp add: LogicServerLoginReply_Clear_def)
  have "parses LogicServerLoginReply_MergePartial (parse_round LogicServerLoginReply_switch (LogicServerLoginReply_Clear m0) (CodedInputStream (LogicServerLoginReply_Write m)))
    (LogicServerLoginReply_Clear m0\<lparr>reply_issuccess := reply_issuccess m, reply_id := reply_id m\<rparr>)"
    by (rule LogicServerLoginReply_from_issuccess) (use fits in \<open>simp_all add: LogicServerLoginReply_Clear_def LogicServerLoginReply_Write_def CodedInputStream_def\<close>)
  then have "parses LogicServerLoginReply_MergePartial (parse_round LogicServerLoginReply_switch (LogicServerLoginReply_Clear m0) (CodedInputStream (LogicServerLoginReply_Write m))) m"
    unfolding eq .
  then show "\<exists>m' s'. LogicServerLoginReply_MergePartial (LogicServerLoginReply_Clear m0) (CodedInputStream (LogicServerLoginReply_Write m)) = (Val m', s') \<and>
      legit_end s' \<and> m' = m"
    unfolding parses_def LogicServerLoginReply_merge [symmetric] by blast
qed

section \<open>\<open>LogicServerKickPlayer\<close>\<close>

lemma LogicServerKickPlayer_takes_roleruntimeid:
  fixes m M :: LogicServerKickPlayer and s :: istream
  shows "buf s = WriteVarint64ToArrayInline (kick_roleruntimeid M) \<Longrightarrow>
     parses LogicServerKickPlayer_MergePartial (LogicServerKickPlayer_parse_roleruntimeid m s) (m\<lparr>kick_roleruntimeid := kick_roleruntimeid M\<rparr>)"
  using int64.rd_then [where v = "kick_roleruntimeid M" and s = s and r = "[]" and f = "\<lambda>v. then_at_end (m\<lparr>kick_roleruntimeid := v\<rparr>)"]
  by (simp add: LogicServerKickPlayer_parse_roleruntimeid_def parses_at_end)

lemma LogicServerKickPlayer_from_roleruntimeid:
  fixes m M :: LogicServerKickPlayer and s :: istream
  shows "kick_roleruntimeid m = 0 \<Longrightarrow> buf s = (if kick_roleruntimeid M \<noteq> 0 then WriteInt64ToArray 1 (kick_roleruntimeid M) else []) \<Longrightarrow>
     parses LogicServerKickPlayer_MergePartial (parse_round LogicServerKickPlayer_switch m s) (m\<lparr>kick_roleruntimeid := kick_roleruntimeid M\<rparr>)"
proof (cases "kick_roleruntimeid M \<noteq> 0")
  case True
  assume a: "kick_roleruntimeid m = 0" "buf s = (if kick_roleruntimeid M \<noteq> 0 then WriteInt64ToArray 1 (kick_roleruntimeid M) else [])"
  have "parse_round LogicServerKickPlayer_switch m s = LogicServerKickPlayer_parse_roleruntimeid m (s\<lparr>last_tag := 8, buf := WriteVarint64ToArrayInline (kick_roleruntimeid M)\<rparr>)"
    using a True by (subst parse_round_tag) (auto simp: tag_bytes WriteInt64ToArray_def LogicServerKickPlayer_switch_def tag_fields Let_def)
  then show ?thesis using a LogicServerKickPlayer_takes_roleruntimeid [where M = M and m = m] True by simp
next
  case False
  assume a: "kick_roleruntimeid m = 0" "buf s = (if kick_roleruntimeid M \<noteq> 0 then WriteInt64ToArray 1 (kick_roleruntimeid M) else [])"
  have eq: "m\<lparr>kick_roleruntimeid := kick_roleruntimeid M\<rparr> = m" using a False by (cases m) simp
  show ?thesis unfolding eq by (rule parses_round_end) (use a False in simp_all)
qed

interpretation kick: wire_message LogicServerKickPlayer_Clear LogicServerKickPlayer_MergePartial LogicServerKickPlayer_ByteSize LogicServerKickPlayer_Write
  "\<lambda>m. True" "(=)"
proof
  fix m m0 :: LogicServerKickPlayer
  assume fits: "True"
  show "LogicServerKickPlayer_ByteSize m = length (LogicServerKickPlayer_Write m)"
    by (simp add: LogicServerKickPlayer_ByteSize_def LogicServerKickPlayer_Write_def wire_sizes)
  have eq: "LogicServerKickPlayer_Clear m0\<lparr>kick_roleruntimeid := kick_roleruntimeid m\<rparr> = m"
    by (cases m; cases m0) (simp add: LogicServerKickPlayer_Clear_def)
  have "parses LogicServerKickPlayer_MergePartial (parse_round LogicServerKickPlayer_switch (LogicServerKickPlayer_Clear m0) (CodedInputStream (LogicServerKickPlayer_Write m)))
    (LogicServerKickPlayer_Clear m0\<lparr>kick_roleruntimeid := kick_roleruntimeid m\<rparr>)"
    by (rule LogicServerKickPlayer_from_roleruntimeid) (use fits in \<open>simp_all add: LogicServerKickPlayer_Clear_def LogicServerKickPlayer_Write_def CodedInputStream_def\<close>)
  then have "parses LogicServerKickPlayer_MergePartial (parse_round LogicServerKickPlayer_switch (LogicServerKickPlayer_Clear m0) (CodedInputStream (LogicServerKickPlayer_Write m))) m"
    unfolding eq .
  then show "\<exists>m' s'. LogicServerKickPlayer_MergePartial (LogicServerKickPlayer_Clear m0) (CodedInputStream (LogicServerKickPlayer_Write m)) = (Val m', s') \<and>
      legit_end s' \<and> m' = m"
    unfolding parses_def LogicServerKickPlayer_merge [symmetric] by blast
qed

section \<open>\<open>LogicServerSetRoleSlave\<close>\<close>

lemma LogicServerSetRoleSlave_takes_willset:
  fixes m M :: LogicServerSetRoleSlave and s :: istream
  shows "buf s = WriteVarint32ToArray (if slave_willset M then 1 else 0) \<Longrightarrow>
     parses LogicServerSetRoleSlave_MergePartial (LogicServerSetRoleSlave_parse_willset m s) (m\<lparr>slave_willset := slave_willset M\<rparr>)"
  using bool.rd_then [where v = "slave_willset M" and s = s and r = "[]" and f = "\<lambda>v. then_at_end (m\<lparr>slave_willset := v\<rparr>)"]
  by (simp add: LogicServerSetRoleSlave_parse_willset_def parses_at_end)

lemma LogicServerSetRoleSlave_from_willset:
  fixes m M :: LogicServerSetRoleSlave and s :: istream
  shows "slave_willset m = False \<Longrightarrow> buf s = (if slave_willset M then WriteBoolToArray 2 (slave_willset M) else []) \<Longrightarrow>
     parses LogicServerSetRoleSlave_MergePartial (parse_round LogicServerSetRoleSlave_switch m s) (m\<lparr>slave_willset := slave_willset M\<rparr>)"
proof (cases "slave_willset M")
  case True
  assume a: "slave_willset m = False" "buf s = (if slave_willset M then WriteBoolToArray 2 (slave_willset M) else [])"
  have "parse_round LogicServerSetRoleSlave_switch m s = LogicServerSetRoleSlave_parse_willset m (s\<lparr>last_tag := 16, buf := WriteVarint32ToArray (if slave_willset M then 1 else 0)\<rparr>)"
    using a True by (subst parse_round_tag) (auto simp: tag_bytes WriteBoolToArray_def LogicServerSetRoleSlave_switch_def tag_fields Let_def)
  then show ?thesis using a LogicServerSetRoleSlave_takes_willset [where M = M and m = m] True by simp
next
  case False
  assume a: "slave_willset m = False" "buf s = (if slave_willset M then WriteBoolToArray 2 (slave_willset M) else [])"
  have eq: "m\<lparr>slave_willset := slave_willset M\<rparr> = m" using a False by (cases m) simp
  show ?thesis unfolding eq by (rule parses_round_end) (use a False in simp_all)
qed

lemma LogicServerSetRoleSlave_takes_roleruntimeid:
  fixes m M :: LogicServerSetRoleSlave and s :: istream
  shows "slave_willset m = False \<Longrightarrow> buf s = WriteVarint64ToArrayInline (slave_roleruntimeid M) @ (if slave_willset M then WriteBoolToArray 2 (slave_willset M) else []) \<Longrightarrow>
     parses LogicServerSetRoleSlave_MergePartial (LogicServerSetRoleSlave_parse_roleruntimeid m s) (m\<lparr>slave_roleruntimeid := slave_roleruntimeid M, slave_willset := slave_willset M\<rparr>)"
  using int64.rd_then [where v = "slave_roleruntimeid M" and s = s and r = "(if slave_willset M then WriteBoolToArray 2 (slave_willset M) else [])"
      and f = "\<lambda>v. then_expect 16 LogicServerSetRoleSlave_parse_willset (m\<lparr>slave_roleruntimeid := v\<rparr>)"]
    LogicServerSetRoleSlave_takes_willset [where M = M and m = "m\<lparr>slave_roleruntimeid := slave_roleruntimeid M\<rparr>"]
    LogicServerSetRoleSlave_from_willset [where M = M and m = "m\<lparr>slave_roleruntimeid := slave_roleruntimeid M\<rparr>"]
  by (auto simp: LogicServerSetRoleSlave_parse_roleruntimeid_def then_expect_hit then_expect_miss parses_Loop [OF LogicServerSetRoleSlave_merge]
      tag_bytes WriteBoolToArray_def WriteInt64ToArray_def split: if_splits)

lemma LogicServerSetRoleSlave_from_roleruntimeid:
  fixes m M :: LogicServerSetRoleSlave and s :: istream
  shows "slave_roleruntimeid m = 0 \<Longrightarrow> slave_willset m = False \<Longrightarrow> buf s = (if slave_roleruntimeid M \<noteq> 0 then WriteInt64ToArray 1 (slave_roleruntimeid M) else []) @ (if slave_willset M then WriteBoolToArray 2 (slave_willset M) else []) \<Longrightarrow>
     parses LogicServerSetRoleSlave_MergePartial (parse_round LogicServerSetRoleSlave_switch m s) (m\<lparr>slave_roleruntimeid := slave_roleruntimeid M, slave_willset := slave_willset M\<rparr>)"
proof (cases "slave_roleruntimeid M \<noteq> 0")
  case True
  assume a: "slave_roleruntimeid m = 0" "slave_willset m = False" "buf s = (if slave_roleruntimeid M \<noteq> 0 then WriteInt64ToArray 1 (slave_roleruntimeid M) else []) @ (if slave_willset M then WriteBoolToArray 2 (slave_willset M) else [])"
  have "parse_round LogicServerSetRoleSlave_switch m s = LogicServerSetRoleSlave_parse_roleruntimeid m (s\<lparr>last_tag := 8, buf := WriteVarint64ToArrayInline (slave_roleruntimeid M) @ (if slave_willset M then WriteBoolToArray 2 (slave_willset M) else [])\<rparr>)"
    using a True by (subst parse_round_tag) (auto simp: tag_bytes WriteInt64ToArray_def LogicServerSetRoleSlave_switch_def tag_fields Let_def)
  then show ?thesis using a LogicServerSetRoleSlave_takes_roleruntimeid [where M = M and m = m] True by simp
next
  case False
  assume a: "slave_roleruntimeid m = 0" "slave_willset m = False" "buf s = (if slave_roleruntimeid M \<noteq> 0 then WriteInt64ToArray 1 (slave_roleruntimeid M) else []) @ (if slave_willset M then WriteBoolToArray 2 (slave_willset M) else [])"
  have eq: "m\<lparr>slave_roleruntimeid := slave_roleruntimeid M, slave_willset := slave_willset M\<rparr> = m\<lparr>slave_willset := slave_willset M\<rparr>" using a False by (cases m) simp
  show ?thesis unfolding eq by (rule LogicServerSetRoleSlave_from_willset) (use a False in simp_all)
qed

interpretation slave: wire_message LogicServerSetRoleSlave_Clear LogicServerSetRoleSlave_MergePartial LogicServerSetRoleSlave_ByteSize LogicServerSetRoleSlave_Write
  "\<lambda>m. True" "(=)"
proof
  fix m m0 :: LogicServerSetRoleSlave
  assume fits: "True"
  show "LogicServerSetRoleSlave_ByteSize m = length (LogicServerSetRoleSlave_Write m)"
    by (simp add: LogicServerSetRoleSlave_ByteSize_def LogicServerSetRoleSlave_Write_def wire_sizes)
  have eq: "LogicServerSetRoleSlave_Clear m0\<lparr>slave_roleruntimeid := slave_roleruntimeid m, slave_willset := slave_willset m\<rparr> = m"
    by (cases m; cases m0) (simp add: LogicServerSetRoleSlave_Clear_def)
  have "parses LogicServerSetRoleSlave_MergePartial (parse_round LogicServerSetRoleSlave_switch (LogicServerSetRoleSlave_Clear m0) (CodedInputStream (LogicServerSetRoleSlave_Write m)))
    (LogicServerSetRoleSlave_Clear m0\<lparr>slave_roleruntimeid := slave_roleruntimeid m, slave_willset := slave_willset m\<rparr>)"
    by (rule LogicServerSetRoleSlave_from_roleruntimeid) (use fits in \<open>simp_all add: LogicServerSetRoleSlave_Clear_def LogicServerSetRoleSlave_Write_def CodedInputStream_def\<close>)
  then have "parses LogicServerSetRoleSlave_MergePartial (parse_round LogicServerSetRoleSlave_switch (LogicServerSetRoleSlave_Clear m0) (CodedInputStream (LogicServerSetRoleSlave_Write m))) m"
    unfolding eq .
  then show "\<exists>m' s'. LogicServerSetRoleSlave_MergePartial (LogicServerSetRoleSlave_Clear m0) (CodedInputStream (LogicServerSetRoleSlave_Write m)) = (Val m', s') \<and>
      legit_end s' \<and> m' = m"
    unfolding parses_def LogicServerSetRoleSlave_merge [symmetric] by blast
qed

section \<open>\<open>LogicServerSetRolePrimary\<close>\<close>

lemma LogicServerSetRolePrimary_takes_roleruntimeid:
  fixes m M :: LogicServerSetRolePrimary and s :: istream
  shows "buf s = WriteVarint64ToArrayInline (prim_roleruntimeid M) \<Longrightarrow>
     parses LogicServerSetRolePrimary_MergePartial (LogicServerSetRolePrimary_parse_roleruntimeid m s) (m\<lparr>prim_roleruntimeid := prim_roleruntimeid M\<rparr>)"
  using int64.rd_then [where v = "prim_roleruntimeid M" and s = s and r = "[]" and f = "\<lambda>v. then_at_end (m\<lparr>prim_roleruntimeid := v\<rparr>)"]
  by (simp add: LogicServerSetRolePrimary_parse_roleruntimeid_def parses_at_end)

lemma LogicServerSetRolePrimary_from_roleruntimeid:
  fixes m M :: LogicServerSetRolePrimary and s :: istream
  shows "prim_roleruntimeid m = 0 \<Longrightarrow> buf s = (if prim_roleruntimeid M \<noteq> 0 then WriteInt64ToArray 1 (prim_roleruntimeid M) else []) \<Longrightarrow>
     parses LogicServerSetRolePrimary_MergePartial (parse_round LogicServerSetRolePrimary_switch m s) (m\<lparr>prim_roleruntimeid := prim_roleruntimeid M\<rparr>)"
proof (cases "prim_roleruntimeid M \<noteq> 0")
  case True
  assume a: "prim_roleruntimeid m = 0" "buf s = (if prim_roleruntimeid M \<noteq> 0 then WriteInt64ToArray 1 (prim_roleruntimeid M) else [])"
  have "parse_round LogicServerSetRolePrimary_switch m s = LogicServerSetRolePrimary_parse_roleruntimeid m (s\<lparr>last_tag := 8, buf := WriteVarint64ToArrayInline (prim_roleruntimeid M)\<rparr>)"
    using a True by (subst parse_round_tag) (auto simp: tag_bytes WriteInt64ToArray_def LogicServerSetRolePrimary_switch_def tag_fields Let_def)
  then show ?thesis using a LogicServerSetRolePrimary_takes_roleruntimeid [where M = M and m = m] True by simp
next
  case False
  assume a: "prim_roleruntimeid m = 0" "buf s = (if prim_roleruntimeid M \<noteq> 0 then WriteInt64ToArray 1 (prim_roleruntimeid M) else [])"
  have eq: "m\<lparr>prim_roleruntimeid := prim_roleruntimeid M\<rparr> = m" using a False by (cases m) simp
  show ?thesis unfolding eq by (rule parses_round_end) (use a False in simp_all)
qed

interpretation prim: wire_message LogicServerSetRolePrimary_Clear LogicServerSetRolePrimary_MergePartial LogicServerSetRolePrimary_ByteSize LogicServerSetRolePrimary_Write
  "\<lambda>m. True" "(=)"
proof
  fix m m0 :: LogicServerSetRolePrimary
  assume fits: "True"
  show "LogicServerSetRolePrimary_ByteSize m = length (LogicServerSetRolePrimary_Write m)"
    by (simp add: LogicServerSetRolePrimary_ByteSize_def LogicServerSetRolePrimary_Write_def wire_sizes)
  have eq: "LogicServerSetRolePrimary_Clear m0\<lparr>prim_roleruntimeid := prim_roleruntimeid m\<rparr> = m"
    by (cases m; cases m0) (simp add: LogicServerSetRolePrimary_Clear_def)
  have "parses LogicServerSetRolePrimary_MergePartial (parse_round LogicServerSetRolePrimary_switch (LogicServerSetRolePrimary_Clear m0) (CodedInputStream (LogicServerSetRolePrimary_Write m)))
    (LogicServerSetRolePrimary_Clear m0\<lparr>prim_roleruntimeid := prim_roleruntimeid m\<rparr>)"
    by (rule LogicServerSetRolePrimary_from_roleruntimeid) (use fits in \<open>simp_all add: LogicServerSetRolePrimary_Clear_def LogicServerSetRolePrimary_Write_def CodedInputStream_def\<close>)
  then have "parses LogicServerSetRolePrimary_MergePartial (parse_round LogicServerSetRolePrimary_switch (LogicServerSetRolePrimary_Clear m0) (CodedInputStream (LogicServerSetRolePrimary_Write m))) m"
    unfolding eq .
  then show "\<exists>m' s'. LogicServerSetRolePrimary_MergePartial (LogicServerSetRolePrimary_Clear m0) (CodedInputStream (LogicServerSetRolePrimary_Write m)) = (Val m', s') \<and>
      legit_end s' \<and> m' = m"
    unfolding parses_def LogicServerSetRolePrimary_merge [symmetric] by blast
qed

section \<open>\<open>DownstreamACK\<close>\<close>

text \<open>Its repeated field comes back with the same elements; the capacity may differ.\<close>

definition down_same :: "DownstreamACK \<Rightarrow> DownstreamACK \<Rightarrow> bool" where
  "down_same m m' \<longleftrightarrow> down_msgid m = down_msgid m' \<and> down_data m = down_data m' \<and>
     elems (down_clientid m) = elems (down_clientid m')"

definition down_fits :: "DownstreamACK \<Rightarrow> bool" where
  "down_fits m \<longleftrightarrow> length (down_data m) < 2 ^ 31 \<and> clientid_bytes m < 2 ^ 31"

definition down_ids :: "DownstreamACK \<Rightarrow> bytes" where
  "down_ids M = (if elems (down_clientid M) \<noteq> []
     then WriteTagToArray 3 WIRETYPE_LENGTH_DELIMITED @ WriteVarint32ToArray (of_nat (clientid_bytes M)) else [])
     @ concat (map WriteVarint64ToArrayInline (elems (down_clientid M)))"

definition down_payload :: "DownstreamACK \<Rightarrow> bytes" where
  "down_payload M = (if down_data M \<noteq> [] then WriteBytesToArray 2 (down_data M) else [])"

lemma clientid_bytes_packed: "clientid_bytes M = length (WritePacked (elems (down_clientid M)))"
proof -
  have "VarintSize64 = (\<lambda>w. length (WriteVarint64ToArrayInline w))"
    by (rule ext) (simp add: VarintSize64_venc WriteVarint64ToArrayInline_venc)
  then show ?thesis by (simp add: clientid_bytes_def WritePacked_def length_concat o_def)
qed

lemma down_ids_packed:
  "down_ids M = (if elems (down_clientid M) \<noteq> []
     then 26 # WriteVarint32ToArray (of_nat (length (WritePacked (elems (down_clientid M)))))
       @ WritePacked (elems (down_clientid M)) else [])"
  by (simp add: down_ids_def tag_bytes clientid_bytes_packed WritePacked_def)

text \<open>What a parse of \<open>M\<close>'s bytes must end with, starting from \<open>m\<close> without ids.\<close>

definition down_ends :: "DownstreamACK step out \<times> istream \<Rightarrow> 32 word \<Rightarrow> bytes \<Rightarrow> 64 word list \<Rightarrow> bool" where
  "down_ends r i d xs \<longleftrightarrow> (\<exists>m'. parses DownstreamACK_MergePartial r m' \<and> down_msgid m' = i \<and>
     down_data m' = d \<and> elems (down_clientid m') = xs)"

lemma down_takes_ids:
  assumes "down_fits M" "elems (down_clientid m) = []"
    and "buf s = WriteVarint32ToArray (of_nat (length (WritePacked (elems (down_clientid M)))))
       @ WritePacked (elems (down_clientid M))"
  shows "down_ends (DownstreamACK_parse_clientid m s) (down_msgid m) (down_data m) (elems (down_clientid M))"
proof -
  obtain vs where "ReadPackedPrimitive (down_clientid m) s = (Val vs, s\<lparr>buf := [], legit_end := False\<rparr>)"
      "elems vs = elems (down_clientid M)"
    using packed_back [of s "elems (down_clientid M)" "[]" "down_clientid m"] assms
    by (auto simp: down_fits_def clientid_bytes_packed)
  then show ?thesis unfolding down_ends_def DownstreamACK_parse_clientid_def
    by (intro exI [of _ "m\<lparr>down_clientid := vs\<rparr>"]) (simp add: rd_bind_def parses_at_end)
qed

lemma down_round_end:
  "buf s = [] \<Longrightarrow> down_ends (parse_round DownstreamACK_switch m s) (down_msgid m) (down_data m) (elems (down_clientid m))"
  unfolding down_ends_def by (rule exI [of _ m]) (simp add: parses_round_end)

lemma down_Loop: "down_ends (Val (Loop m), s) = down_ends (parse_round DownstreamACK_switch m s)"
  unfolding down_ends_def parses_Loop [OF DownstreamACK_merge] ..

lemma down_from_ids:
  assumes "down_fits M" "elems (down_clientid m) = []" "buf s = down_ids M"
  shows "down_ends (parse_round DownstreamACK_switch m s) (down_msgid m) (down_data m) (elems (down_clientid M))"
proof (cases "elems (down_clientid M) = []")
  case True
  then show ?thesis using assms down_round_end [of s m] by (simp add: down_ids_packed WritePacked_def)
next
  case False
  let ?p = "WriteVarint32ToArray (of_nat (length (WritePacked (elems (down_clientid M)))))
       @ WritePacked (elems (down_clientid M))"
  have "parse_round DownstreamACK_switch m s = DownstreamACK_parse_clientid m (s\<lparr>last_tag := 26, buf := ?p\<rparr>)"
    using assms False by (subst parse_round_tag) (auto simp: down_ids_packed DownstreamACK_switch_def tag_fields Let_def)
  then show ?thesis using down_takes_ids [OF assms(1,2)] by simp
qed

lemma down_then_ids:
  assumes "down_fits M" "elems (down_clientid m) = []" "buf s = down_ids M"
  shows "down_ends (then_expect 26 DownstreamACK_parse_clientid m s) (down_msgid m) (down_data m) (elems (down_clientid M))"
proof (cases "elems (down_clientid M) = []")
  case True
  then have "then_expect 26 DownstreamACK_parse_clientid m s = (Val (Loop m), s)"
    using assms by (subst then_expect_miss) (auto simp: down_ids_packed WritePacked_def)
  then show ?thesis using down_from_ids [OF assms] by (simp add: down_Loop)
next
  case False
  then show ?thesis using assms(3) down_takes_ids [OF assms(1,2)]
    by (subst then_expect_hit) (auto simp: down_ids_packed)
qed

lemma down_takes_data:
  assumes "down_fits M" "elems (down_clientid m) = []" "buf s = WriteStringWithSizeToArray (down_data M) @ down_ids M"
  shows "down_ends (DownstreamACK_parse_data m s) (down_msgid m) (down_data M) (elems (down_clientid M))"
proof -
  have "DownstreamACK_parse_data m s =
      then_expect 26 DownstreamACK_parse_clientid (m\<lparr>down_data := down_data M\<rparr>) (s\<lparr>buf := down_ids M\<rparr>)"
    unfolding DownstreamACK_parse_data_def by (rule bytes.rd_then) (use assms in \<open>simp_all add: down_fits_def\<close>)
  then show ?thesis
    using down_then_ids [OF assms(1), of "m\<lparr>down_data := down_data M\<rparr>" "s\<lparr>buf := down_ids M\<rparr>"] assms(2)
    by simp
qed

lemma down_from_data:
  assumes "down_fits M" "elems (down_clientid m) = []" "down_data m = []" "buf s = down_payload M @ down_ids M"
  shows "down_ends (parse_round DownstreamACK_switch m s) (down_msgid m) (down_data M) (elems (down_clientid M))"
proof (cases "down_data M = []")
  case True
  then show ?thesis using assms down_from_ids [of M m s] by (simp add: down_payload_def)
next
  case False
  have "parse_round DownstreamACK_switch m s =
      DownstreamACK_parse_data m (s\<lparr>last_tag := 18, buf := WriteStringWithSizeToArray (down_data M) @ down_ids M\<rparr>)"
    using assms False
    by (subst parse_round_tag) (auto simp: down_payload_def tag_bytes WriteBytesToArray_def DownstreamACK_switch_def tag_fields Let_def)
  then show ?thesis using down_takes_data [OF assms(1,2)] by simp
qed

lemma down_then_data:
  assumes "down_fits M" "elems (down_clientid m) = []" "down_data m = []" "buf s = down_payload M @ down_ids M"
  shows "down_ends (then_expect 18 DownstreamACK_parse_data m s) (down_msgid m) (down_data M) (elems (down_clientid M))"
proof (cases "down_data M = []")
  case True
  then have "then_expect 18 DownstreamACK_parse_data m s = (Val (Loop m), s)"
    using assms by (subst then_expect_miss) (auto simp: down_payload_def down_ids_packed)
  then show ?thesis using down_from_data [OF assms] by (simp add: down_Loop)
next
  case False
  then show ?thesis using assms(4) down_takes_data [OF assms(1,2)]
    by (subst then_expect_hit) (auto simp: down_payload_def tag_bytes WriteBytesToArray_def)
qed

lemma DownstreamACK_parts:
  "DownstreamACK_Write M = (if down_msgid M \<noteq> 0 then 8 # WriteVarint32ToArray (down_msgid M) else [])
     @ down_payload M @ down_ids M"
  by (simp add: DownstreamACK_Write_def down_payload_def down_ids_def WriteUInt32ToArray_def tag_bytes)

lemma down_from_msgid:
  assumes "down_fits M" "elems (down_clientid m) = []" "down_data m = []" "down_msgid m = 0"
    and "buf s = DownstreamACK_Write M"
  shows "down_ends (parse_round DownstreamACK_switch m s) (down_msgid M) (down_data M) (elems (down_clientid M))"
proof (cases "down_msgid M = 0")
  case True
  then show ?thesis using assms down_from_data [of M m s] by (simp add: DownstreamACK_parts)
next
  case False
  let ?s = "s\<lparr>last_tag := 8, buf := WriteVarint32ToArray (down_msgid M) @ down_payload M @ down_ids M\<rparr>"
  have "parse_round DownstreamACK_switch m s = DownstreamACK_parse_msgid m ?s"
    using assms False by (subst parse_round_tag) (auto simp: DownstreamACK_parts DownstreamACK_switch_def tag_fields Let_def)
  moreover have "DownstreamACK_parse_msgid m ?s = then_expect 18 DownstreamACK_parse_data (m\<lparr>down_msgid := down_msgid M\<rparr>)
      (?s\<lparr>buf := down_payload M @ down_ids M\<rparr>)"
    unfolding DownstreamACK_parse_msgid_def by (rule uint32.rd_then) simp_all
  ultimately show ?thesis
    using down_then_data [of M "m\<lparr>down_msgid := down_msgid M\<rparr>" "?s\<lparr>buf := down_payload M @ down_ids M\<rparr>"] assms
    by simp
qed

lemma DownstreamACK_size: "down_fits m \<Longrightarrow> DownstreamACK_ByteSize m = length (DownstreamACK_Write m)"
proof -
  assume fits: "down_fits m"
  have pos: "0 < clientid_bytes m \<longleftrightarrow> elems (down_clientid m) \<noteq> []"
    by (cases "elems (down_clientid m)") (simp_all add: clientid_bytes_packed WritePacked_def WriteVarint64ToArrayInline_venc)
  have "sint (of_nat (clientid_bytes m) :: 32 word) = int (clientid_bytes m)"
    using fits by (simp add: signed_of_nat signed_take_bit_int_eq_self down_fits_def)
  then have "VarintSize32SignExtended (of_nat (clientid_bytes m)) = length (WriteVarint32ToArray (of_nat (clientid_bytes m)))"
    by (simp add: VarintSize32SignExtended_def VarintSize32_venc WriteVarint32ToArray_venc)
  moreover have "clientid_bytes m = length (concat (map WriteVarint64ToArrayInline (elems (down_clientid m))))"
    using clientid_bytes_packed [of m] by (simp add: WritePacked_def)
  ultimately show ?thesis
    using pos by (simp add: DownstreamACK_ByteSize_def DownstreamACK_Write_def wire_sizes tag_bytes)
qed

interpretation down: wire_message DownstreamACK_Clear DownstreamACK_MergePartial DownstreamACK_ByteSize
  DownstreamACK_Write down_fits down_same
proof
  fix m m0 :: DownstreamACK
  assume fits: "down_fits m"
  show "DownstreamACK_ByteSize m = length (DownstreamACK_Write m)" using fits by (rule DownstreamACK_size)
  have "down_ends (parse_round DownstreamACK_switch (DownstreamACK_Clear m0) (CodedInputStream (DownstreamACK_Write m)))
      (down_msgid m) (down_data m) (elems (down_clientid m))"
    by (rule down_from_msgid) (use fits in \<open>simp_all add: DownstreamACK_Clear_def CodedInputStream_def\<close>)
  then show "\<exists>m' s'. DownstreamACK_MergePartial (DownstreamACK_Clear m0) (CodedInputStream (DownstreamACK_Write m)) =
      (Val m', s') \<and> legit_end s' \<and> down_same m' m"
    unfolding down_ends_def parses_def DownstreamACK_merge [symmetric] down_same_def by blast
qed

end
