(* ===== verification/WSServer.thy ===== *)
theory WSServer
  imports WSFraming Registry MakeUID ProtoRoundTrip
begin

text \<open>
  The web-facing connection server (WSConnectionServer/): \<open>ConnectionClientSession\<close>
  (ClientSession.cpp, \<open>ws_client\<close>), \<open>LogicServerSession\<close> (LogicServerSession.cpp, \<open>ws_logic\<close>), and the
  tables of ClientSessionMgr.cpp and LogicServerSessionMgr.cpp.

  \<^item> Every session belongs to the event loop of one thread. A handler runs on one loop (\<open>here\<close>); what it
    does to a session of another loop is queued there with \<open>pushAsyncProc\<close> (\<open>tasks\<close>, in order). A
    closed client waits two minutes in \<open>timers\<close>.
  \<^item> \<open>ws_env\<close> is what one event finds outside the program: the configuration, the clock, \<open>rand()\<close>,
    and the order in which each hash table is visited.
  \<^item> What is handed to the network library, in order, is \<open>wire\<close>. Logging is left out.
\<close>

section \<open>State\<close>

type_synonym caddr = nat  \<comment> \<open>a \<open>ConnectionClientSession\<close>\<close>
type_synonym laddr = nat  \<comment> \<open>a \<open>LogicServerSession\<close>\<close>
type_synonym servers = "(i32, laddr option) umap"
type_synonym client_map = "(i64, caddr) umap"

record ws_client =
  wc_loop :: nat                     \<comment> \<open>\<open>getEventLoop()\<close>\<close>
  wc_runtimeID :: i64                \<comment> \<open>\<open>mRuntimeID\<close>\<close>
  wc_recvSerial :: i32               \<comment> \<open>\<open>mRecvSerialID\<close>\<close>
  wc_sendSerial :: i32               \<comment> \<open>\<open>mSendSerialID\<close>, atomic\<close>
  wc_primary :: "laddr option"       \<comment> \<open>\<open>mPrimaryServer\<close>\<close>
  wc_slave :: "laddr option"         \<comment> \<open>\<open>mSlaveServer\<close>\<close>
  wc_reconnecting :: bool            \<comment> \<open>\<open>mReconnecting\<close>\<close>
  wc_shakehanded :: bool             \<comment> \<open>\<open>mShakehanded\<close> of the base class\<close>
  wc_cache :: bytes                  \<comment> \<open>\<open>mCacheFrame\<close> of the base class\<close>

record ws_logic =
  wl_loop :: nat
  wl_isPrimary :: bool               \<comment> \<open>\<open>mIsPrimary\<close>\<close>
  wl_id :: i32                       \<comment> \<open>\<open>mID\<close>\<close>
  wl_sendSerial :: i16               \<comment> \<open>\<open>mSendSerialID\<close>, atomic\<close>
  wl_recvSerial :: i16               \<comment> \<open>\<open>mRecvSerialID\<close> of the base class\<close>

datatype ws_task =
    TaskSendLogic laddr i32 bytes    \<comment> \<open>\<open>helpSendPacketInLoop\<close>\<close>
  | TaskSendClient caddr i32 bytes   \<comment> \<open>\<open>helpSendPacket\<close>\<close>
  | TaskNotify caddr                 \<comment> \<open>\<open>notifyServerPlayerExist\<close>\<close>

datatype ws_out =
    ToLogic laddr bytes              \<comment> \<open>\<open>sendPacket\<close> of a logic session\<close>
  | ToClient caddr bytes             \<comment> \<open>\<open>sendPacket\<close> of a client session\<close>
  | PostClose caddr

record ws_server =
  ws_clients :: "caddr \<Rightarrow> ws_client"
  ws_logics :: "laddr \<Rightarrow> ws_logic"
  ws_clientTable :: client_map       \<comment> \<open>\<open>gAllClientObject\<close>\<close>
  ws_primaries :: servers            \<comment> \<open>\<open>gAllPrimaryServers\<close>\<close>
  ws_slaves :: servers               \<comment> \<open>\<open>gAllSlaveServers\<close>\<close>
  ws_incID :: i32                    \<comment> \<open>\<open>incRuntimeID\<close>\<close>
  ws_tasks :: "(nat \<times> ws_task) list" \<comment> \<open>queued procs, with their loop\<close>
  ws_timers :: "caddr list"
  ws_wire :: "ws_out list"

record ws_env =
  env_id :: i32                      \<comment> \<open>\<open>connectionServerConfig.id()\<close>\<close>
  env_password :: bytes              \<comment> \<open>\<open>logicserverloginpassword()\<close>\<close>
  env_now :: i64
  env_rand :: nat
  env_order :: "servers \<Rightarrow> servers"
  env_clients :: "client_map \<Rightarrow> client_map"

definition WSClientSession :: "nat \<Rightarrow> ws_client" where
  "WSClientSession lp = \<lparr>wc_loop = lp, wc_runtimeID = - 1, wc_recvSerial = 0, wc_sendSerial = 0, wc_primary = None,
     wc_slave = None, wc_reconnecting = False, wc_shakehanded = False, wc_cache = []\<rparr>"

definition WSLogicSession :: "nat \<Rightarrow> ws_logic" where
  "WSLogicSession lp = \<lparr>wl_loop = lp, wl_isPrimary = False, wl_id = - 1, wl_sendSerial = 1, wl_recvSerial = 1\<rparr>"

definition set_client :: "caddr \<Rightarrow> (ws_client \<Rightarrow> ws_client) \<Rightarrow> ws_server \<Rightarrow> ws_server" where
  "set_client c f s = s\<lparr>ws_clients := (ws_clients s)(c := f (ws_clients s c))\<rparr>"

definition set_logic :: "laddr \<Rightarrow> (ws_logic \<Rightarrow> ws_logic) \<Rightarrow> ws_server \<Rightarrow> ws_server" where
  "set_logic l f s = s\<lparr>ws_logics := (ws_logics s)(l := f (ws_logics s l))\<rparr>"

definition put :: "ws_out \<Rightarrow> ws_server \<Rightarrow> ws_server" where
  "put a s = s\<lparr>ws_wire := ws_wire s @ [a]\<rparr>"

definition pushAsyncProc :: "nat \<Rightarrow> ws_task \<Rightarrow> ws_server \<Rightarrow> ws_server" where
  "pushAsyncProc lp t s = s\<lparr>ws_tasks := ws_tasks s @ [(lp, t)]\<rparr>"

section \<open>LogicServerSessionMgr\<close>

definition WS_AddPrimaryLogicServer :: "i32 \<Rightarrow> laddr option \<Rightarrow> servers \<Rightarrow> servers" where
  "WS_AddPrimaryLogicServer sid p m = um_set sid p m"

definition WS_FindPrimaryLogicServer :: "servers \<Rightarrow> i32 \<Rightarrow> laddr option \<times> servers" where
  "WS_FindPrimaryLogicServer m sid = um_index None m sid"

text \<open>The copy is visited in the order the event finds.\<close>

definition GetAllPrimaryLogicServer :: "ws_env \<Rightarrow> servers \<Rightarrow> servers" where
  "GetAllPrimaryLogicServer e m = env_order e m"

definition WS_RemovePrimaryLogicServer :: "i32 \<Rightarrow> servers \<Rightarrow> servers" where
  "WS_RemovePrimaryLogicServer sid m = um_erase sid m"

fun ws_claim_scan :: "nat \<Rightarrow> nat \<Rightarrow> servers \<Rightarrow> i32" where
  "ws_claim_scan i randnum [] = - 1"
| "ws_claim_scan i randnum (v # vs) = (if i = randnum then fst v else ws_claim_scan (Suc i) randnum vs)"

definition WS_ClaimPrimaryLogicServer :: "ws_env \<Rightarrow> servers \<Rightarrow> i32" where
  "WS_ClaimPrimaryLogicServer e m =
     (if m \<noteq> [] then ws_claim_scan 0 (env_rand e mod length m) (env_order e m) else - 1)"

definition WS_AddSlaveLogicServer :: "i32 \<Rightarrow> laddr option \<Rightarrow> servers \<Rightarrow> servers" where
  "WS_AddSlaveLogicServer sid p m = um_set sid p m"

definition WS_FindSlaveLogicServer :: "servers \<Rightarrow> i32 \<Rightarrow> laddr option \<times> servers" where
  "WS_FindSlaveLogicServer m sid = um_index None m sid"

definition WS_RemoveSlaveLogicServer :: "i32 \<Rightarrow> servers \<Rightarrow> servers" where
  "WS_RemoveSlaveLogicServer sid m = um_erase sid m"

definition GetAllSlaveLogicServer :: "ws_env \<Rightarrow> servers \<Rightarrow> servers" where
  "GetAllSlaveLogicServer e m = env_order e m"

interpretation ws_primaries: registry WS_FindPrimaryLogicServer "\<lambda>sid p. WS_AddPrimaryLogicServer sid (Some p)"
    WS_RemovePrimaryLogicServer um_live
  by unfold_locales (auto simp: WS_FindPrimaryLogicServer_def WS_AddPrimaryLogicServer_def WS_RemovePrimaryLogicServer_def)

interpretation ws_slaves: registry WS_FindSlaveLogicServer "\<lambda>sid p. WS_AddSlaveLogicServer sid (Some p)"
    WS_RemoveSlaveLogicServer um_live
  by unfold_locales (auto simp: WS_FindSlaveLogicServer_def WS_AddSlaveLogicServer_def WS_RemoveSlaveLogicServer_def)

section \<open>ClientSessionMgr: the table\<close>

definition WS_FindClientByRuntimeID :: "client_map \<Rightarrow> i64 \<Rightarrow> caddr option" where
  "WS_FindClientByRuntimeID m runtimeID = um_find m runtimeID"

definition WS_AddClientByRuntimeID :: "bool \<Rightarrow> caddr \<Rightarrow> i64 \<Rightarrow> client_map \<Rightarrow> client_map result" where
  "WS_AddClientByRuntimeID ndebug client runtimeID m =
     cassert ndebug (WS_FindClientByRuntimeID m runtimeID = None) (Inr (um_set runtimeID client m))"

definition WS_EraseClientByRuntimeID :: "i64 \<Rightarrow> client_map \<Rightarrow> client_map" where
  "WS_EraseClientByRuntimeID runtimeID m = um_erase runtimeID m"

interpretation ws_client_table: registry "\<lambda>m rid. (WS_FindClientByRuntimeID m rid, m)" "\<lambda>rid c. um_set rid c"
    WS_EraseClientByRuntimeID um_find
  by unfold_locales (auto simp: WS_FindClientByRuntimeID_def WS_EraseClientByRuntimeID_def)

lemmas ws_mgr_defs = WS_AddPrimaryLogicServer_def WS_FindPrimaryLogicServer_def WS_RemovePrimaryLogicServer_def
  WS_AddSlaveLogicServer_def WS_FindSlaveLogicServer_def WS_RemoveSlaveLogicServer_def
  WS_FindClientByRuntimeID_def WS_AddClientByRuntimeID_def WS_EraseClientByRuntimeID_def
  GetAllPrimaryLogicServer_def GetAllSlaveLogicServer_def

section \<open>LogicServerSession: sending\<close>

definition helpSendPacketInLoop ::
  "('r, 'z) base_lib_scheme \<Rightarrow> laddr \<Rightarrow> i32 \<Rightarrow> bytes \<Rightarrow> ws_server \<Rightarrow> ws_server" where
  "helpSendPacketInLoop B l cmd data s =
     (let ser = wl_sendSerial (ws_logics s l);
          s1 = set_logic l (\<lambda>x. x\<lparr>wl_sendSerial := ser + 1\<rparr>) s;
          packet = bw_data B False True (8 * 1024)
            [WU32 cmd, WU16 ser, WU16 (of_nat (length data + 8)), WBuf data]
      in put (ToLogic l packet) s1)"

definition sendPBData_shared ::
  "('r, 'z) base_lib_scheme \<Rightarrow> nat \<Rightarrow> laddr \<Rightarrow> i32 \<Rightarrow> bytes \<Rightarrow> ws_server \<Rightarrow> ws_server" where
  "sendPBData_shared B here l cmd data s =
     (if wl_loop (ws_logics s l) = here then helpSendPacketInLoop B l cmd data s
      else pushAsyncProc (wl_loop (ws_logics s l)) (TaskSendLogic l cmd data) s)"

definition sendPBData ::
  "('r, 'z) base_lib_scheme \<Rightarrow> nat \<Rightarrow> laddr \<Rightarrow> i32 \<Rightarrow> bytes \<Rightarrow> ws_server \<Rightarrow> ws_server" where
  "sendPBData B here l cmd data s =
     (if wl_loop (ws_logics s l) = here then helpSendPacketInLoop B l cmd data s
      else sendPBData_shared B here l cmd data s)"

text \<open>The template \<open>sendPB\<close>: a message type is its \<open>ByteSize\<close> and its serializer.\<close>

definition sendPB ::
  "('r, 'z) base_lib_scheme \<Rightarrow> nat \<Rightarrow> laddr \<Rightarrow> i32 \<Rightarrow> ('m \<Rightarrow> nat) \<Rightarrow> ('m \<Rightarrow> bytes) \<Rightarrow> 'm \<Rightarrow> ws_server \<Rightarrow>
   ws_server result" where
  "sendPB B here l cmd byte_size write m s =
     (if wl_loop (ws_logics s l) = here then
        rbind (SerializePartialToArray byte_size write m (8 * 1024)) (\<lambda>r. case r of
            None \<Rightarrow> Inr s
          | Some buff \<Rightarrow> Inr (sendPBData B here l cmd (take (byte_size m) buff) s))
      else
        rbind (SerializePartialAsString byte_size write m) (\<lambda>str.
          if str \<noteq> [] then Inr (sendPBData_shared B here l cmd str s) else Inr s))"

text \<open>\<open>v.second->sendPB(...)\<close> for every entry of a table's copy; an entry may be null.\<close>

fun sendPB_all ::
  "('r, 'z) base_lib_scheme \<Rightarrow> nat \<Rightarrow> servers \<Rightarrow> i32 \<Rightarrow> ('m \<Rightarrow> nat) \<Rightarrow> ('m \<Rightarrow> bytes) \<Rightarrow> 'm \<Rightarrow> ws_server \<Rightarrow>
   ws_server result" where
  "sendPB_all B here [] cmd byte_size write m s = Inr s"
| "sendPB_all B here (v # vs) cmd byte_size write m s = (case snd v of
       None \<Rightarrow> Inl NullDeref
     | Some l \<Rightarrow> rbind (sendPB B here l cmd byte_size write m s) (sendPB_all B here vs cmd byte_size write m))"

section \<open>ConnectionClientSession\<close>

definition helpSendPacket ::
  "('r, 'z) base_lib_scheme \<Rightarrow> caddr \<Rightarrow> i32 \<Rightarrow> bytes \<Rightarrow> ws_server \<Rightarrow> ws_server" where
  "helpSendPacket B c op data s =
     (let ser = wc_sendSerial (ws_clients s c);
          s1 = set_client c (\<lambda>x. x\<lparr>wc_sendSerial := ser + 1\<rparr>) s;
          packet = bw_data B True False (8 * 1024)
            [WI8 123, WU32 (of_nat (length data + 14)), WU32 op, WU32 ser, WBuf data, WI8 125]
      in case ws_build B packet TEXT_FRAME of
           None \<Rightarrow> s1
         | Some frame \<Rightarrow> put (ToClient c frame) s1)"

definition sendPBBinary_shared ::
  "('r, 'z) base_lib_scheme \<Rightarrow> nat \<Rightarrow> caddr \<Rightarrow> i32 \<Rightarrow> bytes \<Rightarrow> ws_server \<Rightarrow> ws_server" where
  "sendPBBinary_shared B here c cmd data s =
     (if wc_loop (ws_clients s c) = here then helpSendPacket B c cmd data s
      else pushAsyncProc (wc_loop (ws_clients s c)) (TaskSendClient c cmd data) s)"

definition sendPBBinary ::
  "('r, 'z) base_lib_scheme \<Rightarrow> nat \<Rightarrow> caddr \<Rightarrow> i32 \<Rightarrow> bytes \<Rightarrow> ws_server \<Rightarrow> ws_server" where
  "sendPBBinary B here c cmd data s =
     (if wc_loop (ws_clients s c) = here then helpSendPacket B c cmd data s
      else sendPBBinary_shared B here c cmd data s)"

definition WS_MakeRuntimeID :: "ws_env \<Rightarrow> i32 \<Rightarrow> i64 \<times> i32" where
  "WS_MakeRuntimeID e inc = (client_runtime_id (ucast (env_id e)) (ucast inc) (ucast (env_now e)), inc + 1)"

definition WS_claimPrimaryServer :: "bool \<Rightarrow> ws_env \<Rightarrow> caddr \<Rightarrow> ws_server \<Rightarrow> ws_server result" where
  "WS_claimPrimaryServer ndebug e c s =
     cassert ndebug (wc_runtimeID (ws_clients s c) \<noteq> - 1)
       (if wc_runtimeID (ws_clients s c) \<noteq> - 1 \<and> wc_primary (ws_clients s c) = None then
          (let primaryID = WS_ClaimPrimaryLogicServer e (ws_primaries s) in
           if primaryID \<noteq> - 1 then
             (let (p, m) = WS_FindPrimaryLogicServer (ws_primaries s) primaryID
              in Inr (set_client c (\<lambda>x. x\<lparr>wc_primary := p\<rparr>) (s\<lparr>ws_primaries := m\<rparr>)))
           else Inr s)
        else Inr s)"

definition setPrimaryServerID :: "caddr \<Rightarrow> i32 \<Rightarrow> ws_server \<Rightarrow> ws_server" where
  "setPrimaryServerID c sid s =
     (if sid \<noteq> - 1 then
        (let (p, m) = WS_FindPrimaryLogicServer (ws_primaries s) sid
         in set_client c (\<lambda>x. x\<lparr>wc_reconnecting := False, wc_primary := p\<rparr>) (s\<lparr>ws_primaries := m\<rparr>))
      else set_client c (\<lambda>x. x\<lparr>wc_primary := None\<rparr>) s)"

definition WS_setSlaveServerID :: "caddr \<Rightarrow> i32 \<Rightarrow> ws_server \<Rightarrow> ws_server" where
  "WS_setSlaveServerID c sid s =
     (if sid \<noteq> - 1 then
        (let (p, m) = WS_FindSlaveLogicServer (ws_slaves s) sid
         in set_client c (\<lambda>x. x\<lparr>wc_slave := p\<rparr>) (s\<lparr>ws_slaves := m\<rparr>))
      else set_client c (\<lambda>x. x\<lparr>wc_slave := None\<rparr>) s)"

definition getPrimaryServerID :: "caddr \<Rightarrow> ws_server \<Rightarrow> i32" where
  "getPrimaryServerID c s = (case wc_primary (ws_clients s c) of
       Some l \<Rightarrow> wl_id (ws_logics s l) | None \<Rightarrow> - 1)"

definition CLOSE_CLIENT_ACK_OP :: i32 where
  "CLOSE_CLIENT_ACK_OP = 1513370829"

definition notifyServerPlayerExist ::
  "('r, 'z) base_lib_scheme \<Rightarrow> ws_env \<Rightarrow> caddr \<Rightarrow> ws_server \<Rightarrow> ws_server result" where
  "notifyServerPlayerExist B e c s =
     (let here = wc_loop (ws_clients s c);
          closeAck = \<lparr>close_clientid = wc_runtimeID (ws_clients s c)\<rparr>
      in rbind
          (case wc_primary (ws_clients s c) of
             Some server \<Rightarrow> sendPB B here server CLOSE_CLIENT_ACK_OP CloseClientACK_ByteSize CloseClientACK_Write closeAck s
           | None \<Rightarrow>
               if wc_reconnecting (ws_clients s c)
               then sendPB_all B here (GetAllPrimaryLogicServer e (ws_primaries s)) CLOSE_CLIENT_ACK_OP
                      CloseClientACK_ByteSize CloseClientACK_Write closeAck s
               else Inr s)
          (\<lambda>s1. case wc_slave (ws_clients s1 c) of
             Some server \<Rightarrow> sendPB B here server CLOSE_CLIENT_ACK_OP CloseClientACK_ByteSize CloseClientACK_Write closeAck s1
           | None \<Rightarrow>
               if wc_reconnecting (ws_clients s1 c)
               then sendPB_all B here (GetAllSlaveLogicServer e (ws_slaves s1)) CLOSE_CLIENT_ACK_OP
                      CloseClientACK_ByteSize CloseClientACK_Write closeAck s1
               else Inr s1))"

definition UPSTREAM_ACK_OP :: i32 where
  "UPSTREAM_ACK_OP = 2210821449"

definition PRIMARY_OPS :: "i32 list" where
  "PRIMARY_OPS = [24, 52, 74, 75]"

definition sendUpstream ::
  "('r, 'z) base_lib_scheme \<Rightarrow> nat \<Rightarrow> laddr \<Rightarrow> UpstreamACK \<Rightarrow> ws_server \<Rightarrow> ws_server result" where
  "sendUpstream B here l m s = sendPB B here l UPSTREAM_ACK_OP UpstreamACK_ByteSize UpstreamACK_Write m s"

text \<open>
  The pointers are loaded before \<open>claimPrimaryServer\<close> stores the primary it claims, and the loaded
  ones are what the packet is sent through. \<open>mRecvSerialID\<close> is a plain \<open>int32_t\<close>.
\<close>

definition WS_procPacket ::
  "bool \<Rightarrow> ('r, 'z) base_lib_scheme \<Rightarrow> ws_env \<Rightarrow> caddr \<Rightarrow> i32 \<Rightarrow> bytes \<Rightarrow> ws_server \<Rightarrow> ws_server result" where
  "WS_procPacket ndebug B e c op body s0 =
     (if wc_recvSerial (ws_clients s0 c) = 0x7FFFFFFF then Inl SignedOverflow
      else
        (let s = set_client c (\<lambda>x. x\<lparr>wc_recvSerial := wc_recvSerial x + 1\<rparr>) s0;
             here = wc_loop (ws_clients s c);
             upstream = \<lparr>up_msgid = op, up_data = body, up_clientid = wc_runtimeID (ws_clients s c)\<rparr>
         in if op = 10000 then Inr (sendPBBinary B here c 10000 [] s)
            else if op = 91 then
              rbind (if wc_recvSerial (ws_clients s c) = 1
                     then sendPB_all B here (GetAllPrimaryLogicServer e (ws_primaries s)) UPSTREAM_ACK_OP
                            UpstreamACK_ByteSize UpstreamACK_Write upstream s
                     else Inr s)
                (\<lambda>s1. Inr (set_client c (\<lambda>x. x\<lparr>wc_reconnecting := True\<rparr>) s1))
            else
              (let primaryServer = wc_primary (ws_clients s c); slaveServer = wc_slave (ws_clients s c)
               in rbind (if primaryServer = None \<and> \<not> wc_reconnecting (ws_clients s c)
                         then WS_claimPrimaryServer ndebug e c s else Inr s)
                    (\<lambda>s1. if op \<in> set PRIMARY_OPS then
                            (case primaryServer of Some l \<Rightarrow> sendUpstream B here l upstream s1 | None \<Rightarrow> Inr s1)
                          else
                            (case slaveServer of
                               Some l \<Rightarrow> sendUpstream B here l upstream s1
                             | None \<Rightarrow>
                                 (case primaryServer of
                                    Some l \<Rightarrow> sendUpstream B here l upstream s1
                                  | None \<Rightarrow> Inr s1))))))"

definition WS_onEnter :: "bool \<Rightarrow> ws_env \<Rightarrow> caddr \<Rightarrow> ws_server \<Rightarrow> ws_server result" where
  "WS_onEnter ndebug e c s =
     (let (rid, inc) = WS_MakeRuntimeID e (ws_incID s);
          s1 = set_client c (\<lambda>x. x\<lparr>wc_runtimeID := rid\<rparr>) (s\<lparr>ws_incID := inc\<rparr>)
      in rbind (WS_AddClientByRuntimeID ndebug c rid (ws_clientTable s1)) (\<lambda>m. Inr (s1\<lparr>ws_clientTable := m\<rparr>)))"

definition WS_onClose :: "caddr \<Rightarrow> ws_server \<Rightarrow> ws_server" where
  "WS_onClose c s = (if wc_runtimeID (ws_clients s c) \<noteq> - 1 then s\<lparr>ws_timers := ws_timers s @ [c]\<rparr> else s)"

text \<open>The callback of the two-minute timer.\<close>

definition close_timer :: "('r, 'z) base_lib_scheme \<Rightarrow> ws_env \<Rightarrow> caddr \<Rightarrow> ws_server \<Rightarrow> ws_server result" where
  "close_timer B e c s = rbind (notifyServerPlayerExist B e c s) (\<lambda>s1.
     Inr (s1\<lparr>ws_clientTable := WS_EraseClientByRuntimeID (wc_runtimeID (ws_clients s1 c)) (ws_clientTable s1)\<rparr>))"

section \<open>ClientSessionMgr: kicking\<close>

definition WS_KickClientByRuntimeID ::
  "('r, 'z) base_lib_scheme \<Rightarrow> ws_env \<Rightarrow> nat \<Rightarrow> i64 \<Rightarrow> ws_server \<Rightarrow> ws_server result" where
  "WS_KickClientByRuntimeID B e here runtimeID s =
     (case WS_FindClientByRuntimeID (ws_clientTable s) runtimeID of
        None \<Rightarrow> Inr s
      | Some p \<Rightarrow>
          (let s1 = put (PostClose p) s; lp = wc_loop (ws_clients s p) in
           if async_inline B \<and> lp = here then notifyServerPlayerExist B e p s1
           else Inr (pushAsyncProc lp (TaskNotify p) s1)))"

fun ws_kick_scan ::
  "('r, 'z) base_lib_scheme \<Rightarrow> ws_env \<Rightarrow> nat \<Rightarrow> i32 \<Rightarrow> client_map \<Rightarrow> ws_server \<Rightarrow> ws_server result" where
  "ws_kick_scan B e here primaryServerID [] s = Inr s"
| "ws_kick_scan B e here primaryServerID (v # vs) s =
     (if getPrimaryServerID (snd v) s = primaryServerID
      then rbind (WS_KickClientByRuntimeID B e here (wc_runtimeID (ws_clients s (snd v))) s)
             (ws_kick_scan B e here primaryServerID vs)
      else ws_kick_scan B e here primaryServerID vs s)"

definition WS_KickClientOfPrimary ::
  "('r, 'z) base_lib_scheme \<Rightarrow> ws_env \<Rightarrow> nat \<Rightarrow> i32 \<Rightarrow> ws_server \<Rightarrow> ws_server result" where
  "WS_KickClientOfPrimary B e here primaryServerID s =
     ws_kick_scan B e here primaryServerID (env_clients e (ws_clientTable s)) s"

section \<open>LogicServerSession: handlers\<close>

definition LOGICSERVER_LOGIN :: i32 where "LOGICSERVER_LOGIN = 3280140517"
definition LOGICSERVER_DOWNSTREAM :: i32 where "LOGICSERVER_DOWNSTREAM = 1648565662"
definition LOGICSERVER_KICK_PLAYER :: i32 where "LOGICSERVER_KICK_PLAYER = 2806502720"
definition LOGICSERVER_SET_PLAYER_SLAVE :: i32 where "LOGICSERVER_SET_PLAYER_SLAVE = 1999458104"
definition LOGICSERVER_SET_PLAYER_PRIMARY :: i32 where "LOGICSERVER_SET_PLAYER_PRIMARY = 2933402823"

lemmas cellnet_ops = LOGICSERVER_LOGIN_def LOGICSERVER_DOWNSTREAM_def LOGICSERVER_KICK_PLAYER_def
  LOGICSERVER_SET_PLAYER_SLAVE_def LOGICSERVER_SET_PLAYER_PRIMARY_def

text \<open>\<open>msg.ParseFromArray(rp.getBuffer(), rp.getMaxPos())\<close> as the condition of an \<open>if\<close>.\<close>

definition if_parsed ::
  "('r, 'z) base_lib_scheme \<Rightarrow> 'r \<Rightarrow> ('m \<Rightarrow> 'm) \<Rightarrow> ('m \<Rightarrow> 'm reader) \<Rightarrow> 'm \<Rightarrow>
   ('m \<Rightarrow> ws_server \<Rightarrow> ws_server result) \<Rightarrow> ws_server \<Rightarrow> ws_server result" where
  "if_parsed B rp clear merge fresh k s =
     (case ParseFromArray clear merge (take (br_max B rp) (br_buffer B rp)) fresh of
        Val m \<Rightarrow> k m s | Failed \<Rightarrow> Inr s | Fault f \<Rightarrow> Inl f)"

definition WS_checkPassword :: "ws_env \<Rightarrow> bytes \<Rightarrow> bool" where
  "WS_checkPassword e password \<longleftrightarrow> password = env_password e"

definition WS_sendLogicServerLoginResult ::
  "('r, 'z) base_lib_scheme \<Rightarrow> ws_env \<Rightarrow> laddr \<Rightarrow> bool \<Rightarrow> ws_server \<Rightarrow> ws_server result" where
  "WS_sendLogicServerLoginResult B e l isSuccess s =
     sendPB B (wl_loop (ws_logics s l)) l 966232901 LogicServerLoginReply_ByteSize LogicServerLoginReply_Write
       \<lparr>reply_issuccess = isSuccess, reply_id = env_id e\<rparr> s"

definition WS_onLogicServerLogin ::
  "('r, 'z) base_lib_scheme \<Rightarrow> ws_env \<Rightarrow> laddr \<Rightarrow> 'r \<Rightarrow> ws_server \<Rightarrow> ws_server result" where
  "WS_onLogicServerLogin B e l rp =
     if_parsed B rp LogicServerLogin_Clear LogicServerLogin_MergePartial \<lparr>login_id = 0, login_isprimary = False\<rparr>
       (\<lambda>loginMsg s.
          if True \<or> WS_checkPassword e [] then
            (let sid = login_id loginMsg;
                 (isSuccess, s1) =
                   (if login_isprimary loginMsg then
                      (let (q, m) = WS_FindPrimaryLogicServer (ws_primaries s) sid in
                       if q = None then (True, s\<lparr>ws_primaries := WS_AddPrimaryLogicServer sid (Some l) m\<rparr>)
                       else (False, s\<lparr>ws_primaries := m\<rparr>))
                    else
                      (let (q, m) = WS_FindSlaveLogicServer (ws_slaves s) sid in
                       if q = None then (True, s\<lparr>ws_slaves := WS_AddSlaveLogicServer sid (Some l) m\<rparr>)
                       else (False, s\<lparr>ws_slaves := m\<rparr>)))
             in if isSuccess
                then WS_sendLogicServerLoginResult B e l True
                       (set_logic l (\<lambda>x. x\<lparr>wl_isPrimary := login_isprimary loginMsg, wl_id := sid\<rparr>) s1)
                else WS_sendLogicServerLoginResult B e l False s1)
          else WS_sendLogicServerLoginResult B e l False s)"

fun downstream_loop ::
  "('r, 'z) base_lib_scheme \<Rightarrow> nat \<Rightarrow> DownstreamACK \<Rightarrow> i64 list \<Rightarrow> ws_server \<Rightarrow> ws_server" where
  "downstream_loop B here downstream [] s = s"
| "downstream_loop B here downstream (v # vs) s =
     downstream_loop B here downstream vs
       (case WS_FindClientByRuntimeID (ws_clientTable s) v of
          None \<Rightarrow> s
        | Some client \<Rightarrow>
            if wc_loop (ws_clients s client) = here
            then sendPBBinary B here client (down_msgid downstream) (down_data downstream) s
            else sendPBBinary_shared B here client (down_msgid downstream) (down_data downstream) s)"

definition WS_onPacket2ClientByRuntimeID ::
  "('r, 'z) base_lib_scheme \<Rightarrow> laddr \<Rightarrow> 'r \<Rightarrow> ws_server \<Rightarrow> ws_server result" where
  "WS_onPacket2ClientByRuntimeID B l rp =
     if_parsed B rp DownstreamACK_Clear DownstreamACK_MergePartial
       \<lparr>down_msgid = 0, down_data = [], down_clientid = \<lparr>elems = [], total_size = 0\<rparr>\<rparr>
       (\<lambda>downstream s. Inr (downstream_loop B (wl_loop (ws_logics s l)) downstream (elems (down_clientid downstream)) s))"

definition onIsSetPlayerSlaveServer ::
  "('r, 'z) base_lib_scheme \<Rightarrow> laddr \<Rightarrow> 'r \<Rightarrow> ws_server \<Rightarrow> ws_server result" where
  "onIsSetPlayerSlaveServer B l rp =
     if_parsed B rp LogicServerSetRoleSlave_Clear LogicServerSetRoleSlave_MergePartial
       \<lparr>slave_roleruntimeid = 0, slave_willset = False\<rparr>
       (\<lambda>setslaveMsg s. case WS_FindClientByRuntimeID (ws_clientTable s) (slave_roleruntimeid setslaveMsg) of
            None \<Rightarrow> Inr s
          | Some p \<Rightarrow> Inr (WS_setSlaveServerID p (if slave_willset setslaveMsg then wl_id (ws_logics s l) else - 1) s))"

definition onSetPlayerPrimaryServer ::
  "('r, 'z) base_lib_scheme \<Rightarrow> laddr \<Rightarrow> 'r \<Rightarrow> ws_server \<Rightarrow> ws_server result" where
  "onSetPlayerPrimaryServer B l rp =
     if_parsed B rp LogicServerSetRolePrimary_Clear LogicServerSetRolePrimary_MergePartial \<lparr>prim_roleruntimeid = 0\<rparr>
       (\<lambda>setPrimaryMsg s. case WS_FindClientByRuntimeID (ws_clientTable s) (prim_roleruntimeid setPrimaryMsg) of
            None \<Rightarrow> Inr s
          | Some p \<Rightarrow> Inr (setPrimaryServerID p (wl_id (ws_logics s l)) s))"

definition WS_onKickClientByRuntimeID ::
  "('r, 'z) base_lib_scheme \<Rightarrow> ws_env \<Rightarrow> laddr \<Rightarrow> 'r \<Rightarrow> ws_server \<Rightarrow> ws_server result" where
  "WS_onKickClientByRuntimeID B e l rp =
     if_parsed B rp LogicServerKickPlayer_Clear LogicServerKickPlayer_MergePartial \<lparr>kick_roleruntimeid = 0\<rparr>
       (\<lambda>kickMsg s. WS_KickClientByRuntimeID B e (wl_loop (ws_logics s l)) (kick_roleruntimeid kickMsg) s)"

definition WS_logic_procPacket ::
  "bool \<Rightarrow> ('r, 'z) base_lib_scheme \<Rightarrow> ws_env \<Rightarrow> laddr \<Rightarrow> i32 \<Rightarrow> bytes \<Rightarrow> ws_server \<Rightarrow> ws_server result" where
  "WS_logic_procPacket ndebug B e l op body s =
     (let rp = br_open B False body in
      if op = LOGICSERVER_LOGIN then WS_onLogicServerLogin B e l rp s
      else if op = LOGICSERVER_DOWNSTREAM then WS_onPacket2ClientByRuntimeID B l rp s
      else if op = LOGICSERVER_KICK_PLAYER then WS_onKickClientByRuntimeID B e l rp s
      else if op = LOGICSERVER_SET_PLAYER_SLAVE then onIsSetPlayerSlaveServer B l rp s
      else if op = LOGICSERVER_SET_PLAYER_PRIMARY then onSetPlayerPrimaryServer B l rp s
      else cassert ndebug False (Inr s))"

definition WS_logic_onClose ::
  "('r, 'z) base_lib_scheme \<Rightarrow> ws_env \<Rightarrow> laddr \<Rightarrow> ws_server \<Rightarrow> ws_server result" where
  "WS_logic_onClose B e l s =
     (let sid = wl_id (ws_logics s l) in
      if sid \<noteq> - 1 then
        rbind
          (if wl_isPrimary (ws_logics s l)
           then rbind (WS_KickClientOfPrimary B e (wl_loop (ws_logics s l)) sid s)
                  (\<lambda>s1. Inr (s1\<lparr>ws_primaries := WS_RemovePrimaryLogicServer sid (ws_primaries s1)\<rparr>))
           else Inr (s\<lparr>ws_slaves := WS_RemoveSlaveLogicServer sid (ws_slaves s)\<rparr>))
          (\<lambda>s1. Inr (set_logic l (\<lambda>x. x\<lparr>wl_isPrimary := False, wl_id := - 1\<rparr>) s1))
      else Inr s)"

section \<open>The procs of the event loops, and the sessions as framers\<close>

fun run_task :: "('r, 'z) base_lib_scheme \<Rightarrow> ws_env \<Rightarrow> ws_task \<Rightarrow> ws_server \<Rightarrow> ws_server result" where
  "run_task B e (TaskSendLogic l cmd data) s = Inr (helpSendPacketInLoop B l cmd data s)"
| "run_task B e (TaskSendClient c cmd data) s = Inr (helpSendPacket B c cmd data s)"
| "run_task B e (TaskNotify c) s = notifyServerPlayerExist B e c s"

definition logic_ops :: "bool \<Rightarrow> ('r, 'z) base_lib_scheme \<Rightarrow> ws_env \<Rightarrow> laddr \<Rightarrow> ws_server cell_ops" where
  "logic_ops ndebug B e l = \<lparr>recv_serial = (\<lambda>s. wl_recvSerial (ws_logics s l)),
     bump_serial = set_logic l (\<lambda>x. x\<lparr>wl_recvSerial := wl_recvSerial x + 1\<rparr>),
     cell_proc = WS_logic_procPacket ndebug B e l\<rparr>"

definition client_ops :: "bool \<Rightarrow> ('r, 'z) base_lib_scheme \<Rightarrow> ws_env \<Rightarrow> caddr \<Rightarrow> ws_server web_ops" where
  "client_ops ndebug B e c = \<lparr>shakehanded = (\<lambda>s. wc_shakehanded (ws_clients s c)),
     set_shakehanded = set_client c (\<lambda>x. x\<lparr>wc_shakehanded := True\<rparr>),
     cache_frame = (\<lambda>s. wc_cache (ws_clients s c)),
     set_cache = (\<lambda>b. set_client c (\<lambda>x. x\<lparr>wc_cache := b\<rparr>)),
     send_packet = (\<lambda>b. put (ToClient c b)),
     web_proc = WS_procPacket ndebug B e c\<rparr>"

lemma logic_ops_sel [simp]:
  "recv_serial (logic_ops ndebug B e l) s = wl_recvSerial (ws_logics s l)"
  "cell_proc (logic_ops ndebug B e l) = WS_logic_procPacket ndebug B e l"
  by (simp_all add: logic_ops_def)

lemma client_ops_sel [simp]:
  "shakehanded (client_ops ndebug B e c) s = wc_shakehanded (ws_clients s c)"
  "set_shakehanded (client_ops ndebug B e c) = set_client c (\<lambda>x. x\<lparr>wc_shakehanded := True\<rparr>)"
  "cache_frame (client_ops ndebug B e c) s = wc_cache (ws_clients s c)"
  "set_cache (client_ops ndebug B e c) b = set_client c (\<lambda>x. x\<lparr>wc_cache := b\<rparr>)"
  "send_packet (client_ops ndebug B e c) b = put (ToClient c b)"
  "web_proc (client_ops ndebug B e c) = WS_procPacket ndebug B e c"
  by (simp_all add: client_ops_def)

definition WS_logic_onMsg ::
  "bool \<Rightarrow> ('r, 'z) base_lib_scheme \<Rightarrow> ws_env \<Rightarrow> laddr \<Rightarrow> bytes \<Rightarrow> ws_server \<Rightarrow> (ws_server \<times> nat) result option" where
  "WS_logic_onMsg ndebug B e l data s = cellnet_onMsg ndebug B (logic_ops ndebug B e l) data s"

definition WS_client_onMsg ::
  "bool \<Rightarrow> ('r, 'z) base_lib_scheme \<Rightarrow> ws_env \<Rightarrow> caddr \<Rightarrow> bytes \<Rightarrow> bytes \<Rightarrow> ws_server \<Rightarrow>
   (ws_server \<times> nat) result option" where
  "WS_client_onMsg ndebug B e c behind data s = web_onMsg ndebug B (client_ops ndebug B e c) behind data s"

end
