(* ===== verification/WSSystem.thy ===== *)
theory WSSystem
  imports WSServer
begin

text \<open>
  The web-facing connection server as a transition system, and what its handlers leave alone.

  A step is one callback: a session connects, receives bytes, or disconnects, a queued proc runs on
  its loop (the procs of one loop in order), or a close timer fires. A step whose handler faults is
  not a step: the process is gone. \<open>calm p s s'\<close> says that a handler has not touched the client table,
  the runtime ids, their counter, the timers and the clients' loops, and with \<open>p\<close> not the framers' members either; \<open>calmly\<close> lifts it
  to results.
\<close>

section \<open>What a handler leaves alone\<close>

definition calm :: "bool \<Rightarrow> ws_server \<Rightarrow> ws_server \<Rightarrow> bool" where
  "calm p s s' \<longleftrightarrow> ws_clientTable s' = ws_clientTable s \<and> ws_timers s' = ws_timers s \<and> ws_incID s' = ws_incID s
     \<and> (\<forall>c. wc_runtimeID (ws_clients s' c) = wc_runtimeID (ws_clients s c) \<and> wc_loop (ws_clients s' c) = wc_loop (ws_clients s c))
     \<and> (um_ok (ws_primaries s) \<longrightarrow> um_ok (ws_primaries s')) \<and> (um_ok (ws_slaves s) \<longrightarrow> um_ok (ws_slaves s'))
     \<and> (p \<longrightarrow> (\<forall>l. wl_recvSerial (ws_logics s' l) = wl_recvSerial (ws_logics s l))
         \<and> (\<forall>c. wc_shakehanded (ws_clients s' c) = wc_shakehanded (ws_clients s c)
              \<and> wc_cache (ws_clients s' c) = wc_cache (ws_clients s c)))"

definition calmly :: "bool \<Rightarrow> ws_server \<Rightarrow> ws_server result \<Rightarrow> bool" where
  "calmly p s r \<longleftrightarrow> (\<forall>s'. r = Inr s' \<longrightarrow> calm p s s')"

named_theorems calm_intros \<open>operations that leave the tables of clients and timers alone\<close>

lemma calm_refl [simp, calm_intros]: "calm p s s"
  by (simp add: calm_def)

lemma calm_trans: "calm p s s' \<Longrightarrow> calm p s' s'' \<Longrightarrow> calm p s s''"
  by (simp add: calm_def)

lemma calm_weaken: "calm True s s' \<Longrightarrow> calm p s s'"
  by (simp add: calm_def)

lemma calmly_Inr [calm_intros]: "calm p s s' \<Longrightarrow> calmly p s (Inr s')"
  by (simp add: calmly_def)

lemma calmly_Inl [calm_intros]: "calmly p s (Inl f)"
  by (simp add: calmly_def)

lemma calmly_rbind [calm_intros]: "calmly p s r \<Longrightarrow> (\<And>x. calmly p x (f x)) \<Longrightarrow> calmly p s (rbind r f)"
  unfolding calmly_def by (cases r) (auto intro: calm_trans)

lemma calmly_rbind_any: "(\<And>x. calmly p s (f x)) \<Longrightarrow> calmly p s (rbind r f)"
  by (cases r) (auto simp: calmly_def)

lemma calmly_cassert [calm_intros]: "calmly p s r \<Longrightarrow> calmly p s (cassert n c r)"
  by (auto simp: calmly_def cassert_def)

lemma calmly_from: "calm p s s' \<Longrightarrow> calmly p s' r \<Longrightarrow> calmly p s r"
  unfolding calmly_def by (blast intro: calm_trans)

lemma calm_put [calm_intros]: "calm p s (put a s)"
  by (simp add: calm_def put_def)

lemma calm_push [calm_intros]: "calm p s (pushAsyncProc lp t s)"
  by (simp add: calm_def pushAsyncProc_def)

lemma calm_helpSendPacketInLoop [calm_intros]: "calm p s (helpSendPacketInLoop B l cmd data s)"
  by (simp add: calm_def helpSendPacketInLoop_def Let_def put_def set_logic_def)

lemma calm_helpSendPacket [calm_intros]: "calm p s (helpSendPacket B c op data s)"
  by (simp add: calm_def helpSendPacket_def Let_def put_def set_client_def split: option.splits)

lemma calm_sends [calm_intros]:
  "calm p s (sendPBData_shared B here l cmd data s)" "calm p s (sendPBData B here l cmd data s)"
  "calm p s (sendPBBinary_shared B here c op data s)" "calm p s (sendPBBinary B here c op data s)"
  by (auto simp: sendPBData_shared_def sendPBData_def sendPBBinary_shared_def sendPBBinary_def intro: calm_intros)

lemma calmly_sendPB [calm_intros]: "calmly p s (sendPB B here l cmd bs wr m s)"
  unfolding sendPB_def
  by (auto split: option.splits intro!: calmly_rbind_any calm_intros)

lemma calmly_sendPB_all [calm_intros]: "calmly p s (sendPB_all B here vs cmd bs wr m s)"
  by (induction B here vs cmd bs wr m s rule: sendPB_all.induct)
    (auto split: option.splits intro!: calm_intros)

lemma calmly_notify [calm_intros]: "calmly p s (notifyServerPlayerExist B e c s)"
  unfolding notifyServerPlayerExist_def Let_def
  by (intro calmly_rbind) (auto split: option.splits intro!: calm_intros)

lemma calm_setServers [calm_intros]: "calm p s (setPrimaryServerID c k s)" "calm p s (WS_setSlaveServerID c k s)"
  by (auto simp: calm_def setPrimaryServerID_def WS_setSlaveServerID_def ws_mgr_defs set_client_def um_index_live)

lemma calmly_claim [calm_intros]: "calmly p s (WS_claimPrimaryServer ndebug e c s)"
  by (auto simp: calmly_def calm_def WS_claimPrimaryServer_def ws_mgr_defs set_client_def um_index_live Let_def results
      split: if_splits)

lemma calm_recv [calm_intros]:
  "calm p s (set_client c (\<lambda>x. x\<lparr>wc_recvSerial := wc_recvSerial x + 1\<rparr>) s)"
  "calm p s (set_client c (\<lambda>x. x\<lparr>wc_reconnecting := b\<rparr>) s)"
  by (auto simp: calm_def set_client_def)

lemma calmly_client_proc [calm_intros]: "calmly p s (WS_procPacket ndebug B e c op body s)"
proof (cases "wc_recvSerial (ws_clients s c) = 0x7FFFFFFF")
  case False
  show ?thesis
    unfolding WS_procPacket_def Let_def sendUpstream_def if_not_P [OF False]
    by (rule calmly_from [OF calm_recv(1)]) (auto split: option.splits intro!: calm_intros)
qed (simp add: WS_procPacket_def calmly_def)

lemma calmly_kick [calm_intros]: "calmly p s (WS_KickClientByRuntimeID B e here rid s)"
proof (cases "WS_FindClientByRuntimeID (ws_clientTable s) rid")
  case (Some c)
  show ?thesis
    unfolding WS_KickClientByRuntimeID_def Let_def Some option.case
    by (rule calmly_from [OF calm_put [of p s "PostClose c"]]) (simp add: calm_intros)
qed (simp add: WS_KickClientByRuntimeID_def calm_intros)

lemma calmly_kick_scan [calm_intros]: "calmly p s (ws_kick_scan B e here k vs s)"
  by (induction B e here k vs s rule: ws_kick_scan.induct) (auto intro!: calm_intros)

lemma calmly_parsed [calm_intros]:
  "(\<And>m. calmly p s (k m s)) \<Longrightarrow> calmly p s (if_parsed B rp clear merge fresh k s)"
  by (auto simp: if_parsed_def split: out.splits intro: calm_intros)

lemma calm_login_parts [calm_intros]:
  "calm p s (set_logic l (\<lambda>x. x\<lparr>wl_isPrimary := b, wl_id := k\<rparr>) s)"
  "calm p s (s\<lparr>ws_primaries := um_set k v (um_touch k (ws_primaries s))\<rparr>)"
  "calm p s (s\<lparr>ws_slaves := um_set k v (um_touch k (ws_slaves s))\<rparr>)"
  "calm p s (s\<lparr>ws_primaries := um_touch k (ws_primaries s)\<rparr>)"
  "calm p s (s\<lparr>ws_slaves := um_touch k (ws_slaves s)\<rparr>)"
  "calm p s (s\<lparr>ws_primaries := um_erase k (ws_primaries s)\<rparr>)"
  "calm p s (s\<lparr>ws_slaves := um_erase k (ws_slaves s)\<rparr>)"
  by (auto simp: calm_def set_logic_def)

lemma calmly_logic_proc [calm_intros]: "calmly p s (WS_logic_procPacket ndebug B e l op body s)"
proof -
  have login: "calmly p s (WS_onLogicServerLogin B e l rp s)" for rp
    unfolding WS_onLogicServerLogin_def
    by (rule calmly_parsed)
      (auto simp: Let_def ws_mgr_defs um_index_live WS_sendLogicServerLoginResult_def
        intro!: calmly_from [OF _ calmly_sendPB] intro: calm_trans calm_login_parts)
  have down: "calm p s (downstream_loop B here d vs s)" for here d vs s
    by (induction B here d vs s rule: downstream_loop.induct)
      (auto split: option.splits intro: calm_trans calm_sends)
  show ?thesis
    unfolding WS_logic_procPacket_def Let_def
    by (auto simp: WS_onPacket2ClientByRuntimeID_def onIsSetPlayerSlaveServer_def onSetPlayerPrimaryServer_def
        WS_onKickClientByRuntimeID_def split: option.splits intro!: calm_intros login down)
qed

lemma calm_log_out: "calm p s t \<Longrightarrow> calm p s (set_logic l (\<lambda>x. x\<lparr>wl_isPrimary := b, wl_id := k\<rparr>) t)"
  by (rule calm_trans [OF _ calm_login_parts(1)])

lemma calmly_logic_close [calm_intros]: "calmly p s (WS_logic_onClose B e l s)"
  unfolding WS_logic_onClose_def WS_KickClientOfPrimary_def Let_def
  by (auto simp: ws_mgr_defs intro!: calm_log_out calm_intros)

lemma calmly_task [calm_intros]: "calmly p s (run_task B e t s)"
  by (cases t) (auto intro: calm_intros)

section \<open>The sessions keep the framers' laws\<close>

interpretation logic_cells: cell_session "logic_ops ndebug B e l" for ndebug B e l
proof
  show "recv_serial (logic_ops ndebug B e l) (bump_serial (logic_ops ndebug B e l) s) =
      recv_serial (logic_ops ndebug B e l) s + 1" for s
    by (simp add: logic_ops_def set_logic_def)
  show "cell_proc (logic_ops ndebug B e l) cmd body s = Inr s' \<Longrightarrow>
      recv_serial (logic_ops ndebug B e l) s' = recv_serial (logic_ops ndebug B e l) s" for cmd body s s'
    using calmly_logic_proc [of True s ndebug B e l cmd body]
    by (simp add: logic_ops_def calmly_def calm_def)
qed

interpretation client_frames: web_session "client_ops ndebug B e c" for ndebug B e c
  by unfold_locales (simp_all add: client_ops_def set_client_def)

text \<open>What the framers do to the state is calm, too, but for their own members.\<close>

lemma calm_bump: "calm False s (bump_serial (logic_ops ndebug B e l) s)"
  by (simp add: calm_def logic_ops_def set_logic_def)

lemma calm_set_cache: "calm False s (set_client c (\<lambda>x. x\<lparr>wc_cache := b\<rparr>) s)"
  by (simp add: calm_def set_client_def)

lemma calm_shakehand:
  "calm False s (put (ToClient c b) (set_client c (\<lambda>x. x\<lparr>wc_shakehanded := True\<rparr>) s))"
  by (simp add: calm_def set_client_def put_def)

lemma calmly_cell_packet: "calmly False s (cellnet_packet ndebug (logic_ops ndebug' B e l) cmd ser n pos ps s)"
proof -
  have "calmly False x (cell_proc (logic_ops ndebug' B e l) cmd body x)" for x body
    by (simp add: logic_ops_def calm_intros)
  then show ?thesis
    unfolding cellnet_packet_def by (intro calmly_rbind) (auto intro!: calmly_Inr calmly_Inl calm_bump)
qed

lemma calmly_web_payload: "calmly False s (web_payload ndebug B' (client_ops ndebug' B e c) pay s)"
proof -
  have "calmly False x (web_proc (client_ops ndebug' B e c) cmd body x)" for x cmd body
    by (simp add: client_ops_def calm_intros)
  then show ?thesis
    unfolding web_payload_def Let_def by (auto split: prod.splits intro!: calmly_cassert calmly_Inr)
qed

lemma calmly_web_frame: "calmly False s (web_frame ndebug B' (client_ops ndebug' B e c) pay op fin s)"
  unfolding web_frame_def
  by (auto intro!: calmly_web_payload calmly_from [OF calm_set_cache calmly_web_payload] calmly_Inr calm_set_cache
      calmly_cassert)

context base_io
begin

lemma calm_cellnet:
  assumes "WS_logic_onMsg ndebug B e l data s = Some (Inr (s', n))"
  shows "calm False s s'"
proof (rule cell.run_preserves [of "calm False s"])
  show "cellnet_run ndebug B (logic_ops ndebug B e l) data 0 s = Some (Inr (s', n))"
    using assms by (simp add: WS_logic_onMsg_def cellnet_onMsg_def cellnet_run_def)
  show "calm False s x \<Longrightarrow> cellnet_step ndebug B (logic_ops ndebug B e l) b x = Some (k, Inr x') \<Longrightarrow> calm False s x'"
    for b x k x'
    using calmly_cell_packet [of x ndebug ndebug B e l _ _ k 8 b]
    by (auto simp: cellnet_step_eq Let_def calmly_def split: if_splits intro: calm_trans)
qed simp

end

context ws_frames
begin

lemma calm_web:
  assumes "WS_client_onMsg ndebug B e c behind data s = Some (Inr (s', n))"
  shows "calm False s s'"
proof (cases "shakehanded (client_ops ndebug B e c) s")
  case True
  show ?thesis
  proof (rule web.run_preserves [of "calm False s"])
    show "web_run ndebug B (client_ops ndebug B e c) (take (length data mod 2 ^ size_bits B) data) 0 s = Some (Inr (s', n))"
      using assms True by (simp add: WS_client_onMsg_def web_onMsg_def web_loop_take)
    show "calm False s x \<Longrightarrow> web_step ndebug B (client_ops ndebug B e c) b x = Some (k, Inr x') \<Longrightarrow> calm False s x'"
      for b x k x'
      using calmly_web_frame [of x ndebug B ndebug B e c]
      by (auto simp: web_step_def calmly_def split: if_splits option.splits intro: calm_trans)
  qed simp
next
  case False
  then show ?thesis
    using assms by (auto simp: WS_client_onMsg_def web_onMsg_def web_shakehand_def Let_def results
        split: option.splits) (rule calm_shakehand)
qed

end

section \<open>The steps\<close>

record ws_sys =
  wsv :: ws_server
  ws_openC :: "caddr set"
  ws_openL :: "laddr set"

definition ws_init :: ws_sys where
  "ws_init = \<lparr>wsv = \<lparr>ws_clients = (\<lambda>_. WSClientSession 0), ws_logics = (\<lambda>_. WSLogicSession 0), ws_clientTable = [],
     ws_primaries = [], ws_slaves = [], ws_incID = 0, ws_tasks = [], ws_timers = [], ws_wire = []\<rparr>,
     ws_openC = {}, ws_openL = {}\<rparr>"

inductive ws_step :: "bool \<Rightarrow> ('r, 'z) base_lib_scheme \<Rightarrow> ws_sys \<Rightarrow> ws_sys \<Rightarrow> bool" for ndebug B where
  client_enter: "c \<notin> ws_openC y \<Longrightarrow> c \<notin> snd ` set (ws_clientTable (wsv y)) \<Longrightarrow> c \<notin> set (ws_timers (wsv y)) \<Longrightarrow>
     (ucast (env_now e) :: i32) \<noteq> - 1 \<Longrightarrow>
     WS_onEnter ndebug e c (set_client c (\<lambda>_. WSClientSession lp) (wsv y)) = Inr s' \<Longrightarrow>
     ws_step ndebug B y (y\<lparr>wsv := s', ws_openC := insert c (ws_openC y)\<rparr>)"
| client_data: "c \<in> ws_openC y \<Longrightarrow> WS_client_onMsg ndebug B e c behind data (wsv y) = Some (Inr (s', n)) \<Longrightarrow>
     ws_step ndebug B y (y\<lparr>wsv := s'\<rparr>)"
| client_close: "c \<in> ws_openC y \<Longrightarrow>
     ws_step ndebug B y (y\<lparr>wsv := WS_onClose c (wsv y), ws_openC := ws_openC y - {c}\<rparr>)"
| timer: "c \<in> set (ws_timers (wsv y)) \<Longrightarrow>
     close_timer B e c ((wsv y)\<lparr>ws_timers := remove1 c (ws_timers (wsv y))\<rparr>) = Inr s' \<Longrightarrow>
     ws_step ndebug B y (y\<lparr>wsv := s'\<rparr>)"
| logic_enter: "l \<notin> ws_openL y \<Longrightarrow>
     ws_step ndebug B y (y\<lparr>wsv := set_logic l (\<lambda>_. WSLogicSession lp) (wsv y), ws_openL := insert l (ws_openL y)\<rparr>)"
| logic_data: "l \<in> ws_openL y \<Longrightarrow> WS_logic_onMsg ndebug B e l data (wsv y) = Some (Inr (s', n)) \<Longrightarrow>
     ws_step ndebug B y (y\<lparr>wsv := s'\<rparr>)"
| logic_close: "l \<in> ws_openL y \<Longrightarrow> WS_logic_onClose B e l (wsv y) = Inr s' \<Longrightarrow>
     ws_step ndebug B y (y\<lparr>wsv := s', ws_openL := ws_openL y - {l}\<rparr>)"
| async: "ws_tasks (wsv y) = pre @ (lp, t) # post \<Longrightarrow> lp \<notin> fst ` set pre \<Longrightarrow>
     run_task B e t ((wsv y)\<lparr>ws_tasks := pre @ post\<rparr>) = Inr s' \<Longrightarrow>
     ws_step ndebug B y (y\<lparr>wsv := s'\<rparr>)"

inductive ws_reach :: "bool \<Rightarrow> ('r, 'z) base_lib_scheme \<Rightarrow> ws_sys \<Rightarrow> bool" for ndebug B where
  start: "ws_reach ndebug B ws_init"
| step: "ws_reach ndebug B y \<Longrightarrow> ws_step ndebug B y z \<Longrightarrow> ws_reach ndebug B z"

definition ws_inv :: "ws_sys \<Rightarrow> bool" where
  "ws_inv y \<longleftrightarrow> um_ok (ws_clientTable (wsv y)) \<and> um_ok (ws_primaries (wsv y)) \<and> um_ok (ws_slaves (wsv y))
     \<and> (\<forall>r c. um_find (ws_clientTable (wsv y)) r = Some c \<longrightarrow>
          wc_runtimeID (ws_clients (wsv y) c) = r \<and> (c \<in> ws_openC y \<or> c \<in> set (ws_timers (wsv y))))
     \<and> (\<forall>c\<in>ws_openC y. wc_runtimeID (ws_clients (wsv y) c) \<noteq> - 1)"

lemma ws_inv_calm:
  assumes "ws_inv y" and "calm False (wsv y) s'"
  shows "ws_inv (y\<lparr>wsv := s'\<rparr>)"
  using assms by (simp add: ws_inv_def calm_def)

lemma ws_inv_openL: "ws_inv y \<Longrightarrow> ws_inv (y\<lparr>ws_openL := L\<rparr>)"
  by (simp add: ws_inv_def)

lemma ws_inv_init: "ws_inv ws_init"
  by (simp add: ws_inv_def ws_init_def)

lemma um_find_value: "um_find m k = Some v \<Longrightarrow> v \<in> snd ` set m"
  by (force simp: um_find_def dest: map_of_SomeD)

lemma WS_onEnter_Inr:
  assumes "WS_onEnter ndebug e c s = Inr s'" and "(ucast (env_now e) :: i32) \<noteq> - 1"
  obtains rid where "rid \<noteq> - 1" and "ndebug \<or> um_find (ws_clientTable s) rid = None"
    and "s' = set_client c (\<lambda>x. x\<lparr>wc_runtimeID := rid\<rparr>)
      (s\<lparr>ws_incID := ws_incID s + 1, ws_clientTable := um_set rid c (ws_clientTable s)\<rparr>)"
proof
  let ?rid = "client_runtime_id (ucast (env_id e)) (ucast (ws_incID s)) (ucast (env_now e))"
  show "?rid \<noteq> - 1" using client_runtime_id_minus1 assms(2) by blast
  show "ndebug \<or> um_find (ws_clientTable s) ?rid = None"
    and "s' = set_client c (\<lambda>x. x\<lparr>wc_runtimeID := ?rid\<rparr>)
      (s\<lparr>ws_incID := ws_incID s + 1, ws_clientTable := um_set ?rid c (ws_clientTable s)\<rparr>)"
    using assms(1) by (auto simp: WS_onEnter_def WS_MakeRuntimeID_def ws_mgr_defs set_client_def results)
qed

lemma ws_inv_enter:
  assumes "ws_inv y" and "c \<notin> snd ` set (ws_clientTable (wsv y))" and "(ucast (env_now e) :: i32) \<noteq> - 1"
    and "WS_onEnter ndebug e c (set_client c (\<lambda>_. WSClientSession lp) (wsv y)) = Inr s'"
  shows "ws_inv (y\<lparr>wsv := s', ws_openC := insert c (ws_openC y)\<rparr>)"
proof -
  obtain rid where "rid \<noteq> - 1" "s' = set_client c (\<lambda>x. x\<lparr>wc_runtimeID := rid\<rparr>)
      ((set_client c (\<lambda>_. WSClientSession lp) (wsv y))\<lparr>ws_incID := ws_incID (wsv y) + 1,
        ws_clientTable := um_set rid c (ws_clientTable (wsv y))\<rparr>)"
    using WS_onEnter_Inr [OF assms(4,3)] by (auto simp: set_client_def)
  then show ?thesis using assms(1,2) by (auto simp: ws_inv_def set_client_def dest: um_find_value)
qed

lemma ws_inv_close:
  assumes "ws_inv y" and "c \<in> ws_openC y"
  shows "ws_inv (y\<lparr>wsv := WS_onClose c (wsv y), ws_openC := ws_openC y - {c}\<rparr>)"
  using assms by (auto simp: ws_inv_def WS_onClose_def)

lemma close_timer_Inr:
  assumes "close_timer B e c s = Inr s'"
  obtains s1 where "calm False s s1"
    and "s' = s1\<lparr>ws_clientTable := um_erase (wc_runtimeID (ws_clients s c)) (ws_clientTable s1)\<rparr>"
proof -
  obtain s1 where s1: "notifyServerPlayerExist B e c s = Inr s1"
    "s' = s1\<lparr>ws_clientTable := um_erase (wc_runtimeID (ws_clients s1 c)) (ws_clientTable s1)\<rparr>"
    using assms by (auto simp: close_timer_def WS_EraseClientByRuntimeID_def results)
  moreover have "calm False s s1" using calmly_notify [of False s B e c] s1(1) by (simp add: calmly_def)
  ultimately show ?thesis using that by (simp add: calm_def)
qed

lemma ws_inv_timer:
  assumes "ws_inv y" and "close_timer B e c ((wsv y)\<lparr>ws_timers := remove1 c (ws_timers (wsv y))\<rparr>) = Inr s'"
  shows "ws_inv (y\<lparr>wsv := s'\<rparr>)"
proof -
  obtain s1 where s1: "calm False ((wsv y)\<lparr>ws_timers := remove1 c (ws_timers (wsv y))\<rparr>) s1"
    "s' = s1\<lparr>ws_clientTable := um_erase (wc_runtimeID (ws_clients (wsv y) c)) (ws_clientTable s1)\<rparr>"
    using close_timer_Inr [OF assms(2)] by auto
  have "c' \<in> ws_openC y \<or> c' \<in> set (remove1 c (ws_timers (wsv y)))"
    if "um_find (ws_clientTable (wsv y)) r = Some c'" "r \<noteq> wc_runtimeID (ws_clients (wsv y) c)" for r c'
  proof -
    have "c' \<noteq> c" and "c' \<in> ws_openC y \<or> c' \<in> set (ws_timers (wsv y))"
      using assms(1) that by (auto simp: ws_inv_def)
    then show ?thesis by simp
  qed
  then show ?thesis using assms(1) s1 by (auto simp: ws_inv_def calm_def)
qed

context ws_lib
begin

lemma ws_inv_step: "ws_step ndebug B y z \<Longrightarrow> ws_inv y \<Longrightarrow> ws_inv z"
proof (induction rule: ws_step.induct)
  case (client_enter c y e lp s')
  then show ?case by (intro ws_inv_enter)
next
  case (client_data c y e behind data s' n)
  then show ?case by (intro ws_inv_calm calm_web)
next
  case (client_close c y)
  then show ?case by (intro ws_inv_close)
next
  case (timer c y e s')
  then show ?case by (intro ws_inv_timer)
next
  case (logic_enter l y lp)
  have "calm False (wsv y) (set_logic l (\<lambda>_. WSLogicSession lp) (wsv y))" by (simp add: calm_def set_logic_def)
  then show ?case using ws_inv_openL [OF ws_inv_calm [OF logic_enter.prems]] by simp
next
  case (logic_data l y e data s' n)
  then show ?case by (intro ws_inv_calm calm_cellnet)
next
  case (logic_close l y e s')
  then have "calm False (wsv y) s'" using calmly_logic_close [of False "wsv y" B e l] by (simp add: calmly_def)
  then show ?case using ws_inv_openL [OF ws_inv_calm [OF logic_close.prems]] by simp
next
  case (async y pre lp t post e s')
  have "calm False (wsv y) ((wsv y)\<lparr>ws_tasks := pre @ post\<rparr>)" by (simp add: calm_def)
  moreover have "calm False ((wsv y)\<lparr>ws_tasks := pre @ post\<rparr>) s'"
    using calmly_task [of False "(wsv y)\<lparr>ws_tasks := pre @ post\<rparr>" B e t] async by (simp add: calmly_def)
  ultimately show ?case using ws_inv_calm [OF async.prems] calm_trans by blast
qed

lemma ws_reach_inv: "ws_reach ndebug B y \<Longrightarrow> ws_inv y"
  by (induction rule: ws_reach.induct) (auto intro: ws_inv_init ws_inv_step)

end

end
