(* ===== verification/WSThreads.thy ===== *)
theory WSThreads
  imports WSSystem
begin

text \<open>
  The web-facing connection server on several network threads. Its event loops run one per processor, the
  callbacks of the sessions of one loop one after the other, those of different loops at the same time.
  WSServer has each handler as one function; here a handler is cut where other threads can get in between.

  \<^item> Every access to a table (a lookup, an insertion, a copy, each under its mutex), to the id counter, to an
    atomic pointer (\<open>mPrimaryServer\<close>, \<open>mSlaveServer\<close>), to \<open>mReconnecting\<close>, to another session's \<open>mID\<close> or
    \<open>mRuntimeID\<close>, and every sending is a step of its own.
  \<^item> \<open>ws_client_pc\<close>, \<open>ws_logic_pc\<close>: where in its callback a session is, with the local variables that are still
    needed. \<open>notifyServerPlayerExist\<close> (\<open>notify_pc\<close>) runs in a client's callback, or, where the library runs a
    posted proc at once, inside a logic server's.
  \<^item> \<open>ws_client_finish\<close>, \<open>ws_logic_finish\<close> do all turns that are left, uninterrupted, and are shown to be the handlers
    of WSServer.
\<close>

section \<open>Telling the servers that a player is gone\<close>

datatype notify_pc =
    NPrimary               \<comment> \<open>load \<open>mPrimaryServer\<close>\<close>
  | NSendP laddr
  | NReconP                \<comment> \<open>it is null: read \<open>mReconnecting\<close>\<close>
  | NCopyP                 \<comment> \<open>copy the primaries\<close>
  | NFanP servers          \<comment> \<open>send to each of the copy\<close>
  | NSlave                 \<comment> \<open>load \<open>mSlaveServer\<close>\<close>
  | NSendS laddr
  | NReconS
  | NCopyS
  | NFanS servers
  | NEnd

definition sendClose :: "('r, 'z) base_lib_scheme \<Rightarrow> caddr \<Rightarrow> laddr \<Rightarrow> ws_server \<Rightarrow> ws_server result" where
  "sendClose B c server s = sendPB B (wc_loop (ws_clients s c)) server CLOSE_CLIENT_ACK_OP CloseClientACK_ByteSize
     CloseClientACK_Write \<lparr>close_clientid = wc_runtimeID (ws_clients s c)\<rparr> s"

fun notify_turn :: "('r, 'z) base_lib_scheme \<Rightarrow> ws_env \<Rightarrow> caddr \<Rightarrow> notify_pc \<Rightarrow> ws_server \<Rightarrow>
    (notify_pc \<times> ws_server) result" where
  "notify_turn B e c NPrimary s = Inr (case wc_primary (ws_clients s c) of Some l \<Rightarrow> NSendP l | None \<Rightarrow> NReconP, s)"
| "notify_turn B e c (NSendP l) s = rbind (sendClose B c l s) (\<lambda>s'. Inr (NSlave, s'))"
| "notify_turn B e c NReconP s = Inr (if wc_reconnecting (ws_clients s c) then NCopyP else NSlave, s)"
| "notify_turn B e c NCopyP s = Inr (NFanP (GetAllPrimaryLogicServer e (ws_primaries s)), s)"
| "notify_turn B e c (NFanP []) s = Inr (NSlave, s)"
| "notify_turn B e c (NFanP (v # vs)) s = (case snd v of
       None \<Rightarrow> Inl NullDeref
     | Some l \<Rightarrow> rbind (sendClose B c l s) (\<lambda>s'. Inr (NFanP vs, s')))"
| "notify_turn B e c NSlave s = Inr (case wc_slave (ws_clients s c) of Some l \<Rightarrow> NSendS l | None \<Rightarrow> NReconS, s)"
| "notify_turn B e c (NSendS l) s = rbind (sendClose B c l s) (\<lambda>s'. Inr (NEnd, s'))"
| "notify_turn B e c NReconS s = Inr (if wc_reconnecting (ws_clients s c) then NCopyS else NEnd, s)"
| "notify_turn B e c NCopyS s = Inr (NFanS (GetAllSlaveLogicServer e (ws_slaves s)), s)"
| "notify_turn B e c (NFanS []) s = Inr (NEnd, s)"
| "notify_turn B e c (NFanS (v # vs)) s = (case snd v of
       None \<Rightarrow> Inl NullDeref
     | Some l \<Rightarrow> rbind (sendClose B c l s) (\<lambda>s'. Inr (NFanS vs, s')))"
| "notify_turn B e c NEnd s = Inr (NEnd, s)"

text \<open>How much is left: the part it is in, and the servers left in a copy.\<close>

fun notify_part :: "notify_pc \<Rightarrow> nat" where
  "notify_part NPrimary = 8" | "notify_part NReconP = 7" | "notify_part NCopyP = 6"
| "notify_part (NSendP l) = 5" | "notify_part (NFanP vs) = 5" | "notify_part NSlave = 4" | "notify_part NReconS = 3"
| "notify_part NCopyS = 2" | "notify_part (NSendS l) = 1" | "notify_part (NFanS vs) = 1" | "notify_part NEnd = 0"

fun notify_rest :: "notify_pc \<Rightarrow> nat" where
  "notify_rest (NFanP vs) = length vs"
| "notify_rest (NFanS vs) = length vs"
| "notify_rest pc = 0"

lemma notify_turn_left:
  "notify_turn B e c pc s = Inr (pc', s') \<Longrightarrow> pc \<noteq> NEnd \<Longrightarrow>
   notify_part pc' < notify_part pc \<or> notify_part pc' = notify_part pc \<and> notify_rest pc' < notify_rest pc"
  by (induction B e c pc s rule: notify_turn.induct) (auto simp: results split: option.splits if_splits)

function notify_finish :: "('r, 'z) base_lib_scheme \<Rightarrow> ws_env \<Rightarrow> caddr \<Rightarrow> notify_pc \<Rightarrow> ws_server \<Rightarrow> ws_server result" where
  "notify_finish B e c pc s =
     (if pc = NEnd then Inr s
      else case notify_turn B e c pc s of
        Inl f \<Rightarrow> Inl f
      | Inr (pc', s') \<Rightarrow> notify_finish B e c pc' s')"
  by pat_completeness auto
termination
  by (relation "measures [\<lambda>(B, e, c, pc, s). notify_part pc, \<lambda>(B, e, c, pc, s). notify_rest pc]")
    (auto dest: notify_turn_left)

declare notify_finish.simps [simp del]

lemma notify_finish_end [simp]: "notify_finish B e c NEnd s = Inr s"
  by (simp add: notify_finish.simps)

lemma notify_finish_turn:
  "pc \<noteq> NEnd \<Longrightarrow> notify_finish B e c pc s =
     rbind (notify_turn B e c pc s) (\<lambda>(pc', s'). notify_finish B e c pc' s')"
  by (subst notify_finish.simps) (simp add: rbind_def split: sum.splits prod.splits)

lemma rbind_pair [simp]: "rbind (rbind r (\<lambda>s. Inr (pc, s))) f = rbind r (\<lambda>s. f (pc, s))"
  by (cases r) simp_all

lemma rbind_Inr_right [simp]: "rbind r Inr = r"
  by (cases r) simp_all

text \<open>Sending to a server leaves the clients alone.\<close>

lemma sendPBData_clients [simp]:
  "ws_clients (sendPBData B here l cmd data s) = ws_clients s"
  "ws_clients (sendPBData_shared B here l cmd data s) = ws_clients s"
  by (simp_all add: sendPBData_def sendPBData_shared_def helpSendPacketInLoop_def pushAsyncProc_def put_def set_logic_def Let_def)

lemma sendPB_clients: "sendPB B here l cmd bs wr m s = Inr s' \<Longrightarrow> ws_clients s' = ws_clients s"
  by (auto simp: sendPB_def results split: if_splits option.splits)

lemma sendClose_clients: "sendClose B c l s = Inr s' \<Longrightarrow> ws_clients s' = ws_clients s"
  unfolding sendClose_def by (rule sendPB_clients)

lemma rbind_cong_Inr: "(\<And>x. r = Inr x \<Longrightarrow> f x = g x) \<Longrightarrow> rbind r f = rbind r g"
  by (cases r) simp_all

lemma notify_finish_fan:
  "notify_finish B e c (NFanP vs) s = rbind (sendPB_all B (wc_loop (ws_clients s c)) vs CLOSE_CLIENT_ACK_OP
     CloseClientACK_ByteSize CloseClientACK_Write \<lparr>close_clientid = wc_runtimeID (ws_clients s c)\<rparr> s)
     (notify_finish B e c NSlave)"
  "notify_finish B e c (NFanS vs) s = sendPB_all B (wc_loop (ws_clients s c)) vs CLOSE_CLIENT_ACK_OP
     CloseClientACK_ByteSize CloseClientACK_Write \<lparr>close_clientid = wc_runtimeID (ws_clients s c)\<rparr> s"
proof (induction vs arbitrary: s)
  case (Cons v vs)
  {
    case 1
    show ?case
    proof (cases "snd v")
      case (Some l)
      have "notify_finish B e c (NFanP (v # vs)) s = rbind (sendClose B c l s) (notify_finish B e c (NFanP vs))"
        using Some by (simp add: notify_finish_turn [of "NFanP (v # vs)"])
      also have "\<dots> = rbind (sendClose B c l s) (\<lambda>s'. rbind (sendPB_all B (wc_loop (ws_clients s c)) vs CLOSE_CLIENT_ACK_OP
         CloseClientACK_ByteSize CloseClientACK_Write \<lparr>close_clientid = wc_runtimeID (ws_clients s c)\<rparr> s')
         (notify_finish B e c NSlave))"
        by (rule rbind_cong_Inr) (use Cons.IH(1) sendClose_clients in force)
      finally show ?thesis using Some by (simp add: sendClose_def rbind_assoc)
    qed (simp add: notify_finish_turn [of "NFanP (v # vs)"])
  next
    case 2
    show ?case
    proof (cases "snd v")
      case (Some l)
      have "notify_finish B e c (NFanS (v # vs)) s = rbind (sendClose B c l s) (notify_finish B e c (NFanS vs))"
        using Some by (simp add: notify_finish_turn [of "NFanS (v # vs)"])
      also have "\<dots> = rbind (sendClose B c l s) (sendPB_all B (wc_loop (ws_clients s c)) vs CLOSE_CLIENT_ACK_OP
         CloseClientACK_ByteSize CloseClientACK_Write \<lparr>close_clientid = wc_runtimeID (ws_clients s c)\<rparr>)"
        by (rule rbind_cong_Inr) (use Cons.IH(2) sendClose_clients in force)
      finally show ?thesis using Some by (simp add: sendClose_def)
    qed (simp add: notify_finish_turn [of "NFanS (v # vs)"])
  }
qed (simp_all add: notify_finish_turn [of "NFanP []"] notify_finish_turn [of "NFanS []"])

text \<open>Uninterrupted, the turns are \<open>notifyServerPlayerExist\<close>.\<close>

lemma notify_finish_slave:
  "notify_finish B e c NSlave s = (case wc_slave (ws_clients s c) of
     Some server \<Rightarrow> sendClose B c server s
   | None \<Rightarrow> if wc_reconnecting (ws_clients s c)
       then sendPB_all B (wc_loop (ws_clients s c)) (GetAllSlaveLogicServer e (ws_slaves s)) CLOSE_CLIENT_ACK_OP
         CloseClientACK_ByteSize CloseClientACK_Write \<lparr>close_clientid = wc_runtimeID (ws_clients s c)\<rparr> s
       else Inr s)"
  by (simp add: notify_finish_turn [of NSlave] notify_finish_turn [of "NSendS l" for l] notify_finish_turn [of NReconS]
      notify_finish_turn [of NCopyS] notify_finish_fan split: option.split)

lemma sendPB_all_clients: "sendPB_all B here vs cmd bs wr m s = Inr s' \<Longrightarrow> ws_clients s' = ws_clients s"
  by (induction B here vs cmd bs wr m s arbitrary: s' rule: sendPB_all.induct)
    (auto simp: results split: option.splits dest: sendPB_clients)

lemma notify_finish_all: "notify_finish B e c NPrimary s = notifyServerPlayerExist B e c s"
proof -
  let ?first = "case wc_primary (ws_clients s c) of
      Some server \<Rightarrow> sendClose B c server s
    | None \<Rightarrow> if wc_reconnecting (ws_clients s c)
        then sendPB_all B (wc_loop (ws_clients s c)) (GetAllPrimaryLogicServer e (ws_primaries s)) CLOSE_CLIENT_ACK_OP
          CloseClientACK_ByteSize CloseClientACK_Write \<lparr>close_clientid = wc_runtimeID (ws_clients s c)\<rparr> s
        else Inr s"
  have "notify_finish B e c NPrimary s = rbind ?first (notify_finish B e c NSlave)"
    by (simp add: notify_finish_turn [of NPrimary] notify_finish_turn [of "NSendP l" for l] notify_finish_turn [of NReconP]
        notify_finish_turn [of NCopyP] notify_finish_fan split: option.split)
  also have "\<dots> = notifyServerPlayerExist B e c s"
    unfolding notifyServerPlayerExist_def Let_def sendClose_def [symmetric]
  proof (rule rbind_cong_Inr)
    fix s1 assume "?first = Inr s1"
    then have "ws_clients s1 = ws_clients s"
      by (auto split: option.splits if_splits dest: sendClose_clients sendPB_all_clients)
    then show "notify_finish B e c NSlave s1 = (case wc_slave (ws_clients s1 c) of
        None \<Rightarrow> if wc_reconnecting (ws_clients s1 c)
          then sendPB_all B (wc_loop (ws_clients s c)) (GetAllSlaveLogicServer e (ws_slaves s1)) CLOSE_CLIENT_ACK_OP
            CloseClientACK_ByteSize CloseClientACK_Write \<lparr>close_clientid = wc_runtimeID (ws_clients s c)\<rparr> s1
          else Inr s1
      | Some server \<Rightarrow> sendPB B (wc_loop (ws_clients s c)) server CLOSE_CLIENT_ACK_OP CloseClientACK_ByteSize
          CloseClientACK_Write \<lparr>close_clientid = wc_runtimeID (ws_clients s c)\<rparr> s1)"
      by (simp add: notify_finish_slave sendClose_def split: option.split)
  qed
  finally show ?thesis .
qed

section \<open>Callbacks of a client's session\<close>

datatype ws_client_pc =
    WIdle
  | WEnter                 \<comment> \<open>\<open>onEnter\<close> entered\<close>
  | WAssert                \<comment> \<open>the assertion of \<open>AddClientByRuntimeID\<close>\<close>
  | WAdd                   \<comment> \<open>its insertion\<close>
  | WPacket i32 bytes      \<comment> \<open>\<open>procPacket\<close> entered\<close>
  | WFan UpstreamACK servers
  | WLoadSlave UpstreamACK "laddr option"
  | WTest UpstreamACK "laddr option" "laddr option"      \<comment> \<open>both pointers are loaded\<close>
  | WClaim UpstreamACK "laddr option" "laddr option"     \<comment> \<open>\<open>claimPrimaryServer\<close>: load the pointer again\<close>
  | WDraw UpstreamACK "laddr option" "laddr option"
  | WFind UpstreamACK "laddr option" "laddr option" i32
  | WStore UpstreamACK "laddr option" "laddr option" "laddr option"
  | WForward UpstreamACK "laddr option" "laddr option"
  | WClose                 \<comment> \<open>\<open>onClose\<close> entered\<close>
  | WDone                  \<comment> \<open>\<open>onClose\<close> returned\<close>
  | WNotify bool notify_pc \<comment> \<open>a posted \<open>notifyServerPlayerExist\<close>, or the one of the close timer\<close>
  | WErase                 \<comment> \<open>the rest of the close timer\<close>

fun ws_client_turn :: "bool \<Rightarrow> ('r, 'z) base_lib_scheme \<Rightarrow> ws_env \<Rightarrow> caddr \<Rightarrow> ws_client_pc \<Rightarrow> ws_server \<Rightarrow>
    (ws_client_pc \<times> ws_server) result" where
  "ws_client_turn ndebug B e c WEnter s =
     (let (rid, inc) = WS_MakeRuntimeID e (ws_incID s)
      in Inr (WAssert, set_client c (\<lambda>x. x\<lparr>wc_runtimeID := rid\<rparr>) (s\<lparr>ws_incID := inc\<rparr>)))"
| "ws_client_turn ndebug B e c WAssert s =
     cassert ndebug (WS_FindClientByRuntimeID (ws_clientTable s) (wc_runtimeID (ws_clients s c)) = None) (Inr (WAdd, s))"
| "ws_client_turn ndebug B e c WAdd s =
     Inr (WIdle, s\<lparr>ws_clientTable := um_set (wc_runtimeID (ws_clients s c)) c (ws_clientTable s)\<rparr>)"
| "ws_client_turn ndebug B e c (WPacket op body) s0 =
     (if wc_recvSerial (ws_clients s0 c) = 0x7FFFFFFF then Inl SignedOverflow
      else
        (let s = set_client c (\<lambda>x. x\<lparr>wc_recvSerial := wc_recvSerial x + 1\<rparr>) s0;
             upstream = \<lparr>up_msgid = op, up_data = body, up_clientid = wc_runtimeID (ws_clients s c)\<rparr>
         in if op = 10000 then Inr (WIdle, sendPBBinary B (wc_loop (ws_clients s c)) c 10000 [] s)
            else if op = 91 then
              Inr (WFan upstream (if wc_recvSerial (ws_clients s c) = 1
                     then GetAllPrimaryLogicServer e (ws_primaries s) else []), s)
            else Inr (WLoadSlave upstream (wc_primary (ws_clients s c)), s)))"
| "ws_client_turn ndebug B e c (WFan up []) s = Inr (WIdle, set_client c (\<lambda>x. x\<lparr>wc_reconnecting := True\<rparr>) s)"
| "ws_client_turn ndebug B e c (WFan up (v # vs)) s = (case snd v of
       None \<Rightarrow> Inl NullDeref
     | Some l \<Rightarrow> rbind (sendUpstream B (wc_loop (ws_clients s c)) l up s) (\<lambda>s'. Inr (WFan up vs, s')))"
| "ws_client_turn ndebug B e c (WLoadSlave up p) s = Inr (WTest up p (wc_slave (ws_clients s c)), s)"
| "ws_client_turn ndebug B e c (WTest up p sl) s =
     (if p = None \<and> \<not> wc_reconnecting (ws_clients s c)
      then cassert ndebug (wc_runtimeID (ws_clients s c) \<noteq> - 1) (Inr (WClaim up p sl, s))
      else Inr (WForward up p sl, s))"
| "ws_client_turn ndebug B e c (WClaim up p sl) s =
     Inr (if wc_runtimeID (ws_clients s c) \<noteq> - 1 \<and> wc_primary (ws_clients s c) = None
          then WDraw up p sl else WForward up p sl, s)"
| "ws_client_turn ndebug B e c (WDraw up p sl) s =
     (let primaryID = WS_ClaimPrimaryLogicServer e (ws_primaries s)
      in Inr (if primaryID \<noteq> - 1 then WFind up p sl primaryID else WForward up p sl, s))"
| "ws_client_turn ndebug B e c (WFind up p sl sid) s =
     (let (q, m) = WS_FindPrimaryLogicServer (ws_primaries s) sid in Inr (WStore up p sl q, s\<lparr>ws_primaries := m\<rparr>))"
| "ws_client_turn ndebug B e c (WStore up p sl q) s =
     Inr (WForward up p sl, set_client c (\<lambda>x. x\<lparr>wc_primary := q\<rparr>) s)"
| "ws_client_turn ndebug B e c (WForward up p sl) s =
     rbind (case (if up_msgid up \<in> set PRIMARY_OPS then p else if sl \<noteq> None then sl else p) of
              Some l \<Rightarrow> sendUpstream B (wc_loop (ws_clients s c)) l up s
            | None \<Rightarrow> Inr s) (\<lambda>s'. Inr (WIdle, s'))"
| "ws_client_turn ndebug B e c WClose s = Inr (WDone, WS_onClose c s)"
| "ws_client_turn ndebug B e c (WNotify erase n) s =
     rbind (notify_turn B e c n s) (\<lambda>(n', s').
       Inr (if n' = NEnd then (if erase then WErase else WIdle) else WNotify erase n', s'))"
| "ws_client_turn ndebug B e c WErase s =
     Inr (WIdle, s\<lparr>ws_clientTable := WS_EraseClientByRuntimeID (wc_runtimeID (ws_clients s c)) (ws_clientTable s)\<rparr>)"
| "ws_client_turn ndebug B e c WIdle s = Inr (WIdle, s)"
| "ws_client_turn ndebug B e c WDone s = Inr (WDone, s)"

fun ws_client_part :: "ws_client_pc \<Rightarrow> nat" where
  "ws_client_part WEnter = 3" | "ws_client_part WAssert = 2" | "ws_client_part WAdd = 1"
| "ws_client_part (WPacket op body) = 9" | "ws_client_part (WFan up vs) = 8" | "ws_client_part (WLoadSlave up p) = 8"
| "ws_client_part (WTest up p sl) = 7" | "ws_client_part (WClaim up p sl) = 6" | "ws_client_part (WDraw up p sl) = 5"
| "ws_client_part (WFind up p sl k) = 4" | "ws_client_part (WStore up p sl q) = 3" | "ws_client_part (WForward up p sl) = 2"
| "ws_client_part WClose = 1" | "ws_client_part (WNotify erase n) = notify_part n + 2" | "ws_client_part WErase = 1"
| "ws_client_part WIdle = 0" | "ws_client_part WDone = 0"

fun ws_client_rest :: "ws_client_pc \<Rightarrow> nat" where
  "ws_client_rest (WFan up vs) = length vs"
| "ws_client_rest (WNotify erase n) = notify_rest n"
| "ws_client_rest pc = 0"

lemma ws_client_turn_left:
  "ws_client_turn ndebug B e c pc s = Inr (pc', s') \<Longrightarrow> ws_client_part pc \<noteq> 0 \<Longrightarrow>
   ws_client_part pc' < ws_client_part pc \<or>
   ws_client_part pc' = ws_client_part pc \<and> ws_client_rest pc' < ws_client_rest pc"
proof (induction ndebug B e c pc s rule: ws_client_turn.induct)
  case (15 ndebug B e c erase n s)
  show ?case
  proof (cases "n = NEnd")
    case False
    obtain n' s1 where t: "notify_turn B e c n s = Inr (n', s1)"
      and pc: "pc' = (if n' = NEnd then (if erase then WErase else WIdle) else WNotify erase n')"
      using 15 by (auto simp: results)
    from notify_turn_left [OF t False] show ?thesis unfolding pc by auto
  qed (use 15 in auto)
qed (auto simp: results Let_def split: if_splits prod.splits option.splits)

function ws_client_finish :: "bool \<Rightarrow> ('r, 'z) base_lib_scheme \<Rightarrow> ws_env \<Rightarrow> caddr \<Rightarrow> ws_client_pc \<Rightarrow> ws_server \<Rightarrow>
    ws_server result" where
  "ws_client_finish ndebug B e c pc s =
     (if ws_client_part pc = 0 then Inr s
      else case ws_client_turn ndebug B e c pc s of
        Inl f \<Rightarrow> Inl f
      | Inr (pc', s') \<Rightarrow> ws_client_finish ndebug B e c pc' s')"
  by pat_completeness auto
termination
  by (relation "measures [\<lambda>(ndebug, B, e, c, pc, s). ws_client_part pc, \<lambda>(ndebug, B, e, c, pc, s). ws_client_rest pc]")
    (auto dest: ws_client_turn_left)

declare ws_client_finish.simps [simp del]

lemma ws_client_finish_rest [simp]: "ws_client_part pc = 0 \<Longrightarrow> ws_client_finish ndebug B e c pc s = Inr s"
  by (simp add: ws_client_finish.simps)

lemma ws_client_finish_turn:
  "ws_client_part pc \<noteq> 0 \<Longrightarrow> ws_client_finish ndebug B e c pc s =
     rbind (ws_client_turn ndebug B e c pc s) (\<lambda>(pc', s'). ws_client_finish ndebug B e c pc' s')"
  by (subst ws_client_finish.simps) (simp add: rbind_def split: sum.splits prod.splits)

text \<open>Uninterrupted, the turns are the handlers.\<close>

lemma ws_client_finish_enter: "ws_client_finish ndebug B e c WEnter s = WS_onEnter ndebug e c s"
  by (simp add: ws_client_finish_turn [of WEnter] ws_client_finish_turn [of WAssert] ws_client_finish_turn [of WAdd]
      WS_onEnter_def WS_MakeRuntimeID_def WS_AddClientByRuntimeID_def set_client_def Let_def cassert_def)

lemma ws_client_finish_close: "ws_client_finish ndebug B e c WClose s = Inr (WS_onClose c s)"
  by (simp add: ws_client_finish_turn)

lemma ws_client_finish_notify:
  "n \<noteq> NEnd \<Longrightarrow> ws_client_finish ndebug B e c (WNotify erase n) s =
     rbind (notify_finish B e c n s) (\<lambda>s'. if erase then ws_client_finish ndebug B e c WErase s' else Inr s')"
proof (induction B e c n s rule: notify_finish.induct)
  case (1 B e c n s)
  show ?case
  proof (cases "notify_turn B e c n s")
    case (Inr p)
    obtain n' s' where p: "p = (n', s')" by fastforce
    show ?thesis
    proof (cases "n' = NEnd")
      case False
      then show ?thesis using 1 Inr p by (simp add: ws_client_finish_turn [of "WNotify erase n"] notify_finish_turn)
    qed (use 1 Inr p in \<open>simp add: ws_client_finish_turn [of "WNotify erase n"] notify_finish_turn\<close>)
  qed (use 1 in \<open>simp add: ws_client_finish_turn [of "WNotify erase n"] notify_finish_turn\<close>)
qed

lemma ws_client_finish_task:
  "ws_client_finish ndebug B e c (WNotify False NPrimary) s = run_task B e (TaskNotify c) s"
  "ws_client_finish ndebug B e c (WNotify True NPrimary) s = close_timer B e c s"
  by (simp_all add: ws_client_finish_notify notify_finish_all ws_client_finish_turn [of WErase] close_timer_def)

lemma ws_client_finish_fan:
  "ws_client_finish ndebug B e c (WFan up vs) s =
     rbind (sendPB_all B (wc_loop (ws_clients s c)) vs UPSTREAM_ACK_OP UpstreamACK_ByteSize UpstreamACK_Write up s)
       (\<lambda>s1. Inr (set_client c (\<lambda>x. x\<lparr>wc_reconnecting := True\<rparr>) s1))"
proof (induction vs arbitrary: s)
  case (Cons v vs)
  show ?case
  proof (cases "snd v")
    case (Some l)
    have "ws_client_finish ndebug B e c (WFan up (v # vs)) s =
        rbind (sendUpstream B (wc_loop (ws_clients s c)) l up s) (ws_client_finish ndebug B e c (WFan up vs))"
      using Some by (simp add: ws_client_finish_turn [of "WFan up (v # vs)"])
    also have "\<dots> = rbind (sendUpstream B (wc_loop (ws_clients s c)) l up s) (\<lambda>s'.
        rbind (sendPB_all B (wc_loop (ws_clients s c)) vs UPSTREAM_ACK_OP UpstreamACK_ByteSize UpstreamACK_Write up s')
          (\<lambda>s1. Inr (set_client c (\<lambda>x. x\<lparr>wc_reconnecting := True\<rparr>) s1)))"
    proof (rule rbind_cong_Inr)
      fix s' assume "sendUpstream B (wc_loop (ws_clients s c)) l up s = Inr s'"
      then have "ws_clients s' = ws_clients s" unfolding sendUpstream_def by (rule sendPB_clients)
      then show "ws_client_finish ndebug B e c (WFan up vs) s' =
          rbind (sendPB_all B (wc_loop (ws_clients s c)) vs UPSTREAM_ACK_OP UpstreamACK_ByteSize UpstreamACK_Write up s')
            (\<lambda>s1. Inr (set_client c (\<lambda>x. x\<lparr>wc_reconnecting := True\<rparr>) s1))"
        using Cons.IH [of s'] by simp
    qed
    finally show ?thesis using Some by (simp add: sendUpstream_def rbind_assoc)
  qed (simp add: ws_client_finish_turn [of "WFan up (v # vs)"])
qed (simp add: ws_client_finish_turn [of "WFan up []"])

definition forwarded :: "('r, 'z) base_lib_scheme \<Rightarrow> caddr \<Rightarrow> UpstreamACK \<Rightarrow> laddr option \<Rightarrow> laddr option \<Rightarrow> ws_server \<Rightarrow>
    ws_server result" where
  "forwarded B c up p sl s =
     (case (if up_msgid up \<in> set PRIMARY_OPS then p else if sl \<noteq> None then sl else p) of
        Some l \<Rightarrow> sendUpstream B (wc_loop (ws_clients s c)) l up s
      | None \<Rightarrow> Inr s)"

lemma ws_client_finish_forward:
  "ws_client_finish ndebug B e c (WForward up p sl) s = forwarded B c up p sl s"
  by (simp add: ws_client_finish_turn forwarded_def)

lemma WS_claimPrimaryServer_loop:
  "WS_claimPrimaryServer ndebug e c s = Inr s1 \<Longrightarrow> wc_loop (ws_clients s1 c) = wc_loop (ws_clients s c)"
  by (auto simp: WS_claimPrimaryServer_def set_client_def results Let_def split: if_splits prod.splits)

lemma ws_client_finish_test:
  "ws_client_finish ndebug B e c (WTest up p sl) s =
     rbind (if p = None \<and> \<not> wc_reconnecting (ws_clients s c) then WS_claimPrimaryServer ndebug e c s else Inr s)
       (forwarded B c up p sl)"
  by (simp add: ws_client_finish_turn [of "WTest up p sl" for up p sl] ws_client_finish_turn [of "WClaim up p sl" for up p sl]
      ws_client_finish_turn [of "WDraw up p sl" for up p sl] ws_client_finish_turn [of "WFind up p sl k" for up p sl k]
      ws_client_finish_turn [of "WStore up p sl q" for up p sl q] ws_client_finish_forward WS_claimPrimaryServer_def cassert_def
      Let_def split: prod.split)

lemma ws_client_finish_packet:
  "ws_client_finish ndebug B e c (WPacket op body) s0 = WS_procPacket ndebug B e c op body s0"
proof (cases "wc_recvSerial (ws_clients s0 c) = 0x7FFFFFFF")
  case False
  let ?s = "set_client c (\<lambda>x. x\<lparr>wc_recvSerial := wc_recvSerial x + 1\<rparr>) s0"
  let ?up = "\<lparr>up_msgid = op, up_data = body, up_clientid = wc_runtimeID (ws_clients ?s c)\<rparr>"
  let ?p = "wc_primary (ws_clients ?s c)" and ?sl = "wc_slave (ws_clients ?s c)"
  let ?claim = "if ?p = None \<and> \<not> wc_reconnecting (ws_clients ?s c) then WS_claimPrimaryServer ndebug e c ?s else Inr ?s"
  consider "op = 10000" | "op \<noteq> 10000" "op = 91" | "op \<noteq> 10000" "op \<noteq> 91" by blast
  then show ?thesis
  proof cases
    case 3
    have "ws_client_finish ndebug B e c (WPacket op body) s0 = rbind ?claim (forwarded B c ?up ?p ?sl)"
      using 3 False by (simp add: ws_client_finish_turn [of "WPacket k b" for k b] ws_client_finish_turn [of "WLoadSlave up p" for up p]
          ws_client_finish_test Let_def)
    also have "\<dots> = rbind ?claim (\<lambda>s1.
        if op \<in> set PRIMARY_OPS
        then (case ?p of Some l \<Rightarrow> sendUpstream B (wc_loop (ws_clients ?s c)) l ?up s1 | None \<Rightarrow> Inr s1)
        else (case ?sl of Some l \<Rightarrow> sendUpstream B (wc_loop (ws_clients ?s c)) l ?up s1
          | None \<Rightarrow> (case ?p of Some l \<Rightarrow> sendUpstream B (wc_loop (ws_clients ?s c)) l ?up s1 | None \<Rightarrow> Inr s1)))"
    proof (rule rbind_cong_Inr)
      fix s1 assume "?claim = Inr s1"
      then have "wc_loop (ws_clients s1 c) = wc_loop (ws_clients ?s c)"
        by (auto split: if_splits dest: WS_claimPrimaryServer_loop)
      then show "forwarded B c ?up ?p ?sl s1 = (if op \<in> set PRIMARY_OPS
        then (case ?p of Some l \<Rightarrow> sendUpstream B (wc_loop (ws_clients ?s c)) l ?up s1 | None \<Rightarrow> Inr s1)
        else (case ?sl of Some l \<Rightarrow> sendUpstream B (wc_loop (ws_clients ?s c)) l ?up s1
          | None \<Rightarrow> (case ?p of Some l \<Rightarrow> sendUpstream B (wc_loop (ws_clients ?s c)) l ?up s1 | None \<Rightarrow> Inr s1)))"
        by (auto simp: forwarded_def split: option.split)
    qed
    finally show ?thesis using 3 False by (simp add: WS_procPacket_def Let_def)
  qed (use False in \<open>simp_all add: ws_client_finish_turn [of "WPacket k b" for k b] WS_procPacket_def ws_client_finish_fan Let_def\<close>)
qed (simp add: ws_client_finish_turn [of "WPacket k b" for k b] WS_procPacket_def)

section \<open>Callbacks of a logic server's session\<close>

datatype ws_logic_pc =
    VIdle
  | VPacket i32 bytes                      \<comment> \<open>\<open>procPacket\<close> entered\<close>
  | VAdd bool i32 bool                     \<comment> \<open>a login that has looked its id up: role, id, whether it was free\<close>
  | VLogin bool i32                        \<comment> \<open>it is in the table: write \<open>mIsPrimary\<close>, \<open>mID\<close>\<close>
  | VReply
  | VFind DownstreamACK "i64 list"         \<comment> \<open>the loop of \<open>onPacket2ClientByRuntimeID\<close>\<close>
  | VSend caddr DownstreamACK "i64 list"
  | VSlave caddr i32                       \<comment> \<open>\<open>setSlaveServerID\<close>: look the slave up\<close>
  | VSlaveStore caddr "laddr option"
  | VPrim caddr i32                        \<comment> \<open>\<open>setPrimaryServerID\<close>: look the primary up\<close>
  | VPrimFlag caddr "laddr option"
  | VPrimStore caddr "laddr option"
  | VKick caddr "client_map option"        \<comment> \<open>\<open>KickClientByRuntimeID\<close> has found its client; what a scan has left\<close>
  | VTell caddr "client_map option"
  | VNotify caddr notify_pc "client_map option"  \<comment> \<open>the posted proc, where it runs at once\<close>
  | VClose                                 \<comment> \<open>\<open>onClose\<close> entered\<close>
  | VScan client_map                       \<comment> \<open>the loop of \<open>KickClientOfPrimary\<close>\<close>
  | VScanOwner caddr laddr client_map      \<comment> \<open>\<open>getPrimaryServerID\<close> has loaded the pointer: read the server's id\<close>
  | VScanID caddr client_map
  | VScanFind i64 client_map
  | VReset                                 \<comment> \<open>removed from its table\<close>
  | VDone                                  \<comment> \<open>\<open>onClose\<close> returned\<close>

definition after_kick :: "client_map option \<Rightarrow> ws_logic_pc" where
  "after_kick k = (case k of None \<Rightarrow> VIdle | Some vs \<Rightarrow> VScan vs)"

definition on_parsed :: "('r, 'z) base_lib_scheme \<Rightarrow> 'r \<Rightarrow> ('m \<Rightarrow> 'm) \<Rightarrow> ('m \<Rightarrow> 'm reader) \<Rightarrow> 'm \<Rightarrow>
    ('m \<Rightarrow> ws_logic_pc \<times> ws_server) \<Rightarrow> ws_server \<Rightarrow> (ws_logic_pc \<times> ws_server) result" where
  "on_parsed B rp clear merge fresh k s =
     (case ParseFromArray clear merge (take (br_max B rp) (br_buffer B rp)) fresh of
        Val m \<Rightarrow> Inr (k m) | Failed \<Rightarrow> Inr (VIdle, s) | Fault f \<Rightarrow> Inl f)"

definition ws_login_find :: "bool \<Rightarrow> i32 \<Rightarrow> ws_server \<Rightarrow> bool \<times> ws_server" where
  "ws_login_find isprimary sid s =
     (if isprimary
      then (let (q, m) = WS_FindPrimaryLogicServer (ws_primaries s) sid in (q = None, s\<lparr>ws_primaries := m\<rparr>))
      else (let (q, m) = WS_FindSlaveLogicServer (ws_slaves s) sid in (q = None, s\<lparr>ws_slaves := m\<rparr>)))"

definition ws_login_add :: "laddr \<Rightarrow> bool \<Rightarrow> i32 \<Rightarrow> ws_server \<Rightarrow> ws_server" where
  "ws_login_add l isprimary sid s =
     (if isprimary then s\<lparr>ws_primaries := WS_AddPrimaryLogicServer sid (Some l) (ws_primaries s)\<rparr>
      else s\<lparr>ws_slaves := WS_AddSlaveLogicServer sid (Some l) (ws_slaves s)\<rparr>)"

text \<open>A packet: parse it, and the first access that others can see.\<close>

definition ws_dispatch :: "bool \<Rightarrow> ('r, 'z) base_lib_scheme \<Rightarrow> laddr \<Rightarrow> i32 \<Rightarrow> bytes \<Rightarrow> ws_server \<Rightarrow>
    (ws_logic_pc \<times> ws_server) result" where
  "ws_dispatch ndebug B l op body s =
     (let rp = br_open B False body in
      if op = LOGICSERVER_LOGIN then
        on_parsed B rp LogicServerLogin_Clear LogicServerLogin_MergePartial \<lparr>login_id = 0, login_isprimary = False\<rparr>
          (\<lambda>msg. let (free, s1) = ws_login_find (login_isprimary msg) (login_id msg) s
             in (VAdd (login_isprimary msg) (login_id msg) free, s1)) s
      else if op = LOGICSERVER_DOWNSTREAM then
        on_parsed B rp DownstreamACK_Clear DownstreamACK_MergePartial
          \<lparr>down_msgid = 0, down_data = [], down_clientid = \<lparr>elems = [], total_size = 0\<rparr>\<rparr>
          (\<lambda>downstream. (VFind downstream (elems (down_clientid downstream)), s)) s
      else if op = LOGICSERVER_KICK_PLAYER then
        on_parsed B rp LogicServerKickPlayer_Clear LogicServerKickPlayer_MergePartial \<lparr>kick_roleruntimeid = 0\<rparr>
          (\<lambda>msg. (case WS_FindClientByRuntimeID (ws_clientTable s) (kick_roleruntimeid msg) of
               None \<Rightarrow> VIdle | Some p \<Rightarrow> VKick p None, s)) s
      else if op = LOGICSERVER_SET_PLAYER_SLAVE then
        on_parsed B rp LogicServerSetRoleSlave_Clear LogicServerSetRoleSlave_MergePartial
          \<lparr>slave_roleruntimeid = 0, slave_willset = False\<rparr>
          (\<lambda>msg. (case WS_FindClientByRuntimeID (ws_clientTable s) (slave_roleruntimeid msg) of
               None \<Rightarrow> VIdle | Some p \<Rightarrow> VSlave p (if slave_willset msg then wl_id (ws_logics s l) else - 1), s)) s
      else if op = LOGICSERVER_SET_PLAYER_PRIMARY then
        on_parsed B rp LogicServerSetRolePrimary_Clear LogicServerSetRolePrimary_MergePartial \<lparr>prim_roleruntimeid = 0\<rparr>
          (\<lambda>msg. (case WS_FindClientByRuntimeID (ws_clientTable s) (prim_roleruntimeid msg) of
               None \<Rightarrow> VIdle | Some p \<Rightarrow> VPrim p (wl_id (ws_logics s l)), s)) s
      else cassert ndebug False (Inr (VIdle, s)))"

fun ws_logic_turn :: "bool \<Rightarrow> ('r, 'z) base_lib_scheme \<Rightarrow> ws_env \<Rightarrow> laddr \<Rightarrow> ws_logic_pc \<Rightarrow> ws_server \<Rightarrow>
    (ws_logic_pc \<times> ws_server) result" where
  "ws_logic_turn ndebug B e l (VPacket op body) s = ws_dispatch ndebug B l op body s"
| "ws_logic_turn ndebug B e l (VAdd isprimary sid free) s =
     (if free then Inr (VLogin isprimary sid, ws_login_add l isprimary sid s)
      else rbind (WS_sendLogicServerLoginResult B e l False s) (\<lambda>s'. Inr (VIdle, s')))"
| "ws_logic_turn ndebug B e l (VLogin isprimary sid) s =
     Inr (VReply, set_logic l (\<lambda>x. x\<lparr>wl_isPrimary := isprimary, wl_id := sid\<rparr>) s)"
| "ws_logic_turn ndebug B e l VReply s =
     rbind (WS_sendLogicServerLoginResult B e l True s) (\<lambda>s'. Inr (VIdle, s'))"
| "ws_logic_turn ndebug B e l (VFind d []) s = Inr (VIdle, s)"
| "ws_logic_turn ndebug B e l (VFind d (v # vs)) s =
     Inr (case WS_FindClientByRuntimeID (ws_clientTable s) v of None \<Rightarrow> VFind d vs | Some c \<Rightarrow> VSend c d vs, s)"
| "ws_logic_turn ndebug B e l (VSend c d vs) s =
     (let here = wl_loop (ws_logics s l) in
      Inr (VFind d vs,
        if wc_loop (ws_clients s c) = here then sendPBBinary B here c (down_msgid d) (down_data d) s
        else sendPBBinary_shared B here c (down_msgid d) (down_data d) s))"
| "ws_logic_turn ndebug B e l (VSlave c sid) s =
     (if sid \<noteq> - 1
      then (let (p, m) = WS_FindSlaveLogicServer (ws_slaves s) sid in Inr (VSlaveStore c p, s\<lparr>ws_slaves := m\<rparr>))
      else Inr (VSlaveStore c None, s))"
| "ws_logic_turn ndebug B e l (VSlaveStore c p) s = Inr (VIdle, set_client c (\<lambda>x. x\<lparr>wc_slave := p\<rparr>) s)"
| "ws_logic_turn ndebug B e l (VPrim c sid) s =
     (if sid \<noteq> - 1
      then (let (p, m) = WS_FindPrimaryLogicServer (ws_primaries s) sid in Inr (VPrimFlag c p, s\<lparr>ws_primaries := m\<rparr>))
      else Inr (VPrimStore c None, s))"
| "ws_logic_turn ndebug B e l (VPrimFlag c p) s =
     Inr (VPrimStore c p, set_client c (\<lambda>x. x\<lparr>wc_reconnecting := False\<rparr>) s)"
| "ws_logic_turn ndebug B e l (VPrimStore c p) s = Inr (VIdle, set_client c (\<lambda>x. x\<lparr>wc_primary := p\<rparr>) s)"
| "ws_logic_turn ndebug B e l (VKick c k) s = Inr (VTell c k, put (PostClose c) s)"
| "ws_logic_turn ndebug B e l (VTell c k) s =
     (let lp = wc_loop (ws_clients s c) in
      if async_inline B \<and> lp = wl_loop (ws_logics s l) then Inr (VNotify c NPrimary k, s)
      else Inr (after_kick k, pushAsyncProc lp (TaskNotify c) s))"
| "ws_logic_turn ndebug B e l (VNotify c n k) s =
     rbind (notify_turn B e c n s) (\<lambda>(n', s'). Inr (if n' = NEnd then after_kick k else VNotify c n' k, s'))"
| "ws_logic_turn ndebug B e l VClose s =
     Inr (if wl_id (ws_logics s l) = - 1 then (VDone, s)
          else if wl_isPrimary (ws_logics s l) then (VScan (env_clients e (ws_clientTable s)), s)
          else (VReset, s\<lparr>ws_slaves := WS_RemoveSlaveLogicServer (wl_id (ws_logics s l)) (ws_slaves s)\<rparr>))"
| "ws_logic_turn ndebug B e l (VScan []) s =
     Inr (VReset, s\<lparr>ws_primaries := WS_RemovePrimaryLogicServer (wl_id (ws_logics s l)) (ws_primaries s)\<rparr>)"
| "ws_logic_turn ndebug B e l (VScan (v # vs)) s =
     Inr (case wc_primary (ws_clients s (snd v)) of
            Some l' \<Rightarrow> VScanOwner (snd v) l' vs
          | None \<Rightarrow> if - 1 = wl_id (ws_logics s l) then VScanID (snd v) vs else VScan vs, s)"
| "ws_logic_turn ndebug B e l (VScanOwner c l' vs) s =
     Inr (if wl_id (ws_logics s l') = wl_id (ws_logics s l) then VScanID c vs else VScan vs, s)"
| "ws_logic_turn ndebug B e l (VScanID c vs) s = Inr (VScanFind (wc_runtimeID (ws_clients s c)) vs, s)"
| "ws_logic_turn ndebug B e l (VScanFind rid vs) s =
     Inr (case WS_FindClientByRuntimeID (ws_clientTable s) rid of None \<Rightarrow> VScan vs | Some p \<Rightarrow> VKick p (Some vs), s)"
| "ws_logic_turn ndebug B e l VReset s =
     Inr (VDone, set_logic l (\<lambda>x. x\<lparr>wl_isPrimary := False, wl_id := - 1\<rparr>) s)"
| "ws_logic_turn ndebug B e l VIdle s = Inr (VIdle, s)"
| "ws_logic_turn ndebug B e l VDone s = Inr (VDone, s)"

fun ws_logic_new :: "ws_logic_pc \<Rightarrow> bool" where
  "ws_logic_new (VPacket op body) = True"
| "ws_logic_new VClose = True"
| "ws_logic_new pc = False"

definition kick_left :: "client_map option \<Rightarrow> nat" where
  "kick_left k = (case k of None \<Rightarrow> 0 | Some vs \<Rightarrow> 8 * length vs + 2)"

fun ws_logic_left :: "ws_logic_pc \<Rightarrow> nat" where
  "ws_logic_left (VAdd isprimary sid free) = 3" | "ws_logic_left (VLogin isprimary sid) = 2" | "ws_logic_left VReply = 1"
| "ws_logic_left (VFind d vs) = 2 * length vs + 1" | "ws_logic_left (VSend c d vs) = 2 * length vs + 2"
| "ws_logic_left (VSlave c sid) = 2" | "ws_logic_left (VSlaveStore c p) = 1"
| "ws_logic_left (VPrim c sid) = 3" | "ws_logic_left (VPrimFlag c p) = 2" | "ws_logic_left (VPrimStore c p) = 1"
| "ws_logic_left (VKick c k) = kick_left k + 4" | "ws_logic_left (VTell c k) = kick_left k + 3"
| "ws_logic_left (VNotify c n k) = kick_left k + 2"
| "ws_logic_left (VScan vs) = 8 * length vs + 2" | "ws_logic_left (VScanOwner c l' vs) = 8 * length vs + 9"
| "ws_logic_left (VScanID c vs) = 8 * length vs + 8" | "ws_logic_left (VScanFind rid vs) = 8 * length vs + 7"
| "ws_logic_left VReset = 1"
| "ws_logic_left pc = 0"

fun ws_logic_part :: "ws_logic_pc \<Rightarrow> nat" where
  "ws_logic_part (VNotify c n k) = notify_part n"
| "ws_logic_part pc = 0"

fun ws_logic_rest :: "ws_logic_pc \<Rightarrow> nat" where
  "ws_logic_rest (VNotify c n k) = notify_rest n"
| "ws_logic_rest pc = 0"

definition resting :: "ws_logic_pc \<Rightarrow> bool" where
  "resting pc \<longleftrightarrow> pc = VIdle \<or> pc = VDone"

lemma after_kick_left [simp]: "ws_logic_left (after_kick k) = kick_left k" "\<not> ws_logic_new (after_kick k)"
  by (simp_all add: after_kick_def kick_left_def split: option.split)

lemma ws_dispatch_new: "ws_dispatch ndebug B l op body s = Inr (pc', s') \<Longrightarrow> \<not> ws_logic_new pc'"
  by (auto simp: ws_dispatch_def on_parsed_def Let_def results split: if_splits out.splits option.splits prod.splits)

lemma ws_logic_turn_left:
  assumes "ws_logic_turn ndebug B e l pc s = Inr (pc', s')" and "\<not> resting pc"
  shows "ws_logic_new pc \<and> \<not> ws_logic_new pc' \<or> \<not> ws_logic_new pc \<and> \<not> ws_logic_new pc' \<and>
    (ws_logic_left pc' < ws_logic_left pc \<or> ws_logic_left pc' = ws_logic_left pc \<and>
      (ws_logic_part pc' < ws_logic_part pc \<or> ws_logic_part pc' = ws_logic_part pc \<and> ws_logic_rest pc' < ws_logic_rest pc))"
proof (cases "\<exists>c n k. pc = VNotify c n k")
  case True
  then obtain c n k where pc: "pc = VNotify c n k" by blast
  obtain n' s1 where t: "notify_turn B e c n s = Inr (n', s1)" and pc': "pc' = (if n' = NEnd then after_kick k else VNotify c n' k)"
    using assms(1) unfolding pc by (auto simp: results)
  show ?thesis
  proof (cases "n = NEnd")
    case True
    then show ?thesis using t unfolding pc pc' by simp
  next
    case False
    from notify_turn_left [OF t False] show ?thesis unfolding pc pc' by auto
  qed
next
  case False
  then show ?thesis using assms
    by (induction ndebug B e l pc s rule: ws_logic_turn.induct)
      (auto simp: Let_def results resting_def kick_left_def after_kick_def dest: ws_dispatch_new
        split: if_splits prod.splits option.splits)
qed

function ws_logic_finish :: "bool \<Rightarrow> ('r, 'z) base_lib_scheme \<Rightarrow> ws_env \<Rightarrow> laddr \<Rightarrow> ws_logic_pc \<Rightarrow> ws_server \<Rightarrow>
    ws_server result" where
  "ws_logic_finish ndebug B e l pc s =
     (if resting pc then Inr s
      else case ws_logic_turn ndebug B e l pc s of
        Inl f \<Rightarrow> Inl f
      | Inr (pc', s') \<Rightarrow> ws_logic_finish ndebug B e l pc' s')"
  by pat_completeness auto
termination
  by (relation "measures [\<lambda>(ndebug, B, e, l, pc, s). of_bool (ws_logic_new pc), \<lambda>(ndebug, B, e, l, pc, s). ws_logic_left pc,
      \<lambda>(ndebug, B, e, l, pc, s). ws_logic_part pc, \<lambda>(ndebug, B, e, l, pc, s). ws_logic_rest pc]")
    (auto dest: ws_logic_turn_left)

declare ws_logic_finish.simps [simp del]

lemma ws_logic_finish_rest [simp]: "ws_logic_finish ndebug B e l VIdle s = Inr s" "ws_logic_finish ndebug B e l VDone s = Inr s"
  by (simp_all add: ws_logic_finish.simps resting_def)

lemma ws_logic_finish_turn:
  "\<not> resting pc \<Longrightarrow> ws_logic_finish ndebug B e l pc s =
     rbind (ws_logic_turn ndebug B e l pc s) (\<lambda>(pc', s'). ws_logic_finish ndebug B e l pc' s')"
  by (subst ws_logic_finish.simps) (simp add: rbind_def split: sum.splits prod.splits)

lemma not_resting [simp]:
  "\<not> resting (VPacket op body)" "\<not> resting (VAdd b sid f)" "\<not> resting (VLogin b sid)" "\<not> resting VReply"
  "\<not> resting (VFind d vs)" "\<not> resting (VSend c d vs)" "\<not> resting (VSlave c sid)" "\<not> resting (VSlaveStore c p)"
  "\<not> resting (VPrim c sid)" "\<not> resting (VPrimFlag c p)" "\<not> resting (VPrimStore c p)" "\<not> resting (VKick c k)"
  "\<not> resting (VTell c k)" "\<not> resting (VNotify c n k)" "\<not> resting VClose" "\<not> resting (VScan ws)"
  "\<not> resting (VScanOwner c l' ws)" "\<not> resting (VScanID c ws)" "\<not> resting (VScanFind rid ws)" "\<not> resting VReset"
  by (simp_all add: resting_def)

text \<open>Uninterrupted, the turns are the handlers.\<close>

lemma ws_logic_finish_find:
  "ws_logic_finish ndebug B e l (VFind d vs) s = Inr (downstream_loop B (wl_loop (ws_logics s l)) d vs s)"
proof (induction vs arbitrary: s)
  case (Cons v vs)
  have loop: "wl_loop (ws_logics (sendPBBinary B h c op data s) l) = wl_loop (ws_logics s l)"
    "wl_loop (ws_logics (sendPBBinary_shared B h c op data s) l) = wl_loop (ws_logics s l)" for h c op data
    by (simp_all add: sendPBBinary_def sendPBBinary_shared_def helpSendPacket_def pushAsyncProc_def put_def set_client_def Let_def
        split: option.split)
  show ?case
    by (simp add: ws_logic_finish_turn [of "VFind d (v # vs)"] ws_logic_finish_turn [of "VSend c d vs" for c] Cons.IH loop
        Let_def split: option.split)
qed (simp add: ws_logic_finish_turn)

lemma ws_logic_finish_notify:
  "n \<noteq> NEnd \<Longrightarrow> ws_logic_finish ndebug B e l (VNotify c n k) s =
     rbind (notify_finish B e c n s) (ws_logic_finish ndebug B e l (after_kick k))"
proof (induction B e c n s rule: notify_finish.induct)
  case (1 B e c n s)
  show ?case
  proof (cases "notify_turn B e c n s")
    case (Inr p)
    obtain n' s' where p: "p = (n', s')" by fastforce
    show ?thesis
    proof (cases "n' = NEnd")
      case False
      then show ?thesis using 1 Inr p by (simp add: ws_logic_finish_turn [of "VNotify c n k"] notify_finish_turn)
    qed (use 1 Inr p in \<open>simp add: ws_logic_finish_turn [of "VNotify c n k"] notify_finish_turn\<close>)
  qed (use 1 in \<open>simp add: ws_logic_finish_turn [of "VNotify c n k"] notify_finish_turn\<close>)
qed

definition kicked :: "('r, 'z) base_lib_scheme \<Rightarrow> ws_env \<Rightarrow> nat \<Rightarrow> caddr \<Rightarrow> ws_server \<Rightarrow> ws_server result" where
  "kicked B e here p s =
     (let s1 = put (PostClose p) s; lp = wc_loop (ws_clients s p) in
      if async_inline B \<and> lp = here then notifyServerPlayerExist B e p s1
      else Inr (pushAsyncProc lp (TaskNotify p) s1))"

lemma KickClient_kicked:
  "WS_KickClientByRuntimeID B e here rid s =
     (case WS_FindClientByRuntimeID (ws_clientTable s) rid of None \<Rightarrow> Inr s | Some p \<Rightarrow> kicked B e here p s)"
  by (simp add: WS_KickClientByRuntimeID_def kicked_def split: option.split)

lemma put_sel [simp]: "ws_clients (put a s) = ws_clients s" "ws_logics (put a s) = ws_logics s"
  by (simp_all add: put_def)

lemma ws_logic_finish_kick:
  "ws_logic_finish ndebug B e l (VKick p k) s =
     rbind (kicked B e (wl_loop (ws_logics s l)) p s) (ws_logic_finish ndebug B e l (after_kick k))"
  by (simp add: ws_logic_finish_turn [of "VKick p k"] ws_logic_finish_turn [of "VTell p k"] kicked_def
      ws_logic_finish_notify notify_finish_all Let_def)

text \<open>What kicking leaves alone: the clients, and of the logic servers all but the serial numbers.\<close>

definition only_sends :: "ws_server \<Rightarrow> ws_server \<Rightarrow> bool" where
  "only_sends s s' \<longleftrightarrow> ws_clients s' = ws_clients s \<and>
     (\<forall>l. wl_loop (ws_logics s' l) = wl_loop (ws_logics s l) \<and> wl_id (ws_logics s' l) = wl_id (ws_logics s l) \<and>
       wl_isPrimary (ws_logics s' l) = wl_isPrimary (ws_logics s l))"

lemma only_sends_refl [simp]: "only_sends s s"
  by (simp add: only_sends_def)

lemma only_sends_trans: "only_sends s s' \<Longrightarrow> only_sends s' s'' \<Longrightarrow> only_sends s s''"
  by (simp add: only_sends_def)

lemma sendPB_only: "sendPB B here l cmd bs wr m s = Inr s' \<Longrightarrow> only_sends s s'"
  by (auto simp: sendPB_def sendPBData_def sendPBData_shared_def helpSendPacketInLoop_def pushAsyncProc_def put_def set_logic_def
      only_sends_def results Let_def split: if_splits option.splits)

lemma sendPB_all_only: "sendPB_all B here vs cmd bs wr m s = Inr s' \<Longrightarrow> only_sends s s'"
  by (induction B here vs cmd bs wr m s arbitrary: s' rule: sendPB_all.induct)
    (auto simp: results split: option.splits dest: sendPB_only intro: only_sends_trans)

lemma notify_only:
  assumes "notifyServerPlayerExist B e c s = Inr s'"
  shows "only_sends s s'"
proof -
  obtain s1 where "only_sends s s1" "only_sends s1 s'"
    using assms unfolding notifyServerPlayerExist_def Let_def rbind_Inr
    by (fastforce split: option.splits if_splits dest: sendPB_only sendPB_all_only)
  then show ?thesis by (rule only_sends_trans)
qed

lemma kicked_only: "kicked B e here p s = Inr s' \<Longrightarrow> only_sends s s'"
  by (auto simp: kicked_def only_sends_def put_def pushAsyncProc_def Let_def dest!: notify_only split: if_splits)

lemma ws_logic_finish_scan:
  "ws_logic_finish ndebug B e l (VScan vs) s =
     rbind (ws_kick_scan B e (wl_loop (ws_logics s l)) (wl_id (ws_logics s l)) vs s) (ws_logic_finish ndebug B e l (VScan []))"
proof (induction vs arbitrary: s)
  case (Cons v vs)
  let ?here = "wl_loop (ws_logics s l)" and ?sid = "wl_id (ws_logics s l)"
  show ?case
  proof (cases "getPrimaryServerID (snd v) s = ?sid")
    case False
    then have "ws_logic_finish ndebug B e l (VScan (v # vs)) s = ws_logic_finish ndebug B e l (VScan vs) s"
      by (auto simp: ws_logic_finish_turn [of "VScan (v # vs)"] ws_logic_finish_turn [of "VScanOwner c l' vs" for c l']
          getPrimaryServerID_def split: option.splits)
    then show ?thesis using False Cons.IH by simp
  next
    case True
    let ?rid = "wc_runtimeID (ws_clients s (snd v))"
    have "ws_logic_finish ndebug B e l (VScan (v # vs)) s = ws_logic_finish ndebug B e l (VScanFind ?rid vs) s"
      using True by (auto simp: ws_logic_finish_turn [of "VScan (v # vs)"] ws_logic_finish_turn [of "VScanOwner c l' vs" for c l']
          ws_logic_finish_turn [of "VScanID c vs" for c] getPrimaryServerID_def split: option.splits)
    also have "\<dots> = rbind (WS_KickClientByRuntimeID B e ?here ?rid s) (ws_logic_finish ndebug B e l (VScan vs))"
      by (simp add: ws_logic_finish_turn [of "VScanFind rid vs" for rid] ws_logic_finish_kick KickClient_kicked after_kick_def
          split: option.split)
    also have "\<dots> = rbind (WS_KickClientByRuntimeID B e ?here ?rid s) (\<lambda>s1.
        rbind (ws_kick_scan B e ?here ?sid vs s1) (ws_logic_finish ndebug B e l (VScan [])))"
    proof (rule rbind_cong_Inr)
      fix s1 assume "WS_KickClientByRuntimeID B e ?here ?rid s = Inr s1"
      then have "only_sends s s1" by (auto simp: KickClient_kicked dest: kicked_only split: option.splits)
      then show "ws_logic_finish ndebug B e l (VScan vs) s1 =
          rbind (ws_kick_scan B e ?here ?sid vs s1) (ws_logic_finish ndebug B e l (VScan []))"
        using Cons.IH [of s1] by (simp add: only_sends_def)
    qed
    finally show ?thesis using True by (simp add: rbind_assoc)
  qed
qed simp

lemma ws_kick_scan_only: "ws_kick_scan B e here sid vs s = Inr s' \<Longrightarrow> only_sends s s'"
proof (induction B e here sid vs s arbitrary: s' rule: ws_kick_scan.induct)
  case (2 B e here sid v vs s)
  show ?case
  proof (cases "getPrimaryServerID (snd v) s = sid")
    case True
    then obtain s1 where s1: "WS_KickClientByRuntimeID B e here (wc_runtimeID (ws_clients s (snd v))) s = Inr s1"
      "ws_kick_scan B e here sid vs s1 = Inr s'"
      using 2 by (auto simp: results)
    have "only_sends s s1" using s1(1) by (auto simp: KickClient_kicked dest: kicked_only split: option.splits)
    then show ?thesis using 2(1) [OF True s1(2)] by (rule only_sends_trans)
  qed (use 2 in simp)
qed simp

lemma ws_logic_finish_close: "ws_logic_finish ndebug B e l VClose s = WS_logic_onClose B e l s"
proof -
  have reset: "ws_logic_finish ndebug B e l VReset s = Inr (set_logic l (\<lambda>x. x\<lparr>wl_isPrimary := False, wl_id := - 1\<rparr>) s)" for s
    by (simp add: ws_logic_finish_turn)
  have "rbind (ws_kick_scan B e (wl_loop (ws_logics s l)) (wl_id (ws_logics s l)) vs s) (ws_logic_finish ndebug B e l (VScan [])) =
      rbind (ws_kick_scan B e (wl_loop (ws_logics s l)) (wl_id (ws_logics s l)) vs s) (\<lambda>s1.
        Inr (set_logic l (\<lambda>x. x\<lparr>wl_isPrimary := False, wl_id := - 1\<rparr>)
          (s1\<lparr>ws_primaries := WS_RemovePrimaryLogicServer (wl_id (ws_logics s l)) (ws_primaries s1)\<rparr>)))" for vs
    by (rule rbind_cong_Inr) (auto simp: ws_logic_finish_turn [of "VScan []"] reset only_sends_def dest: ws_kick_scan_only)
  then show ?thesis
    by (simp add: ws_logic_finish_turn [of VClose] ws_logic_finish_scan [of ndebug B e l "env_clients e (ws_clientTable s)"]
        reset WS_logic_onClose_def WS_KickClientOfPrimary_def rbind_assoc Let_def)
qed

lemma on_parsed_finish:
  assumes "\<And>m. (case k m of (pc, s1) \<Rightarrow> ws_logic_finish ndebug B e l pc s1) = k' m s"
  shows "rbind (on_parsed B rp clear merge fresh k s) (\<lambda>(pc, s1). ws_logic_finish ndebug B e l pc s1) =
    if_parsed B rp clear merge fresh k' s"
  using assms by (simp add: on_parsed_def if_parsed_def split: out.split)

lemma ws_logic_finish_login:
  "(case ws_login_find p k s of (free, s1) \<Rightarrow> ws_logic_finish ndebug B e l (VAdd p k free) s1) =
     (let (isSuccess, s1) =
        (if p then
           (let (q, m) = WS_FindPrimaryLogicServer (ws_primaries s) k in
            if q = None then (True, s\<lparr>ws_primaries := WS_AddPrimaryLogicServer k (Some l) m\<rparr>)
            else (False, s\<lparr>ws_primaries := m\<rparr>))
         else
           (let (q, m) = WS_FindSlaveLogicServer (ws_slaves s) k in
            if q = None then (True, s\<lparr>ws_slaves := WS_AddSlaveLogicServer k (Some l) m\<rparr>)
            else (False, s\<lparr>ws_slaves := m\<rparr>)))
      in if isSuccess
         then WS_sendLogicServerLoginResult B e l True (set_logic l (\<lambda>x. x\<lparr>wl_isPrimary := p, wl_id := k\<rparr>) s1)
         else WS_sendLogicServerLoginResult B e l False s1)"
  by (simp add: ws_login_find_def ws_login_add_def ws_logic_finish_turn [of "VAdd p k free" for p k free]
      ws_logic_finish_turn [of "VLogin p k" for p k] ws_logic_finish_turn [of VReply] Let_def split: prod.split)

lemma ws_logic_finish_packet:
  "ws_logic_finish ndebug B e l (VPacket op body) s = WS_logic_procPacket ndebug B e l op body s"
proof -
  have fin: "ws_logic_finish ndebug B e l (VSlave c k) s = Inr (WS_setSlaveServerID c k s)"
    "ws_logic_finish ndebug B e l (VPrim c k) s = Inr (setPrimaryServerID c k s)" for c k s
    by (auto simp: ws_logic_finish_turn WS_setSlaveServerID_def setPrimaryServerID_def set_client_def Let_def split: prod.split)
  have idle: "ws_logic_finish ndebug B e l VIdle = Inr" by (rule ext) simp
  note parsed = on_parsed_finish [where ndebug = ndebug and B = B and e = e and l = l and rp = "br_open B False body"]
  have login: "rbind (on_parsed B (br_open B False body) LogicServerLogin_Clear LogicServerLogin_MergePartial
      \<lparr>login_id = 0, login_isprimary = False\<rparr> (\<lambda>msg. let (free, s1) = ws_login_find (login_isprimary msg) (login_id msg) s
         in (VAdd (login_isprimary msg) (login_id msg) free, s1)) s) (\<lambda>(pc, s1). ws_logic_finish ndebug B e l pc s1) =
    WS_onLogicServerLogin B e l (br_open B False body) s"
    unfolding WS_onLogicServerLogin_def
  proof (rule parsed)
    fix msg
    obtain free s1 where f: "ws_login_find (login_isprimary msg) (login_id msg) s = (free, s1)" by fastforce
    have u: "True \<or> WS_checkPassword e []" by simp
    from ws_logic_finish_login [where p = "login_isprimary msg" and k = "login_id msg" and s = s and ndebug = ndebug and B = B and e = e and l = l]
    show "(case let (free, s1) = ws_login_find (login_isprimary msg) (login_id msg) s
          in (VAdd (login_isprimary msg) (login_id msg) free, s1) of (pc, x) \<Rightarrow> ws_logic_finish ndebug B e l pc x) =
        (if True \<or> WS_checkPassword e [] then
            (let sid = login_id msg;
                 (isSuccess, s1) =
                   (if login_isprimary msg then
                      (let (q, m) = WS_FindPrimaryLogicServer (ws_primaries s) sid in
                       if q = None then (True, s\<lparr>ws_primaries := WS_AddPrimaryLogicServer sid (Some l) m\<rparr>)
                       else (False, s\<lparr>ws_primaries := m\<rparr>))
                    else
                      (let (q, m) = WS_FindSlaveLogicServer (ws_slaves s) sid in
                       if q = None then (True, s\<lparr>ws_slaves := WS_AddSlaveLogicServer sid (Some l) m\<rparr>)
                       else (False, s\<lparr>ws_slaves := m\<rparr>)))
             in if isSuccess
                then WS_sendLogicServerLoginResult B e l True
                       (set_logic l (\<lambda>x. x\<lparr>wl_isPrimary := login_isprimary msg, wl_id := sid\<rparr>) s1)
                else WS_sendLogicServerLoginResult B e l False s1)
          else WS_sendLogicServerLoginResult B e l False s)"
      unfolding if_P [OF u] f Let_def prod.case by simp
  qed
  have down: "rbind (on_parsed B (br_open B False body) DownstreamACK_Clear DownstreamACK_MergePartial
      \<lparr>down_msgid = 0, down_data = [], down_clientid = \<lparr>elems = [], total_size = 0\<rparr>\<rparr>
      (\<lambda>downstream. (VFind downstream (elems (down_clientid downstream)), s)) s) (\<lambda>(pc, s1). ws_logic_finish ndebug B e l pc s1) =
    WS_onPacket2ClientByRuntimeID B l (br_open B False body) s"
    unfolding WS_onPacket2ClientByRuntimeID_def by (rule parsed) (simp add: ws_logic_finish_find)
  have kick: "rbind (on_parsed B (br_open B False body) LogicServerKickPlayer_Clear LogicServerKickPlayer_MergePartial
      \<lparr>kick_roleruntimeid = 0\<rparr> (\<lambda>msg. (case WS_FindClientByRuntimeID (ws_clientTable s) (kick_roleruntimeid msg) of
         None \<Rightarrow> VIdle | Some p \<Rightarrow> VKick p None, s)) s) (\<lambda>(pc, s1). ws_logic_finish ndebug B e l pc s1) =
    WS_onKickClientByRuntimeID B e l (br_open B False body) s"
    unfolding WS_onKickClientByRuntimeID_def
    by (rule parsed) (simp add: ws_logic_finish_kick KickClient_kicked after_kick_def idle split: option.split)
  have slave: "rbind (on_parsed B (br_open B False body) LogicServerSetRoleSlave_Clear LogicServerSetRoleSlave_MergePartial
      \<lparr>slave_roleruntimeid = 0, slave_willset = False\<rparr>
      (\<lambda>msg. (case WS_FindClientByRuntimeID (ws_clientTable s) (slave_roleruntimeid msg) of
         None \<Rightarrow> VIdle | Some p \<Rightarrow> VSlave p (if slave_willset msg then wl_id (ws_logics s l) else - 1), s)) s)
      (\<lambda>(pc, s1). ws_logic_finish ndebug B e l pc s1) =
    onIsSetPlayerSlaveServer B l (br_open B False body) s"
    unfolding onIsSetPlayerSlaveServer_def by (rule parsed) (simp add: fin split: option.split)
  have prim: "rbind (on_parsed B (br_open B False body) LogicServerSetRolePrimary_Clear LogicServerSetRolePrimary_MergePartial
      \<lparr>prim_roleruntimeid = 0\<rparr> (\<lambda>msg. (case WS_FindClientByRuntimeID (ws_clientTable s) (prim_roleruntimeid msg) of
         None \<Rightarrow> VIdle | Some p \<Rightarrow> VPrim p (wl_id (ws_logics s l)), s)) s) (\<lambda>(pc, s1). ws_logic_finish ndebug B e l pc s1) =
    onSetPlayerPrimaryServer B l (br_open B False body) s"
    unfolding onSetPlayerPrimaryServer_def by (rule parsed) (simp add: fin split: option.split)
  have branch: "rbind (if b then x else y) f = (if b then rbind x f else rbind y f)"
    for b and x y :: "(ws_logic_pc \<times> ws_server) result" and f :: "ws_logic_pc \<times> ws_server \<Rightarrow> ws_server result"
    by simp
  show ?thesis
    unfolding ws_logic_finish_turn [OF not_resting(1)] ws_logic_turn.simps ws_dispatch_def WS_logic_procPacket_def Let_def
      branch login [unfolded Let_def] down kick slave prim
    by (simp add: cassert_def)
qed

section \<open>The turns are the handlers\<close>

text \<open>
  The callbacks cut into turns are the handlers of the web server: all turns of one taken in a row do to the server what the
  handler does, and fail where it fails, whatever the packet: entering, a packet and closing of a client's session, the two ways
  to tell the servers that a player is gone, and a packet and closing of a logic server's session.
\<close>

theorem ws_turns_are_handlers:
  "ws_client_finish ndebug B e c WEnter s = WS_onEnter ndebug e c s \<and>
   ws_client_finish ndebug B e c (WPacket op body) s = WS_procPacket ndebug B e c op body s \<and>
   ws_client_finish ndebug B e c WClose s = Inr (WS_onClose c s) \<and>
   ws_client_finish ndebug B e c (WNotify False NPrimary) s = run_task B e (TaskNotify c) s \<and>
   ws_client_finish ndebug B e c (WNotify True NPrimary) s = close_timer B e c s \<and>
   ws_logic_finish ndebug B e l (VPacket op body) s = WS_logic_procPacket ndebug B e l op body s \<and>
   ws_logic_finish ndebug B e l VClose s = WS_logic_onClose B e l s"
  by (simp only: ws_client_finish_enter ws_client_finish_packet ws_client_finish_close ws_client_finish_task
      ws_logic_finish_packet ws_logic_finish_close simp_thms)

end
