(* ===== verification/WSProps.thy ===== *)
theory WSProps
  imports WSSystem
begin

text \<open>
  What the web-facing connection server does with its clients and logic servers: the fate of a
  client's first packet, forwarding in both directions over the wire, reconnecting, closing, and
  what the tables look like in every reachable state.
\<close>

section \<open>Sending\<close>

lemma bw_cellnet:
  assumes "base_io B view" and "length data + 8 < 2 ^ 16"
  shows "bw_data B False True n [WU32 cmd, WU16 ser, WU16 (of_nat (length data + 8)), WBuf data] =
    cellnet_bytes cmd ser data"
proof -
  have "unat (of_nat (length data + 8) :: 16 word) = 8 + length data"
    using assms(2) by (simp only: unat_of_nat) simp
  then show ?thesis
    using base_io.write_fits [OF assms(1), of True False] by (simp add: num_bytes_def cellnet_bytes_def)
qed

lemma bw_web:
  assumes "base_io B view" and "length data + 14 \<le> n" and "n < 2 ^ 32"
  shows "bw_data B True auto n [WI8 123, WU32 (of_nat (length data + 14)), WU32 op, WU32 ser, WBuf data, WI8 125] =
    web_bytes op ser data"
proof -
  have "unat (of_nat (length data + 14) :: 32 word) = 14 + length data"
    using assms(2,3) by (simp only: unat_of_nat) simp
  then show ?thesis
    using base_io.write_fits [OF assms(1), of auto True _ n] assms(2) by (simp add: web_bytes_def)
qed

lemma serialize_string_total:
  "length (wr m) = byte_size m \<Longrightarrow> \<exists>str. SerializePartialAsString byte_size wr m = Inr str"
  by (simp add: SerializePartialAsString_def AppendPartialToString_def)

lemma sendPB_total:
  assumes "length (wr m) = byte_size m"
  shows "\<exists>s'. sendPB B here l cmd byte_size wr m s = Inr s'"
proof -
  obtain str where "SerializePartialAsString byte_size wr m = Inr str"
    using serialize_string_total [where wr = wr and m = m and byte_size = byte_size, OF assms] by blast
  then show ?thesis using assms by (auto simp: sendPB_def SerializePartialToArray_def)
qed

lemma sendPB_all_null:
  assumes "length (wr m) = byte_size m" and "\<exists>v\<in>set vs. snd v = None"
  shows "sendPB_all B here vs cmd byte_size wr m s = Inl NullDeref"
  using assms(2)
proof (induction vs arbitrary: s)
  case (Cons v vs)
  show ?case
  proof (cases "snd v")
    case (Some l)
    obtain s' where "sendPB B here l cmd byte_size wr m s = Inr s'" using sendPB_total [where wr = wr and m = m and byte_size = byte_size, OF assms(1)] by blast
    then show ?thesis using Cons Some by auto
  qed simp
qed simp

lemma sendPB_all_total:
  assumes "length (wr m) = byte_size m" and "\<forall>v\<in>set vs. snd v \<noteq> None"
  shows "\<exists>s'. sendPB_all B here vs cmd byte_size wr m s = Inr s'"
  using assms(2)
proof (induction vs arbitrary: s)
  case (Cons v vs)
  then obtain l where l: "snd v = Some l" by auto
  obtain s' where "sendPB B here l cmd byte_size wr m s = Inr s'" using sendPB_total [where wr = wr and m = m and byte_size = byte_size, OF assms(1)] by blast
  then show ?case using Cons l by auto
qed simp

lemma sendPB_in_loop:
  assumes "base_io B view" and "length (wr m) = byte_size m" and "wl_loop (ws_logics s l) = here"
  shows "\<exists>s'. sendPB B here l cmd byte_size wr m s = Inr s' \<and> ws_tasks s' = ws_tasks s \<and>
    ws_wire s' = ws_wire s @ (if length (wr m) \<le> 8192
      then [ToLogic l (cellnet_bytes cmd (wl_sendSerial (ws_logics s l)) (wr m))] else [])"
  using assms bw_cellnet [OF assms(1), of "wr m" "8 * 1024"]
  by (auto simp: sendPB_def SerializePartialToArray_def sendPBData_def helpSendPacketInLoop_def Let_def put_def
      set_logic_def)

section \<open>A server for the witnesses\<close>

text \<open>One client with the id 7, a primary with id 4, and a slave with id 5, all on one loop.\<close>

definition ws_demo :: "laddr option \<Rightarrow> ws_server" where
  "ws_demo p = \<lparr>ws_clients = (\<lambda>_. (WSClientSession 0)\<lparr>wc_runtimeID := 7, wc_primary := p\<rparr>),
     ws_logics = (\<lambda>l. if l = 1 then (WSLogicSession 0)\<lparr>wl_isPrimary := True, wl_id := 4\<rparr>
       else (WSLogicSession 0)\<lparr>wl_id := 5\<rparr>),
     ws_clientTable = [(7, 0)], ws_primaries = [(4, Some 1)], ws_slaves = [(5, Some 2)], ws_incID = 1,
     ws_tasks = [], ws_timers = [], ws_wire = []\<rparr>"

definition ws_demo_env :: ws_env where
  "ws_demo_env = \<lparr>env_id = 1, env_password = [], env_now = 0, env_rand = 0, env_order = (\<lambda>m. m), env_clients = (\<lambda>m. m)\<rparr>"

lemmas demo_writes = WriteUInt32ToArray_def WriteInt32ToArray_def WriteInt64ToArray_def WriteBoolToArray_def
  WriteBytesToArray_def WriteStringWithSizeToArray_def WriteVarint32ToArray.simps WriteVarint64ToArrayInline_venc
  WriteVarint32SignExtendedToArray_def tag_bytes venc.simps

lemmas ws_demo_eval = ws_demo_def ws_demo_env_def WSClientSession_def WSLogicSession_def

section \<open>The first packet\<close>

text \<open>
  C14: The web server loses the first packet of a client, when it is neither the ping (10000, which it answers) nor a reconnect
  (91, which goes to every primary): the handler loads the primary before it
  claims one and forwards through what it loaded. It sends and queues nothing, whatever the packet
  says, and only leaves the client assigned to the server drawn (to none when -1, or a null entry of the
  table, is drawn).
\<close>

theorem ws_first_packet_lost:
  assumes "wc_primary (ws_clients s c) = None" and "wc_slave (ws_clients s c) = None"
    and "\<not> wc_reconnecting (ws_clients s c)" and "wc_runtimeID (ws_clients s c) \<noteq> - 1"
    and "wc_recvSerial (ws_clients s c) \<noteq> 0x7FFFFFFF" and "op \<noteq> 10000" and "op \<noteq> 91"
  shows "\<exists>s'. WS_procPacket ndebug B e c op body s = Inr s' \<and>
    ws_wire s' = ws_wire s \<and> ws_tasks s' = ws_tasks s \<and>
    wc_primary (ws_clients s' c) = (let sid = WS_ClaimPrimaryLogicServer e (ws_primaries s) in
      if sid = - 1 then None else um_live (ws_primaries s) sid)"
  using assms
  by (auto simp: WS_procPacket_def WS_claimPrimaryServer_def set_client_def Let_def WS_FindPrimaryLogicServer_def
      um_index_live)

theorem ws_first_packet_lost_witness:
  "\<exists>s'. WS_procPacket False std_base ws_demo_env 0 24 [1, 2] (ws_demo None) = Inr s' \<and>
    ws_wire s' = [] \<and> wc_primary (ws_clients s' 0) = Some 1"
proof -
  have "\<exists>s'. WS_procPacket False std_base ws_demo_env 0 24 [1, 2] (ws_demo None) = Inr s' \<and>
    ws_wire s' = ws_wire (ws_demo None) \<and> ws_tasks s' = ws_tasks (ws_demo None) \<and>
    wc_primary (ws_clients s' 0) =
      (let sid = WS_ClaimPrimaryLogicServer ws_demo_env (ws_primaries (ws_demo None)) in
       if sid = - 1 then None else um_live (ws_primaries (ws_demo None)) sid)"
    by (rule ws_first_packet_lost) (simp_all add: ws_demo_eval)
  then show ?thesis by (auto simp: ws_demo_eval WS_ClaimPrimaryLogicServer_def um_live_def um_find_def)
qed

section \<open>From a client to its logic server\<close>

text \<open>
  C23: A packet of an assigned client other than the ping (10000) and the reconnect (91), with data below 2 GB, goes to its slave,
  or to its primary when it has no slave or the opcode is one of the primary's, as a message that
  parses back to the client's id, the opcode and the data. On the server's own event loop it is sent as one Cellnet packet
  with the next serial number, and a message that takes more than the 8 KB buffer of \<open>sendPB\<close> is dropped without a trace.
  On another loop it is queued for the server's loop whatever its size (if not empty), which sends it, as one
  Cellnet packet when it is shorter than 65528 bytes.
\<close>

theorem ws_upstream_bounded:
  assumes "base_io B view"
    and "m = \<lparr>up_msgid = op, up_data = body, up_clientid = wc_runtimeID (ws_clients s c)\<rparr>"
    and "wc_primary (ws_clients s c) = Some p"
    and "l = (if op \<in> set PRIMARY_OPS then p else case wc_slave (ws_clients s c) of Some k \<Rightarrow> k | None \<Rightarrow> p)"
    and "wc_recvSerial (ws_clients s c) \<noteq> 0x7FFFFFFF" and "op \<noteq> 10000" and "op \<noteq> 91"
    and "length body < 2 ^ 31"
  shows "(wl_loop (ws_logics s l) = wc_loop (ws_clients s c) \<longrightarrow>
      (\<exists>s'. WS_procPacket ndebug B e c op body s = Inr s' \<and> ws_tasks s' = ws_tasks s \<and>
        ws_wire s' = ws_wire s @ (if UpstreamACK_ByteSize m \<le> 8192
          then [ToLogic l (cellnet_bytes UPSTREAM_ACK_OP (wl_sendSerial (ws_logics s l)) (UpstreamACK_Write m))] else [])))
    \<and> (wl_loop (ws_logics s l) \<noteq> wc_loop (ws_clients s c) \<and> length (UpstreamACK_Write m) < 2 ^ 31 \<longrightarrow>
      (\<exists>s'. WS_procPacket ndebug B e c op body s = Inr s' \<and> ws_wire s' = ws_wire s \<and>
        ws_tasks s' = ws_tasks s @ (if UpstreamACK_Write m \<noteq> []
          then [(wl_loop (ws_logics s l), TaskSendLogic l UPSTREAM_ACK_OP (UpstreamACK_Write m))] else [])))
    \<and> (length (UpstreamACK_Write m) < 65528 \<longrightarrow>
      (\<forall>t. \<exists>t'. run_task B e (TaskSendLogic l UPSTREAM_ACK_OP (UpstreamACK_Write m)) t = Inr t' \<and>
        ws_wire t' = ws_wire t @ [ToLogic l (cellnet_bytes UPSTREAM_ACK_OP (wl_sendSerial (ws_logics t l)) (UpstreamACK_Write m))]))
    \<and> (\<forall>m0. ParseFromArray UpstreamACK_Clear UpstreamACK_MergePartial (UpstreamACK_Write m) m0 = Val m)"
proof -
  have m: "length (up_data m) < 2 ^ 31" using assms by simp
  let ?s = "set_client c (\<lambda>x. x\<lparr>wc_recvSerial := wc_recvSerial x + 1\<rparr>) s"
  let ?w = "UpstreamACK_Write m"
  have run: "WS_procPacket ndebug B e c op body s = sendUpstream B (wc_loop (ws_clients s c)) l m ?s"
    using assms by (auto simp: WS_procPacket_def Let_def set_client_def split: option.splits)
  have size: "length ?w = UpstreamACK_ByteSize m" using up.size_write [OF m] by simp
  have 1: "\<exists>s'. WS_procPacket ndebug B e c op body s = Inr s' \<and> ws_tasks s' = ws_tasks s \<and>
      ws_wire s' = ws_wire s @ (if UpstreamACK_ByteSize m \<le> 8192
        then [ToLogic l (cellnet_bytes UPSTREAM_ACK_OP (wl_sendSerial (ws_logics s l)) ?w)] else [])"
    if "wl_loop (ws_logics s l) = wc_loop (ws_clients s c)"
  proof -
    have "wl_loop (ws_logics ?s l) = wc_loop (ws_clients s c)" using that by (simp add: set_client_def)
    from sendPB_in_loop [where wr = UpstreamACK_Write and m = m and byte_size = UpstreamACK_ByteSize,
        OF assms(1) size this, of UPSTREAM_ACK_OP]
    show ?thesis unfolding run using size by (auto simp: sendUpstream_def set_client_def)
  qed
  have 2: "\<exists>s'. WS_procPacket ndebug B e c op body s = Inr s' \<and> ws_wire s' = ws_wire s \<and>
      ws_tasks s' = ws_tasks s @ (if ?w \<noteq> [] then [(wl_loop (ws_logics s l), TaskSendLogic l UPSTREAM_ACK_OP ?w)] else [])"
    if "wl_loop (ws_logics s l) \<noteq> wc_loop (ws_clients s c)" "length ?w < 2 ^ 31"
    unfolding run using that up.serialize_string [OF m that(2)]
    by (auto simp: sendUpstream_def sendPB_def sendPBData_shared_def pushAsyncProc_def set_client_def)
  have 3: "\<exists>t'. run_task B e (TaskSendLogic l UPSTREAM_ACK_OP ?w) t = Inr t' \<and>
      ws_wire t' = ws_wire t @ [ToLogic l (cellnet_bytes UPSTREAM_ACK_OP (wl_sendSerial (ws_logics t l)) ?w)]"
    if "length ?w < 65528" for t
    using bw_cellnet [OF assms(1), of ?w "8 * 1024" UPSTREAM_ACK_OP] that
    by (simp add: helpSendPacketInLoop_def put_def set_logic_def Let_def)
  show ?thesis using 1 2 3 up.parse_write [OF m] by auto
qed

theorem ws_upstream_bounded_witness:
  "\<exists>s'. WS_procPacket False std_base ws_demo_env 0 9 [5, 6] (ws_demo (Some 1)) = Inr s' \<and>
    ws_wire s' = [ToLogic 1 [73, 117, 198, 131, 1, 0, 16, 0, 8, 9, 18, 2, 5, 6, 24, 7]]"
proof -
  let ?m = "\<lparr>up_msgid = 9, up_data = [5, 6], up_clientid = 7\<rparr>"
  have w: "UpstreamACK_Write ?m = [8, 9, 18, 2, 5, 6, 24, 7]"
    by (simp add: UpstreamACK_Write_def demo_writes)
  have size: "UpstreamACK_ByteSize ?m \<le> 8192" using up.size_write [of ?m] w by simp
  have demo: "ws_wire (ws_demo (Some 1)) = []" "wl_sendSerial (ws_logics (ws_demo (Some 1)) 1) = 1"
    by (simp_all add: ws_demo_eval)
  have packet: "cellnet_bytes UPSTREAM_ACK_OP 1 [8, 9, 18, 2, 5, 6, 24, 7] =
      [73, 117, 198, 131, 1, 0, 16, 0, 8, 9, 18, 2, 5, 6, 24, 7]"
    by (simp add: cellnet_bytes_def UPSTREAM_ACK_OP_def le_bytes_numeral)
  have "\<exists>s'. WS_procPacket False std_base ws_demo_env 0 9 [5, 6] (ws_demo (Some 1)) = Inr s' \<and>
      ws_tasks s' = ws_tasks (ws_demo (Some 1)) \<and>
      ws_wire s' = ws_wire (ws_demo (Some 1)) @ (if UpstreamACK_ByteSize ?m \<le> 8192
        then [ToLogic 1 (cellnet_bytes UPSTREAM_ACK_OP (wl_sendSerial (ws_logics (ws_demo (Some 1)) 1))
          (UpstreamACK_Write ?m))] else [])"
    by (rule ws_upstream_bounded [OF stdb.base_io_axioms, where p = 1, THEN conjunct1, rule_format])
      (simp_all add: ws_demo_eval PRIMARY_OPS_def)
  then show ?thesis unfolding w demo packet if_P [OF size] by auto
qed

section \<open>From a logic server to clients\<close>

text \<open>What a peer that runs the same framer gets out of a frame: the calls of its \<open>procPacket\<close>.\<close>

definition record_web :: "(i32 \<times> bytes) list web_ops" where
  "record_web = \<lparr>shakehanded = (\<lambda>_. True), set_shakehanded = (\<lambda>s. s), cache_frame = (\<lambda>_. []), set_cache = (\<lambda>_ s. s),
     send_packet = (\<lambda>_ s. s), web_proc = (\<lambda>op body s. Inr (s @ [(op, body)]))\<rparr>"

fun received :: "('r, 'z) base_lib_scheme \<Rightarrow> ws_out \<Rightarrow> (caddr \<times> i32 \<times> bytes) list" where
  "received B (ToClient c fr) = (case ws_extract B fr of
       Some (pay, op, n, fin) \<Rightarrow> (case web_frame True B record_web pay op fin [] of
           Inr calls \<Rightarrow> map (Pair c) calls | Inl f \<Rightarrow> [])
     | None \<Rightarrow> [])"
| "received B a = []"

definition receivers :: "client_map \<Rightarrow> DownstreamACK \<Rightarrow> (caddr \<times> i32 \<times> bytes) list" where
  "receivers m d = concat (map (\<lambda>v. case WS_FindClientByRuntimeID m v of
       None \<Rightarrow> [] | Some c \<Rightarrow> [(c, down_msgid d, down_data d)]) (elems (down_clientid d)))"

lemma helpSendPacket_keeps [simp]:
  "wc_loop (ws_clients (helpSendPacket B c op data s) k) = wc_loop (ws_clients s k)"
  "ws_clientTable (helpSendPacket B c op data s) = ws_clientTable s"
  "ws_tasks (helpSendPacket B c op data s) = ws_tasks s"
  by (simp_all add: helpSendPacket_def Let_def put_def set_client_def split: option.splits)

text \<open>What of it the loop sends at once, and what it queues for other loops.\<close>

definition received_now :: "nat \<Rightarrow> ws_server \<Rightarrow> (caddr \<times> i32 \<times> bytes) list \<Rightarrow> (caddr \<times> i32 \<times> bytes) list" where
  "received_now here s rs = filter (\<lambda>(c, p). wc_loop (ws_clients s c) = here) rs"

definition received_later :: "nat \<Rightarrow> ws_server \<Rightarrow> (caddr \<times> i32 \<times> bytes) list \<Rightarrow> (nat \<times> ws_task) list" where
  "received_later here s rs = map (\<lambda>(c, op, data). (wc_loop (ws_clients s c), TaskSendClient c op data))
     (filter (\<lambda>(c, p). wc_loop (ws_clients s c) \<noteq> here) rs)"

lemma received_simps [simp]:
  "received_now here s (rs @ rs') = received_now here s rs @ received_now here s rs'"
  "received_later here s (rs @ rs') = received_later here s rs @ received_later here s rs'"
  "received_now here s [] = []" "received_later here s [] = []"
  "received_now here (helpSendPacket B c op data s) rs = received_now here s rs"
  "received_later here (helpSendPacket B c op data s) rs = received_later here s rs"
  "received_now here (pushAsyncProc lp t s) rs = received_now here s rs"
  "received_later here (pushAsyncProc lp t s) rs = received_later here s rs"
  by (simp_all add: received_now_def received_later_def pushAsyncProc_def)

context ws_lib
begin

lemma helpSendPacket_received:
  assumes "length data + 14 \<le> 8192" and "\<forall>b. length b \<le> 8192 \<longrightarrow> ws_build B b TEXT_FRAME \<noteq> None"
  shows "\<exists>a. ws_wire (helpSendPacket B c op data s) = ws_wire s @ [a] \<and> received B a = [(c, op, data)]"
proof -
  let ?ser = "wc_sendSerial (ws_clients s c)"
  have b: "bw_data B True False 8192
      [WI8 123, WU32 (of_nat (length data + 14)), WU32 op, WU32 ?ser, WBuf data, WI8 125] = web_bytes op ?ser data"
    by (rule bw_web [OF base_io_axioms]) (use assms(1) in simp_all)
  obtain fr where fr: "ws_build B (web_bytes op ?ser data) TEXT_FRAME = Some fr"
    using assms by (fastforce simp: web_bytes_def)
  then have "ws_extract B fr = Some (web_bytes op ?ser data, TEXT_FRAME, length fr, True)" using build_extract by blast
  then have "received B (ToClient c fr) = [(c, op, data)]"
    using assms(1) web_payload_packet [of data True record_web op ?ser "[]"]
    by (simp add: web_frame_def record_web_def)
  then show ?thesis using b fr by (simp add: helpSendPacket_def Let_def put_def set_client_def)
qed

lemma downstream_received:
  assumes "length (down_data d) + 14 \<le> 8192" and "\<forall>b. length b \<le> 8192 \<longrightarrow> ws_build B b TEXT_FRAME \<noteq> None"
    and "rs = concat (map (\<lambda>v. case WS_FindClientByRuntimeID (ws_clientTable s) v of
       None \<Rightarrow> [] | Some c \<Rightarrow> [(c, down_msgid d, down_data d)]) vs)"
  shows "\<exists>sent. ws_wire (downstream_loop B here d vs s) = ws_wire s @ sent \<and>
    concat (map (received B) sent) = received_now here s rs \<and>
    ws_tasks (downstream_loop B here d vs s) = ws_tasks s @ received_later here s rs"
  using assms(3)
proof (induction vs arbitrary: s rs)
  case (Cons v vs)
  show ?case
  proof (cases "WS_FindClientByRuntimeID (ws_clientTable s) v")
    case (Some c)
    let ?rs = "concat (map (\<lambda>v. case WS_FindClientByRuntimeID (ws_clientTable s) v of
       None \<Rightarrow> [] | Some c \<Rightarrow> [(c, down_msgid d, down_data d)]) vs)"
    show ?thesis
    proof (cases "wc_loop (ws_clients s c) = here")
      case True
      let ?s = "helpSendPacket B c (down_msgid d) (down_data d) s"
      obtain a where a: "ws_wire ?s = ws_wire s @ [a]" "received B a = [(c, down_msgid d, down_data d)]"
        using helpSendPacket_received [OF assms(1,2)] by blast
      obtain sent where "ws_wire (downstream_loop B here d vs ?s) = ws_wire ?s @ sent"
        "concat (map (received B) sent) = received_now here s ?rs"
        "ws_tasks (downstream_loop B here d vs ?s) = ws_tasks s @ received_later here s ?rs"
        using Cons.IH [of ?rs ?s] by auto
      then show ?thesis using Some True a Cons.prems
        by (intro exI [of _ "a # sent"]) (simp add: sendPBBinary_def received_now_def received_later_def)
    next
      case False
      let ?s = "pushAsyncProc (wc_loop (ws_clients s c)) (TaskSendClient c (down_msgid d) (down_data d)) s"
      have s: "ws_clientTable ?s = ws_clientTable s" "ws_wire ?s = ws_wire s"
        "ws_tasks ?s = ws_tasks s @ [(wc_loop (ws_clients s c), TaskSendClient c (down_msgid d) (down_data d))]"
        by (simp_all add: pushAsyncProc_def)
      obtain sent where "ws_wire (downstream_loop B here d vs ?s) = ws_wire s @ sent"
        "concat (map (received B) sent) = received_now here s ?rs"
        "ws_tasks (downstream_loop B here d vs ?s) = ws_tasks ?s @ received_later here s ?rs"
        using Cons.IH [of ?rs ?s] s by auto
      then show ?thesis using Some False s Cons.prems
        by (intro exI [of _ sent]) (simp add: sendPBBinary_shared_def received_now_def received_later_def)
    qed
  qed (use Cons in simp)
qed simp

end

lemma message_of_body:
  assumes "base_io B view"
  shows "take (br_max B (br_open B big body)) (br_buffer B (br_open B big body)) = body"
  using base_io.view_open [OF assms, of big body] base_io.view_max [OF assms] base_io.view_buffer [OF assms] by simp

text \<open>
  C13: A downstream packet of a logic server, with at most 8178 bytes of data (what fits the 8 KB buffer of
  \<open>helpSendPacket\<close>), goes to exactly the clients the client table has under the addressed ids (a client that has closed
  stays there up to two minutes), once per id, in order. To a client of the logic server's own event loop it is sent at once, for any
  other it is queued on the client's loop, in order. What is sent, at once or when the queue is run, is read back, by a peer that
  runs the same framer, as one packet with that message id and data. (The frame builder does not fail.)
\<close>

theorem ws_downstream_reaches:
  assumes "ws_lib B view" and "\<forall>b. length b \<le> 8192 \<longrightarrow> ws_build B b TEXT_FRAME \<noteq> None" and "down_fits d"
    and "length (down_data d) + 14 \<le> 8192"
  shows "(\<exists>s' sent. WS_logic_procPacket ndebug B e l LOGICSERVER_DOWNSTREAM (DownstreamACK_Write d) s = Inr s' \<and>
      ws_wire s' = ws_wire s @ sent \<and>
      concat (map (received B) sent) = received_now (wl_loop (ws_logics s l)) s (receivers (ws_clientTable s) d) \<and>
      ws_tasks s' = ws_tasks s @ received_later (wl_loop (ws_logics s l)) s (receivers (ws_clientTable s) d)) \<and>
    (\<forall>c t. \<exists>t' a. run_task B e (TaskSendClient c (down_msgid d) (down_data d)) t = Inr t' \<and>
      ws_wire t' = ws_wire t @ [a] \<and> received B a = [(c, down_msgid d, down_data d)])"
proof
  let ?fresh = "\<lparr>down_msgid = 0, down_data = [], down_clientid = \<lparr>elems = [], total_size = 0\<rparr>\<rparr>"
  obtain d' where d': "ParseFromArray DownstreamACK_Clear DownstreamACK_MergePartial (DownstreamACK_Write d) ?fresh = Val d'"
    "down_same d' d" using down.parse_write [OF assms(3)] by blast
  let ?here = "wl_loop (ws_logics s l)"
  have "WS_logic_procPacket ndebug B e l LOGICSERVER_DOWNSTREAM (DownstreamACK_Write d) s =
      Inr (downstream_loop B ?here d' (elems (down_clientid d')) s)"
    using d'(1) message_of_body [OF ws_lib.axioms(1) [OF assms(1)]]
    by (simp add: WS_logic_procPacket_def Let_def cellnet_ops WS_onPacket2ClientByRuntimeID_def if_parsed_def)
  moreover have same: "receivers (ws_clientTable s) d = concat (map (\<lambda>v. case WS_FindClientByRuntimeID (ws_clientTable s) v of
       None \<Rightarrow> [] | Some c \<Rightarrow> [(c, down_msgid d', down_data d')]) (elems (down_clientid d')))"
    using d'(2) by (simp add: receivers_def down_same_def cong: option.case_cong)
  have "\<exists>sent. ws_wire (downstream_loop B ?here d' (elems (down_clientid d')) s) = ws_wire s @ sent \<and>
    concat (map (received B) sent) = received_now ?here s (receivers (ws_clientTable s) d) \<and>
    ws_tasks (downstream_loop B ?here d' (elems (down_clientid d')) s) =
      ws_tasks s @ received_later ?here s (receivers (ws_clientTable s) d)"
    by (rule ws_lib.downstream_received [OF assms(1) _ _ same]) (use assms(2,4) d'(2) in \<open>simp_all add: down_same_def\<close>)
  ultimately show "\<exists>s' sent. WS_logic_procPacket ndebug B e l LOGICSERVER_DOWNSTREAM (DownstreamACK_Write d) s = Inr s' \<and>
      ws_wire s' = ws_wire s @ sent \<and>
      concat (map (received B) sent) = received_now ?here s (receivers (ws_clientTable s) d) \<and>
      ws_tasks s' = ws_tasks s @ received_later ?here s (receivers (ws_clientTable s) d)" by auto
  show "\<forall>c t. \<exists>t' a. run_task B e (TaskSendClient c (down_msgid d) (down_data d)) t = Inr t' \<and>
      ws_wire t' = ws_wire t @ [a] \<and> received B a = [(c, down_msgid d, down_data d)]"
    using ws_lib.helpSendPacket_received [OF assms(1,4,2)] by simp
qed

theorem ws_downstream_reaches_witness:
  "\<exists>s' sent. WS_logic_procPacket False std_base ws_demo_env 1 LOGICSERVER_DOWNSTREAM
      (DownstreamACK_Write \<lparr>down_msgid = 9, down_data = [5, 6], down_clientid = \<lparr>elems = [7, 8, 7], total_size = 4\<rparr>\<rparr>)
      (ws_demo (Some 1)) = Inr s' \<and>
    concat (map (received std_base) sent) = [(0, 9, [5, 6]), (0, 9, [5, 6])]"
proof -
  let ?d = "\<lparr>down_msgid = 9, down_data = [5, 6], down_clientid = \<lparr>elems = [7, 8, 7], total_size = 4\<rparr>\<rparr>"
  have fits: "down_fits ?d" by (simp add: down_fits_def clientid_bytes_def VarintSize64_venc demo_writes)
  let ?here = "wl_loop (ws_logics (ws_demo (Some 1)) 1)"
  have build: "\<forall>b. length b \<le> 8192 \<longrightarrow> ws_build std_base b TEXT_FRAME \<noteq> None" by auto
  have small: "length (down_data ?d) + 14 \<le> 8192" by simp
  have receivers: "received_now ?here (ws_demo (Some 1)) (receivers (ws_clientTable (ws_demo (Some 1))) ?d) =
      [(0, 9, [5, 6]), (0, 9, [5, 6])]"
    by (simp add: receivers_def received_now_def ws_demo_eval WS_FindClientByRuntimeID_def um_find_def)
  show ?thesis
    using ws_downstream_reaches [OF stdb.ws_lib_axioms build fits small, of False ws_demo_env 1 "ws_demo (Some 1)"]
    unfolding receivers by blast
qed

section \<open>A null entry\<close>

lemma perm_null:
  assumes "set (env_order e m) = set m" and "um_find m k = Some None"
  shows "\<exists>v\<in>set (env_order e m). snd v = None"
proof -
  have "(k, None) \<in> set m" using assms(2) by (auto simp: um_find_def dest: map_of_SomeD)
  then show ?thesis unfolding assms(1) by force
qed

lemma reconnect_null:
  assumes "set (env_order e (ws_primaries s)) = set (ws_primaries s)"
    and "um_find (ws_primaries s) k = Some None" and "wc_recvSerial (ws_clients s c) = 0" and "length body < 2 ^ 31"
  shows "WS_procPacket ndebug B e c 91 body s = Inl NullDeref"
proof -
  let ?s = "set_client c (\<lambda>x. x\<lparr>wc_recvSerial := wc_recvSerial x + 1\<rparr>) s"
  let ?m = "\<lparr>up_msgid = 91, up_data = body, up_clientid = wc_runtimeID (ws_clients s c)\<rparr>"
  have "length (UpstreamACK_Write ?m) = UpstreamACK_ByteSize ?m"
    using up.size_write [of ?m] assms(4) by simp
  then have "sendPB_all B (wc_loop (ws_clients s c)) (env_order e (ws_primaries s)) UPSTREAM_ACK_OP
      UpstreamACK_ByteSize UpstreamACK_Write ?m ?s = Inl NullDeref"
    using perm_null [OF assms(1,2)] by (rule sendPB_all_null)
  then show ?thesis using assms(3)
    by (simp add: WS_procPacket_def Let_def set_client_def GetAllPrimaryLogicServer_def)
qed

text \<open>
  C24: A slave logic server can bring the process down: when it asks to become the primary of a connected
  client (its id is no primary's), the lookup leaves a null entry under its id, and the next client
  whose first packet is a reconnect (opcode 91) makes the handler call \<open>sendPB\<close> through it.
\<close>

theorem ws_null_primary_crash:
  assumes "base_io B view" and "wl_id (ws_logics s l) \<noteq> - 1"
    and "um_find (ws_primaries s) (wl_id (ws_logics s l)) = None"
    and "um_find (ws_clientTable s) rid = Some c0"
    and "wc_recvSerial (ws_clients s c) = 0" and "length body < 2 ^ 31"
    and "\<forall>m. set (env_order e' m) = set m"
  shows "\<exists>s1. WS_logic_procPacket ndebug B e l LOGICSERVER_SET_PLAYER_PRIMARY
      (LogicServerSetRolePrimary_Write \<lparr>prim_roleruntimeid = rid\<rparr>) s = Inr s1 \<and>
    um_find (ws_primaries s1) (wl_id (ws_logics s l)) = Some None \<and>
    WS_procPacket ndebug B e' c 91 body s1 = Inl NullDeref"
proof -
  let ?k = "wl_id (ws_logics s l)" and ?s1 = "setPrimaryServerID c0 (wl_id (ws_logics s l)) s"
  have parsed: "ParseFromArray LogicServerSetRolePrimary_Clear LogicServerSetRolePrimary_MergePartial
      (LogicServerSetRolePrimary_Write \<lparr>prim_roleruntimeid = rid\<rparr>) \<lparr>prim_roleruntimeid = 0\<rparr> =
      Val \<lparr>prim_roleruntimeid = rid\<rparr>"
    using prim.parse_write [of "\<lparr>prim_roleruntimeid = rid\<rparr>"] by auto
  have "WS_logic_procPacket ndebug B e l LOGICSERVER_SET_PLAYER_PRIMARY
      (LogicServerSetRolePrimary_Write \<lparr>prim_roleruntimeid = rid\<rparr>) s = Inr ?s1"
    using message_of_body [OF assms(1)] parsed assms(4)
    by (simp add: WS_logic_procPacket_def Let_def cellnet_ops onSetPlayerPrimaryServer_def if_parsed_def
        WS_FindClientByRuntimeID_def)
  moreover have null: "um_find (ws_primaries ?s1) ?k = Some None"
    using assms(2,3) by (simp add: setPrimaryServerID_def WS_FindPrimaryLogicServer_def um_index_live set_client_def um_live_def)
  moreover have "WS_procPacket ndebug B e' c 91 body ?s1 = Inl NullDeref"
    by (rule reconnect_null [OF _ null]) (use assms in \<open>auto simp: setPrimaryServerID_def set_client_def split: prod.splits\<close>)
  ultimately show ?thesis by blast
qed

theorem ws_null_primary_crash_witness:
  "\<exists>s1. WS_logic_procPacket True std_base ws_demo_env 2 LOGICSERVER_SET_PLAYER_PRIMARY [8, 7] (ws_demo None) = Inr s1 \<and>
    WS_procPacket True std_base ws_demo_env 3 91 [] s1 = Inl NullDeref"
proof -
  have bytes: "LogicServerSetRolePrimary_Write \<lparr>prim_roleruntimeid = 7\<rparr> = [8, 7]"
    by (simp add: LogicServerSetRolePrimary_Write_def demo_writes)
  have "\<exists>s1. WS_logic_procPacket True std_base ws_demo_env 2 LOGICSERVER_SET_PLAYER_PRIMARY
      (LogicServerSetRolePrimary_Write \<lparr>prim_roleruntimeid = 7\<rparr>) (ws_demo None) = Inr s1 \<and>
    um_find (ws_primaries s1) (wl_id (ws_logics (ws_demo None) 2)) = Some None \<and>
    WS_procPacket True std_base ws_demo_env 3 91 [] s1 = Inl NullDeref"
    by (rule ws_null_primary_crash [OF stdb.base_io_axioms]) (simp_all add: ws_demo_eval um_find_def)
  then show ?thesis unfolding bytes by blast
qed

section \<open>Closed clients\<close>

lemma sendPB_frame:
  "sendPB B here l cmd bs wr m s = Inr s' \<Longrightarrow> ws_clients s' = ws_clients s \<and> ws_slaves s' = ws_slaves s"
  by (auto simp: sendPB_def sendPBData_def sendPBData_shared_def helpSendPacketInLoop_def Let_def put_def set_logic_def
      pushAsyncProc_def results split: if_splits option.splits)

lemma sendPB_all_frame:
  "sendPB_all B here vs cmd bs wr m s = Inr s' \<Longrightarrow> ws_clients s' = ws_clients s \<and> ws_slaves s' = ws_slaves s"
proof (induction vs arbitrary: s)
  case (Cons v vs)
  then show ?case by (auto simp: results dest: sendPB_frame split: option.splits)
qed simp

lemma notify_total:
  assumes "wc_reconnecting (ws_clients s c) \<longrightarrow>
      (\<forall>v\<in>set (env_order e (ws_primaries s)) \<union> set (env_order e (ws_slaves s)). snd v \<noteq> None)"
  shows "\<exists>s'. notifyServerPlayerExist B e c s = Inr s'"
proof -
  let ?m = "\<lparr>close_clientid = wc_runtimeID (ws_clients s c)\<rparr>" and ?here = "wc_loop (ws_clients s c)"
  have size: "length (CloseClientACK_Write ?m) = CloseClientACK_ByteSize ?m" using close.size_write [of ?m] by simp
  let ?told = "\<lambda>p vs s. case p of
      Some l \<Rightarrow> sendPB B ?here l CLOSE_CLIENT_ACK_OP CloseClientACK_ByteSize CloseClientACK_Write ?m s
    | None \<Rightarrow> if wc_reconnecting (ws_clients s c)
        then sendPB_all B ?here vs CLOSE_CLIENT_ACK_OP CloseClientACK_ByteSize CloseClientACK_Write ?m s else Inr s"
  have told: "\<exists>x'. ?told p vs x = Inr x' \<and> ws_clients x' = ws_clients x \<and> ws_slaves x' = ws_slaves x"
    if "wc_reconnecting (ws_clients x c) \<longrightarrow> (\<forall>v\<in>set vs. snd v \<noteq> None)" for p vs x
  proof -
    have "\<exists>x'. ?told p vs x = Inr x'"
      using sendPB_total [where wr = CloseClientACK_Write and byte_size = CloseClientACK_ByteSize and m = ?m, OF size]
        sendPB_all_total [where wr = CloseClientACK_Write and byte_size = CloseClientACK_ByteSize and m = ?m and vs = vs, OF size] that
      by (auto split: option.splits)
    then show ?thesis by (auto split: option.splits if_splits dest: sendPB_frame sendPB_all_frame)
  qed
  obtain s1 where s1: "?told (wc_primary (ws_clients s c)) (env_order e (ws_primaries s)) s = Inr s1"
    "ws_clients s1 = ws_clients s" "ws_slaves s1 = ws_slaves s"
    using told [of s "env_order e (ws_primaries s)"] assms by blast
  obtain s2 where s2: "?told (wc_slave (ws_clients s1 c)) (env_order e (ws_slaves s1)) s1 = Inr s2"
    using told [of s1 "env_order e (ws_slaves s1)" "wc_slave (ws_clients s1 c)"] assms s1(2,3) by auto
  show ?thesis
    unfolding notifyServerPlayerExist_def Let_def GetAllPrimaryLogicServer_def GetAllSlaveLogicServer_def
      s1(1) rbind_simps s1(2) using s2 [unfolded s1(2)] by blast
qed

lemma close_timer_erases:
  assumes "ws_inv y" and "close_timer B e c ((wsv y)\<lparr>ws_timers := ts\<rparr>) = Inr s'"
  shows "um_find (ws_clientTable s') r \<noteq> Some c"
proof -
  obtain s1 where s1: "calm False ((wsv y)\<lparr>ws_timers := ts\<rparr>) s1"
    "s' = s1\<lparr>ws_clientTable := um_erase (wc_runtimeID (ws_clients (wsv y) c)) (ws_clientTable s1)\<rparr>"
    using close_timer_Inr [OF assms(2)] by auto
  then show ?thesis using assms(1) by (auto simp: ws_inv_def calm_def)
qed

text \<open>
  C25: No client is forgotten: a closed client that is still in the table has its timer pending; the timer
  can fire at once (its servers are told and no null entry of the tables is met), and whenever it
  fires without a fault the client is in the table under no id any more.
\<close>

theorem ws_closed_client_erased:
  assumes "ws_lib B view" and "ws_reach ndebug B y"
    and "um_find (ws_clientTable (wsv y)) rid = Some c" and "c \<notin> ws_openC y"
    and "wc_reconnecting (ws_clients (wsv y) c) \<longrightarrow>
      (\<forall>v\<in>set (ws_primaries (wsv y)) \<union> set (ws_slaves (wsv y)). snd v \<noteq> None)"
  shows "c \<in> set (ws_timers (wsv y)) \<and>
    (\<exists>z. ws_step ndebug B y z \<and> (\<forall>r. um_find (ws_clientTable (wsv z)) r \<noteq> Some c)) \<and>
    (\<forall>e s'. close_timer B e c ((wsv y)\<lparr>ws_timers := remove1 c (ws_timers (wsv y))\<rparr>) = Inr s' \<longrightarrow>
      (\<forall>r. um_find (ws_clientTable s') r \<noteq> Some c))"
proof -
  have inv: "ws_inv y" using assms(1,2) by (rule ws_lib.ws_reach_inv)
  then have timer: "c \<in> set (ws_timers (wsv y))" using assms(3,4) by (auto simp: ws_inv_def)
  let ?s = "(wsv y)\<lparr>ws_timers := remove1 c (ws_timers (wsv y))\<rparr>"
  obtain s1 where "notifyServerPlayerExist B ws_demo_env c ?s = Inr s1"
    using notify_total [of ?s c ws_demo_env B] assms(5) by (auto simp: ws_demo_env_def)
  then obtain s' where s': "close_timer B ws_demo_env c ?s = Inr s'" by (simp add: close_timer_def)
  then have "ws_step ndebug B y (y\<lparr>wsv := s'\<rparr>)" using timer by (rule ws_step.timer [rotated])
  then have "\<exists>z. ws_step ndebug B y z \<and> (\<forall>r. um_find (ws_clientTable (wsv z)) r \<noteq> Some c)"
    using close_timer_erases [OF inv s'] by (intro exI [of _ "y\<lparr>wsv := s'\<rparr>"]) simp
  then show ?thesis using timer close_timer_erases [OF inv] by blast
qed

text \<open>
  C26: Well-formed tables: in every reachable state the three tables have distinct keys, every entry of the
  client table is under its session's own id, and every open client has an id other than -1.
\<close>

theorem ws_tables_typed:
  assumes "ws_lib B view" and "ws_reach ndebug B y"
  shows "um_ok (ws_clientTable (wsv y)) \<and> um_ok (ws_primaries (wsv y)) \<and> um_ok (ws_slaves (wsv y)) \<and>
    (\<forall>r c. um_find (ws_clientTable (wsv y)) r = Some c \<longrightarrow> wc_runtimeID (ws_clients (wsv y) c) = r) \<and>
    (\<forall>c\<in>ws_openC y. wc_runtimeID (ws_clients (wsv y) c) \<noteq> - 1)"
  using ws_lib.ws_reach_inv [OF assms] by (auto simp: ws_inv_def)

section \<open>A run\<close>

text \<open>A client connects and disconnects.\<close>

definition ws_demo_entered :: ws_server where
  "ws_demo_entered = (wsv ws_init)\<lparr>ws_clients := (ws_clients (wsv ws_init))(3 := (WSClientSession 0)\<lparr>wc_runtimeID := 1\<rparr>),
     ws_incID := 1, ws_clientTable := [(1, 3)]\<rparr>"

lemma ws_demo_enter:
  "ws_step False std_base ws_init (ws_init\<lparr>wsv := ws_demo_entered, ws_openC := insert 3 (ws_openC ws_init)\<rparr>)"
proof (rule ws_step.client_enter [where e = ws_demo_env and lp = 0])
  show "WS_onEnter False ws_demo_env 3 (set_client 3 (\<lambda>_. WSClientSession 0) (wsv ws_init)) = Inr ws_demo_entered"
    by (simp add: WS_onEnter_def WS_MakeRuntimeID_def ws_init_def ws_demo_env_def set_client_def ws_demo_entered_def
        ws_mgr_defs client_runtime_id_def um_find_def um_set_def)
qed (simp_all add: ws_init_def ws_demo_env_def)

definition ws_demo_closed :: ws_sys where
  "ws_demo_closed = (let y = ws_init\<lparr>wsv := ws_demo_entered, ws_openC := {3}\<rparr> in
     y\<lparr>wsv := WS_onClose 3 (wsv y), ws_openC := {3} - {3}\<rparr>)"

lemma ws_demo_closed_reach: "ws_reach False std_base ws_demo_closed"
proof -
  let ?y = "ws_init\<lparr>wsv := ws_demo_entered, ws_openC := {3}\<rparr>"
  have "ws_reach False std_base ?y"
    using ws_reach.step [OF ws_reach.start ws_demo_enter] by (simp add: ws_init_def)
  moreover have "ws_step False std_base ?y ws_demo_closed"
    using ws_step.client_close [of 3 ?y False std_base] by (simp add: ws_demo_closed_def)
  ultimately show ?thesis by (rule ws_reach.step)
qed

lemma ws_demo_closed_eval:
  "um_find (ws_clientTable (wsv ws_demo_closed)) 1 = Some 3" "ws_openC ws_demo_closed = {}"
  "\<not> wc_reconnecting (ws_clients (wsv ws_demo_closed) 3)"
  by (simp_all add: ws_demo_closed_def ws_demo_entered_def WS_onClose_def um_find_def WSClientSession_def)

theorem ws_closed_client_erased_witness:
  "\<exists>z. ws_step False std_base ws_demo_closed z \<and> (\<forall>r. um_find (ws_clientTable (wsv z)) r \<noteq> Some 3)"
  using ws_closed_client_erased [OF stdb.ws_lib_axioms ws_demo_closed_reach ws_demo_closed_eval(1)]
    ws_demo_closed_eval by blast

theorem ws_tables_typed_witness: "um_ok (ws_clientTable (wsv ws_demo_closed))"
  using ws_tables_typed [OF stdb.ws_lib_axioms ws_demo_closed_reach] by blast

end
