(* ===== verification/WSInterleave.thy ===== *)
theory WSInterleave
  imports WSThreads WSProps
begin

text \<open>
  The web-facing connection server with its event loops running at the same time: the interleavings of the turns
  of WSThreads as a transition system.

  \<^item> \<open>wt_step\<close>: on a loop that is in no callback (\<open>loop_free\<close>) the next one starts: a session enters, a packet
    is cut, a session closes, a close timer fires, a posted proc runs (the procs of one loop in order); any
    callback under way takes its next turn. Packets are what the framers cut (WSFraming). A queued send is one step: it
    touches its own session only. The clock does not read -1 in the low 32 bits.
  \<^item> Objects that somebody points to live on, so addresses are not used twice (\<open>madeC\<close>, \<open>madeL\<close>); \<open>wdrawn\<close> lists the
    runtime ids handed out. No code reads these three.
  \<^item> The client table stays right in every interleaving (\<open>ws_threads_table\<close>); claiming a primary does not
    (\<open>ws_claim_race\<close>).
\<close>

section \<open>The transition system\<close>

record wt_sys = ws_sys +
  wcpc :: "caddr \<Rightarrow> ws_client_pc"
  wlpc :: "laddr \<Rightarrow> ws_logic_pc"
  madeC :: "caddr set"
  madeL :: "laddr set"
  wdrawn :: "i64 list"

definition wt_init :: wt_sys where
  "wt_init = \<lparr>wsv = wsv ws_init, ws_openC = {}, ws_openL = {}, wcpc = (\<lambda>_. WIdle), wlpc = (\<lambda>_. VIdle),
     madeC = {}, madeL = {}, wdrawn = []\<rparr>"

definition loop_free :: "nat \<Rightarrow> wt_sys \<Rightarrow> bool" where
  "loop_free lp y \<longleftrightarrow> (\<forall>c. wc_loop (ws_clients (wsv y) c) = lp \<longrightarrow> wcpc y c = WIdle) \<and>
     (\<forall>l. wl_loop (ws_logics (wsv y) l) = lp \<longrightarrow> wlpc y l = VIdle)"

definition ws_new_id :: "caddr \<Rightarrow> ws_client_pc \<Rightarrow> ws_server \<Rightarrow> i64 list" where
  "ws_new_id c pc s' = (if pc = WEnter then [wc_runtimeID (ws_clients s' c)] else [])"

inductive wt_step :: "bool \<Rightarrow> ('r, 'z) base_lib_scheme \<Rightarrow> wt_sys \<Rightarrow> wt_sys \<Rightarrow> bool" for ndebug B where
  enterC: "c \<notin> madeC y \<Longrightarrow> loop_free lp y \<Longrightarrow>
     wt_step ndebug B y (y\<lparr>wsv := set_client c (\<lambda>_. WSClientSession lp) (wsv y), ws_openC := insert c (ws_openC y),
       madeC := insert c (madeC y), wcpc := (wcpc y)(c := WEnter)\<rparr>)"
| recvC: "c \<in> ws_openC y \<Longrightarrow> loop_free (wc_loop (ws_clients (wsv y) c)) y \<Longrightarrow>
     wt_step ndebug B y (y\<lparr>wcpc := (wcpc y)(c := WPacket op body)\<rparr>)"
| shutC: "c \<in> ws_openC y \<Longrightarrow> loop_free (wc_loop (ws_clients (wsv y) c)) y \<Longrightarrow>
     wt_step ndebug B y (y\<lparr>wcpc := (wcpc y)(c := WClose)\<rparr>)"
| goneC: "wcpc y c = WDone \<Longrightarrow> wt_step ndebug B y (y\<lparr>ws_openC := ws_openC y - {c}, wcpc := (wcpc y)(c := WIdle)\<rparr>)"
| timer: "c \<in> set (ws_timers (wsv y)) \<Longrightarrow> loop_free (wc_loop (ws_clients (wsv y) c)) y \<Longrightarrow>
     wt_step ndebug B y (y\<lparr>wsv := (wsv y)\<lparr>ws_timers := remove1 c (ws_timers (wsv y))\<rparr>,
       wcpc := (wcpc y)(c := WNotify True NPrimary)\<rparr>)"
| notice: "ws_tasks (wsv y) = pre @ (lp, TaskNotify c) # post \<Longrightarrow> lp \<notin> fst ` set pre \<Longrightarrow> loop_free lp y \<Longrightarrow> wcpc y c = WIdle \<Longrightarrow>
     wt_step ndebug B y (y\<lparr>wsv := (wsv y)\<lparr>ws_tasks := pre @ post\<rparr>, wcpc := (wcpc y)(c := WNotify False NPrimary)\<rparr>)"
| sends: "ws_tasks (wsv y) = pre @ (lp, t) # post \<Longrightarrow> lp \<notin> fst ` set pre \<Longrightarrow> loop_free lp y \<Longrightarrow> \<forall>c. t \<noteq> TaskNotify c \<Longrightarrow>
     run_task B e t ((wsv y)\<lparr>ws_tasks := pre @ post\<rparr>) = Inr s' \<Longrightarrow> wt_step ndebug B y (y\<lparr>wsv := s'\<rparr>)"
| turnC: "(ucast (env_now e) :: i32) \<noteq> - 1 \<Longrightarrow> ws_client_turn ndebug B e c (wcpc y c) (wsv y) = Inr (pc', s') \<Longrightarrow>
     wt_step ndebug B y (y\<lparr>wsv := s', wcpc := (wcpc y)(c := pc'), wdrawn := wdrawn y @ ws_new_id c (wcpc y c) s'\<rparr>)"
| enterL: "l \<notin> madeL y \<Longrightarrow> loop_free lp y \<Longrightarrow>
     wt_step ndebug B y (y\<lparr>wsv := set_logic l (\<lambda>_. WSLogicSession lp) (wsv y), ws_openL := insert l (ws_openL y),
       madeL := insert l (madeL y)\<rparr>)"
| recvL: "l \<in> ws_openL y \<Longrightarrow> loop_free (wl_loop (ws_logics (wsv y) l)) y \<Longrightarrow>
     wt_step ndebug B y (y\<lparr>wlpc := (wlpc y)(l := VPacket op body)\<rparr>)"
| shutL: "l \<in> ws_openL y \<Longrightarrow> loop_free (wl_loop (ws_logics (wsv y) l)) y \<Longrightarrow>
     wt_step ndebug B y (y\<lparr>wlpc := (wlpc y)(l := VClose)\<rparr>)"
| goneL: "wlpc y l = VDone \<Longrightarrow> wt_step ndebug B y (y\<lparr>ws_openL := ws_openL y - {l}, wlpc := (wlpc y)(l := VIdle)\<rparr>)"
| turnL: "ws_logic_turn ndebug B e l (wlpc y l) (wsv y) = Inr (pc', s') \<Longrightarrow>
     wt_step ndebug B y (y\<lparr>wsv := s', wlpc := (wlpc y)(l := pc')\<rparr>)"

abbreviation wt_steps :: "bool \<Rightarrow> ('r, 'z) base_lib_scheme \<Rightarrow> wt_sys \<Rightarrow> wt_sys \<Rightarrow> bool" where
  "wt_steps ndebug B \<equiv> (wt_step ndebug B)\<^sup>*\<^sup>*"

abbreviation wt_reach :: "bool \<Rightarrow> ('r, 'z) base_lib_scheme \<Rightarrow> wt_sys \<Rightarrow> bool" where
  "wt_reach ndebug B \<equiv> wt_steps ndebug B wt_init"

section \<open>A callback without interruption\<close>

fun ws_closing :: "ws_client_pc \<Rightarrow> bool" where
  "ws_closing WClose = True" | "ws_closing WDone = True" | "ws_closing pc = False"

lemma ws_closing_turn:
  "ws_client_turn ndebug B e c pc s = Inr (pc', s') \<Longrightarrow> ws_closing pc' = ws_closing pc"
  by (induction ndebug B e c pc s rule: ws_client_turn.induct)
    (auto simp: results Let_def split: if_splits prod.splits option.splits)

lemma ws_client_uninterrupted:
  assumes "ws_client_finish ndebug B e c pc s = Inr s'" and "(ucast (env_now e) :: i32) \<noteq> - 1"
    and "wcpc y c = pc" and "wsv y = s"
  shows "\<exists>ids. wt_steps ndebug B y (y\<lparr>wsv := s', wcpc := (wcpc y)(c := (if ws_closing pc then WDone else WIdle)),
    wdrawn := ids\<rparr>)"
  using assms
proof (induction ndebug B e c pc s arbitrary: y rule: ws_client_finish.induct)
  case (1 ndebug B e c pc s)
  show ?case
  proof (cases "ws_client_part pc = 0")
    case True
    then have "pc = (if ws_closing pc then WDone else WIdle)" "s' = s"
      using "1.prems" by (cases pc; simp)+
    then have "y\<lparr>wsv := s', wcpc := (wcpc y)(c := (if ws_closing pc then WDone else WIdle)), wdrawn := wdrawn y\<rparr> = y"
      using "1.prems" by (cases y) (simp add: fun_upd_idem)
    then show ?thesis by (metis rtranclp.rtrancl_refl)
  next
    case False
    then obtain pc1 s1 where t: "ws_client_turn ndebug B e c pc s = Inr (pc1, s1)"
      and f: "ws_client_finish ndebug B e c pc1 s1 = Inr s'"
      using "1.prems" by (auto simp: ws_client_finish_turn results)
    let ?y = "y\<lparr>wsv := s1, wcpc := (wcpc y)(c := pc1), wdrawn := wdrawn y @ ws_new_id c (wcpc y c) s1\<rparr>"
    have "wt_step ndebug B y ?y" by (rule turnC) (use t "1.prems" in auto)
    moreover have "\<exists>ids. wt_steps ndebug B ?y (?y\<lparr>wsv := s',
        wcpc := (wcpc ?y)(c := (if ws_closing pc1 then WDone else WIdle)), wdrawn := ids\<rparr>)"
      by (rule "1.IH" [OF False t refl f]) (use "1.prems" in auto)
    then obtain ids where "wt_steps ndebug B ?y (y\<lparr>wsv := s', wcpc := (wcpc y)(c := (if ws_closing pc then WDone else WIdle)),
        wdrawn := ids\<rparr>)"
      using ws_closing_turn [OF t] by auto
    ultimately show ?thesis by (blast intro: converse_rtranclp_into_rtranclp)
  qed
qed

fun ws_leaving :: "ws_logic_pc \<Rightarrow> bool" where
  "ws_leaving VClose = True" | "ws_leaving (VScan vs) = True" | "ws_leaving (VScanOwner c l vs) = True"
| "ws_leaving (VScanID c vs) = True" | "ws_leaving (VScanFind rid vs) = True" | "ws_leaving VReset = True"
| "ws_leaving (VKick c k) = (k \<noteq> None)" | "ws_leaving (VTell c k) = (k \<noteq> None)" | "ws_leaving (VNotify c n k) = (k \<noteq> None)"
| "ws_leaving VDone = True" | "ws_leaving pc = False"

lemma ws_leaving_turn:
  "ws_logic_turn ndebug B e l pc s = Inr (pc', s') \<Longrightarrow> ws_leaving pc' = ws_leaving pc"
  by (induction ndebug B e l pc s rule: ws_logic_turn.induct)
    (auto simp: ws_dispatch_def on_parsed_def after_kick_def results Let_def
      split: if_splits prod.splits option.splits out.splits)

lemma ws_logic_uninterrupted:
  assumes "ws_logic_finish ndebug B e l pc s = Inr s'" and "wlpc y l = pc" and "wsv y = s"
  shows "wt_steps ndebug B y (y\<lparr>wsv := s', wlpc := (wlpc y)(l := (if ws_leaving pc then VDone else VIdle))\<rparr>)"
  using assms
proof (induction ndebug B e l pc s arbitrary: y rule: ws_logic_finish.induct)
  case (1 ndebug B e l pc s)
  show ?case
  proof (cases "resting pc")
    case True
    then have "pc = (if ws_leaving pc then VDone else VIdle)" "s' = s"
      using 1 by (auto simp: resting_def)
    then have "y\<lparr>wsv := s', wlpc := (wlpc y)(l := (if ws_leaving pc then VDone else VIdle))\<rparr> = y"
      using 1 by (cases y) (simp add: fun_upd_idem)
    then show ?thesis by (simp only: rtranclp.rtrancl_refl)
  next
    case False
    then obtain pc1 s1 where t: "ws_logic_turn ndebug B e l pc s = Inr (pc1, s1)"
      and f: "ws_logic_finish ndebug B e l pc1 s1 = Inr s'"
      using "1.prems" by (auto simp: ws_logic_finish_turn results)
    let ?y = "y\<lparr>wsv := s1, wlpc := (wlpc y)(l := pc1)\<rparr>"
    have "wt_step ndebug B y ?y" by (rule turnL) (use t "1.prems" in auto)
    moreover have "wt_steps ndebug B ?y (?y\<lparr>wsv := s', wlpc := (wlpc ?y)(l := (if ws_leaving pc1 then VDone else VIdle))\<rparr>)"
      by (rule "1.IH" [OF False t refl f]) (use "1.prems" in auto)
    then have "wt_steps ndebug B ?y (y\<lparr>wsv := s', wlpc := (wlpc y)(l := (if ws_leaving pc then VDone else VIdle))\<rparr>)"
      using ws_leaving_turn [OF t] by simp
    ultimately show ?thesis by (rule converse_rtranclp_into_rtranclp)
  qed
qed

section \<open>The client table\<close>

text \<open>Entering, adding, closing, closed, erasing, or none of these.\<close>

fun kind :: "ws_client_pc \<Rightarrow> nat" where
  "kind WEnter = 1" | "kind WAssert = 2" | "kind WAdd = 2" | "kind WClose = 3" | "kind WDone = 4"
| "kind WErase = 5" | "kind (WNotify erase n) = (if erase then 5 else 0)" | "kind pc = 0"

text \<open>Whether a session is open and its timer pending, by what it is doing; and when it is in the table.\<close>

definition placed :: "nat \<Rightarrow> bool \<Rightarrow> bool \<Rightarrow> bool" where
  "placed k op ti \<longleftrightarrow> (k = 0 \<longrightarrow> \<not> (op \<and> ti)) \<and> (k \<in> {1, 2, 3} \<longrightarrow> op \<and> \<not> ti) \<and> (k = 4 \<longrightarrow> op \<and> ti) \<and>
     (k = 5 \<longrightarrow> \<not> op \<and> \<not> ti)"

definition in_table :: "wt_sys \<Rightarrow> caddr \<Rightarrow> bool" where
  "in_table y c \<longleftrightarrow> c \<in> ws_openC y \<and> kind (wcpc y c) \<notin> {1, 2} \<or> c \<in> set (ws_timers (wsv y)) \<or> kind (wcpc y c) = 5"

definition wt_places :: "wt_sys \<Rightarrow> bool" where
  "wt_places y \<longleftrightarrow> distinct (ws_timers (wsv y)) \<and> ws_openC y \<subseteq> madeC y \<and> set (ws_timers (wsv y)) \<subseteq> madeC y \<and>
     (\<forall>c. placed (kind (wcpc y c)) (c \<in> ws_openC y) (c \<in> set (ws_timers (wsv y)))) \<and>
     (\<forall>c. c \<notin> madeC y \<longrightarrow> kind (wcpc y c) = 0)"

definition wt_entries :: "wt_sys \<Rightarrow> bool" where
  "wt_entries y \<longleftrightarrow> um_ok (ws_clientTable (wsv y)) \<and>
     (\<forall>c\<in>madeC y. kind (wcpc y c) = 1 \<or> wc_runtimeID (ws_clients (wsv y) c) \<noteq> - 1 \<and>
        wc_runtimeID (ws_clients (wsv y) c) \<in> set (wdrawn y)) \<and>
     (\<forall>rid c. um_find (ws_clientTable (wsv y)) rid = Some c \<longrightarrow>
        wc_runtimeID (ws_clients (wsv y) c) = rid \<and> rid \<noteq> - 1 \<and> in_table y c)"

definition wt_exact :: "wt_sys \<Rightarrow> bool" where
  "wt_exact y \<longleftrightarrow>
     (\<forall>c\<in>madeC y. \<forall>d\<in>madeC y. kind (wcpc y c) \<noteq> 1 \<longrightarrow> kind (wcpc y d) \<noteq> 1 \<longrightarrow>
        wc_runtimeID (ws_clients (wsv y) c) = wc_runtimeID (ws_clients (wsv y) d) \<longrightarrow> c = d) \<and>
     (\<forall>c. in_table y c \<longrightarrow> um_find (ws_clientTable (wsv y)) (wc_runtimeID (ws_clients (wsv y) c)) = Some c)"

definition wt_drawn :: "wt_sys \<Rightarrow> bool" where
  "wt_drawn y \<longleftrightarrow> ws_incID (wsv y) = of_nat (length (wdrawn y)) \<and>
     (\<forall>i<length (wdrawn y). (ucast (drop_bit 16 (wdrawn y ! i)) :: i16) = ucast (of_nat i :: i32))"

definition wt_ok :: "wt_sys \<Rightarrow> bool" where
  "wt_ok y \<longleftrightarrow> wt_places y \<and> wt_entries y \<and> (distinct (wdrawn y) \<longrightarrow> wt_exact y) \<and> wt_drawn y"

lemmas wt_defs = wt_ok_def wt_places_def wt_entries_def wt_exact_def wt_drawn_def in_table_def

lemma wdrawn_distinct:
  assumes "wt_drawn y" and "length (wdrawn y) \<le> 65536"
  shows "distinct (wdrawn y)"
  unfolding distinct_conv_nth
proof (intro allI impI notI)
  fix i j assume ij: "i < length (wdrawn y)" "j < length (wdrawn y)" "i \<noteq> j" "wdrawn y ! i = wdrawn y ! j"
  have "(ucast (of_nat i :: i32) :: i16) = ucast (of_nat j :: i32)"
    using assms(1) ij unfolding wt_drawn_def by metis
  moreover have "unat (ucast (of_nat k :: i32) :: i16) = k" if "k < 65536" for k
    using that by (simp add: unat_of_nat unsigned_ucast_eq take_bit_eq_mod)
  ultimately have "i = j" using ij assms(2) by (metis order_less_le_trans)
  then show False using ij by simp
qed

text \<open>Steps that only change what the table does not depend on.\<close>

lemma wt_ok_calm:
  assumes "wt_ok y" and "calm False (wsv y) s'" and "\<And>d. kind (pcs d) = kind (wcpc y d)"
  shows "wt_ok (y\<lparr>wsv := s', wcpc := pcs\<rparr>)"
  using assms by (simp add: wt_defs calm_def)

lemma calm_pointers [calm_intros]:
  "calm p s (set_client c (\<lambda>x. x\<lparr>wc_primary := q\<rparr>) s)" "calm p s (set_client c (\<lambda>x. x\<lparr>wc_slave := q\<rparr>) s)"
  by (simp_all add: calm_def set_client_def)

lemma calm_send: "sendPB B here l cmd bs wr m s = Inr s' \<Longrightarrow> calm p s s'"
  using calmly_sendPB [of p s B here l cmd bs wr m] by (simp add: calmly_def)

lemma notify_turn_calm: "notify_turn B e c n s = Inr (n', s') \<Longrightarrow> calm p s s'"
  by (induction B e c n s rule: notify_turn.induct)
    (auto simp: results sendClose_def intro: calm_send split: option.splits if_splits)

lemma ws_client_turn_calm:
  assumes "ws_client_turn ndebug B e c pc s = Inr (pc', s')" and "pc \<notin> {WEnter, WAdd, WClose, WErase}"
  shows "calm False s s' \<and> kind pc' = kind pc"
  using assms
proof (induction ndebug B e c pc s rule: ws_client_turn.induct)
  case (4 ndebug B e c op body s0)
  let ?s = "set_client c (\<lambda>x. x\<lparr>wc_recvSerial := wc_recvSerial x + 1\<rparr>) s0"
  have "calm False s0 ?s" by (rule calm_recv)
  moreover have "calm False ?s s'" using 4 by (auto simp: Let_def intro: calm_intros split: if_splits)
  moreover have "kind pc' = 0" using 4 by (auto simp: Let_def split: if_splits)
  ultimately show ?case using calm_trans by simp
next
  case (15 ndebug B e c erase n s)
  then show ?case by (auto simp: results intro: notify_turn_calm split: if_splits)
qed (auto simp: results Let_def sendUpstream_def ws_mgr_defs um_index_live intro: calm_intros calm_send
    split: option.splits if_splits prod.splits)

lemma calm_send_client: "sendPBBinary B h c op data s = s' \<Longrightarrow> calm p s s'" "sendPBBinary_shared B h c op data s = s' \<Longrightarrow> calm p s s'"
  by (auto intro: calm_intros)

lemma ws_login_calm: "calm p s (snd (ws_login_find b sid s))" "calm p s (ws_login_add l b sid s)"
  by (auto simp: ws_login_find_def ws_login_add_def ws_mgr_defs um_index_live calm_def)

lemma ws_logic_turn_calm:
  assumes "ws_logic_turn ndebug B e l pc s = Inr (pc', s')"
  shows "calm False s s'"
  using assms
proof (induction ndebug B e l pc s rule: ws_logic_turn.induct)
  case (1 ndebug B e l op body s)
  then show ?case using ws_login_calm(1) [of False s]
    by (auto simp: ws_dispatch_def on_parsed_def results Let_def split: if_splits out.splits prod.splits option.splits)
      (metis snd_conv)+
next
  case (15 ndebug B e l c n k s)
  then show ?case by (auto simp: results intro: notify_turn_calm)
qed (auto simp: results Let_def ws_mgr_defs um_index_live WS_sendLogicServerLoginResult_def after_kick_def
    intro: calm_intros calm_send ws_login_calm split: option.splits if_splits prod.splits)

lemma wt_entry: "wt_ok y \<Longrightarrow> um_find (ws_clientTable (wsv y)) rid = Some c \<Longrightarrow>
   wc_runtimeID (ws_clients (wsv y) c) = rid \<and> rid \<noteq> - 1 \<and> in_table y c"
  by (simp add: wt_ok_def wt_entries_def)

lemma wt_place: "wt_ok y \<Longrightarrow> placed (kind (wcpc y c)) (c \<in> ws_openC y) (c \<in> set (ws_timers (wsv y)))"
  by (simp add: wt_ok_def wt_places_def)

lemma wt_made: "wt_ok y \<Longrightarrow> in_table y c \<or> kind (wcpc y c) \<noteq> 0 \<or> c \<in> ws_openC y \<Longrightarrow> c \<in> madeC y"
  unfolding wt_ok_def wt_places_def in_table_def by (elim conjE disjE) auto

text \<open>The steps that the table depends on.\<close>

lemma wt_ok_enter:
  assumes ok: "wt_ok y" and new: "c \<notin> madeC y"
  shows "wt_ok (y\<lparr>wsv := set_client c (\<lambda>_. WSClientSession lp) (wsv y), ws_openC := insert c (ws_openC y),
    madeC := insert c (madeC y), wcpc := (wcpc y)(c := WEnter)\<rparr>)"
proof -
  have out: "c \<notin> ws_openC y" "c \<notin> set (ws_timers (wsv y))" "kind (wcpc y c) = 0"
    using ok new by (auto simp: wt_ok_def wt_places_def)
  then have no: "um_find (ws_clientTable (wsv y)) rid \<noteq> Some c" for rid
    using wt_entry [OF ok, of rid c] out by (auto simp: in_table_def)
  show ?thesis
    using ok new out no by (auto simp: wt_defs placed_def set_client_def)
qed

lemma wt_ok_draw:
  assumes ok: "wt_ok y" and pc: "wcpc y c = WEnter" and now: "(ucast (env_now e) :: i32) \<noteq> - 1"
    and t: "ws_client_turn ndebug B e c WEnter (wsv y) = Inr (pc', s')"
  shows "wt_ok (y\<lparr>wsv := s', wcpc := (wcpc y)(c := pc'), wdrawn := wdrawn y @ ws_new_id c (wcpc y c) s'\<rparr>)"
proof -
  let ?rid = "client_runtime_id (ucast (env_id e)) (ucast (ws_incID (wsv y))) (ucast (env_now e))"
  have s': "pc' = WAssert" "s' = set_client c (\<lambda>x. x\<lparr>wc_runtimeID := ?rid\<rparr>) ((wsv y)\<lparr>ws_incID := ws_incID (wsv y) + 1\<rparr>)"
    using t by (auto simp: WS_MakeRuntimeID_def)
  have rid: "?rid \<noteq> - 1" using client_runtime_id_minus1 now by blast
  have kind: "kind (wcpc y c) = 1" using pc by simp
  let ?y = "y\<lparr>wsv := s', wcpc := (wcpc y)(c := pc'), wdrawn := wdrawn y @ ws_new_id c (wcpc y c) s'\<rparr>"
  have drawn: "wdrawn ?y = wdrawn y @ [?rid]" using s'(2) pc by (simp add: ws_new_id_def set_client_def)
  have made: "c \<in> madeC y" using ok kind by (force simp: wt_ok_def wt_places_def)
  have "wt_places ?y" using ok kind by (auto simp: wt_ok_def wt_places_def placed_def s' set_client_def)
  moreover have no: "um_find (ws_clientTable (wsv y)) r \<noteq> Some c" for r
    using wt_entry [OF ok, of r c] wt_place [OF ok, of c] kind by (auto simp: in_table_def placed_def)
  then have "wt_entries ?y" using ok kind rid drawn
    by (auto simp: wt_ok_def wt_entries_def in_table_def s' set_client_def)
  moreover have "wt_exact ?y" if "distinct (wdrawn ?y)"
  proof -
    have d: "distinct (wdrawn y)" "?rid \<notin> set (wdrawn y)" using that unfolding drawn by auto
    then have x: "wt_exact y" using ok by (simp add: wt_ok_def)
    have other: "wc_runtimeID (ws_clients (wsv y) d) \<noteq> ?rid" "?rid \<noteq> wc_runtimeID (ws_clients (wsv y) d)"
      if "d \<in> madeC y" "kind (wcpc y d) \<noteq> 1" for d
      using ok that d(2) by (auto simp: wt_ok_def wt_entries_def)
    have "c \<notin> set (ws_timers (wsv y))" using wt_place [OF ok, of c] kind by (simp add: placed_def)
    then show ?thesis using x other kind made
      by (auto simp: wt_exact_def in_table_def s' set_client_def)
  qed
  moreover have "wt_drawn ?y"
  proof -
    have "(ucast (drop_bit 16 ((wdrawn y @ [?rid]) ! i)) :: i16) = ucast (of_nat i :: i32)" if "i < Suc (length (wdrawn y))" for i
      using ok that by (cases "i = length (wdrawn y)") (simp_all add: wt_ok_def wt_drawn_def nth_append client_runtime_id_inc)
    then show ?thesis using ok unfolding wt_drawn_def drawn by (simp add: wt_ok_def wt_drawn_def s' set_client_def)
  qed
  ultimately show ?thesis by (simp add: wt_ok_def)
qed

lemma wt_exact_other:
  "wt_exact y \<Longrightarrow> c \<in> madeC y \<Longrightarrow> d \<in> madeC y \<Longrightarrow> kind (wcpc y c) \<noteq> 1 \<Longrightarrow> kind (wcpc y d) \<noteq> 1 \<Longrightarrow> c \<noteq> d \<Longrightarrow>
   wc_runtimeID (ws_clients (wsv y) c) \<noteq> wc_runtimeID (ws_clients (wsv y) d)"
  by (auto simp: wt_exact_def)

lemma wt_exact_in: "wt_exact y \<Longrightarrow> in_table y c \<Longrightarrow> um_find (ws_clientTable (wsv y)) (wc_runtimeID (ws_clients (wsv y) c)) = Some c"
  by (simp add: wt_exact_def)

lemma in_table_kind: "wt_ok y \<Longrightarrow> in_table y c \<Longrightarrow> c \<in> madeC y \<and> kind (wcpc y c) \<noteq> 1"
  using wt_place [of y c] wt_made [of y c] by (auto simp: in_table_def placed_def)

lemma wt_ok_add:
  assumes ok: "wt_ok y" and pc: "wcpc y c = WAdd"
  shows "wt_ok (y\<lparr>wsv := (wsv y)\<lparr>ws_clientTable := um_set (wc_runtimeID (ws_clients (wsv y) c)) c (ws_clientTable (wsv y))\<rparr>,
    wcpc := (wcpc y)(c := WIdle)\<rparr>)" (is "wt_ok ?y")
proof -
  have kind: "kind (wcpc y c) = 2" using pc by simp
  have made: "c \<in> madeC y" using wt_made [OF ok, of c] kind by simp
  have here: "c \<in> ws_openC y" "c \<notin> set (ws_timers (wsv y))" using wt_place [OF ok, of c] kind by (simp_all add: placed_def)
  have id: "wc_runtimeID (ws_clients (wsv y) c) \<noteq> - 1" "wc_runtimeID (ws_clients (wsv y) c) \<in> set (wdrawn y)"
    using ok made kind by (auto simp: wt_ok_def wt_entries_def)
  have in_t: "in_table ?y d \<longleftrightarrow> d = c \<or> in_table y d" for d using here by (auto simp: in_table_def)
  have "wt_places ?y" using ok here by (auto simp: wt_ok_def wt_places_def placed_def)
  moreover have "wt_entries ?y"
    using ok id wt_entry [OF ok] unfolding wt_entries_def in_t by (auto simp: wt_ok_def wt_entries_def)
  moreover have "wt_exact ?y" if x: "wt_exact y"
  proof -
    have "um_find (ws_clientTable (wsv ?y)) (wc_runtimeID (ws_clients (wsv y) d)) = Some d" if "in_table ?y d" for d
    proof (cases "d = c")
      case False
      then have d: "in_table y d" using that in_t by blast
      have "wc_runtimeID (ws_clients (wsv y) d) \<noteq> wc_runtimeID (ws_clients (wsv y) c)"
        by (rule wt_exact_other [OF x _ made]) (use in_table_kind [OF ok d] kind False in auto)
      then show ?thesis using wt_exact_in [OF x d] by simp
    qed simp
    then show ?thesis using x kind by (auto simp: wt_exact_def)
  qed
  moreover have "wt_drawn ?y" using ok by (simp add: wt_ok_def wt_drawn_def)
  ultimately show ?thesis using ok by (simp add: wt_ok_def)
qed

lemma wt_ok_erase:
  assumes ok: "wt_ok y" and pc: "wcpc y c = WErase"
  shows "wt_ok (y\<lparr>wsv := (wsv y)\<lparr>ws_clientTable := um_erase (wc_runtimeID (ws_clients (wsv y) c)) (ws_clientTable (wsv y))\<rparr>,
    wcpc := (wcpc y)(c := WIdle)\<rparr>)" (is "wt_ok ?y")
proof -
  have kind: "kind (wcpc y c) = 5" using pc by simp
  have made: "c \<in> madeC y" using wt_made [OF ok, of c] kind by simp
  have here: "c \<notin> ws_openC y" "c \<notin> set (ws_timers (wsv y))" using wt_place [OF ok, of c] kind by (simp_all add: placed_def)
  have in_t: "in_table ?y d \<longleftrightarrow> d \<noteq> c \<and> in_table y d" for d using here by (auto simp: in_table_def)
  have "wt_places ?y" using ok here by (auto simp: wt_ok_def wt_places_def placed_def)
  moreover have "wt_entries ?y"
    using ok kind wt_entry [OF ok] unfolding wt_entries_def in_t by (auto simp: wt_ok_def wt_entries_def)
  moreover have "wt_exact ?y" if x: "wt_exact y"
  proof -
    have "um_find (ws_clientTable (wsv ?y)) (wc_runtimeID (ws_clients (wsv y) d)) = Some d" if "in_table ?y d" for d
    proof -
      have d: "in_table y d" "d \<noteq> c" using that in_t by blast+
      have "wc_runtimeID (ws_clients (wsv y) d) \<noteq> wc_runtimeID (ws_clients (wsv y) c)"
        by (rule wt_exact_other [OF x _ made]) (use in_table_kind [OF ok d(1)] kind d(2) in auto)
      then show ?thesis using wt_exact_in [OF x d(1)] by simp
    qed
    then show ?thesis using x kind by (auto simp: wt_exact_def)
  qed
  moreover have "wt_drawn ?y" using ok by (simp add: wt_ok_def wt_drawn_def)
  ultimately show ?thesis using ok by (simp add: wt_ok_def)
qed

text \<open>The rest move a session from one place to the next.\<close>

lemma wt_ok_move:
  assumes ok: "wt_ok y" and made: "c \<in> madeC y" and kinds: "kind (wcpc y c) \<notin> {1, 2}" "kind pc \<notin> {1, 2}"
    and place: "placed (kind pc) (c \<in> op) (c \<in> set ti)" and ti: "distinct ti"
    and others: "\<And>d. d \<noteq> c \<Longrightarrow> (d \<in> op \<longleftrightarrow> d \<in> ws_openC y) \<and> (d \<in> set ti \<longleftrightarrow> d \<in> set (ws_timers (wsv y)))"
    and table: "c \<in> op \<or> c \<in> set ti \<or> kind pc = 5 \<longleftrightarrow> in_table y c"
  shows "wt_ok (y\<lparr>wsv := (wsv y)\<lparr>ws_timers := ti, ws_tasks := ta\<rparr>, ws_openC := op, wcpc := (wcpc y)(c := pc)\<rparr>)" (is "wt_ok ?y")
proof -
  have in_t: "in_table ?y d = in_table y d" for d
    using others [of d] table kinds by (cases "d = c") (auto simp: in_table_def)
  have "ws_openC y \<subseteq> madeC y" "set (ws_timers (wsv y)) \<subseteq> madeC y" using ok by (simp_all add: wt_ok_def wt_places_def)
  then have "op \<subseteq> madeC y" "set ti \<subseteq> madeC y" using others made by (metis subset_eq)+
  then have "wt_places ?y" using ok place ti made others by (auto simp: wt_ok_def wt_places_def)
  moreover have "wt_entries ?y" using ok kinds made unfolding wt_entries_def in_t by (auto simp: wt_ok_def wt_entries_def)
  moreover have "wt_exact ?y" if "wt_exact y" using that kinds made unfolding wt_exact_def in_t by auto
  moreover have "wt_drawn ?y" using ok by (simp add: wt_ok_def wt_drawn_def)
  ultimately show ?thesis using ok by (simp add: wt_ok_def)
qed

lemma loop_free_idle: "loop_free (wc_loop (ws_clients (wsv y) c)) y \<Longrightarrow> wcpc y c = WIdle"
  by (simp add: loop_free_def)

lemma wt_distinct: "wt_ok y \<Longrightarrow> distinct (ws_timers (wsv y))"
  by (simp add: wt_ok_def wt_places_def)

lemma in_timers_made: "wt_ok y \<Longrightarrow> c \<in> set (ws_timers (wsv y)) \<Longrightarrow> c \<in> madeC y"
  by (auto simp: wt_ok_def wt_places_def)

lemma wt_ok_step: "wt_step ndebug B y z \<Longrightarrow> wt_ok y \<Longrightarrow> wt_ok z"
proof (induction rule: wt_step.induct)
  case (enterC c y lp)
  then show ?case by (intro wt_ok_enter)
next
  case (recvC c y op body)
  then show ?case using wt_ok_calm [of y "wsv y" "(wcpc y)(c := WPacket op body)"] loop_free_idle [of y c] by simp
next
  case (shutC c y)
  then have "kind (wcpc y c) = 0" using loop_free_idle [of y c] by simp
  then have "wt_ok (y\<lparr>wsv := (wsv y)\<lparr>ws_timers := ws_timers (wsv y), ws_tasks := ws_tasks (wsv y)\<rparr>,
      ws_openC := ws_openC y, wcpc := (wcpc y)(c := WClose)\<rparr>)"
    by (intro wt_ok_move [OF shutC.prems])
      (use shutC wt_place [of y c] wt_made [of y c] wt_distinct in \<open>simp_all add: placed_def in_table_def\<close>)
  then show ?case by simp
next
  case (goneC y c)
  then have "kind (wcpc y c) = 4" by simp
  then have "wt_ok (y\<lparr>wsv := (wsv y)\<lparr>ws_timers := ws_timers (wsv y), ws_tasks := ws_tasks (wsv y)\<rparr>,
      ws_openC := ws_openC y - {c}, wcpc := (wcpc y)(c := WIdle)\<rparr>)"
    by (intro wt_ok_move [OF goneC.prems])
      (use goneC wt_place [of y c] wt_made [of y c] wt_distinct in \<open>simp_all add: placed_def in_table_def\<close>)
  then show ?case by simp
next
  case (timer c y)
  then have "kind (wcpc y c) = 0" using loop_free_idle [of y c] by simp
  then have "wt_ok (y\<lparr>wsv := (wsv y)\<lparr>ws_timers := remove1 c (ws_timers (wsv y)), ws_tasks := ws_tasks (wsv y)\<rparr>,
      ws_openC := ws_openC y, wcpc := (wcpc y)(c := WNotify True NPrimary)\<rparr>)"
    by (intro wt_ok_move [OF timer.prems])
      (use timer wt_place [of y c] in_timers_made [of y c] wt_distinct [of y] in \<open>simp_all add: placed_def in_table_def\<close>)
  then show ?case by simp
next
  case (notice y pre lp c post)
  then show ?case
    using wt_ok_calm [of y "(wsv y)\<lparr>ws_tasks := pre @ post\<rparr>" "(wcpc y)(c := WNotify False NPrimary)"]
    by (simp add: calm_def)
next
  case (sends y pre lp t post e s')
  have "calm False (wsv y) ((wsv y)\<lparr>ws_tasks := pre @ post\<rparr>)" by (simp add: calm_def)
  moreover have "calm False ((wsv y)\<lparr>ws_tasks := pre @ post\<rparr>) s'"
    using calmly_task [of False "(wsv y)\<lparr>ws_tasks := pre @ post\<rparr>" B e t] sends by (simp add: calmly_def)
  ultimately show ?case using wt_ok_calm [OF sends.prems, of s' "wcpc y"] calm_trans by simp
next
  case (turnC e c y pc' s')
  consider "wcpc y c = WEnter" | "wcpc y c = WAdd" | "wcpc y c = WClose" | "wcpc y c = WErase"
    | "wcpc y c \<notin> {WEnter, WAdd, WClose, WErase}" by blast
  then show ?case
  proof cases
    case 1
    then show ?thesis using turnC by (intro wt_ok_draw) auto
  next
    case 2
    then show ?thesis using turnC wt_ok_add [of y c] by (simp add: ws_new_id_def)
  next
    case 3
    then have k: "kind (wcpc y c) = 3" by simp
    then have "wc_runtimeID (ws_clients (wsv y) c) \<noteq> - 1"
      using wt_made [OF turnC.prems, of c] turnC.prems by (auto simp: wt_ok_def wt_entries_def)
    then have "s' = (wsv y)\<lparr>ws_timers := ws_timers (wsv y) @ [c]\<rparr>" "pc' = WDone"
      using turnC 3 by (auto simp: WS_onClose_def)
    moreover have "wt_ok (y\<lparr>wsv := (wsv y)\<lparr>ws_timers := ws_timers (wsv y) @ [c], ws_tasks := ws_tasks (wsv y)\<rparr>,
        ws_openC := ws_openC y, wcpc := (wcpc y)(c := WDone)\<rparr>)"
      by (intro wt_ok_move [OF turnC.prems])
        (use k turnC.prems wt_place [of y c] wt_made [of y c] wt_distinct [of y] in \<open>simp_all add: placed_def in_table_def\<close>)
    ultimately show ?thesis using 3 by (simp add: ws_new_id_def)
  next
    case 4
    then show ?thesis using turnC wt_ok_erase [of y c] by (simp add: ws_new_id_def WS_EraseClientByRuntimeID_def)
  next
    case 5
    then show ?thesis
      using ws_client_turn_calm [OF turnC.hyps(2) 5] wt_ok_calm [OF turnC.prems, of s' "(wcpc y)(c := pc')"]
      by (simp add: ws_new_id_def)
  qed
next
  case (enterL l y lp)
  have "calm False (wsv y) (set_logic l (\<lambda>_. WSLogicSession lp) (wsv y))" by (simp add: calm_def set_logic_def)
  then have "wt_ok (y\<lparr>wsv := set_logic l (\<lambda>_. WSLogicSession lp) (wsv y), wcpc := wcpc y\<rparr>)"
    by (rule wt_ok_calm [OF enterL.prems]) simp
  then show ?case by (simp add: wt_defs)
next
  case (turnL e l y pc' s')
  from wt_ok_calm [OF turnL.prems ws_logic_turn_calm [OF turnL.hyps]]
  have "wt_ok (y\<lparr>wsv := s', wcpc := wcpc y\<rparr>)" by blast
  then show ?case by (simp add: wt_defs)
qed (simp_all add: wt_defs)

lemma wt_reach_ok: "wt_reach ndebug B x \<Longrightarrow> wt_ok x"
proof (induction rule: rtranclp_induct)
  case base
  show ?case by (simp add: wt_defs placed_def wt_init_def ws_init_def)
next
  case (step y z)
  then show ?case by (blast intro: wt_ok_step)
qed

text \<open>
  C11: However the event loops of the web server interleave, what is found in the client table under an id is a session that
  carries it and is open, or closed with its two minutes running or its servers being told. As long as at most
  65536 ids have been drawn, every such session is found, except one that is still entering, so that no client that
  has entered is ever out of reach of the logic servers.
\<close>

theorem ws_threads_table:
  assumes "wt_reach ndebug B x"
  shows "(\<forall>rid c. um_find (ws_clientTable (wsv x)) rid = Some c \<longrightarrow>
      wc_runtimeID (ws_clients (wsv x) c) = rid \<and> rid \<noteq> - 1 \<and> in_table x c) \<and>
    (length (wdrawn x) \<le> 65536 \<longrightarrow> (\<forall>rid c. um_find (ws_clientTable (wsv x)) rid = Some c \<longleftrightarrow>
      wc_runtimeID (ws_clients (wsv x) c) = rid \<and> in_table x c))"
proof -
  have ok: "wt_ok x" by (rule wt_reach_ok [OF assms])
  have "um_find (ws_clientTable (wsv x)) rid = Some c"
    if "length (wdrawn x) \<le> 65536" "wc_runtimeID (ws_clients (wsv x) c) = rid" "in_table x c" for rid c
  proof -
    have "distinct (wdrawn x)" by (rule wdrawn_distinct [OF _ that(1)]) (use ok in \<open>simp add: wt_ok_def\<close>)
    then show ?thesis using ok wt_exact_in [of x c] that by (simp add: wt_ok_def)
  qed
  with wt_entry [OF ok] show ?thesis by blast
qed

section \<open>Claiming a primary while it leaves\<close>

text \<open>A server that leaves closes the clients assigned to it, nobody else.\<close>

definition talks :: "caddr \<Rightarrow> ws_server \<Rightarrow> ws_server \<Rightarrow> bool" where
  "talks c s s' \<longleftrightarrow> (\<exists>w. ws_wire s' = ws_wire s @ w \<and> PostClose c \<notin> set w)"

lemma talks_refl [simp]: "talks c s s"
  by (simp add: talks_def)

lemma talks_trans: "talks c s s' \<Longrightarrow> talks c s' s'' \<Longrightarrow> talks c s s''"
  unfolding talks_def by force

lemma talks_send: "sendPB B here l cmd bs wr m s = Inr s' \<Longrightarrow> talks c s s'"
  by (auto simp: sendPB_def sendPBData_def sendPBData_shared_def helpSendPacketInLoop_def pushAsyncProc_def put_def set_logic_def
      talks_def results Let_def split: if_splits option.splits)

lemma talks_send_all: "sendPB_all B here vs cmd bs wr m s = Inr s' \<Longrightarrow> talks c s s'"
  by (induction B here vs cmd bs wr m s arbitrary: s' rule: sendPB_all.induct)
    (auto simp: results split: option.splits dest: talks_send intro: talks_trans)

lemma talks_notify:
  assumes "notifyServerPlayerExist B e d s = Inr s'"
  shows "talks c s s'"
proof -
  obtain s1 where "talks c s s1" "talks c s1 s'"
    using assms unfolding notifyServerPlayerExist_def Let_def rbind_Inr
    by (fastforce split: option.splits if_splits dest: talks_send talks_send_all)
  then show ?thesis by (rule talks_trans)
qed

lemma talks_kick:
  assumes "kicked B e here p s = Inr s'" and "p \<noteq> c"
  shows "talks c s s' \<and> ws_clientTable s' = ws_clientTable s"
proof -
  have put: "talks c s (put (PostClose p) s)" using assms(2) by (simp add: talks_def put_def)
  have "calmly False s (kicked B e here p s)"
    unfolding kicked_def Let_def
    by (rule calmly_from [OF calm_put [of False s "PostClose p"]]) (auto intro: calm_intros)
  moreover have "talks c s s'"
    using assms(1) put talks_notify [of B e p "put (PostClose p) s" s' c]
    by (auto simp: kicked_def Let_def pushAsyncProc_def talks_def split: if_splits)
  ultimately show ?thesis using assms(1) by (simp add: calmly_def calm_def)
qed

lemma ws_kick_scan_spares:
  assumes "ws_kick_scan B e here sid vs s = Inr s'" and "getPrimaryServerID c s \<noteq> sid"
    and "\<forall>v\<in>set vs. um_find (ws_clientTable s) (wc_runtimeID (ws_clients s (snd v))) = Some (snd v)"
  shows "talks c s s'"
  using assms
proof (induction B e here sid vs s arbitrary: s' rule: ws_kick_scan.induct)
  case (2 B e here sid v vs s)
  show ?case
  proof (cases "getPrimaryServerID (snd v) s = sid")
    case True
    then obtain s1 where k: "kicked B e here (snd v) s = Inr s1" and r: "ws_kick_scan B e here sid vs s1 = Inr s'"
      using "2.prems" by (auto simp: results KickClient_kicked WS_FindClientByRuntimeID_def)
    have t: "talks c s s1" "ws_clientTable s1 = ws_clientTable s"
      using talks_kick [OF k, of c] True "2.prems"(2) by auto
    have only: "only_sends s s1" by (rule kicked_only [OF k])
    then have "getPrimaryServerID c s1 = getPrimaryServerID c s"
      by (simp add: getPrimaryServerID_def only_sends_def split: option.split)
    moreover have "ws_clients s1 = ws_clients s" using only by (simp add: only_sends_def)
    ultimately have "talks c s1 s'" using "2.IH"(1) [OF True r] "2.prems" t(2) by auto
    with t(1) show ?thesis by (rule talks_trans)
  next
    case False
    then show ?thesis using 2 by simp
  qed
qed simp

lemma ws_logic_onClose_primary:
  assumes "WS_logic_onClose B e l s = Inr s1" and "wl_isPrimary (ws_logics s l)" and "wl_id (ws_logics s l) \<noteq> - 1"
    and "getPrimaryServerID c s \<noteq> wl_id (ws_logics s l)"
    and "\<forall>v\<in>set (env_clients e (ws_clientTable s)).
      um_find (ws_clientTable s) (wc_runtimeID (ws_clients s (snd v))) = Some (snd v)"
  shows "talks c s s1" and "ws_clients s1 = ws_clients s" and "um_find (ws_primaries s1) (wl_id (ws_logics s l)) = None"
proof -
  obtain s2 where k: "ws_kick_scan B e (wl_loop (ws_logics s l)) (wl_id (ws_logics s l)) (env_clients e (ws_clientTable s)) s = Inr s2"
    and s1: "s1 = set_logic l (\<lambda>x. x\<lparr>wl_isPrimary := False, wl_id := - 1\<rparr>)
      (s2\<lparr>ws_primaries := um_erase (wl_id (ws_logics s l)) (ws_primaries s2)\<rparr>)"
    using assms(1-3) by (auto simp: WS_logic_onClose_def WS_KickClientOfPrimary_def WS_RemovePrimaryLogicServer_def Let_def results)
  have "talks c s s2" by (rule ws_kick_scan_spares [OF k assms(4,5)])
  then show "talks c s s1" unfolding s1 by (simp add: talks_def set_logic_def)
  show "ws_clients s1 = ws_clients s" using ws_kick_scan_only [OF k] unfolding s1 by (simp add: only_sends_def set_logic_def)
  show "um_find (ws_primaries s1) (wl_id (ws_logics s l)) = None" unfolding s1 by (simp add: set_logic_def)
qed

lemma wt_table_itself:
  assumes "wt_ok x" and "v \<in> set (ws_clientTable (wsv x))"
  shows "um_find (ws_clientTable (wsv x)) (wc_runtimeID (ws_clients (wsv x) (snd v))) = Some (snd v)"
proof -
  have "um_ok (ws_clientTable (wsv x))" using assms(1) by (simp add: wt_ok_def wt_entries_def)
  then have f: "um_find (ws_clientTable (wsv x)) (fst v) = Some (snd v)"
    using assms(2) by (simp add: um_in_find flip: um_in_find)
  then show ?thesis using wt_entry [OF assms(1) f] by simp
qed

lemma ws_claim_uninterrupted:
  assumes "set (env_order e (ws_primaries s)) = set (ws_primaries s)" and "um_ok (ws_primaries s)"
    and "WS_claimPrimaryServer ndebug e c s = Inr s'"
  shows "ws_primaries s' = ws_primaries s \<and> (wc_primary (ws_clients s' c) = wc_primary (ws_clients s c) \<or>
    (\<exists>sid. (sid, wc_primary (ws_clients s' c)) \<in> set (ws_primaries s)))"
proof -
  let ?k = "WS_ClaimPrimaryLogicServer e (ws_primaries s)"
  have scan: "ws_claim_scan i r vs = - 1 \<or> ws_claim_scan i r vs \<in> fst ` set vs" for i r and vs :: servers
    by (induction i r vs rule: ws_claim_scan.induct) auto
  have "?k = - 1 \<or> ?k \<in> fst ` set (ws_primaries s)"
    using scan [of 0 "env_rand e mod length (ws_primaries s)" "env_order e (ws_primaries s)"] assms(1)
    by (simp add: WS_ClaimPrimaryLogicServer_def)
  moreover have ?thesis if "?k = - 1"
    using assms(3) that by (auto simp: WS_claimPrimaryServer_def results Let_def split: if_splits)
  moreover have ?thesis if "?k \<noteq> - 1" and k: "(?k, q) \<in> set (ws_primaries s)" for q
  proof -
    have "um_find (ws_primaries s) ?k = Some q" using um_in_find [OF assms(2)] k by metis
    then have "um_touch ?k (ws_primaries s) = ws_primaries s" "um_live (ws_primaries s) ?k = q"
      by (simp_all add: um_touch_def um_index_def um_live_def)
    then show ?thesis using assms(3) k
      by (auto simp: WS_claimPrimaryServer_def WS_FindPrimaryLogicServer_def um_index_live set_client_def results Let_def split: if_splits)
  qed
  ultimately show ?thesis by force
qed

text \<open>
  C12: A primary that leaves while a client of another loop is claiming it. (1) When the client has found the server but not yet
  stored it, the server closes without closing this client, and the client stays open and assigned to a server that is gone:
  it is never kicked, and its packets are queued for a closed connection. (2) When the client has only drawn its id, the lookup
  leaves a null entry in the table, and from then on the next client whose first packet is a reconnect
  (opcode 91) takes the process down. (3) Uninterrupted, a claim stores only what the table holds and adds nothing to it.
\<close>

theorem ws_claim_race:
  assumes reach: "wt_reach ndebug B x" and c: "c \<in> ws_openC x" "wcpc x c = WDraw up None None" "wc_primary (ws_clients (wsv x) c) = None"
    and draw: "WS_ClaimPrimaryLogicServer e (ws_primaries (wsv x)) = sid" "(ucast (env_now e) :: i32) \<noteq> - 1"
    and l: "l \<in> ws_openL x" "loop_free (wl_loop (ws_logics (wsv x) l)) x"
      "wl_isPrimary (ws_logics (wsv x) l)" "wl_id (ws_logics (wsv x) l) = sid" "sid \<noteq> - 1"
      "um_find (ws_primaries (wsv x)) sid = Some (Some l)"
    and close: "WS_logic_onClose B e' l (wsv x) = Inr s1" "set (env_clients e' (ws_clientTable (wsv x))) = set (ws_clientTable (wsv x))"
  shows "(\<exists>x' w. wt_steps ndebug B x x' \<and> c \<in> ws_openC x' \<and> wcpc x' c = WIdle \<and> l \<notin> ws_openL x' \<and>
      wc_primary (ws_clients (wsv x') c) = Some l \<and> um_find (ws_primaries (wsv x')) sid = None \<and>
      ws_wire (wsv x') = ws_wire (wsv x) @ w \<and> PostClose c \<notin> set w) \<and>
    (\<exists>x'. wt_steps ndebug B x x' \<and> wcpc x' c = WIdle \<and> l \<notin> ws_openL x' \<and>
      um_find (ws_primaries (wsv x')) sid = Some None \<and>
      (\<forall>e d body. set (env_order e (ws_primaries (wsv x'))) = set (ws_primaries (wsv x')) \<longrightarrow>
        wc_recvSerial (ws_clients (wsv x') d) = 0 \<longrightarrow> length body < 2 ^ 31 \<longrightarrow>
        WS_procPacket ndebug B e d 91 body (wsv x') = Inl NullDeref)) \<and>
    (\<forall>e s s'. set (env_order e (ws_primaries s)) = set (ws_primaries s) \<longrightarrow> um_ok (ws_primaries s) \<longrightarrow>
      WS_claimPrimaryServer ndebug e c s = Inr s' \<longrightarrow> ws_primaries s' = ws_primaries s \<and>
      (wc_primary (ws_clients s' c) = wc_primary (ws_clients s c) \<or>
       (\<exists>sid. (sid, wc_primary (ws_clients s' c)) \<in> set (ws_primaries s))))"
proof (intro conjI)
  let ?l = "wl_loop (ws_logics (wsv x) l)"
  note next_step = converse_rtranclp_into_rtranclp [of "wt_step ndebug B"]
  have ok: "wt_ok x" by (rule wt_reach_ok [OF reach])
  have idle: "wlpc x l = VIdle" using l(2) by (simp add: loop_free_def)
  have other: "wc_loop (ws_clients (wsv x) c) \<noteq> ?l" using c(2) l(2) by (auto simp: loop_free_def)
  have closed: "talks c (wsv x) s1" "ws_clients s1 = ws_clients (wsv x)" "um_find (ws_primaries s1) sid = None"
    using ws_logic_onClose_primary [OF close(1) l(3), of c] l(4,5) c(3) wt_table_itself [OF ok] close(2)
    by (simp_all add: getPrimaryServerID_def)
  have touch: "um_touch sid (ws_primaries (wsv x)) = ws_primaries (wsv x)" "um_live (ws_primaries (wsv x)) sid = Some l"
    using l(6) by (simp_all add: um_touch_def um_index_def um_live_def)
  let ?x1 = "x\<lparr>wsv := wsv x, wcpc := (wcpc x)(c := WFind up None None sid), wdrawn := wdrawn x @ ws_new_id c (wcpc x c) (wsv x)\<rparr>"
  have 1: "wt_step ndebug B x ?x1" by (rule turnC [OF draw(2)]) (use c(2) draw(1) l(5) in simp)
  have leave: "wt_steps ndebug B z (z\<lparr>wsv := s1, ws_openL := ws_openL z - {l}, wlpc := (wlpc z)(l := VIdle)\<rparr>)"
    if z: "wsv z = wsv x" "ws_openL z = ws_openL x" "wlpc z = wlpc x" "\<And>d. d \<noteq> c \<Longrightarrow> wcpc z d = wcpc x d" for z
  proof -
    let ?z1 = "z\<lparr>wlpc := (wlpc z)(l := VClose)\<rparr>"
    let ?z2 = "?z1\<lparr>wsv := s1, wlpc := (wlpc ?z1)(l := VDone)\<rparr>"
    have "loop_free ?l z"
      unfolding loop_free_def z(1,3)
    proof (intro conjI allI impI)
      fix d assume "wc_loop (ws_clients (wsv x) d) = ?l"
      then show "wcpc z d = WIdle" using other l(2) z(4) [of d] by (auto simp: loop_free_def)
    qed (use l(2) in \<open>simp add: loop_free_def\<close>)
    then have a: "wt_step ndebug B z ?z1" by (intro shutL) (use z l(1) in simp_all)
    have b: "wt_steps ndebug B ?z1 ?z2"
      using ws_logic_uninterrupted [of ndebug B e' l VClose "wsv x" s1 ?z1] z(1) close(1) by (simp add: ws_logic_finish_close)
    have "wt_step ndebug B ?z2 (?z2\<lparr>ws_openL := ws_openL ?z2 - {l}, wlpc := (wlpc ?z2)(l := VIdle)\<rparr>)"
      by (rule goneL) simp
    with rtranclp.rtrancl_into_rtrancl [OF next_step [OF a b]]
    show ?thesis by simp
  qed
  show "\<exists>x' w. wt_steps ndebug B x x' \<and> c \<in> ws_openC x' \<and> wcpc x' c = WIdle \<and> l \<notin> ws_openL x' \<and>
      wc_primary (ws_clients (wsv x') c) = Some l \<and> um_find (ws_primaries (wsv x')) sid = None \<and>
      ws_wire (wsv x') = ws_wire (wsv x) @ w \<and> PostClose c \<notin> set w"
  proof -
    let ?x2 = "?x1\<lparr>wsv := wsv x, wcpc := (wcpc ?x1)(c := WStore up None None (Some l)),
      wdrawn := wdrawn ?x1 @ ws_new_id c (wcpc ?x1 c) (wsv x)\<rparr>"
    have 2: "wt_step ndebug B ?x1 ?x2"
      by (rule turnC [OF draw(2)]) (simp add: WS_FindPrimaryLogicServer_def um_index_live touch)
    let ?x3 = "?x2\<lparr>wsv := s1, ws_openL := ws_openL ?x2 - {l}, wlpc := (wlpc ?x2)(l := VIdle)\<rparr>"
    have 3: "wt_steps ndebug B ?x2 ?x3" by (rule leave) simp_all
    let ?s = "set_client c (\<lambda>x. x\<lparr>wc_primary := Some l\<rparr>) s1"
    have "ws_client_finish ndebug B e c (WStore up None None (Some l)) s1 = Inr ?s"
      by (simp add: ws_client_finish_turn [of "WStore up p sl q" for up p sl q] ws_client_finish_forward forwarded_def)
    then obtain ids where 4: "wt_steps ndebug B ?x3 (?x3\<lparr>wsv := ?s, wcpc := (wcpc ?x3)(c := WIdle), wdrawn := ids\<rparr>)"
      using ws_client_uninterrupted [of ndebug B e c "WStore up None None (Some l)" s1 ?s ?x3] draw(2) by auto
    obtain w where w: "ws_wire s1 = ws_wire (wsv x) @ w" "PostClose c \<notin> set w" using closed(1) by (auto simp: talks_def)
    show ?thesis
      using next_step [OF 1 next_step [OF 2 rtranclp_trans [OF 3 4]]] c(1) closed(2,3) w
      by (intro exI [of _ "?x3\<lparr>wsv := ?s, wcpc := (wcpc ?x3)(c := WIdle), wdrawn := ids\<rparr>"] exI [of _ w])
        (simp add: set_client_def)
  qed
  show "\<exists>x'. wt_steps ndebug B x x' \<and> wcpc x' c = WIdle \<and> l \<notin> ws_openL x' \<and>
      um_find (ws_primaries (wsv x')) sid = Some None \<and>
      (\<forall>e d body. set (env_order e (ws_primaries (wsv x'))) = set (ws_primaries (wsv x')) \<longrightarrow>
        wc_recvSerial (ws_clients (wsv x') d) = 0 \<longrightarrow> length body < 2 ^ 31 \<longrightarrow>
        WS_procPacket ndebug B e d 91 body (wsv x') = Inl NullDeref)"
  proof -
    let ?x2 = "?x1\<lparr>wsv := s1, ws_openL := ws_openL ?x1 - {l}, wlpc := (wlpc ?x1)(l := VIdle)\<rparr>"
    have 2: "wt_steps ndebug B ?x1 ?x2" by (rule leave) simp_all
    let ?s = "set_client c (\<lambda>x. x\<lparr>wc_primary := None\<rparr>) (s1\<lparr>ws_primaries := um_touch sid (ws_primaries s1)\<rparr>)"
    have "ws_client_finish ndebug B e c (WFind up None None sid) s1 = Inr ?s"
      using closed(3) by (simp add: ws_client_finish_turn [of "WFind up p sl k" for up p sl k]
          ws_client_finish_turn [of "WStore up p sl q" for up p sl q] ws_client_finish_forward forwarded_def
          WS_FindPrimaryLogicServer_def um_index_live um_live_def)
    then obtain ids where 3: "wt_steps ndebug B ?x2 (?x2\<lparr>wsv := ?s, wcpc := (wcpc ?x2)(c := WIdle), wdrawn := ids\<rparr>)"
      using ws_client_uninterrupted [of ndebug B e c "WFind up None None sid" s1 ?s ?x2] draw(2) by auto
    have null: "um_find (ws_primaries ?s) sid = Some None" using closed(3) by (simp add: set_client_def um_live_def)
    have crash: "\<forall>e d body. set (env_order e (ws_primaries ?s)) = set (ws_primaries ?s) \<longrightarrow>
        wc_recvSerial (ws_clients ?s d) = 0 \<longrightarrow> length body < 2 ^ 31 \<longrightarrow>
        WS_procPacket ndebug B e d 91 body ?s = Inl NullDeref"
      using reconnect_null [OF _ null] by blast
    show ?thesis
      using next_step [OF 1 rtranclp_trans [OF 2 3]] null crash
      by (intro exI [of _ "?x2\<lparr>wsv := ?s, wcpc := (wcpc ?x2)(c := WIdle), wdrawn := ids\<rparr>"]) simp
  qed
qed (use ws_claim_uninterrupted in blast)

section \<open>A run\<close>

text \<open>A client on loop 0 enters; its first packet is about to draw a primary when one logs in on loop 1.\<close>

definition wt_demo_entered :: wt_sys where
  "wt_demo_entered = wt_init\<lparr>wsv := ws_demo_entered, ws_openC := {3}, madeC := {3}\<rparr>"

lemma wt_demo_enter: "\<exists>ids. wt_reach False std_base (wt_demo_entered\<lparr>wdrawn := ids\<rparr>)"
proof -
  let ?s = "set_client 3 (\<lambda>_. WSClientSession 0) (wsv ws_init)"
  let ?y = "wt_init\<lparr>wsv := ?s, ws_openC := {3}, madeC := {3}, wcpc := (\<lambda>_. WIdle)(3 := WEnter)\<rparr>"
  have 1: "wt_step False std_base wt_init ?y"
    using wt_step.enterC [of 3 wt_init 0 False std_base] by (simp add: wt_init_def loop_free_def)
  have "WS_onEnter False ws_demo_env 3 ?s = Inr ws_demo_entered"
    by (simp add: WS_onEnter_def WS_MakeRuntimeID_def ws_init_def ws_demo_env_def set_client_def ws_demo_entered_def
        ws_mgr_defs client_runtime_id_def um_find_def um_set_def)
  then have "ws_client_finish False std_base ws_demo_env 3 WEnter ?s = Inr ws_demo_entered"
    by (simp add: ws_client_finish_enter)
  then obtain ids where 2: "wt_steps False std_base ?y (?y\<lparr>wsv := ws_demo_entered, wcpc := (wcpc ?y)(3 := WIdle), wdrawn := ids\<rparr>)"
    using ws_client_uninterrupted [of False std_base ws_demo_env 3 WEnter ?s ws_demo_entered ?y] by (auto simp: ws_demo_env_def)
  have "?y\<lparr>wsv := ws_demo_entered, wcpc := (wcpc ?y)(3 := WIdle), wdrawn := ids\<rparr> = wt_demo_entered\<lparr>wdrawn := ids\<rparr>"
    by (simp add: wt_demo_entered_def wt_init_def fun_upd_idem)
  with converse_rtranclp_into_rtranclp [of "wt_step False std_base", OF 1 2] show ?thesis by auto
qed

theorem ws_threads_table_witness:
  "\<exists>x. wt_reach False std_base x \<and> in_table x 3 \<and> um_find (ws_clientTable (wsv x)) 1 = Some 3"
proof -
  obtain ids where r: "wt_reach False std_base (wt_demo_entered\<lparr>wdrawn := ids\<rparr>)" using wt_demo_enter by blast
  have f: "um_find (ws_clientTable (wsv (wt_demo_entered\<lparr>wdrawn := ids\<rparr>))) 1 = Some 3"
    by (simp add: wt_demo_entered_def ws_demo_entered_def um_find_def)
  with ws_threads_table [OF r] r show ?thesis by blast
qed

definition wt_demo_packet :: UpstreamACK where
  "wt_demo_packet = \<lparr>up_msgid = 24, up_data = [], up_clientid = 1\<rparr>"

lemma wt_turn_plain:
  assumes "ws_client_turn ndebug B ws_demo_env c (wcpc y c) (wsv y) = Inr (pc', s')" and "wcpc y c \<noteq> WEnter"
  shows "wt_step ndebug B y (y\<lparr>wsv := s', wcpc := (wcpc y)(c := pc')\<rparr>)"
  using wt_step.turnC [OF _ assms(1)] assms(2) by (simp add: ws_new_id_def ws_demo_env_def)

definition wt_demo_drawing :: wt_sys where
  "wt_demo_drawing = wt_demo_entered\<lparr>wsv := set_client 3 (\<lambda>x. x\<lparr>wc_recvSerial := 1\<rparr>) ws_demo_entered,
     wcpc := (\<lambda>_. WIdle)(3 := WDraw wt_demo_packet None None)\<rparr>"

lemma wt_demo_draw: "\<exists>ids. wt_reach False std_base (wt_demo_drawing\<lparr>wdrawn := ids\<rparr>)"
proof -
  obtain ids where r: "wt_reach False std_base (wt_demo_entered\<lparr>wdrawn := ids\<rparr>)" using wt_demo_enter by blast
  let ?s = "set_client 3 (\<lambda>x. x\<lparr>wc_recvSerial := 1\<rparr>) ws_demo_entered"
  let ?at = "\<lambda>pc. wt_demo_entered\<lparr>wsv := ?s, wcpc := (\<lambda>_. WIdle)(3 := pc), wdrawn := ids\<rparr>"
  let ?y = "wt_demo_entered\<lparr>wcpc := (\<lambda>_. WIdle)(3 := WPacket 24 []), wdrawn := ids\<rparr>"
  note eval = wt_demo_entered_def ws_demo_entered_def WSClientSession_def set_client_def wt_demo_packet_def wt_init_def
  note next_step = rtranclp.rtrancl_into_rtrancl [of "wt_step False std_base"]
  have 1: "wt_step False std_base (wt_demo_entered\<lparr>wdrawn := ids\<rparr>) ?y"
    using wt_step.recvC [of 3 "wt_demo_entered\<lparr>wdrawn := ids\<rparr>" False std_base 24 "[]"]
    by (simp add: eval loop_free_def)
  have 2: "wt_step False std_base ?y (?at (WLoadSlave wt_demo_packet None))"
    using wt_turn_plain [of False std_base 3 ?y "WLoadSlave wt_demo_packet None" ?s] by (simp add: eval)
  have 3: "wt_step False std_base (?at (WLoadSlave wt_demo_packet None)) (?at (WTest wt_demo_packet None None))"
    using wt_turn_plain [of False std_base 3 "?at (WLoadSlave wt_demo_packet None)" "WTest wt_demo_packet None None" ?s]
    by (simp add: eval)
  have 4: "wt_step False std_base (?at (WTest wt_demo_packet None None)) (?at (WClaim wt_demo_packet None None))"
    using wt_turn_plain [of False std_base 3 "?at (WTest wt_demo_packet None None)" "WClaim wt_demo_packet None None" ?s]
    by (simp add: eval)
  have 5: "wt_step False std_base (?at (WClaim wt_demo_packet None None)) (?at (WDraw wt_demo_packet None None))"
    using wt_turn_plain [of False std_base 3 "?at (WClaim wt_demo_packet None None)" "WDraw wt_demo_packet None None" ?s]
    by (simp add: eval)
  have "wt_reach False std_base (?at (WDraw wt_demo_packet None None))"
    by (rule next_step [OF next_step [OF next_step [OF next_step [OF next_step [OF r 1] 2] 3] 4] 5])
  then show ?thesis by (intro exI [of _ ids]) (simp add: wt_demo_drawing_def)
qed

text \<open>A server that logs in.\<close>

lemma ws_demo_login:
  assumes "um_find (ws_primaries s) 4 = None" and "ws_primaries s = []"
  shows "\<exists>s'. WS_logic_procPacket False std_base e l LOGICSERVER_LOGIN
      (LogicServerLogin_Write \<lparr>login_id = 4, login_isprimary = True\<rparr>) s = Inr s' \<and>
    ws_clients s' = ws_clients s \<and> ws_clientTable s' = ws_clientTable s \<and> ws_primaries s' = [(4, Some l)] \<and>
    wl_loop (ws_logics s' l) = wl_loop (ws_logics s l) \<and> wl_isPrimary (ws_logics s' l) \<and> wl_id (ws_logics s' l) = 4"
proof -
  let ?m = "\<lparr>login_id = 4, login_isprimary = True\<rparr>"
  let ?s = "set_logic l (\<lambda>x. x\<lparr>wl_isPrimary := True, wl_id := 4\<rparr>) (s\<lparr>ws_primaries := [(4, Some l)]\<rparr>)"
  have parse: "ParseFromArray LogicServerLogin_Clear LogicServerLogin_MergePartial (LogicServerLogin_Write ?m)
      \<lparr>login_id = 0, login_isprimary = False\<rparr> = Val ?m"
    using login.parse_write [of ?m] by auto
  have run: "WS_logic_procPacket False std_base e l LOGICSERVER_LOGIN (LogicServerLogin_Write ?m) s =
      WS_sendLogicServerLoginResult std_base e l True ?s"
    using assms by (simp add: WS_logic_procPacket_def WS_onLogicServerLogin_def if_parsed_def message_of_body [OF stdb.base_io_axioms]
        parse WS_FindPrimaryLogicServer_def um_index_def um_touch_def WS_AddPrimaryLogicServer_def Let_def um_set_def um_find_def)
  obtain s' where s': "WS_sendLogicServerLoginResult std_base e l True ?s = Inr s'"
    using sendPB_total reply.size_write unfolding WS_sendLogicServerLoginResult_def by metis
  have "only_sends ?s s'" using s' unfolding WS_sendLogicServerLoginResult_def by (rule sendPB_only)
  moreover have "calm False ?s s'" using s' unfolding WS_sendLogicServerLoginResult_def by (rule calm_send)
  moreover have "ws_primaries s' = ws_primaries ?s"
    using s' by (auto simp: WS_sendLogicServerLoginResult_def sendPB_def sendPBData_def sendPBData_shared_def
        helpSendPacketInLoop_def pushAsyncProc_def put_def set_logic_def results Let_def split: if_splits option.splits)
  ultimately show ?thesis using run s' by (auto simp: only_sends_def calm_def set_logic_def)
qed

text \<open>It leaves while the client has drawn its id.\<close>

definition wt_demo_race :: "ws_server \<Rightarrow> i64 list \<Rightarrow> wt_sys" where
  "wt_demo_race s ids = wt_demo_drawing\<lparr>wsv := s, ws_openL := {1}, madeL := {1}, wdrawn := ids\<rparr>"

lemma wt_demo_race_reached:
  "\<exists>s ids. wt_reach False std_base (wt_demo_race s ids) \<and> ws_clients s = ws_clients (wsv wt_demo_drawing) \<and>
    ws_clientTable s = [(1, 3)] \<and> ws_primaries s = [(4, Some 1)] \<and> wl_loop (ws_logics s 1) = 1 \<and>
    wl_isPrimary (ws_logics s 1) \<and> wl_id (ws_logics s 1) = 4"
proof -
  obtain ids where r: "wt_reach False std_base (wt_demo_drawing\<lparr>wdrawn := ids\<rparr>)" using wt_demo_draw by blast
  note next_step = rtranclp.rtrancl_into_rtrancl [of "wt_step False std_base"]
  let ?s = "set_logic 1 (\<lambda>_. WSLogicSession 1) (wsv wt_demo_drawing)"
  let ?body = "LogicServerLogin_Write \<lparr>login_id = 4, login_isprimary = True\<rparr>"
  note eval = wt_demo_drawing_def wt_demo_entered_def ws_demo_entered_def WSClientSession_def set_client_def wt_init_def ws_init_def
    set_logic_def WSLogicSession_def
  have 1: "wt_step False std_base (wt_demo_drawing\<lparr>wdrawn := ids\<rparr>) (wt_demo_race ?s ids)"
    using wt_step.enterL [of 1 "wt_demo_drawing\<lparr>wdrawn := ids\<rparr>" 1 False std_base]
    by (simp add: wt_demo_race_def eval loop_free_def)
  let ?y = "wt_demo_race ?s ids\<lparr>wlpc := (\<lambda>_. VIdle)(1 := VPacket LOGICSERVER_LOGIN ?body)\<rparr>"
  have 2: "wt_step False std_base (wt_demo_race ?s ids) ?y"
    using wt_step.recvL [of 1 "wt_demo_race ?s ids" False std_base LOGICSERVER_LOGIN ?body]
    by (simp add: wt_demo_race_def eval loop_free_def)
  have free: "um_find (ws_primaries ?s) 4 = None" "ws_primaries ?s = []" by (simp_all add: eval um_find_def)
  obtain s where s: "WS_logic_procPacket False std_base ws_demo_env 1 LOGICSERVER_LOGIN ?body ?s = Inr s"
    "ws_clients s = ws_clients ?s" "ws_clientTable s = ws_clientTable ?s" "ws_primaries s = [(4, Some 1)]"
    "wl_loop (ws_logics s 1) = wl_loop (ws_logics ?s 1)" "wl_isPrimary (ws_logics s 1)" "wl_id (ws_logics s 1) = 4"
    using ws_demo_login [OF free] by blast
  have "wt_steps False std_base ?y (?y\<lparr>wsv := s, wlpc := (wlpc ?y)(1 := VIdle)\<rparr>)"
    using ws_logic_uninterrupted [of False std_base ws_demo_env 1 "VPacket LOGICSERVER_LOGIN ?body" ?s s ?y] s(1)
    by (simp add: ws_logic_finish_packet wt_demo_race_def)
  moreover have "?y\<lparr>wsv := s, wlpc := (wlpc ?y)(1 := VIdle)\<rparr> = wt_demo_race s ids"
    by (simp add: wt_demo_race_def eval fun_upd_idem)
  ultimately have "wt_reach False std_base (wt_demo_race s ids)"
    using rtranclp_trans [OF next_step [OF next_step [OF r 1] 2]] by simp
  then show ?thesis using s(2-) by (intro exI [of _ s] exI [of _ ids]) (simp add: eval)
qed

theorem ws_claim_race_witness:
  "\<exists>x. wt_reach False std_base x \<and> 3 \<in> ws_openC x \<and> wcpc x 3 = WIdle \<and> wc_primary (ws_clients (wsv x) 3) = Some 1 \<and>
    1 \<notin> ws_openL x \<and> um_find (ws_primaries (wsv x)) 4 = None"
proof -
  obtain s ids where r: "wt_reach False std_base (wt_demo_race s ids)"
    and s: "ws_clients s = ws_clients (wsv wt_demo_drawing)" "ws_clientTable s = [(1, 3)]" "ws_primaries s = [(4, Some 1)]"
      "wl_loop (ws_logics s 1) = 1" "wl_isPrimary (ws_logics s 1)" "wl_id (ws_logics s 1) = 4"
    using wt_demo_race_reached by blast
  let ?x = "wt_demo_race s ids"
  let ?s1 = "set_logic 1 (\<lambda>x. x\<lparr>wl_isPrimary := False, wl_id := - 1\<rparr>) (s\<lparr>ws_primaries := []\<rparr>)"
  note eval = wt_demo_race_def wt_demo_drawing_def wt_demo_entered_def ws_demo_entered_def WSClientSession_def set_client_def
    ws_demo_env_def ws_init_def wt_init_def
  have now: "(ucast (env_now ws_demo_env) :: i32) \<noteq> - 1" by (simp add: ws_demo_env_def)
  have pc: "3 \<in> ws_openC ?x" "wcpc ?x 3 = WDraw wt_demo_packet None None" "1 \<in> ws_openL ?x" by (simp_all add: eval)
  have wsv: "wsv ?x = s" by (simp add: wt_demo_race_def)
  have cl: "wc_primary (ws_clients s c) = None" "wc_loop (ws_clients s c) = 0" for c unfolding s(1) by (simp_all add: eval)
  have draw: "WS_ClaimPrimaryLogicServer ws_demo_env (ws_primaries s) = 4"
    by (simp add: WS_ClaimPrimaryLogicServer_def s ws_demo_env_def)
  have free: "loop_free (wl_loop (ws_logics s 1)) ?x"
    unfolding loop_free_def wsv using cl s(4) by (simp add: eval)
  have close: "WS_logic_onClose std_base ws_demo_env 1 s = Inr ?s1"
    using s cl by (simp add: WS_logic_onClose_def WS_KickClientOfPrimary_def WS_RemovePrimaryLogicServer_def
        getPrimaryServerID_def ws_demo_env_def um_erase_def Let_def)
  have "\<exists>x' w. wt_steps False std_base ?x x' \<and> 3 \<in> ws_openC x' \<and> wcpc x' 3 = WIdle \<and> 1 \<notin> ws_openL x' \<and>
      wc_primary (ws_clients (wsv x') 3) = Some 1 \<and> um_find (ws_primaries (wsv x')) 4 = None \<and>
      ws_wire (wsv x') = ws_wire (wsv ?x) @ w \<and> PostClose 3 \<notin> set w"
    by (rule ws_claim_race [where e = ws_demo_env and sid = 4 and e' = ws_demo_env and ?s1.0 = ?s1,
          OF r pc(1,2) _ _ now pc(3), THEN conjunct1])
      (use draw free close cl s in \<open>simp_all add: wsv um_find_def ws_demo_env_def\<close>)
  then show ?thesis using rtranclp_trans [OF r] by blast
qed

end
