(* ===== verification/WSWire.thy ===== *)
theory WSWire
  imports WSProps
begin

text \<open>
  The wire of the web-facing connection server: its eight messages, the varint decoder under them, and
  what its two framers make of a byte stream.
\<close>

section \<open>Messages\<close>

text \<open>
  C27: Every message of the protocol comes back from its own bytes, whatever the receiving message held
  before, and \<open>ByteSize\<close> announces exactly the bytes written (a downstream's id list comes back with the
  same elements; payloads below 2 GB, the messages with scalar fields always).
\<close>

theorem message_roundtrips:
  assumes "length (up_data u) < 2 ^ 31" and "down_fits d"
  shows "ParseFromArray UpstreamACK_Clear UpstreamACK_MergePartial (UpstreamACK_Write u) u0 = Val u \<and>
    UpstreamACK_ByteSize u = length (UpstreamACK_Write u) \<and>
    (\<exists>d'. ParseFromArray DownstreamACK_Clear DownstreamACK_MergePartial (DownstreamACK_Write d) d0 = Val d' \<and> down_same d' d) \<and>
    DownstreamACK_ByteSize d = length (DownstreamACK_Write d) \<and>
    ParseFromArray CloseClientACK_Clear CloseClientACK_MergePartial (CloseClientACK_Write a) a0 = Val a \<and>
    ParseFromArray LogicServerLogin_Clear LogicServerLogin_MergePartial (LogicServerLogin_Write b) b0 = Val b \<and>
    ParseFromArray LogicServerLoginReply_Clear LogicServerLoginReply_MergePartial (LogicServerLoginReply_Write g) g0 = Val g \<and>
    ParseFromArray LogicServerKickPlayer_Clear LogicServerKickPlayer_MergePartial (LogicServerKickPlayer_Write k) k0 = Val k \<and>
    ParseFromArray LogicServerSetRoleSlave_Clear LogicServerSetRoleSlave_MergePartial (LogicServerSetRoleSlave_Write h) h0 = Val h \<and>
    ParseFromArray LogicServerSetRolePrimary_Clear LogicServerSetRolePrimary_MergePartial (LogicServerSetRolePrimary_Write j) j0 = Val j"
proof (intro conjI)
  show "ParseFromArray UpstreamACK_Clear UpstreamACK_MergePartial (UpstreamACK_Write u) u0 = Val u"
    using up.parse_write [OF assms(1)] by auto
  show "UpstreamACK_ByteSize u = length (UpstreamACK_Write u)" using assms(1) by (rule up.size_write)
  show "\<exists>d'. ParseFromArray DownstreamACK_Clear DownstreamACK_MergePartial (DownstreamACK_Write d) d0 = Val d' \<and> down_same d' d"
    using assms(2) by (rule down.parse_write)
  show "DownstreamACK_ByteSize d = length (DownstreamACK_Write d)" using assms(2) by (rule down.size_write)
  show "ParseFromArray CloseClientACK_Clear CloseClientACK_MergePartial (CloseClientACK_Write a) a0 = Val a"
    using close.parse_write [of a] by auto
  show "ParseFromArray LogicServerLogin_Clear LogicServerLogin_MergePartial (LogicServerLogin_Write b) b0 = Val b"
    using login.parse_write [of b] by auto
  show "ParseFromArray LogicServerLoginReply_Clear LogicServerLoginReply_MergePartial (LogicServerLoginReply_Write g) g0 = Val g"
    using reply.parse_write [of g] by auto
  show "ParseFromArray LogicServerKickPlayer_Clear LogicServerKickPlayer_MergePartial (LogicServerKickPlayer_Write k) k0 = Val k"
    using kick.parse_write [of k] by auto
  show "ParseFromArray LogicServerSetRoleSlave_Clear LogicServerSetRoleSlave_MergePartial (LogicServerSetRoleSlave_Write h) h0 = Val h"
    using slave.parse_write [of h] by auto
  show "ParseFromArray LogicServerSetRolePrimary_Clear LogicServerSetRolePrimary_MergePartial (LogicServerSetRolePrimary_Write j) j0 = Val j"
    using prim.parse_write [of j] by auto
qed

theorem message_roundtrips_witness:
  "ParseFromArray UpstreamACK_Clear UpstreamACK_MergePartial
     (UpstreamACK_Write \<lparr>up_msgid = 24, up_data = [1, 2, 3], up_clientid = - 1\<rparr>) \<lparr>up_msgid = 5, up_data = [9], up_clientid = 2\<rparr> =
   Val \<lparr>up_msgid = 24, up_data = [1, 2, 3], up_clientid = - 1\<rparr>"
proof -
  have "down_fits \<lparr>down_msgid = 1, down_data = [], down_clientid = \<lparr>elems = [], total_size = 0\<rparr>\<rparr>"
    by (simp add: down_fits_def clientid_bytes_def)
  from message_roundtrips [OF _ this, of "\<lparr>up_msgid = 24, up_data = [1, 2, 3], up_clientid = - 1\<rparr>"]
  show ?thesis by simp
qed

text \<open>
  C28: Whatever bytes arrive, parsing any of the eight messages returns, with a message or with \<open>false\<close>:
  it never reads outside the array it was given.
\<close>

theorem parsing_stays_inside:
  "ParseFromArray UpstreamACK_Clear UpstreamACK_MergePartial data u \<noteq> Fault f \<and>
   ParseFromArray DownstreamACK_Clear DownstreamACK_MergePartial data d \<noteq> Fault f \<and>
   ParseFromArray CloseClientACK_Clear CloseClientACK_MergePartial data a \<noteq> Fault f \<and>
   ParseFromArray LogicServerLogin_Clear LogicServerLogin_MergePartial data b \<noteq> Fault f \<and>
   ParseFromArray LogicServerLoginReply_Clear LogicServerLoginReply_MergePartial data g \<noteq> Fault f \<and>
   ParseFromArray LogicServerKickPlayer_Clear LogicServerKickPlayer_MergePartial data k \<noteq> Fault f \<and>
   ParseFromArray LogicServerSetRoleSlave_Clear LogicServerSetRoleSlave_MergePartial data h \<noteq> Fault f \<and>
   ParseFromArray LogicServerSetRolePrimary_Clear LogicServerSetRolePrimary_MergePartial data j \<noteq> Fault f"
  using up_parser.merge_tame [OF UpstreamACK_merge] down_parser.merge_tame [OF DownstreamACK_merge]
    close_parser.merge_tame [OF CloseClientACK_merge] login_parser.merge_tame [OF LogicServerLogin_merge]
    reply_parser.merge_tame [OF LogicServerLoginReply_merge] kick_parser.merge_tame [OF LogicServerKickPlayer_merge]
    slave_parser.merge_tame [OF LogicServerSetRoleSlave_merge] prim_parser.merge_tame [OF LogicServerSetRolePrimary_merge]
  by (intro conjI ParseFromArray_no_fault) assumption+

text \<open>
  C29: The optimised varint readers agree with the definition of the format: on every input \<open>ReadVarint64\<close>
  and \<open>ReadVarint32\<close> (one-byte case, unrolled array version, byte-by-byte fallback) return the value of
  the base-128 loop over at most ten bytes, cut to their width, stand behind it, and fail exactly
  when the loop finds no terminator.
\<close>

theorem varint_readers_decode:
  "case vdec 10 (buf s) of
     Some (v, r) \<Rightarrow> ReadVarint64 s = (Val (of_nat v), s\<lparr>buf := r\<rparr>) \<and> ReadVarint32 s = (Val (of_nat v), s\<lparr>buf := r\<rparr>)
   | None \<Rightarrow> fst (ReadVarint64 s) = Failed \<and> fst (ReadVarint32 s) = Failed"
  using ReadVarint64_val [of s] ReadVarint32_val [of s] by (fastforce split: option.splits prod.splits)

section \<open>Logic servers: the Cellnet stream\<close>

text \<open>
  The packets of a logic server, numbered from the number the session expects, are handed to its
  handler one by one, in order, and every byte is consumed, however TCP cut the stream. A packet with any
  other number stops a build with assertions; one without does not look at the number.
\<close>

theorem ws_logic_stream:
  assumes "base_io B view" and "\<forall>p\<in>set ps. length (snd p) + 8 < 2 ^ 16"
    and "ndebug \<or> wl_recvSerial (ws_logics s l) = ser" and "concat cs = cellnet_stream ser ps"
  shows "feed (WS_logic_onMsg ndebug B e l) [] s cs =
      Some (rbind (deliver_cells ndebug (logic_ops ndebug B e l) ps s) (\<lambda>s'. Inr (s', []))) \<and>
    (\<forall>k cmd body. k \<noteq> wl_recvSerial (ws_logics s l) \<and> length body + 8 < 2 ^ 16 \<longrightarrow>
      WS_logic_onMsg False B e l (cellnet_bytes cmd k body) s = Some (Inl AssertFailed))"
proof (intro conjI allI impI)
  have cells: "numbered_cells B view (logic_ops ndebug B e l)"
    using assms(1) logic_cells.cell_session_axioms by (rule numbered_cells.intro)
  have "WS_logic_onMsg ndebug B e l = cellnet_onMsg ndebug B (logic_ops ndebug B e l)"
    by (rule ext)+ (simp add: WS_logic_onMsg_def)
  then show "feed (WS_logic_onMsg ndebug B e l) [] s cs =
      Some (rbind (deliver_cells ndebug (logic_ops ndebug B e l) ps s) (\<lambda>s'. Inr (s', [])))"
    using numbered_cells.cellnet_feed_stream [OF cells assms(2) _ assms(4), of ndebug s] assms(3) by simp
next
  fix k :: i16 and cmd :: i32 and body :: bytes
  assume k: "k \<noteq> wl_recvSerial (ws_logics s l) \<and> length body + 8 < 2 ^ 16"
  have "cellnet_step False B (logic_ops False B e l) (cellnet_bytes cmd k body) s = Some (8 + length body, Inl AssertFailed)"
    using base_io.cellnet_step_packet [OF assms(1), of body False "logic_ops False B e l" cmd k "[]" s] k by auto
  then show "WS_logic_onMsg False B e l (cellnet_bytes cmd k body) s = Some (Inl AssertFailed)"
    using base_io.cellnet_onMsg_fault [OF assms(1)] by (simp add: WS_logic_onMsg_def)
qed

theorem ws_logic_stream_witness:
  "feed (WS_logic_onMsg False std_base ws_demo_env 1) [] (ws_demo None)
      [[216, 44, 216, 174], [1, 0, 10, 0, 8], [7]] =
    Some (rbind (deliver_cells False (logic_ops False std_base ws_demo_env 1) [(2933402840, [8, 7])] (ws_demo None))
      (\<lambda>s'. Inr (s', [])))"
proof -
  have "cellnet_stream 1 [(2933402840, [8, 7])] = [216, 44, 216, 174, 1, 0, 10, 0, 8, 7]"
    by (simp add: cellnet_bytes_def le_bytes_numeral)
  then show ?thesis
    using ws_logic_stream [OF stdb.base_io_axioms, of "[(2933402840, [8, 7])]" False "ws_demo None" 1 1
      "[[216, 44, 216, 174], [1, 0, 10, 0, 8], [7]]" ws_demo_env]
    by (simp add: ws_demo_eval)
qed

section \<open>Clients: handshake and fragments\<close>

text \<open>
  The handshake: with the first \<open>Sec-WebSocket-Key\<close> and the end of its line anywhere in the memory
  \<open>strstr\<close> scans, in the received bytes or behind them, the session answers with that key, is upgraded, and
  everything received is consumed, whatever follows the line. When the memory holds neither the field
  nor a zero byte, the scan leaves it.
\<close>

theorem ws_handshake_scan:
  assumes "\<not> wc_shakehanded (ws_clients s c)"
    and "data @ behind = pre @ SEC_FLAG @ key @ CRLF @ rest"
    and "0 \<notin> set pre" and "\<forall>i<length pre. take 19 (drop i (data @ behind)) \<noteq> SEC_FLAG"
    and "0 \<notin> set key" and "13 \<notin> set key"
  shows "WS_client_onMsg ndebug B e c behind data s =
      Some (Inr (put (ToClient c (ws_handshake B key)) (set_client c (\<lambda>x. x\<lparr>wc_shakehanded := True\<rparr>) s), length data)) \<and>
    (\<forall>d b. 0 \<notin> set (d @ b) \<and> (\<forall>i<length (d @ b). take 19 (drop i (d @ b)) \<noteq> SEC_FLAG) \<longrightarrow>
      WS_client_onMsg ndebug B e c b d s = Some (Inl OutOfBounds))"
proof (intro conjI allI impI)
  show "WS_client_onMsg ndebug B e c behind data s =
      Some (Inr (put (ToClient c (ws_handshake B key)) (set_client c (\<lambda>x. x\<lparr>wc_shakehanded := True\<rparr>) s), length data))"
    using web_shakehand_found [where B = B and W = "client_ops ndebug B e c" and s = s, OF assms(2-6)] assms(1) by (simp add: WS_client_onMsg_def web_onMsg_def)
next
  fix d b assume "0 \<notin> set (d @ b) \<and> (\<forall>i<length (d @ b). take 19 (drop i (d @ b)) \<noteq> SEC_FLAG)"
  then have "c_strstr SEC_FLAG (d @ b) = Inl OutOfBounds" by (intro c_strstr_overread) simp_all
  then show "WS_client_onMsg ndebug B e c b d s = Some (Inl OutOfBounds)"
    using assms(1) by (simp add: WS_client_onMsg_def web_onMsg_def web_shakehand_def)
qed

theorem ws_handshake_scan_witness:
  "WS_client_onMsg False std_base ws_demo_env 0 (drop 2 (SEC_FLAG @ [65, 66] @ CRLF @ [0])) (take 2 SEC_FLAG) (ws_demo None) =
    Some (Inr (put (ToClient 0 [65, 66]) (set_client 0 (\<lambda>x. x\<lparr>wc_shakehanded := True\<rparr>) (ws_demo None)), 2))"
proof -
  have "take 2 SEC_FLAG @ drop 2 (SEC_FLAG @ [65, 66] @ CRLF @ [0]) = [] @ SEC_FLAG @ [65, 66] @ CRLF @ [0]"
    by (simp flip: append_assoc)
  then show ?thesis
    using ws_handshake_scan [of "ws_demo None" 0 "take 2 SEC_FLAG" "drop 2 (SEC_FLAG @ [65, 66] @ CRLF @ [0])" "[]"
      "[65, 66]" "[0]" False std_base ws_demo_env]
    by (simp add: ws_demo_eval)
qed

text \<open>
  C40: A text message in two fragments (the last not empty) and the next complete message, received in one buffer on an
  open WebSocket with an empty cache, each frame at least 14 bytes long: a build with assertions stops at the first
  fragment; without assertions the handler is called for neither message, because the last fragment stays in the
  cache and is glued to the next message (unless the glued bytes happen to carry their own length).
\<close>

theorem ws_fragments_lost:
  assumes "ws_lib B view" and "wc_shakehanded (ws_clients s c)" and "wc_cache (ws_clients s c) = []"
    and "length (f1 @ f2 @ f3) < 2 ^ size_bits B"
    and "ws_extract B f1 = Some (p1, TEXT_FRAME, length f1, False)" and "14 \<le> length f1"
    and "ws_extract B f2 = Some (p2, CONTINUATION_FRAME, length f2, True)" and "14 \<le> length f2"
    and "ws_extract B f3 = Some (p3, TEXT_FRAME, length f3, True)" and "14 \<le> length f3"
    and "p2 \<noteq> []" and "5 \<le> length (p2 @ p3)"
    and "bytes_num True (take 4 (drop 1 (p2 @ p3))) \<noteq> length (p2 @ p3)"
  shows "WS_client_onMsg True B e c behind (f1 @ f2 @ f3) s = Some (Inr (s, length (f1 @ f2 @ f3))) \<and>
    WS_client_onMsg False B e c behind (f1 @ f2 @ f3) s = Some (Inl AssertFailed)"
proof
  let ?W = "\<lambda>ndebug. client_ops ndebug B e c"
  have client: "web_client B view (?W ndebug)" for ndebug
    using assms(1) client_frames.web_session_axioms by (rule web_client.intro)
  have members: "shakehanded (?W ndebug) s" "cache_frame (?W ndebug) s = []" for ndebug
    using assms(2,3) by simp_all
  have "web_payload True B (?W True) (p2 @ p3) s = Inr s"
    by (rule base_io.web_payload_misfit [OF ws_lib.axioms(1) [OF assms(1)] assms(12,13)])
  then show "WS_client_onMsg True B e c behind (f1 @ f2 @ f3) s = Some (Inr (s, length (f1 @ f2 @ f3)))"
    using web_client.fragments_then_message [where behind = behind, OF client members assms(4-11)]
    by (simp add: WS_client_onMsg_def)
  show "WS_client_onMsg False B e c behind (f1 @ f2 @ f3) s = Some (Inl AssertFailed)"
    unfolding WS_client_onMsg_def
    by (rule web_client.first_fragment_asserts [OF client members(1) assms(4,5,6)])
qed

theorem ws_fragments_lost_witness:
  "let s = set_client 0 (\<lambda>x. x\<lparr>wc_shakehanded := True\<rparr>) (ws_demo None);
       frames = std_frame False TEXT_FRAME (take 8 (web_bytes 24 0 [1, 2])) @
         std_frame True CONTINUATION_FRAME (drop 8 (web_bytes 24 0 [1, 2])) @ std_frame True TEXT_FRAME (web_bytes 52 1 [3])
   in WS_client_onMsg True std_base ws_demo_env 0 [] frames s = Some (Inr (s, length frames))"
proof -
  let ?s = "set_client 0 (\<lambda>x. x\<lparr>wc_shakehanded := True\<rparr>) (ws_demo None)"
  let ?m = "web_bytes 24 0 [1, 2]" and ?n = "web_bytes 52 1 [3]"
  have m: "?m = [123, 0, 0, 0, 16, 0, 0, 0, 24, 0, 0, 0, 0, 1, 2, 125]" "?n = [123, 0, 0, 0, 15, 0, 0, 0, 52, 0, 0, 0, 1, 3, 125]"
    by (simp_all add: web_bytes_def num_bytes_def le_bytes_numeral)
  have x1: "ws_extract std_base (std_frame False TEXT_FRAME (take 8 ?m)) =
      Some (take 8 ?m, TEXT_FRAME, length (std_frame False TEXT_FRAME (take 8 ?m)), False)"
    by (simp add: m std_base_eval)
  have x2: "ws_extract std_base (std_frame True CONTINUATION_FRAME (drop 8 ?m)) =
      Some (drop 8 ?m, CONTINUATION_FRAME, length (std_frame True CONTINUATION_FRAME (drop 8 ?m)), True)"
    by (simp add: m std_base_eval)
  have x3: "ws_extract std_base (std_frame True TEXT_FRAME ?n) =
      Some (?n, TEXT_FRAME, length (std_frame True TEXT_FRAME ?n), True)"
    by (simp add: m std_base_eval)
  show ?thesis unfolding Let_def
    by (rule ws_fragments_lost [OF stdb.ws_lib_axioms _ _ _ x1 _ x2 _ x3, THEN conjunct1])
      (simp_all add: ws_demo_eval set_client_def m std_frame_def bytes_num_def)
qed

end
