(* ===== verification/Spec2Isabelle.thy ===== *)
theory Spec2Isabelle
  imports ConnInterleave CenterThread LogicThread LogConsole Example ServerMain WSInterleave WSWire
begin

text \<open>
  DServerFramework: a framework of game servers. This development models the servers'
  own code (src/DDServerFramework/src/) and the part of the protobuf runtime their messages go through.

  \<^bold>\<open>The program.\<close> Four kinds of processes.
  \<^item> A \<^emph>\<open>connection server\<close> (ConnectionServer/) takes clients and logic servers. It gives a client a
    runtime id, draws a primary logic server for it, forwards its packets, and delivers what the
    logic servers send to clients, addressed by socket or by runtime id.
  \<^item> A \<^emph>\<open>web connection server\<close> (WSConnectionServer/) does the same for WebSocket clients, in other
    frames and with protobuf messages towards the logic servers, and lets a client reconnect under its old id.
  \<^item> A \<^emph>\<open>logic server\<close> (LogicServer/) runs the game: it connects to every connection server that
    etcd lists and to the center server, and keeps a mirror of each client.
  \<^item> The \<^emph>\<open>center server\<close> (CenterServer/) knows the logic servers and passes messages and RPCs between them.

  On the connection servers the handlers run on the network threads, each table under its mutex. On
  the logic and center servers the network threads only cut packets and queue them; one logic thread
  runs the handlers.

  \<^bold>\<open>Theories and sources.\<close>
  \<^item> Prelude: machine types, faults (\<open>'a result\<close>), \<open>unordered_map\<close>, little-endian bytes. Registry: the
    contract of a table of live objects, interpreted for every table of the servers.
  \<^item> PacketLib, BaseLib: the packet, reader, writer and frame classes the servers call. They belong to
    the git submodule accumulation-dev, which is not under src/, so they are parameters
    (\<open>packet_lib\<close>, \<open>base_lib\<close>); locales (\<open>packet_wire\<close>, \<open>packet_codec\<close>, \<open>base_io\<close>, \<open>ws_frames\<close>) state what
    the code relies on, and \<open>std_lib\<close>, \<open>std_base\<close> are concrete libraries that satisfy them.
  \<^item> Framing: Common/UsePacketSingleNetSession.cpp, UsePacketExtNetSession.cpp. The contract
    \<open>stream_framer\<close> of a loop that cuts packets from a byte stream has its lemmas proved once: it
    returns, takes no more than it was given, and does not depend on how the stream was chunked.
  \<^item> MakeUID: Common/MakeUID.h and \<open>MakeRuntimeID\<close>. SessionMgr: ConnectionServer/*SessionMgr.cpp.
  \<^item> ConnServer: ConnectionServer/ClientSession.cpp and LogicServerSession.cpp, every handler. The state
    \<open>conn_server\<close> has the heaps of sessions, the tables, and what was handed to the network.
    ConnSystem: the server as a transition system and its invariant. ConnProps, ConnWire: properties.
    ConnThreads cuts the handlers at every access another network thread can see, ConnInterleave runs them
    interleaved; uninterrupted they are the handlers of ConnServer.
  \<^item> LogicServer: LogicServer/ConnectionServerConnection.cpp, CenterServerConnection.cpp,
    ClientMirror.cpp. LogicProps: its connections as a transition system.
  \<^item> CenterServer: CenterServer/CenterServerSession.cpp and the transition system of its sessions.
  \<^item> MsgQueue: the queue between threads, a parameter with the contract \<open>msg_queue\<close>; NetThread and Log use it.
  \<^item> NetThread: Common/NetThreadSession.cpp, LogicNetSession.h. The queue between the network threads and
    the logic thread; \<open>node_step\<close> interleaves them, one step per critical section, with what else changes the
    server (\<open>logic_env\<close>). CenterThread and LogicThread: the center server and the logic server run that way
    are simulated by the transition systems of CenterServer and of LogicProps.
  \<^item> Cluster: what one server writes, read by the server it is sent to. Rpc: messages sent by template,
    remote calls and replies (CenterServerSession.h, CenterServerConnection.h, ClientMirror.h). RpcService: the
    registration of functions that can be called remotely; its service is a parameter with the contract
    \<open>rpc_service\<close>. Example: the handlers of test/ and AirCenterServerSession.cpp, and the simulated player
    (SimulatePlayer/SimulateClient.cpp).
  \<^item> Json: Common/WrapJsonValue.h, over the JSON values of rapidjson. Discovery: the etcd thread of
    LogicServer/LogicServer.cpp. Startup: the heartbeats, the main loops, Common/AutoConnectionServer.h and HelpFunction.h. ServerMain: the
    four \<open>main\<close> functions from the text of the configuration to their return, and the etcd thread over time.
    Log: Common/WrapLog.h; LogConsole: its colours on a Windows console.
  \<^item> WSFraming: WSConnectionServer/UseCellnetSingleNetSession.cpp and
    UseWebPacketSingleNetSession.cpp, two more instances of \<open>stream_framer\<close>. WSServer: its
    ClientSession.cpp, LogicServerSession.cpp and their managers. WSSystem: the transition system,
    with queued procs and close timers, and the frame facts of the handlers. WSProps, WSWire: properties.
    WSThreads and WSInterleave do for the web server what ConnThreads and ConnInterleave do for the other.
  \<^item> CodedStream, WireFormat, MessageLite: google/protobuf/io/coded_stream, wire_format_lite,
    message_lite as far as the messages use them. ProtoMsgs: the eight generated messages of
    WSConnectionServer/proto/LogicServerWithConnectionServer.pb.cc. ProtoRoundTrip: they come back as written.

  \<^bold>\<open>Reading the model.\<close> A session is an entry of a heap indexed by address; a \<open>shared_ptr\<close> is an
  address or null. A handler takes and returns the server's state; \<open>Inl\<close> is a fault (a failed \<open>assert\<close>, a null
  call, a read out of bounds, a signed overflow, an exception that leaves the handler). Sending,
  timers and calls of user code are appended to a list of actions in the state. The build's \<open>NDEBUG\<close>,
  the clock, the random draws and the configuration are arguments.

  \<^bold>\<open>What is shown.\<close> For each server: the invariants of its tables in every reachable state, what each
  packet does on every branch, and where the code does not do what it means to (a client's first
  packet is lost, a null primary faults, a second login leaks its entry, and others). For each
  framer: termination, independence of chunking, exact delivery. Of the queue: per session the logic
  thread sees its entry, its packets in order and its close, and what is queued is handled; the logic and the
  center server behind their queues are in states of their sequential transition systems. Of the log: no
  line is lost or reordered while it runs, and \<open>stop\<close> loses what is queued. Of the heartbeats: when a
  connection server stays listed, and when it does not. Of the \<open>main\<close> functions: a configuration that
  does not parse ends them before anything is started, and the etcd thread ends. Of the threads of both connection servers: in every interleaving the client table stays right; the login and the
  assignment of a client to a primary do not, each with a run that shows it. Across servers: a packet written by
  one arrives at the next with its content. For the messages: parse after serialize is the identity,
  a parser never reads outside its buffer, the fast and slow varint readers agree.

  \<^bold>\<open>Bounds.\<close> Machine integers are words of their width. There is no fuel: the packet loops, which could
  run forever on an empty packet, are partial functions proved to return, and the parse loops are
  functions that terminate because the bytes left shrink. The bounds that occur in statements are the
  code's: the 8 KB buffers of the web server's writers, the width of \<open>PACKET_LEN_TYPE\<close>, and the 2 GB
  limit of a protobuf message.

  \<^bold>\<open>Not modelled.\<close> Of the \<open>main\<close> functions, reading the files and making directories; HTTP, the parsing of JSON text, the formatting of log lines and the RPC service (library
  calls, parameters of the model); reflection, arenas and the text format of protobuf; the generated
  configuration messages; the vendored libraries. The network library's threads are the
  interleavings of the transition systems. Plain fields are read and written
  in one order for all threads: what a data race on them means in C++ is not modelled.
\<close>

end
